(* ===== verification/Prelude.thy ===== *)
theory Prelude
  imports Complex_Main "HOL-Library.AList" "HOL-Library.Multiset" "HOL-Library.Char_ord" "HOL-Library.List_Lexorder"
begin

text \<open>
  Shared vocabulary of the development.

  Go values are modelled as follows throughout.
  \<^item> A \<open>string\<close> is a list of bytes (\<open>char list\<close>); \<open><\<close> on it is the lexicographic byte
    order of Go (theories List\_Lexorder and Char\_ord).
  \<^item> A function that returns \<open>(T, error)\<close> is a function into \<open>'e + 'a\<close>: \<open>Inl\<close> carries the
    error, \<open>Inr\<close> the value. The error texts of the code are replaced by the constructors of
    an error datatype per component, which keep the data the text interpolates.
  \<^item> A \<open>map[K]V\<close> is an association list. Go ranges over a map in an unspecified order; the
    model ranges over the list in its order, and every theorem holds for every list with the
    same lookups, so for every order Go may pick.
  \<^item> \<open>time.Time\<close> and \<open>time.Duration\<close> are integers (nanoseconds); a read of the clock is an
    argument of the operation that reads it.
\<close>

named_theorems keep "facts: an operation keeps a component of the state"
named_theorems inv_intros "facts: an operation preserves the component's invariant"

subsection \<open>Results\<close>

type_synonym ('e, 'a) result = "'e + 'a"

definition bindR :: "('e, 'a) result \<Rightarrow> ('a \<Rightarrow> ('e, 'b) result) \<Rightarrow> ('e, 'b) result" where
  "bindR r f = (case r of Inl e \<Rightarrow> Inl e | Inr a \<Rightarrow> f a)"

lemma bindR_simps [simp]: "bindR (Inl e) f = Inl e" "bindR (Inr a) f = f a"
  by (simp_all add: bindR_def)

lemma bindR_Inr_iff: "bindR r f = Inr b \<longleftrightarrow> (\<exists>a. r = Inr a \<and> f a = Inr b)"
  by (cases r) auto

lemma bindR_Inl_iff: "bindR r f = Inl e \<longleftrightarrow> r = Inl e \<or> (\<exists>a. r = Inr a \<and> f a = Inl e)"
  by (cases r) auto

text \<open>\<open>guard_with c e r\<close> is the early return \<open>if c { return e }\<close> followed by \<open>r\<close>.\<close>

definition guard_with :: "bool \<Rightarrow> 'e \<Rightarrow> ('e, 'a) result \<Rightarrow> ('e, 'a) result" where
  "guard_with c e r = (if c then Inl e else r)"

lemma guard_with_simps [simp]:
  "guard_with True e r = Inl e" "guard_with False e r = r"
  by (simp_all add: guard_with_def)

lemma guard_with_Inr_iff: "guard_with c e r = Inr a \<longleftrightarrow> \<not> c \<and> r = Inr a"
  by (simp add: guard_with_def)

lemma guard_with_Inl_iff: "guard_with c e r = Inl x \<longleftrightarrow> c \<and> x = e \<or> \<not> c \<and> r = Inl x"
  by (auto simp: guard_with_def)

lemmas result_iffs = guard_with_Inr_iff guard_with_Inl_iff bindR_Inr_iff bindR_Inl_iff

text \<open>An operation that may panic.\<close>

datatype 'a go = Panic | Ret 'a

text \<open>
  A loop over a slice whose body may return early: the first error of the slice, in order.
\<close>

fun check_all :: "('a \<Rightarrow> ('e, unit) result) \<Rightarrow> 'a list \<Rightarrow> ('e, unit) result" where
  "check_all f [] = Inr ()"
| "check_all f (x # xs) = bindR (f x) (\<lambda>_. check_all f xs)"

lemma check_all_Inr_iff: "check_all f xs = Inr u \<longleftrightarrow> (\<forall>x \<in> set xs. f x = Inr ())"
  by (induction xs) (auto simp: bindR_Inr_iff)

lemma check_all_Inl_D: "check_all f xs = Inl e \<Longrightarrow> \<exists>x \<in> set xs. f x = Inl e"
  by (induction xs) (auto simp: bindR_Inl_iff)

text \<open>The same with the slice index, as in \<open>for i, x := range xs\<close>.\<close>

fun check_from :: "nat \<Rightarrow> (nat \<Rightarrow> 'a \<Rightarrow> ('e, unit) result) \<Rightarrow> 'a list \<Rightarrow> ('e, unit) result" where
  "check_from i f [] = Inr ()"
| "check_from i f (x # xs) = bindR (f i x) (\<lambda>_. check_from (Suc i) f xs)"

lemma check_from_Inr_iff:
  "check_from i f xs = Inr u \<longleftrightarrow> (\<forall>j < length xs. f (i + j) (xs ! j) = Inr ())"
proof (induction xs arbitrary: i)
  case (Cons x xs)
  have "(\<forall>j < length (x # xs). f (i + j) ((x # xs) ! j) = Inr ()) \<longleftrightarrow>
      f i x = Inr () \<and> (\<forall>j < length xs. f (i + Suc j) (xs ! j) = Inr ())"
    by (auto simp: nth_Cons split: nat.splits)
  with Cons show ?case by (auto simp: bindR_Inr_iff)
qed simp

subsection \<open>Insertion sort, as the code writes it\<close>

text \<open>
  The code sorts with \<open>for j := i; j > 0 && xs[j] < xs[j-1]; j--\<close>: the new element is
  moved left while it is smaller than its left neighbour. \<open>sink_left x ys\<close> is that inner loop
  on a reversed prefix, \<open>insert_last x xs\<close> the same on the prefix itself.
\<close>

fun sink_left :: "('a \<Rightarrow> 'b :: linorder) \<Rightarrow> 'a \<Rightarrow> 'a list \<Rightarrow> 'a list" where
  "sink_left k x [] = [x]"
| "sink_left k x (y # ys) = (if k x < k y then y # sink_left k x ys else x # y # ys)"

definition insert_last :: "('a \<Rightarrow> 'b :: linorder) \<Rightarrow> 'a \<Rightarrow> 'a list \<Rightarrow> 'a list" where
  "insert_last k x xs = rev (sink_left k x (rev xs))"

definition insertion_sort :: "('a \<Rightarrow> 'b :: linorder) \<Rightarrow> 'a list \<Rightarrow> 'a list" where
  "insertion_sort k xs = fold (insert_last k) xs []"

lemma mset_sink_left: "mset (sink_left k x ys) = add_mset x (mset ys)"
  by (induction ys) auto

lemma set_sink_left [simp]: "set (sink_left k x ys) = insert x (set ys)"
  by (induction ys) auto

lemma mset_insert_last: "mset (insert_last k x xs) = add_mset x (mset xs)"
  by (simp add: insert_last_def mset_sink_left)

lemma set_insert_last [simp]: "set (insert_last k x xs) = insert x (set xs)"
  by (simp add: insert_last_def)

lemma length_insert_last [simp]: "length (insert_last k x xs) = Suc (length xs)"
  using mset_insert_last[of k x xs] by (metis size_add_mset size_mset)

lemma distinct_insert_last: "distinct (insert_last k x xs) \<longleftrightarrow> x \<notin> set xs \<and> distinct xs"
  by (metis distinct.simps(2) mset.simps(2) mset_eq_imp_distinct_iff mset_insert_last)

lemma sink_left_sorted:
  "sorted (map k (rev ys)) \<Longrightarrow> sorted (map k (rev (sink_left k x ys)))"
  by (induction ys) (force simp: sorted_append)+

lemma sorted_insert_last: "sorted (map k xs) \<Longrightarrow> sorted (map k (insert_last k x xs))"
  using sink_left_sorted[of k "rev xs" x] by (simp add: insert_last_def)

lemma insertion_sort_fold:
  assumes "sorted (map k acc)"
  shows "sorted (map k (fold (insert_last k) xs acc))
    \<and> mset (fold (insert_last k) xs acc) = mset xs + mset acc"
  using assms
  by (induction xs arbitrary: acc) (auto simp: sorted_insert_last mset_insert_last)

lemma sorted_insertion_sort [simp]: "sorted (map k (insertion_sort k xs))"
  using insertion_sort_fold[of k "[]" xs] by (simp add: insertion_sort_def)

lemma mset_insertion_sort [simp]: "mset (insertion_sort k xs) = mset xs"
  using insertion_sort_fold[of k "[]" xs] by (simp add: insertion_sort_def)

lemma set_insertion_sort [simp]: "set (insertion_sort k xs) = set xs"
  by (metis mset_insertion_sort set_mset_mset)

lemma length_insertion_sort [simp]: "length (insertion_sort k xs) = length xs"
  by (metis mset_insertion_sort size_mset)

lemma distinct_insertion_sort [simp]: "distinct (insertion_sort k xs) = distinct xs"
  by (metis mset_insertion_sort mset_eq_imp_distinct_iff)

abbreviation sort_strings :: "string list \<Rightarrow> string list" where
  "sort_strings \<equiv> insertion_sort (\<lambda>s. s)"

text \<open>Sorting is a function of the set of elements when there are no duplicates.\<close>

lemma sort_strings_cong:
  assumes "distinct xs" "distinct ys" "set xs = set ys"
  shows "sort_strings xs = sort_strings ys"
proof -
  have "sorted (sort_strings xs)" "sorted (sort_strings ys)"
    using sorted_insertion_sort[of "\<lambda>s. s"] by simp_all
  then show ?thesis using assms by (intro sorted_distinct_set_unique) simp_all
qed

subsection \<open>Association lists as Go maps\<close>

abbreviation mput :: "'k \<Rightarrow> 'v \<Rightarrow> ('k \<times> 'v) list \<Rightarrow> ('k \<times> 'v) list" where
  "mput \<equiv> AList.update"

abbreviation mdel :: "'k \<Rightarrow> ('k \<times> 'v) list \<Rightarrow> ('k \<times> 'v) list" where
  "mdel \<equiv> AList.delete"

definition keys :: "('k \<times> 'v) list \<Rightarrow> 'k list" where
  "keys m = map fst m"

text \<open>A Go map has each key once.\<close>

definition is_map :: "('k \<times> 'v) list \<Rightarrow> bool" where
  "is_map m \<longleftrightarrow> distinct (keys m)"

lemma map_of_mput [simp]: "map_of (mput k v m) = (map_of m)(k \<mapsto> v)"
  by (rule update_conv')

lemma map_of_mdel [simp]: "map_of (mdel k m) = (map_of m)(k := None)"
  by (rule delete_conv')

lemma is_map_Nil [simp]: "is_map []"
  by (simp add: is_map_def keys_def)

lemma is_map_mput [simp]: "is_map m \<Longrightarrow> is_map (mput k v m)"
  by (simp add: is_map_def keys_def distinct_update)

lemma is_map_mdel [simp]: "is_map m \<Longrightarrow> is_map (mdel k m)"
  by (simp add: is_map_def keys_def distinct_delete)

lemma set_keys: "set (keys m) = dom (map_of m)"
  by (simp add: keys_def dom_map_of_conv_image_fst)

lemma in_keys_iff: "k \<in> set (keys m) \<longleftrightarrow> map_of m k \<noteq> None"
  by (simp add: set_keys domIff)

lemma is_map_in_set: "is_map m \<Longrightarrow> (k, v) \<in> set m \<longleftrightarrow> map_of m k = Some v"
  by (auto simp: is_map_def keys_def)

lemma length_keys [simp]: "length (keys m) = length m"
  by (simp add: keys_def)

lemma is_map_length: "is_map m \<Longrightarrow> length m = card (dom (map_of m))"
  by (metis is_map_def distinct_card length_keys set_keys)

lemma mput_length:
  "is_map m \<Longrightarrow> length (mput k v m) = (if map_of m k = None then Suc (length m) else length m)"
  by (simp add: is_map_length card_insert_if finite_dom_map_of domIff)

lemma mdel_length:
  "is_map m \<Longrightarrow> length (mdel k m) = (if map_of m k = None then length m else length m - 1)"
  by (auto simp: is_map_length domIff card_Diff_singleton_if finite_dom_map_of)

end
