(* ===== verification/Float64.thy ===== *)
theory Float64
  imports Prelude "HOL-Library.Log_Nat"
begin

text \<open>
  Go's \<open>float64\<close>: IEEE 754 binary64 with round-to-nearest, ties to even, over exact
  rationals. \<open>Fin q\<close> is a finite value, \<open>Inf True\<close> is minus infinity, \<open>NaN\<close> the
  (single) not-a-number. Every operation computes the exact rational result and rounds it once
  (\<open>fl\<close>); comparisons with \<open>NaN\<close> are false, as in Go. Three choices of the model:
  \<^item> the two zeros are one value (no code of the development divides by a zero whose sign
    matters or prints one);
  \<^item> \<open>x * y + z\<close> is two roundings: Go may fuse them on some targets (arm64, ppc64), not on
    amd64 at its default level, which is the target modelled;
  \<^item> a conversion to \<open>int64\<close> of a value out of range gives the smallest integer, the value
    amd64 produces (the language leaves it open).

  The rounding laws the clients use are the locale \<open>rounding\<close>, interpreted for
  \<open>rnd\<close>. The lemmas give monotonicity, exactness on the 53-bit numbers, and the
  relative error bound.
\<close>

subsection \<open>Round half to even\<close>

definition rhe :: "rat \<Rightarrow> int" where
  "rhe q = (let f = \<lfloor>q\<rfloor>; d = q - of_int f in
     if d < 1/2 then f else if d > 1/2 then f + 1 else if even f then f else f + 1)"

lemma rhe_of_int [simp]: "rhe (of_int n) = n"
  by (simp add: rhe_def)

lemma rhe_bounds: "\<lfloor>q\<rfloor> \<le> rhe q" "rhe q \<le> \<lfloor>q\<rfloor> + 1"
  by (auto simp: rhe_def Let_def)

lemma rhe_err: "\<bar>of_int (rhe q) - q\<bar> \<le> 1/2"
proof -
  have "of_int \<lfloor>q\<rfloor> \<le> q" "q < of_int \<lfloor>q\<rfloor> + 1" by linarith+
  then show ?thesis unfolding rhe_def Let_def abs_le_iff by (simp split: if_split) linarith
qed

lemma rhe_mono: assumes "q \<le> r" shows "rhe q \<le> rhe r"
proof (cases "\<lfloor>q\<rfloor> < \<lfloor>r\<rfloor>")
  case True
  then show ?thesis using rhe_bounds[of q] rhe_bounds[of r] by linarith
next
  case False
  with assms have "\<lfloor>q\<rfloor> = \<lfloor>r\<rfloor>" by (meson floor_mono nle_le order_le_imp_less_or_eq)
  then show ?thesis using assms by (auto simp: rhe_def Let_def)
qed

lemma rhe_minus: "rhe (- q) = - rhe q"
proof (cases "q = of_int \<lfloor>q\<rfloor>")
  case True
  then have "rhe q = \<lfloor>q\<rfloor>" by (metis rhe_of_int)
  moreover have "rhe (- q) = - \<lfloor>q\<rfloor>" using True by (metis of_int_minus rhe_of_int)
  ultimately show ?thesis by simp
next
  case False
  have lt: "of_int \<lfloor>q\<rfloor> < q" "q < of_int \<lfloor>q\<rfloor> + 1" using False by linarith+
  then have f: "\<lfloor>- q\<rfloor> = - \<lfloor>q\<rfloor> - 1" by (intro floor_unique) auto
  show ?thesis unfolding rhe_def Let_def f using lt by auto
qed

subsection \<open>The binary exponent of a positive rational\<close>

definition ilog2 :: "rat \<Rightarrow> int" where
  "ilog2 x = (case quotient_of x of (n, d) \<Rightarrow>
     let k = bitlen n - bitlen d in if 2 powi k \<le> x then k else k - 1)"

lemma bitlen_powi:
  assumes "0 < n" shows "2 powi (bitlen n - 1) \<le> (of_int n :: rat)" "(of_int n :: rat) < 2 powi (bitlen n)"
proof -
  have b: "2 ^ nat (bitlen n - 1) \<le> n" "n < 2 ^ nat (bitlen n)" using bitlen_bounds[OF assms] by auto
  have p: "0 < bitlen n" using assms by (metis bitlen_nonneg assms bitlen_eq_zero_iff order_le_less not_less)
  have "(of_int (2 ^ nat (bitlen n - 1)) :: rat) \<le> of_int n" using b(1) of_int_le_iff by blast
  then show "2 powi (bitlen n - 1) \<le> (of_int n :: rat)" using p by (simp add: power_int_def)
  have "(of_int n :: rat) < of_int (2 ^ nat (bitlen n))" using b(2) of_int_less_iff by blast
  then show "(of_int n :: rat) < 2 powi (bitlen n)" using p by (simp add: power_int_def)
qed

lemma ilog2_bounds:
  assumes "0 < x" shows "2 powi (ilog2 x) \<le> x" "x < 2 powi (ilog2 x + 1)"
proof -
  obtain n d where q: "quotient_of x = (n, d)" by (cases "quotient_of x")
  have x: "x = of_int n / of_int d" and d: "0 < d"
    using q quotient_of_div quotient_of_denom_pos by auto
  have n: "0 < n" using assms x d by (simp add: zero_less_divide_iff)
  let ?k = "bitlen n - bitlen d"
  have dp: "(0::rat) < of_int d" using d by simp
  have "x < 2 powi (bitlen n) / 2 powi (bitlen d - 1)"
    unfolding x using bitlen_powi[OF n] bitlen_powi[OF d] dp
    using n by (intro frac_less) auto
  also have "\<dots> = 2 powi (?k + 1)" by (simp add: power_int_diff power_int_add)
  finally have u: "x < 2 powi (?k + 1)" .
  have "2 powi (bitlen n - 1) / 2 powi (bitlen d) \<le> x"
    unfolding x using bitlen_powi[OF n] bitlen_powi[OF d] dp
    using n by (intro frac_le) auto
  then have l: "2 powi (?k - 1) \<le> x" by (simp add: power_int_diff divide_simps mult.commute)
  show "2 powi (ilog2 x) \<le> x" "x < 2 powi (ilog2 x + 1)"
    using u l by (auto simp: ilog2_def q Let_def)
qed

lemma powi_le_iff: "(2::rat) powi a \<le> 2 powi b \<longleftrightarrow> a \<le> b"
  by (metis one_less_numeral_iff power_int_increasing power_int_strict_increasing semiring_norm(76) linorder_not_le less_imp_le)

lemma powi_less_iff: "(2::rat) powi a < 2 powi b \<longleftrightarrow> a < b"
  using powi_le_iff[of b a] by linarith

lemma ilog2_le_iff: assumes "0 < x" shows "ilog2 x < k \<longleftrightarrow> x < 2 powi k"
proof
  assume "ilog2 x < k"
  then have "2 powi (ilog2 x + 1) \<le> (2::rat) powi k" by (simp add: powi_le_iff)
  then show "x < 2 powi k" using ilog2_bounds(2)[OF assms] by linarith
next
  assume "x < 2 powi k"
  then have "(2::rat) powi (ilog2 x) < 2 powi k" using ilog2_bounds(1)[OF assms] by linarith
  then show "ilog2 x < k" by (simp add: powi_less_iff)
qed

lemma ilog2_mono: assumes "0 < x" "x \<le> y" shows "ilog2 x \<le> ilog2 y"
proof -
  have "x < 2 powi (ilog2 y + 1)" using ilog2_bounds(2)[of y] assms by linarith
  then show ?thesis using ilog2_le_iff[OF assms(1), of "ilog2 y + 1"] by simp
qed

subsection \<open>Rounding to 53 bits\<close>

text \<open>
  The exponent of the last of the 53 significant bits of \<open>x\<close>; \<open>-1074\<close> is the exponent
  of the smallest subnormal. Overflow is \<open>fl\<close>'s business.
\<close>

definition ulp_exp :: "rat \<Rightarrow> int" where
  "ulp_exp x = max (ilog2 \<bar>x\<bar> - 52) (- 1074)"

definition rnd :: "rat \<Rightarrow> rat" where
  "rnd x = (if x = 0 then 0 else of_int (rhe (x / 2 powi (ulp_exp x))) * 2 powi (ulp_exp x))"

lemma rnd_0 [simp]: "rnd 0 = 0"
  by (simp add: rnd_def)

lemma ulp_exp_minus [simp]: "ulp_exp (- x) = ulp_exp x"
  by (simp add: ulp_exp_def)

lemma rnd_minus: "rnd (- x) = - rnd x"
  by (simp add: rnd_def rhe_minus)

lemma powi_shift: "(2::rat) powi a = 2 powi (a - b) * 2 powi b"
  by (simp add: power_int_diff)

lemma pow53: "(2::rat) ^ 53 = 2 powi 53" "(2::rat) ^ 52 = 2 powi 52"
  by (simp_all add: power_int_def)

lemma scaled_less: assumes "x \<noteq> 0" shows "\<bar>x\<bar> / 2 powi (ulp_exp x) < 2 ^ 53"
proof -
  have "\<bar>x\<bar> < 2 powi (ilog2 \<bar>x\<bar> + 1)" using ilog2_bounds(2)[of "\<bar>x\<bar>"] assms by simp
  also have "(2::rat) powi (ilog2 \<bar>x\<bar> + 1) \<le> 2 powi (ulp_exp x + 53)"
    by (simp add: powi_le_iff ulp_exp_def)
  also have "\<dots> = 2 ^ 53 * 2 powi (ulp_exp x)" by (simp add: power_int_add pow53)
  finally show ?thesis by (simp add: divide_less_eq)
qed

lemma scaled_ge:
  assumes "x \<noteq> 0" "- 1074 < ulp_exp x" shows "2 ^ 52 \<le> \<bar>x\<bar> / 2 powi (ulp_exp x)"
proof -
  have "2 ^ 52 * (2::rat) powi (ulp_exp x) = 2 powi (ilog2 \<bar>x\<bar>)"
    using assms by (simp add: pow53 ulp_exp_def power_int_diff)
  also have "\<dots> \<le> \<bar>x\<bar>" using ilog2_bounds(1)[of "\<bar>x\<bar>"] assms by simp
  finally show ?thesis by (simp add: le_divide_eq)
qed

lemma rhe_le: "q \<le> of_int n \<Longrightarrow> rhe q \<le> n"
  using rhe_mono[of q "of_int n"] by simp

lemma rhe_ge: "of_int n \<le> q \<Longrightarrow> n \<le> rhe q"
  using rhe_mono[of "of_int n" q] by simp

lemma rnd_le_binade: assumes "0 < x" shows "rnd x \<le> 2 powi (ulp_exp x + 53)"
proof -
  have "rhe (x / 2 powi (ulp_exp x)) \<le> 2 ^ 53"
    using scaled_less[of x] assms by (intro rhe_le) simp
  then have "(of_int (rhe (x / 2 powi (ulp_exp x))) :: rat) \<le> of_int (2 ^ 53)"
    using of_int_le_iff by blast
  then show ?thesis using assms by (simp add: rnd_def power_int_add pow53 mult_right_mono)
qed

lemma rnd_ge_binade:
  assumes "0 < x" "- 1074 < ulp_exp x" shows "2 powi (ulp_exp x + 52) \<le> rnd x"
proof -
  have "2 ^ 52 \<le> rhe (x / 2 powi (ulp_exp x))"
    using scaled_ge[of x] assms by (intro rhe_ge) simp
  then have "(of_int (2 ^ 52) :: rat) \<le> of_int (rhe (x / 2 powi (ulp_exp x)))"
    using of_int_le_iff by blast
  then show ?thesis using assms by (simp add: rnd_def power_int_add pow53 mult_right_mono)
qed

lemma ulp_exp_mono: assumes "0 < x" "x \<le> y" shows "ulp_exp x \<le> ulp_exp y"
  using ilog2_mono[OF assms] assms by (simp add: ulp_exp_def)

lemma rnd_mono_pos: assumes "0 < x" "x \<le> y" shows "rnd x \<le> rnd y"
proof (cases "ulp_exp x = ulp_exp y")
  case True
  have "rhe (x / 2 powi (ulp_exp y)) \<le> rhe (y / 2 powi (ulp_exp y))"
    using assms by (intro rhe_mono divide_right_mono) auto
  then show ?thesis using assms True by (simp add: rnd_def mult_right_mono)
next
  case False
  then have lt: "ulp_exp x + 53 \<le> ulp_exp y + 52" using ulp_exp_mono[OF assms] by simp
  have "- 1074 \<le> ulp_exp x" by (simp add: ulp_exp_def)
  then have "- 1074 < ulp_exp y" using lt by simp
  then have "2 powi (ulp_exp y + 52) \<le> rnd y" using assms by (intro rnd_ge_binade) auto
  moreover have "rnd x \<le> 2 powi (ulp_exp x + 53)" using assms(1) by (rule rnd_le_binade)
  moreover have "(2::rat) powi (ulp_exp x + 53) \<le> 2 powi (ulp_exp y + 52)"
    using lt by (simp add: powi_le_iff)
  ultimately show ?thesis by linarith
qed

lemma rnd_nonneg: assumes "0 \<le> x" shows "0 \<le> rnd x"
proof (cases "x = 0")
  case False
  then have "0 \<le> rhe (x / 2 powi (ulp_exp x))" using assms by (intro rhe_ge) simp
  then show ?thesis using False by (simp add: rnd_def)
qed simp

lemma rnd_mono: assumes "x \<le> y" shows "rnd x \<le> rnd y"
proof -
  consider "0 < x" | "x \<le> 0" "0 \<le> y" | "y < 0" by linarith
  then show ?thesis
  proof cases
    case 1 then show ?thesis using assms by (rule rnd_mono_pos)
  next
    case 2
    then have "0 \<le> rnd (- x)" "0 \<le> rnd y" using rnd_nonneg by auto
    then show ?thesis by (simp add: rnd_minus)
  next
    case 3
    then have "rnd (- y) \<le> rnd (- x)" using assms by (intro rnd_mono_pos) auto
    then show ?thesis by (simp add: rnd_minus)
  qed
qed

lemma rnd_abs: "rnd \<bar>x\<bar> = \<bar>rnd x\<bar>"
  using rnd_nonneg[of x] rnd_nonneg[of "- x"] by (cases "0 \<le> x") (auto simp: rnd_minus abs_if)

subsection \<open>Exact results and the rounding error\<close>

lemma rnd_exact_int: "x / 2 powi (ulp_exp x) = of_int n \<Longrightarrow> rnd x = x"
  by (auto simp: rnd_def) (metis nonzero_divide_eq_eq power_int_not_zero zero_neq_numeral)

lemma rnd_exact:
  assumes q: "x = of_int m * 2 powi e" and m: "\<bar>m\<bar> \<le> 2 ^ 53" and e: "- 1074 \<le> e"
  shows "rnd x = x"
proof (cases "m = 0")
  case True then show ?thesis by (simp add: q)
next
  case False
  have main: "rnd x = x" if q: "x = of_int m * 2 powi e" and m: "\<bar>m\<bar> < 2 ^ 53" and e: "- 1074 \<le> e"
    and nz: "m \<noteq> 0" for m :: int and e
  proof -
    have ax: "\<bar>x\<bar> = of_int \<bar>m\<bar> * 2 powi e" by (simp add: q abs_mult)
    have "(of_int \<bar>m\<bar> :: rat) < of_int (2 ^ 53)" using m of_int_less_iff by blast
    then have "\<bar>x\<bar> < 2 ^ 53 * 2 powi e" unfolding ax by (intro mult_strict_right_mono) auto
    also have "\<dots> = 2 powi (e + 53)" by (simp add: power_int_add pow53)
    finally have "ilog2 \<bar>x\<bar> < e + 53" using nz by (subst ilog2_le_iff) (auto simp: q)
    then have le: "ulp_exp x \<le> e" using e by (simp add: ulp_exp_def)
    have "x / 2 powi (ulp_exp x) = of_int m * 2 powi (e - ulp_exp x)"
      by (simp add: q power_int_diff)
    also have "\<dots> = of_int (m * 2 ^ nat (e - ulp_exp x))" using le by (simp add: power_int_def)
    finally show ?thesis by (rule rnd_exact_int)
  qed
  show ?thesis
  proof (cases "\<bar>m\<bar> = 2 ^ 53")
    case True
    have "x = of_int (sgn m * 2 ^ 52) * 2 powi (e + 1)"
      using True by (simp add: q power_int_add sgn_if abs_if split: if_splits)
    moreover have "\<bar>sgn m * 2 ^ 52\<bar> < 2 ^ 53" "sgn m * 2 ^ 52 \<noteq> 0" using False by (auto simp: sgn_if)
    ultimately show ?thesis using e main[of "sgn m * 2 ^ 52" "e + 1"] by simp
  next
    case F: False
    then show ?thesis using main[OF q _ e False] m by linarith
  qed
qed

lemma rnd_of_int: "\<bar>n\<bar> \<le> 2 ^ 53 \<Longrightarrow> rnd (of_int n) = of_int n"
  by (rule rnd_exact[of _ n 0]) auto

lemma rnd_form: "\<exists>m e. rnd x = of_int m * 2 powi e \<and> \<bar>m\<bar> \<le> 2 ^ 53 \<and> - 1074 \<le> e"
proof (cases "x = 0")
  case True then show ?thesis by (intro exI[of _ 0]) simp
next
  case False
  let ?q = "x / 2 powi (ulp_exp x)"
  have "\<bar>?q\<bar> \<le> 2 ^ 53" using scaled_less[OF False] by simp
  then have "?q \<le> of_int (2 ^ 53)" "of_int (- (2 ^ 53)) \<le> ?q" by (simp_all only: abs_le_iff of_int_minus of_int_power of_int_numeral) linarith+
  then have "rhe ?q \<le> 2 ^ 53" "- (2 ^ 53) \<le> rhe ?q" by (auto intro: rhe_le rhe_ge)
  then have "\<bar>rhe ?q\<bar> \<le> 2 ^ 53" by linarith
  then show ?thesis using False by (intro exI[of _ "rhe ?q"] exI[of _ "ulp_exp x"]) (simp add: rnd_def ulp_exp_def)
qed

lemma rnd_rnd [simp]: "rnd (rnd x) = rnd x"
  using rnd_form[of x] rnd_exact by blast

lemma rnd_err_ulp: "\<bar>rnd x - x\<bar> \<le> 2 powi (ulp_exp x) / 2"
proof (cases "x = 0")
  case False
  let ?u = "2 powi (ulp_exp x) :: rat"
  have "rnd x - x = (of_int (rhe (x / ?u)) - x / ?u) * ?u"
    using False by (simp add: rnd_def left_diff_distrib)
  then have "\<bar>rnd x - x\<bar> = \<bar>of_int (rhe (x / ?u)) - x / ?u\<bar> * ?u" by (simp add: abs_mult)
  also have "\<dots> \<le> 1 / 2 * ?u" using rhe_err by (intro mult_right_mono) auto
  finally show ?thesis by simp
qed simp

lemma rnd_err_rel:
  assumes "2 powi (- 1022) \<le> \<bar>x\<bar>" shows "\<bar>rnd x - x\<bar> \<le> \<bar>x\<bar> / 2 ^ 53"
proof -
  have nz: "x \<noteq> 0" using assms by auto
  have "\<not> ilog2 \<bar>x\<bar> < - 1022" using ilog2_le_iff[of "\<bar>x\<bar>" "- 1022"] assms nz by simp
  then have "2 ^ 52 * (2::rat) powi (ulp_exp x) = 2 powi (ilog2 \<bar>x\<bar>)"
    by (simp add: pow53 ulp_exp_def power_int_diff)
  also have "\<dots> \<le> \<bar>x\<bar>" using ilog2_bounds(1)[of "\<bar>x\<bar>"] nz by simp
  finally have "2 powi (ulp_exp x) / 2 \<le> \<bar>x\<bar> / 2 ^ 53" by (simp add: field_simps)
  then show ?thesis using rnd_err_ulp[of x] by linarith
qed

lemma rnd_pow2: "- 1074 \<le> e \<Longrightarrow> rnd (2 powi e) = 2 powi e"
  by (rule rnd_exact[of _ 1 e]) auto

text \<open>A product with two is exact, and a rounding error is bounded by the binade.\<close>

lemma rnd_double: assumes "rnd q = q" shows "rnd (2 * q) = 2 * q"
proof -
  obtain m e where "rnd q = of_int m * 2 powi e" "\<bar>m\<bar> \<le> 2 ^ 53" "- 1074 \<le> e"
    using rnd_form by blast
  then have "2 * q = of_int m * 2 powi (e + 1)" "- 1074 \<le> e + 1"
    using assms by (simp_all add: power_int_add)
  then show ?thesis using \<open>\<bar>m\<bar> \<le> 2 ^ 53\<close> rnd_exact by blast
qed

lemma rnd_err_abs:
  assumes "\<bar>x\<bar> \<le> 2 powi k" "- 1020 \<le> k" shows "\<bar>rnd x - x\<bar> \<le> 2 powi (k - 54)"
proof (cases "\<bar>x\<bar> = 2 powi k \<or> x = 0")
  case True
  then have "rnd \<bar>x\<bar> = \<bar>x\<bar>" using rnd_pow2[of k] assms(2) by auto
  then have "rnd x = x" using rnd_minus[of x] by (cases "0 \<le> x") (auto simp: abs_if split: if_splits)
  then show ?thesis by simp
next
  case False
  then have "ilog2 \<bar>x\<bar> < k" using assms(1) by (subst ilog2_le_iff) auto
  then have "ulp_exp x \<le> k - 53" using assms(2) by (simp add: ulp_exp_def)
  then have "(2::rat) powi (ulp_exp x) / 2 \<le> 2 powi (k - 53) / 2" by (simp add: powi_le_iff)
  also have "\<dots> = 2 powi (k - 54)" using powi_shift[of "k - 53" 1] by simp
  finally show ?thesis using rnd_err_ulp[of x] by linarith
qed

subsection \<open>The interface of a rounding\<close>

text \<open>What a client of the rounding relies on: it is monotone, odd and idempotent.\<close>

locale rounding =
  fixes rd :: "rat \<Rightarrow> rat"
  assumes rd_mono: "x \<le> y \<Longrightarrow> rd x \<le> rd y"
    and rd_minus: "rd (- x) = - rd x"
    and rd_idem: "rd (rd x) = rd x"
begin

lemma rd_zero: "rd 0 = 0"
  using rd_minus[of 0] by simp

lemma rd_nonneg: "0 \<le> x \<Longrightarrow> 0 \<le> rd x"
  using rd_mono[of 0 x] by (simp add: rd_zero)

lemma rd_nonpos: "x \<le> 0 \<Longrightarrow> rd x \<le> 0"
  using rd_mono[of x 0] by (simp add: rd_zero)

lemma rd_le: "rd y = y \<Longrightarrow> x \<le> y \<Longrightarrow> rd x \<le> y"
  using rd_mono[of x y] by simp

lemma rd_ge: "rd x = x \<Longrightarrow> x \<le> y \<Longrightarrow> x \<le> rd y"
  using rd_mono[of x y] by simp

lemma rd_abs: "rd \<bar>x\<bar> = \<bar>rd x\<bar>"
  using rd_nonneg[of x] rd_nonneg[of "- x"] by (cases "0 \<le> x") (auto simp: rd_minus abs_if)

lemma rd_sub_pos_iff: "rd x = x \<Longrightarrow> rd y < x \<Longrightarrow> y < x"
  using rd_ge[of x y] by (meson linorder_not_less)

end

interpretation bin64: rounding rnd
  by unfold_locales (auto simp: rnd_mono rnd_minus)

subsection \<open>The values and their arithmetic\<close>

datatype f64 = NaN | Inf bool | Fin rat

definition fl :: "rat \<Rightarrow> f64" where
  "fl q = (let r = rnd q in if 2 ^ 1024 \<le> \<bar>r\<bar> then Inf (r < 0) else Fin r)"

instantiation f64 :: "{plus, minus, uminus, times, inverse, ord, zero, one, abs}"
begin

definition zero_f64 :: f64 where "0 = Fin 0"
definition one_f64 :: f64 where "1 = Fin 1"

fun uminus_f64 :: "f64 \<Rightarrow> f64" where
  "- Fin a = Fin (- a)"
| "- Inf s = Inf (\<not> s)"
| "- NaN = NaN"

fun plus_f64 :: "f64 \<Rightarrow> f64 \<Rightarrow> f64" where
  "Fin a + Fin b = fl (a + b)"
| "Inf s + Inf t = (if s = t then Inf s else NaN)"
| "Inf s + Fin b = Inf s"
| "Fin a + Inf t = Inf t"
| "NaN + y = NaN"
| "x + NaN = NaN"

definition minus_f64 :: "f64 \<Rightarrow> f64 \<Rightarrow> f64" where "x - y = x + (- y :: f64)"

fun times_f64 :: "f64 \<Rightarrow> f64 \<Rightarrow> f64" where
  "Fin a * Fin b = fl (a * b)"
| "Inf s * Inf t = Inf (s \<noteq> t)"
| "Inf s * Fin b = (if b = 0 then NaN else Inf (s \<noteq> (b < 0)))"
| "Fin a * Inf t = (if a = 0 then NaN else Inf (t \<noteq> (a < 0)))"
| "NaN * y = NaN"
| "x * NaN = NaN"

fun divide_f64 :: "f64 \<Rightarrow> f64 \<Rightarrow> f64" where
  "divide (Fin a) (Fin b) = (if b = 0 then (if a = 0 then NaN else Inf (a < 0)) else fl (a / b))"
| "divide (Inf s) (Inf t) = NaN"
| "divide (Inf s) (Fin b) = Inf (s \<noteq> (b < 0))"
| "divide (Fin a) (Inf t) = Fin 0"
| "divide NaN y = NaN"
| "divide x NaN = NaN"

definition inverse_f64 :: "f64 \<Rightarrow> f64" where "inverse x = divide (Fin 1) (x :: f64)"

fun less_eq_f64 :: "f64 \<Rightarrow> f64 \<Rightarrow> bool" where
  "Fin a \<le> Fin b \<longleftrightarrow> a \<le> b"
| "Inf s \<le> Inf t \<longleftrightarrow> s \<or> \<not> t"
| "Inf s \<le> Fin b \<longleftrightarrow> s"
| "Fin a \<le> Inf t \<longleftrightarrow> \<not> t"
| "NaN \<le> y \<longleftrightarrow> False"
| "x \<le> NaN \<longleftrightarrow> False"

fun less_f64 :: "f64 \<Rightarrow> f64 \<Rightarrow> bool" where
  "Fin a < Fin b \<longleftrightarrow> a < b"
| "Inf s < Inf t \<longleftrightarrow> s \<and> \<not> t"
| "Inf s < Fin b \<longleftrightarrow> s"
| "Fin a < Inf t \<longleftrightarrow> \<not> t"
| "NaN < y \<longleftrightarrow> False"
| "x < NaN \<longleftrightarrow> False"

fun abs_f64 :: "f64 \<Rightarrow> f64" where
  "abs (Fin a) = Fin \<bar>a\<bar>"
| "abs (Inf s) = Inf False"
| "abs NaN = NaN"

instance ..

end

text \<open>Go's \<open>==\<close> on floats, \<open>math.IsNaN\<close>, \<open>math.IsInf\<close>, \<open>math.Floor\<close>, \<open>math.Round\<close> (halves away
  from zero), the conversions between \<open>int64\<close> and \<open>float64\<close>, \<open>math.Sqrt\<close>.\<close>

fun feq :: "f64 \<Rightarrow> f64 \<Rightarrow> bool" where
  "feq NaN y = False"
| "feq x NaN = False"
| "feq x y = (x = y)"

fun isNaN :: "f64 \<Rightarrow> bool" where
  "isNaN NaN = True"
| "isNaN _ = False"

fun isInf :: "f64 \<Rightarrow> bool" where
  "isInf (Inf _) = True"
| "isInf _ = False"

fun ffloor :: "f64 \<Rightarrow> f64" where
  "ffloor (Fin q) = Fin (of_int \<lfloor>q\<rfloor>)"
| "ffloor x = x"

definition round_away :: "rat \<Rightarrow> int" where
  "round_away q = (if 0 \<le> q then \<lfloor>q + 1/2\<rfloor> else - \<lfloor>- q + 1/2\<rfloor>)"

fun fround :: "f64 \<Rightarrow> f64" where
  "fround (Fin q) = Fin (of_int (round_away q))"
| "fround x = x"

definition trunc :: "rat \<Rightarrow> int" where
  "trunc q = (if 0 \<le> q then \<lfloor>q\<rfloor> else - \<lfloor>- q\<rfloor>)"

fun to_int64 :: "f64 \<Rightarrow> int" where
  "to_int64 (Fin q) = (if - (2 ^ 63) \<le> trunc q \<and> trunc q < 2 ^ 63 then trunc q else - (2 ^ 63))"
| "to_int64 _ = - (2 ^ 63)"

definition of_int64 :: "int \<Rightarrow> f64" where
  "of_int64 n = fl (of_int n)"

definition is_rep :: "f64 \<Rightarrow> bool" where
  "is_rep x = (case x of Fin q \<Rightarrow> rnd q = q \<and> \<bar>q\<bar> < 2 ^ 1024 | _ \<Rightarrow> True)"


lemma rnd_big: "rnd (2 ^ 1023) = 2 ^ 1023"
  using rnd_pow2[of 1023] by (simp add: power_int_def)

lemma fl_finite: assumes "\<bar>q\<bar> \<le> 2 ^ 1023" shows "fl q = Fin (rnd q)"
proof -
  have "\<bar>rnd q\<bar> \<le> 2 ^ 1023"
    using bin64.rd_le[OF rnd_big assms] by (simp add: bin64.rd_abs)
  also have "(2::rat) ^ 1023 < 2 ^ 1024" by (rule power_strict_increasing) auto
  finally show ?thesis by (simp add: fl_def)
qed

lemma fl_near:
  assumes "\<bar>q\<bar> \<le> 2 ^ k" "k \<le> 1000"
  shows "fl q = Fin (rnd q)" and "\<bar>rnd q - q\<bar> \<le> 2 ^ k / 2 ^ 54"
proof -
  have "(2::rat) ^ k \<le> 2 ^ 1023" using assms(2) by (intro power_increasing) auto
  then show "fl q = Fin (rnd q)" using assms(1) by (intro fl_finite) linarith
  have "\<bar>rnd q - q\<bar> \<le> 2 powi (int k - 54)" using assms by (intro rnd_err_abs) auto
  also have "\<dots> = 2 ^ k / 2 ^ 54" by (simp add: power_int_diff)
  finally show "\<bar>rnd q - q\<bar> \<le> 2 ^ k / 2 ^ 54" .
qed

text \<open>An equation for evaluation: the overflow test reads the exponent only.\<close>

lemma fl_code [code]:
  "fl q = (let r = rnd q in if r = 0 then Fin 0
     else if 1024 \<le> ilog2 \<bar>r\<bar> then Inf (r < 0) else Fin r)"
proof (cases "rnd q = 0")
  case False
  have "ilog2 \<bar>rnd q\<bar> < 1024 \<longleftrightarrow> \<bar>rnd q\<bar> < 2 ^ 1024"
    using ilog2_le_iff[of "\<bar>rnd q\<bar>" 1024] False by (simp add: power_int_def)
  then show ?thesis using False by (auto simp: fl_def Let_def not_le[symmetric])
qed (simp add: fl_def)

lemma fl_cases: "fl q = Fin (rnd q) \<and> \<bar>rnd q\<bar> < 2 ^ 1024 \<or> (\<exists>s. fl q = Inf s)"
  by (auto simp: fl_def Let_def)

lemma is_rep_fl [simp]: "is_rep (fl q)"
  by (auto simp: is_rep_def fl_def Let_def)

lemma fl_mono: assumes "x \<le> y" shows "fl x \<le> fl y"
  using rnd_mono[OF assms] by (auto simp: fl_def Let_def abs_le_iff abs_if split: if_splits)

lemma fl_of_rep: "is_rep (Fin q) \<Longrightarrow> fl q = Fin q"
  by (auto simp: is_rep_def fl_def)

lemma of_int64_exact: "\<bar>n\<bar> \<le> 2 ^ 53 \<Longrightarrow> of_int64 n = Fin (of_int n)"
proof -
  assume n: "\<bar>n\<bar> \<le> 2 ^ 53"
  then have "(of_int \<bar>n\<bar> :: rat) \<le> of_int (2 ^ 53)" using of_int_le_iff by blast
  also have "(of_int (2 ^ 53) :: rat) \<le> 2 ^ 1023" by (simp add: power_increasing del: power_Suc)
  finally show ?thesis unfolding of_int64_def using rnd_of_int[OF n] by (simp add: fl_finite)
qed

function isqrt :: "int \<Rightarrow> int" where
  "isqrt n = (if n \<le> 0 then 0
     else let r = 2 * isqrt (n div 4) in if (r + 1) * (r + 1) \<le> n then r + 1 else r)"
  by pat_completeness auto
termination
  by (relation "measure nat") auto

declare isqrt.simps [simp del]

lemma isqrt_bounds:
  "0 \<le> n \<Longrightarrow> 0 \<le> isqrt n \<and> isqrt n * isqrt n \<le> n \<and> n < (isqrt n + 1) * (isqrt n + 1)"
proof (induction n rule: isqrt.induct)
  case (1 n)
  show ?case
  proof (cases "n \<le> 0")
    case True then show ?thesis using 1 by (simp add: isqrt.simps)
  next
    case False
    let ?s = "isqrt (n div 4)"
    have s: "0 \<le> ?s" "?s * ?s \<le> n div 4" "n div 4 < (?s + 1) * (?s + 1)" using 1 False by auto
    have "4 * (?s * ?s) \<le> n" using s(2) by linarith
    moreover have "n < 4 * ((?s + 1) * (?s + 1))" using s(3) by linarith
    moreover have "isqrt n = (if (2 * ?s + 1) * (2 * ?s + 1) \<le> n then 2 * ?s + 1 else 2 * ?s)"
      using False by (subst isqrt.simps) (simp add: Let_def)
    ultimately show ?thesis using s(1) by (auto simp: algebra_simps)
  qed
qed

definition sqrt_exp :: "rat \<Rightarrow> int" where
  "sqrt_exp q = ilog2 q div 2 - 52"

definition sqrt_sig :: "rat \<Rightarrow> int" where
  "sqrt_sig t = (let m = isqrt \<lfloor>t\<rfloor>; c = (of_int m + 1/2) * (of_int m + 1/2) in
     if t < c then m else if t > c then m + 1 else if even m then m else m + 1)"

fun fsqrt :: "f64 \<Rightarrow> f64" where
  "fsqrt (Fin q) = (if q < 0 then NaN else if q = 0 then Fin 0
     else Fin (of_int (sqrt_sig (q / 2 powi (2 * sqrt_exp q))) * 2 powi (sqrt_exp q)))"
| "fsqrt (Inf s) = (if s then NaN else Inf False)"
| "fsqrt NaN = NaN"

lemma sqrt_sig_bounds:
  assumes "0 \<le> t"
  shows "(of_int (sqrt_sig t) - 1/2) * (of_int (sqrt_sig t) - 1/2) \<le> t \<or> sqrt_sig t = 0"
    and "t \<le> (of_int (sqrt_sig t) + 1/2) * (of_int (sqrt_sig t) + 1/2)"
    and "0 \<le> sqrt_sig t"
proof -
  define m where "m = isqrt \<lfloor>t\<rfloor>"
  have f: "0 \<le> \<lfloor>t\<rfloor>" using assms by simp
  have i: "m * m \<le> \<lfloor>t\<rfloor>" "\<lfloor>t\<rfloor> < (m + 1) * (m + 1)" "0 \<le> m"
    using isqrt_bounds[OF f] by (simp_all add: m_def)
  have lo: "of_int m * of_int m \<le> t" using i(1) by (simp add: le_floor_iff)
  have hi: "t < (of_int m + 1) * (of_int m + 1)" using i(2) by (simp add: floor_less_iff)
  note m0 = i(3)
  show "0 \<le> sqrt_sig t" using m0 by (simp add: sqrt_sig_def m_def Let_def)
  show "(of_int (sqrt_sig t) - 1/2) * (of_int (sqrt_sig t) - 1/2) \<le> t \<or> sqrt_sig t = 0"
    using lo m0 by (auto simp: sqrt_sig_def m_def[symmetric] Let_def algebra_simps)
  show "t \<le> (of_int (sqrt_sig t) + 1/2) * (of_int (sqrt_sig t) + 1/2)"
    using hi m0 by (auto simp: sqrt_sig_def m_def[symmetric] Let_def algebra_simps)
qed

subsection \<open>Errors of products, sums and square roots\<close>

lemma rnd_err_mix: "\<bar>rnd x - x\<bar> \<le> \<bar>x\<bar> / 2 ^ 53 + 1 / 2 ^ 100"
proof (cases "2 powi (- 1022) \<le> \<bar>x\<bar>")
  case True
  then show ?thesis using rnd_err_rel[OF True] by simp
next
  case False
  have "(2::rat) powi (- 1022) \<le> 2 powi (- 1000)" by (simp add: powi_le_iff)
  then have "\<bar>x\<bar> \<le> 2 powi (- 1000)" using False by linarith
  then have "\<bar>rnd x - x\<bar> \<le> 2 powi (- 1000 - 54)" by (rule rnd_err_abs) simp
  also have "\<dots> \<le> 2 powi (- 100)" by (simp add: powi_le_iff)
  also have "\<dots> = 1 / 2 ^ 100" by (simp add: power_int_minus_divide)
  finally show ?thesis by (simp add: add_increasing)
qed

text \<open>A float times an integer: the relative bound holds down to the smallest floats, where
  the product is exact.\<close>

lemma rnd_mult_int:
  assumes "rnd b = b" shows "\<bar>rnd (of_int n * b) - of_int n * b\<bar> \<le> \<bar>of_int n * b\<bar> / 2 ^ 53"
proof (cases "2 powi (- 1022) \<le> \<bar>of_int n * b\<bar>")
  case True
  then show ?thesis by (rule rnd_err_rel)
next
  case False
  obtain m e where b: "b = of_int m * 2 powi e" and e: "- 1074 \<le> e"
    using rnd_form[of b] assms by metis
  define k where "k = n * m * 2 ^ nat (e + 1074)"
  have "(2::rat) powi e = 2 ^ nat (e + 1074) * 2 powi (- 1074)"
  proof -
    have "(2::rat) powi (e + 1074) = 2 ^ nat (e + 1074)" using e by (simp add: power_int_def)
    moreover have "(2::rat) powi e = 2 powi (e + 1074) * 2 powi (- 1074)"
      by (subst power_int_add[symmetric]) auto
    ultimately show ?thesis by metis
  qed
  then have x: "of_int n * b = of_int k * 2 powi (- 1074)" by (simp add: b k_def)
  have "\<bar>of_int k\<bar> * 2 powi (- 1074) < (2::rat) ^ 52 * 2 powi (- 1074)"
  proof -
    have "(2::rat) ^ 52 * 2 powi (- 1074) = 2 powi (- 1022)"
      unfolding pow53(2) by (simp flip: power_int_add)
    then show ?thesis using False x by (simp add: abs_mult not_le)
  qed
  then have "\<bar>of_int k :: rat\<bar> < 2 ^ 52" by (simp add: mult_less_cancel_right)
  then have "of_int \<bar>k\<bar> < (of_int (2 ^ 52) :: rat)" by simp
  then have "\<bar>k\<bar> \<le> 2 ^ 53" unfolding of_int_less_iff by simp
  then have "rnd (of_int n * b) = of_int n * b" using x by (intro rnd_exact[OF x]) auto
  then show ?thesis by simp
qed

lemma sqrt_sig_rel:
  assumes "2 ^ 104 \<le> t"
  shows "\<bar>of_int (sqrt_sig t) * of_int (sqrt_sig t) - t\<bar> \<le> t / 2 ^ 51"
proof -
  define s :: rat where "s = of_int (sqrt_sig t)"
  have t: "0 \<le> t" using assms by (rule order_trans[rotated]) simp
  have s0: "0 \<le> s" using sqrt_sig_bounds(3)[OF t] by (simp add: s_def)
  have hi: "t \<le> (s + 1/2) * (s + 1/2)" using sqrt_sig_bounds(2)[OF t] by (simp add: s_def)
  have big: "2 ^ 52 \<le> s + 1/2"
  proof (rule ccontr)
    assume "\<not> 2 ^ 52 \<le> s + 1/2"
    then have "(s + 1/2) * (s + 1/2) < 2 ^ 52 * 2 ^ 52" using s0 by (intro mult_strict_mono) auto
    then show False using hi assms by (simp flip: power_add)
  qed
  then have "sqrt_sig t \<noteq> 0" by (auto simp: s_def)
  then have lo: "(s - 1/2) * (s - 1/2) \<le> t" using sqrt_sig_bounds(1)[OF t] by (simp add: s_def)
  have "2 ^ 51 * (s + 1/4) \<le> (s - 1/2) * (s - 1/2)"
  proof -
    have "(2 ^ 51 + 4) * (s - 1/2) \<le> (s - 1/2) * (s - 1/2)"
      using big by (intro mult_right_mono) auto
    then show ?thesis using big by (simp add: algebra_simps)
  qed
  then have "s + 1/4 \<le> t / 2 ^ 51" using lo by (simp add: field_simps)
  moreover have "\<bar>s * s - t\<bar> \<le> s + 1/4"
    using lo hi by (simp add: abs_le_iff algebra_simps)
  ultimately show ?thesis by (simp add: s_def)
qed

lemma fsqrt_rel:
  assumes "0 < q"
  shows "\<exists>r. fsqrt (Fin q) = Fin r \<and> 0 \<le> r \<and> \<bar>r * r - q\<bar> \<le> q / 2 ^ 51"
proof -
  define e where "e = sqrt_exp q"
  define u :: rat where "u = 2 powi e"
  define t where "t = q / 2 powi (2 * e)"
  have u: "0 < u" "2 powi (2 * e) = u * u"
    by (simp_all add: u_def power_int_add[symmetric] flip: mult_2)
  have q: "q = t * (u * u)" using u by (simp add: t_def)
  have "2 ^ 104 * (u * u) \<le> q"
  proof -
    have "(2::rat) ^ 104 * 2 powi (2 * e) = 2 powi (104 + 2 * e)"
      by (simp add: power_int_add power_int_def[of _ 104])
    also have "\<dots> \<le> 2 powi (ilog2 q)" by (simp add: powi_le_iff e_def sqrt_exp_def)
    also have "\<dots> \<le> q" using ilog2_bounds(1)[OF assms] .
    finally show ?thesis by (simp add: u)
  qed
  then have "2 ^ 104 \<le> t" unfolding q using u(1) by (simp add: mult_le_cancel_right)
  note s = sqrt_sig_rel[OF this]
  define s' :: rat where "s' = of_int (sqrt_sig t)"
  have "fsqrt (Fin q) = Fin (s' * u)"
    using assms by (simp add: s'_def t_def u_def e_def)
  moreover have "\<bar>(s' * u) * (s' * u) - q\<bar> = \<bar>s' * s' - t\<bar> * (u * u)"
  proof -
    have "(s' * u) * (s' * u) - q = (s' * s' - t) * (u * u)" unfolding q by (simp add: algebra_simps)
    then show ?thesis using u(1) by (simp add: abs_mult)
  qed
  moreover have "\<bar>s' * s' - t\<bar> * (u * u) \<le> t / 2 ^ 51 * (u * u)"
    using s by (intro mult_right_mono) (auto simp: s'_def)
  moreover have "0 \<le> s'" using sqrt_sig_bounds(3)[of t] \<open>2 ^ 104 \<le> t\<close>
    by (simp add: s'_def)
  ultimately show ?thesis using u(1) by (intro exI[of _ "s' * u"]) (simp add: q)
qed

end
