(* ===== verification/Units.thy ===== *)
theory Units
  imports Float64
begin

text \<open>
  \<open>internal/domain/engineering/units.go\<close>: the dimensional types. \<open>Length\<close> (mm), \<open>Angle\<close>
  (radians) and \<open>Mass\<close> (kg) are \<open>float64\<close>s; the constructors reject NaN, infinities and,
  for lengths and masses, negative values.
\<close>

type_synonym Length = f64
type_synonym Angle = f64
type_synonym Mass = f64

datatype unit_error = InvalidValue f64 | NegativeValue f64

text \<open>\<open>Precision = 1e-6\<close> and \<open>math.Pi\<close>: untyped constants, rounded when they meet a float.\<close>

definition Precision :: f64 where
  "Precision = fl (1 / 1000000)"

text \<open>The value of the constant, for evaluation.\<close>

lemma Precision_value [code]: "Precision = Fin (4722366482869645 / 4722366482869645213696)"
  by code_simp

definition MathPi :: f64 where
  "MathPi = Fin (884279719003555 / 281474976710656)"

definition NewLength :: "f64 \<Rightarrow> (unit_error, Length) result" where
  "NewLength mm =
     guard_with (isNaN mm \<or> isInf mm) (InvalidValue mm)
     (guard_with (mm < 0) (NegativeValue mm)
     (Inr mm))"

definition length_Equals :: "Length \<Rightarrow> Length \<Rightarrow> bool" where
  "length_Equals l k \<longleftrightarrow> \<bar>l - k\<bar> \<le> Precision"

definition NewAngleRadians :: "f64 \<Rightarrow> (unit_error, Angle) result" where
  "NewAngleRadians r = guard_with (isNaN r \<or> isInf r) (InvalidValue r) (Inr r)"

definition NewAngleDegrees :: "f64 \<Rightarrow> (unit_error, Angle) result" where
  "NewAngleDegrees d =
     guard_with (isNaN d \<or> isInf d) (InvalidValue d) (Inr (d * MathPi / Fin 180))"

definition Degrees :: "Angle \<Rightarrow> f64" where
  "Degrees a = a * Fin 180 / MathPi"

definition NewMass :: "f64 \<Rightarrow> (unit_error, Mass) result" where
  "NewMass kg =
     guard_with (isNaN kg \<or> isInf kg) (InvalidValue kg)
     (guard_with (kg < 0) (NegativeValue kg)
     (Inr kg))"

lemma NewLength_Inr_iff: "NewLength x = Inr l \<longleftrightarrow> (\<exists>q \<ge> 0. x = Fin q \<and> l = Fin q)"
  by (cases x) (auto simp: NewLength_def guard_with_def zero_f64_def)

lemma NewMass_Inr_iff: "NewMass x = Inr l \<longleftrightarrow> (\<exists>q \<ge> 0. x = Fin q \<and> l = Fin q)"
  by (cases x) (auto simp: NewMass_def guard_with_def zero_f64_def)

lemma NewAngleRadians_Inr_iff: "NewAngleRadians x = Inr l \<longleftrightarrow> (\<exists>q. x = Fin q \<and> l = Fin q)"
  by (cases x) (auto simp: NewAngleRadians_def guard_with_def)

subsection \<open>Facts about finite lengths\<close>

lemma f64_not_le_0: "\<not> x \<le> (0::f64) \<Longrightarrow> x \<noteq> NaN \<Longrightarrow> 0 < x"
  by (cases x) (auto simp: zero_f64_def)

lemma f64_less_Fin_D: "Fin a < x \<Longrightarrow> x = Inf False \<or> (\<exists>q. x = Fin q \<and> a < q)"
  by (cases x) auto

end
