(* ===== verification/Constraint.thy ===== *)
theory Constraint
  imports Units
begin

text \<open>
  The Constraint Engine, \<open>internal/engine/constraint/\<close>: numeric ranges with a tolerance, rules
  with versions, the rule set with its operations, the STANDARD profile and the integrity check.
  The set is \<open>map[RuleCode][]*Constraint\<close>; the pointers of one slice are distinct (\<open>Add\<close>
  refuses a version that is there), so a slice is a list of records and \<open>c == target\<close> is the
  position. The natural-language texts of the profile do not influence any operation and are a
  parameter of it.
\<close>

type_synonym RuleCode = string

datatype Severity = SeverityError | SeverityWarning

record Range =
  rg_Min :: f64
  rg_Max :: f64
  rg_HasMin :: bool
  rg_HasMax :: bool
  rg_Tolerance :: f64

definition Contains :: "Range \<Rightarrow> f64 \<Rightarrow> bool" where
  "Contains r v =
     (if rg_HasMin r \<and> v + rg_Tolerance r < rg_Min r then False
      else if rg_HasMax r \<and> v - rg_Tolerance r > rg_Max r then False
      else True)"

record ConstraintAdvice =
  ad_Param :: string
  ad_Guide :: string
  ad_Suggest :: bool

record Constraint =
  ct_Code :: RuleCode
  ct_Category :: string
  ct_Severity :: Severity
  ct_Range :: Range
  ct_Version :: int
  ct_Active :: bool
  ct_Message :: string
  ct_Fix :: string
  ct_Advice :: "ConstraintAdvice option"

record ConstraintSet =
  cs_ID :: string
  cs_Name :: string
  cs_Constraints :: "(RuleCode \<times> Constraint list) list"

definition NewSet :: "string \<Rightarrow> string \<Rightarrow> ConstraintSet" where
  "NewSet i n = \<lparr>cs_ID = i, cs_Name = n, cs_Constraints = []\<rparr>"

text \<open>The read \<open>s.Constraints[code]\<close>: a missing key gives the nil slice.\<close>

definition versions_of :: "ConstraintSet \<Rightarrow> RuleCode \<Rightarrow> Constraint list" where
  "versions_of s code = (case map_of (cs_Constraints s) code of None \<Rightarrow> [] | Some cs \<Rightarrow> cs)"

datatype constraint_error =
    CodeRequired | BadVersion RuleCode int | DuplicateVersionError RuleCode int
  | UnknownCode RuleCode | NoSuchVersion RuleCode int

definition cs_Add :: "ConstraintSet \<Rightarrow> Constraint \<Rightarrow> (constraint_error, ConstraintSet) result" where
  "cs_Add s c =
     guard_with (ct_Code c = '''') CodeRequired
     (guard_with (ct_Version c < 1) (BadVersion (ct_Code c) (ct_Version c))
     (guard_with (\<exists>x \<in> set (versions_of s (ct_Code c)). ct_Version x = ct_Version c)
        (DuplicateVersionError (ct_Code c) (ct_Version c))
     (Inr (s\<lparr>cs_Constraints :=
        mput (ct_Code c) (versions_of s (ct_Code c) @ [c]) (cs_Constraints s)\<rparr>))))"

text \<open>The two loops of \<open>Activate\<close>: find the version, then set every flag.\<close>

fun activate_versions :: "int \<Rightarrow> Constraint list \<Rightarrow> Constraint list option" where
  "activate_versions v [] = None"
| "activate_versions v (c # cs) =
     (if ct_Version c = v
      then Some (c\<lparr>ct_Active := True\<rparr> # map (\<lambda>x. x\<lparr>ct_Active := False\<rparr>) cs)
      else map_option (Cons (c\<lparr>ct_Active := False\<rparr>)) (activate_versions v cs))"

definition cs_Activate ::
    "ConstraintSet \<Rightarrow> RuleCode \<Rightarrow> int \<Rightarrow> (constraint_error, ConstraintSet) result" where
  "cs_Activate s code v =
     (let vs = versions_of s code in
      guard_with (vs = []) (UnknownCode code)
      (case activate_versions v vs of
         None \<Rightarrow> Inl (NoSuchVersion code v)
       | Some vs' \<Rightarrow> Inr (s\<lparr>cs_Constraints := mput code vs' (cs_Constraints s)\<rparr>)))"

definition cs_Active :: "ConstraintSet \<Rightarrow> RuleCode \<Rightarrow> Constraint option" where
  "cs_Active s code = find ct_Active (versions_of s code)"

text \<open>\<open>Resolve\<close> answers \<open>(nil, true)\<close> when no version is active.\<close>

definition cs_Resolve :: "ConstraintSet \<Rightarrow> RuleCode \<Rightarrow> f64 \<Rightarrow> Constraint option \<times> bool" where
  "cs_Resolve s code v =
     (case cs_Active s code of
        None \<Rightarrow> (None, True)
      | Some c \<Rightarrow> (Some c, Contains (ct_Range c) v))"

subsection \<open>The STANDARD profile\<close>

definition GEO_STEP_HEIGHT :: RuleCode where "GEO_STEP_HEIGHT = ''GEO-STEP-HEIGHT''"
definition GEO_TREAD_DEPTH :: RuleCode where "GEO_TREAD_DEPTH = ''GEO-TREAD-DEPTH''"
definition GEO_ANGLE :: RuleCode where "GEO_ANGLE = ''GEO-ANGLE''"
definition GEO_CLEARANCE :: RuleCode where "GEO_CLEARANCE = ''GEO-CLEARANCE''"
definition GEO_STRINGER_THICKNESS :: RuleCode where
  "GEO_STRINGER_THICKNESS = ''GEO-STRINGER-THICKNESS''"
definition SAF_RAILING_HEIGHT :: RuleCode where "SAF_RAILING_HEIGHT = ''SAF-RAILING-HEIGHT''"
definition GEO_HEIGHT :: RuleCode where "GEO_HEIGHT = ''GEO-HEIGHT''"
definition GEO_WIDTH :: RuleCode where "GEO_WIDTH = ''GEO-WIDTH''"
definition GEO_COMFORT_STEP :: RuleCode where "GEO_COMFORT_STEP = ''GEO-COMFORT-STEP''"
definition GEO_LANDING_WIDTH :: RuleCode where "GEO_LANDING_WIDTH = ''GEO-LANDING-WIDTH''"
definition GEO_LOWER_STEP :: RuleCode where "GEO_LOWER_STEP = ''GEO-LOWER-STEP''"
definition GEO_SPIRAL_RADIUS :: RuleCode where "GEO_SPIRAL_RADIUS = ''GEO-SPIRAL-RADIUS''"
definition GEO_SPIRAL_TREAD :: RuleCode where "GEO_SPIRAL_TREAD = ''GEO-SPIRAL-TREAD''"
definition GEO_TREAD_POSITIVE :: RuleCode where "GEO_TREAD_POSITIVE = ''GEO-TREAD-POSITIVE''"

lemmas rule_codes =
  GEO_STEP_HEIGHT_def GEO_TREAD_DEPTH_def GEO_ANGLE_def GEO_CLEARANCE_def
  GEO_STRINGER_THICKNESS_def SAF_RAILING_HEIGHT_def GEO_HEIGHT_def GEO_WIDTH_def
  GEO_COMFORT_STEP_def GEO_LANDING_WIDTH_def GEO_LOWER_STEP_def GEO_SPIRAL_RADIUS_def
  GEO_SPIRAL_TREAD_def GEO_TREAD_POSITIVE_def

text \<open>The texts of a rule: message, fix, and the advisor's parameter name and guide.\<close>

record rule_texts =
  tx_Message :: string
  tx_Fix :: string
  tx_Param :: string
  tx_Guide :: string

definition profile_rule ::
    "rule_texts \<Rightarrow> RuleCode \<Rightarrow> string \<Rightarrow> Severity \<Rightarrow> Range \<Rightarrow> bool \<Rightarrow> Constraint" where
  "profile_rule t code cat sev r suggest =
     \<lparr>ct_Code = code, ct_Category = cat, ct_Severity = sev, ct_Range = r, ct_Version = 1,
      ct_Active = True, ct_Message = tx_Message t, ct_Fix = tx_Fix t,
      ct_Advice = Some \<lparr>ad_Param = tx_Param t, ad_Guide = tx_Guide t, ad_Suggest = suggest\<rparr>\<rparr>"

definition range_minmax :: "rat \<Rightarrow> rat \<Rightarrow> rat \<Rightarrow> Range" where
  "range_minmax lo hi tol = \<lparr>rg_Min = fl lo, rg_Max = fl hi, rg_HasMin = True, rg_HasMax = True,
     rg_Tolerance = fl tol\<rparr>"

definition range_min :: "rat \<Rightarrow> rat \<Rightarrow> Range" where
  "range_min lo tol = \<lparr>rg_Min = fl lo, rg_Max = 0, rg_HasMin = True, rg_HasMax = False,
     rg_Tolerance = fl tol\<rparr>"

definition standard_rules :: "(RuleCode \<Rightarrow> rule_texts) \<Rightarrow> Constraint list" where
  "standard_rules txt =
    [profile_rule (txt GEO_STEP_HEIGHT) GEO_STEP_HEIGHT ''geometry'' SeverityError
       (range_minmax 150 200 (1/10)) True,
     profile_rule (txt GEO_TREAD_DEPTH) GEO_TREAD_DEPTH ''geometry'' SeverityError
       (range_minmax 260 320 (1/10)) True,
     profile_rule (txt GEO_ANGLE) GEO_ANGLE ''geometry'' SeverityError
       (range_minmax 30 45 (1/100)) True,
     profile_rule (txt GEO_CLEARANCE) GEO_CLEARANCE ''geometry'' SeverityWarning
       (range_min 2000 1) False,
     profile_rule (txt GEO_STRINGER_THICKNESS) GEO_STRINGER_THICKNESS ''geometry'' SeverityWarning
       (range_min 30 (1/10)) False,
     profile_rule (txt SAF_RAILING_HEIGHT) SAF_RAILING_HEIGHT ''safety'' SeverityWarning
       (range_min 900 1) False,
     profile_rule (txt GEO_SPIRAL_TREAD) GEO_SPIRAL_TREAD ''geometry'' SeverityError
       (range_min 100 1) True,
     profile_rule (txt GEO_SPIRAL_RADIUS) GEO_SPIRAL_RADIUS ''geometry'' SeverityError
       (range_min 1 1) True]"

text \<open>\<open>mustAdd\<close> logs a refused rule and goes on.\<close>

definition mustAdd :: "ConstraintSet \<Rightarrow> Constraint \<Rightarrow> ConstraintSet" where
  "mustAdd s c = (case cs_Add s c of Inl e \<Rightarrow> s | Inr s' \<Rightarrow> s')"

definition StandardProfile :: "(RuleCode \<Rightarrow> rule_texts) \<Rightarrow> string \<Rightarrow> ConstraintSet" where
  "StandardProfile txt name = foldl mustAdd (NewSet ''cs-standard'' name) (standard_rules txt)"

subsection \<open>The integrity check\<close>

definition rangesOverlap :: "Range \<Rightarrow> Range \<Rightarrow> bool" where
  "rangesOverlap a b =
     (if rg_HasMax a \<and> rg_HasMin b \<and> rg_Max a < rg_Min b then False
      else if rg_HasMax b \<and> rg_HasMin a \<and> rg_Max b < rg_Min a then False
      else True)"

datatype violation =
    DuplicateVersion RuleCode int
  | OverlappingRanges RuleCode int int
  | MultipleActive RuleCode nat

fun integrity_loop :: "RuleCode \<Rightarrow> int set \<Rightarrow> Constraint list \<Rightarrow> violation list" where
  "integrity_loop code seen [] = []"
| "integrity_loop code seen (c # cs) =
     (if ct_Version c \<in> seen then [DuplicateVersion code (ct_Version c)] else []) @
     map (\<lambda>d. OverlappingRanges code (ct_Version c) (ct_Version d))
       (filter (\<lambda>d. rangesOverlap (ct_Range c) (ct_Range d)) cs) @
     integrity_loop code (insert (ct_Version c) seen) cs"

definition integrity_of :: "RuleCode \<Rightarrow> Constraint list \<Rightarrow> violation list" where
  "integrity_of code vs =
     integrity_loop code {} vs @
     (let n = length (filter ct_Active vs) in if n > 1 then [MultipleActive code n] else [])"

definition ValidateIntegrity :: "ConstraintSet \<Rightarrow> violation list" where
  "ValidateIntegrity s = concat (map (\<lambda>(code, vs). integrity_of code vs) (cs_Constraints s))"

subsection \<open>The invariant of a rule set\<close>

text \<open>What every list of versions of a code satisfies: its rules carry the code, their versions are
  positive and different.\<close>

definition versions_ok :: "RuleCode \<Rightarrow> Constraint list \<Rightarrow> bool" where
  "versions_ok code vs \<longleftrightarrow>
     code \<noteq> '''' \<and> vs \<noteq> [] \<and> (\<forall>c \<in> set vs. ct_Code c = code \<and> 1 \<le> ct_Version c)
     \<and> distinct (map ct_Version vs)"

definition set_ok :: "ConstraintSet \<Rightarrow> bool" where
  "set_ok s \<longleftrightarrow> is_map (cs_Constraints s) \<and>
     (\<forall>(code, vs) \<in> set (cs_Constraints s). versions_ok code vs)"

definition active_count :: "ConstraintSet \<Rightarrow> RuleCode \<Rightarrow> nat" where
  "active_count s code = length (filter ct_Active (versions_of s code))"

lemma set_ok_lookup:
  "set_ok s \<longleftrightarrow> is_map (cs_Constraints s) \<and>
     (\<forall>code vs. map_of (cs_Constraints s) code = Some vs \<longrightarrow> versions_ok code vs)"
  unfolding set_ok_def using is_map_in_set[of "cs_Constraints s"] by (fastforce dest: map_of_SomeD)

lemma set_ok_versions: "set_ok s \<Longrightarrow> versions_of s code \<noteq> [] \<Longrightarrow> versions_ok code (versions_of s code)"
  by (auto simp: set_ok_lookup versions_of_def split: option.splits)

lemma set_ok_NewSet [inv_intros]: "set_ok (NewSet i n)"
  by (simp add: set_ok_def NewSet_def)

lemma set_ok_put:
  "set_ok s \<Longrightarrow> versions_ok code vs \<Longrightarrow>
   set_ok (s\<lparr>cs_Constraints := mput code vs (cs_Constraints s)\<rparr>)"
  by (auto simp: set_ok_lookup)

lemma versions_of_put [simp]:
  "versions_of (s\<lparr>cs_Constraints := mput code vs (cs_Constraints s)\<rparr>) code' =
     (if code' = code then vs else versions_of s code')"
  by (simp add: versions_of_def)

lemma activate_versions_Some:
  "activate_versions v vs = Some vs' \<Longrightarrow>
     map ct_Version vs' = map ct_Version vs \<and> map ct_Code vs' = map ct_Code vs
     \<and> map ct_Range vs' = map ct_Range vs
     \<and> (\<exists>c. filter ct_Active vs' = [c] \<and> ct_Version c = v)"
  by (induction vs arbitrary: vs') (auto split: if_splits simp: filter_empty_conv)

lemma activate_versions_None: "activate_versions v vs = None \<longleftrightarrow> v \<notin> ct_Version ` set vs"
  by (induction vs) auto

lemma versions_ok_keys:
  assumes "map ct_Version vs' = map ct_Version vs" "map ct_Code vs' = map ct_Code vs"
  shows "versions_ok code vs' \<longleftrightarrow> versions_ok code vs"
proof -
  have alt: "versions_ok code xs \<longleftrightarrow> code \<noteq> '''' \<and> map ct_Code xs \<noteq> []
      \<and> (\<forall>x \<in> set (map ct_Code xs). x = code) \<and> (\<forall>x \<in> set (map ct_Version xs). 1 \<le> x)
      \<and> distinct (map ct_Version xs)" for xs
    by (auto simp: versions_ok_def)
  show ?thesis by (simp only: alt assms)
qed

lemma cs_Add_Inr_iff:
  "cs_Add s c = Inr s' \<longleftrightarrow> ct_Code c \<noteq> '''' \<and> 1 \<le> ct_Version c
     \<and> ct_Version c \<notin> ct_Version ` set (versions_of s (ct_Code c))
     \<and> s' = s\<lparr>cs_Constraints := mput (ct_Code c) (versions_of s (ct_Code c) @ [c]) (cs_Constraints s)\<rparr>"
  by (simp add: cs_Add_def guard_with_Inr_iff not_less image_iff) metis

lemma cs_Add_ok [inv_intros]:
  assumes "set_ok s" "cs_Add s c = Inr s'"
  shows "set_ok s'"
proof -
  have "versions_ok (ct_Code c) (versions_of s (ct_Code c) @ [c])"
    using assms set_ok_versions[OF assms(1), of "ct_Code c"]
    by (cases "versions_of s (ct_Code c) = []") (auto simp: cs_Add_Inr_iff versions_ok_def)
  with assms show ?thesis by (auto simp: cs_Add_Inr_iff intro: set_ok_put)
qed

lemma cs_Activate_Inr_iff:
  "cs_Activate s code v = Inr s' \<longleftrightarrow>
     (\<exists>vs'. activate_versions v (versions_of s code) = Some vs'
        \<and> s' = s\<lparr>cs_Constraints := mput code vs' (cs_Constraints s)\<rparr>)"
  by (cases "versions_of s code = []")
    (auto simp: cs_Activate_def Let_def result_iffs split: option.splits)

lemma cs_Activate_ok [inv_intros]:
  assumes "set_ok s" "cs_Activate s code v = Inr s'"
  shows "set_ok s'"
proof -
  obtain vs' where a: "activate_versions v (versions_of s code) = Some vs'"
    and s': "s' = s\<lparr>cs_Constraints := mput code vs' (cs_Constraints s)\<rparr>"
    using assms(2) by (auto simp: cs_Activate_Inr_iff)
  from a have ne: "versions_of s code \<noteq> []" by auto
  have "versions_ok code vs'"
    using activate_versions_Some[OF a] set_ok_versions[OF assms(1) ne] versions_ok_keys by metis
  then show ?thesis using s' set_ok_put[OF assms(1)] by simp
qed

lemma mustAdd_ok [inv_intros]: "set_ok s \<Longrightarrow> set_ok (mustAdd s c)"
  by (auto simp: mustAdd_def intro: inv_intros split: sum.splits)

lemma StandardProfile_ok [inv_intros]: "set_ok (StandardProfile txt name)"
proof -
  have "set_ok s \<Longrightarrow> set_ok (foldl mustAdd s rs)" for s rs
    by (induction rs arbitrary: s) (auto intro: mustAdd_ok)
  then show ?thesis by (simp add: StandardProfile_def set_ok_NewSet)
qed

lemma cs_Active_D:
  "cs_Active s code = Some c \<Longrightarrow> c \<in> set (versions_of s code) \<and> ct_Active c"
  by (auto simp: cs_Active_def find_Some_iff)

lemma cs_Active_code: "set_ok s \<Longrightarrow> cs_Active s code = Some c \<Longrightarrow> ct_Code c = code"
  using cs_Active_D[of s code c] set_ok_versions[of s code]
  by (cases "versions_of s code = []") (auto simp: versions_ok_def)

lemma cs_Active_None_iff: "cs_Active s code = None \<longleftrightarrow> active_count s code = 0"
  by (auto simp: cs_Active_def active_count_def find_None_iff filter_empty_conv)

lemma find_filter: "find P xs = (case filter P xs of [] \<Rightarrow> None | x # _ \<Rightarrow> Some x)"
  by (induction xs) auto

text \<open>The rule sets a program can build: from an empty set or the STANDARD profile by \<open>Add\<close> and
  \<open>Activate\<close>.\<close>

inductive rule_set :: "ConstraintSet \<Rightarrow> bool" where
  rs_new: "rule_set (NewSet i n)"
| rs_standard: "rule_set (StandardProfile txt n)"
| rs_add: "rule_set s \<Longrightarrow> cs_Add s c = Inr s' \<Longrightarrow> rule_set s'"
| rs_activate: "rule_set s \<Longrightarrow> cs_Activate s code v = Inr s' \<Longrightarrow> rule_set s'"

lemma rule_set_ok: "rule_set s \<Longrightarrow> set_ok s"
  by (induction rule: rule_set.induct) (auto intro: inv_intros)

text \<open>A rule set built with \<open>Add\<close> and \<open>Activate\<close> holds, per code, rules of that code with
  positive and different versions; after \<open>Activate(code, v)\<close> this still holds, exactly the
  version \<open>v\<close> of \<open>code\<close> is active, no range has changed and every other code is untouched.\<close>

theorem activate_exactly_one:
  assumes "rule_set s" and act_step: "cs_Activate s code v = Inr s'"
  shows "set_ok s' \<and> active_count s' code = 1
    \<and> (\<exists>c. cs_Active s' code = Some c \<and> ct_Version c = v \<and> ct_Code c = code)
    \<and> map ct_Range (versions_of s' code) = map ct_Range (versions_of s code)
    \<and> (\<forall>other. other \<noteq> code \<longrightarrow> versions_of s' other = versions_of s other)"
proof -
  obtain vs' where a: "activate_versions v (versions_of s code) = Some vs'"
    and s': "s' = s\<lparr>cs_Constraints := mput code vs' (cs_Constraints s)\<rparr>"
    using assms(2) by (auto simp: cs_Activate_Inr_iff)
  obtain c where c: "filter ct_Active vs' = [c]" "ct_Version c = v"
    using activate_versions_Some[OF a] by blast
  have ok: "set_ok s'" using rule_set_ok[OF assms(1)] act_step by (rule cs_Activate_ok)
  have act: "cs_Active s' code = Some c" using c s' by (simp add: cs_Active_def find_filter)
  then show ?thesis
    using ok cs_Active_code[OF ok act] c s' activate_versions_Some[OF a]
    by (simp add: active_count_def)
qed

text \<open>A two-version rule for the witnesses.\<close>

definition demo_rule :: "int \<Rightarrow> bool \<Rightarrow> Constraint" where
  "demo_rule v a = \<lparr>ct_Code = GEO_WIDTH, ct_Category = ''geometry'', ct_Severity = SeverityError,
     ct_Range = range_min (600 * of_int v) 0, ct_Version = v, ct_Active = a, ct_Message = '''',
     ct_Fix = '''', ct_Advice = None\<rparr>"

definition demo_set1 :: ConstraintSet where
  "demo_set1 = \<lparr>cs_ID = ''s'', cs_Name = '''',
     cs_Constraints = [(GEO_WIDTH, [demo_rule 1 True])]\<rparr>"

definition demo_set2 :: ConstraintSet where
  "demo_set2 = \<lparr>cs_ID = ''s'', cs_Name = '''',
     cs_Constraints = [(GEO_WIDTH, [demo_rule 1 True, demo_rule 2 True])]\<rparr>"

lemma demo_steps:
  "cs_Add (NewSet ''s'' '''') (demo_rule 1 True) = Inr demo_set1"
  "cs_Add demo_set1 (demo_rule 2 True) = Inr demo_set2"
  by (simp_all add: cs_Add_def NewSet_def demo_set1_def demo_set2_def demo_rule_def
      versions_of_def rule_codes guard_with_def)

lemma demo_reachable: "rule_set demo_set2"
  using demo_steps rs_add rs_new by blast

lemma demo_activate:
  "cs_Activate demo_set2 GEO_WIDTH 2 = Inr \<lparr>cs_ID = ''s'', cs_Name = '''',
     cs_Constraints = [(GEO_WIDTH, [demo_rule 1 False, demo_rule 2 True])]\<rparr>"
  by (simp add: cs_Activate_def demo_set2_def demo_rule_def versions_of_def)

theorem activate_exactly_one_witness:
  "\<exists>s'. cs_Activate demo_set2 GEO_WIDTH 2 = Inr s' \<and> active_count s' GEO_WIDTH = 1"
  using activate_exactly_one[OF demo_reachable demo_activate] demo_activate by blast

subsection \<open>The integrity check\<close>

text \<open>What the check is meant to decide for one code.\<close>

definition integral :: "Constraint list \<Rightarrow> bool" where
  "integral vs \<longleftrightarrow> distinct (map ct_Version vs)
     \<and> (\<forall>j < length vs. \<forall>i < j. \<not> rangesOverlap (ct_Range (vs ! i)) (ct_Range (vs ! j)))
     \<and> length (filter ct_Active vs) \<le> 1"

lemma all_pairs_Cons:
  "(\<forall>j < length (x # xs). \<forall>i < j. P ((x # xs) ! i) ((x # xs) ! j)) \<longleftrightarrow>
     (\<forall>y \<in> set xs. P x y) \<and> (\<forall>j < length xs. \<forall>i < j. P (xs ! i) (xs ! j))"
  (is "?L \<longleftrightarrow> ?R")
proof
  assume L: ?L
  have "P x (xs ! j)" if "j < length xs" for j
    using L[rule_format, of "Suc j" 0] that by simp
  moreover have "P (xs ! i) (xs ! j)" if "j < length xs" "i < j" for i j
    using L[rule_format, of "Suc j" "Suc i"] that by simp
  ultimately show ?R by (auto simp: in_set_conv_nth)
next
  assume R: ?R
  show ?L
  proof (intro allI impI)
    fix j i assume "j < length (x # xs)" "i < j"
    then obtain j' where j: "j = Suc j'" "j' < length xs" by (cases j) auto
    show "P ((x # xs) ! i) ((x # xs) ! j)" using R j \<open>i < j\<close> by (cases i) auto
  qed
qed

lemma integrity_loop_Nil:
  "integrity_loop code seen vs = [] \<longleftrightarrow> distinct (map ct_Version vs)
     \<and> ct_Version ` set vs \<inter> seen = {}
     \<and> (\<forall>j < length vs. \<forall>i < j. \<not> rangesOverlap (ct_Range (vs ! i)) (ct_Range (vs ! j)))"
proof (induction vs arbitrary: seen)
  case (Cons c cs)
  show ?case
    unfolding all_pairs_Cons[of c cs "\<lambda>a b. \<not> rangesOverlap (ct_Range a) (ct_Range b)"]
    by (auto simp: Cons filter_empty_conv)
qed simp

lemma integrity_of_Nil: "integrity_of code vs = [] \<longleftrightarrow> integral vs"
  unfolding integrity_of_def append_is_Nil_conv integrity_loop_Nil integral_def
  by (simp add: Let_def not_less)

text \<open>The integrity check of a rule set reports nothing exactly when, for every code, the
  versions are different, no two versions' ranges overlap and at most one version is active.\<close>

theorem integrity_complete:
  "ValidateIntegrity s = [] \<longleftrightarrow> list_all (\<lambda>(code, vs). integral vs) (cs_Constraints s)"
  by (auto simp: ValidateIntegrity_def integrity_of_Nil list_all_iff)

text \<open>\<open>Add\<close> does not check that a rule it adds is the only active one: an active rule added
  under a code that has an active version leaves two active versions, and \<open>Active\<close> keeps
  answering the older one.\<close>

theorem add_second_active:
  assumes "cs_Active s (ct_Code c) = Some old" and "ct_Active c" and "cs_Add s c = Inr s'"
  shows "2 \<le> active_count s' (ct_Code c) \<and> cs_Active s' (ct_Code c) = Some old
    \<and> MultipleActive (ct_Code c) (active_count s' (ct_Code c)) \<in> set (ValidateIntegrity s')"
proof -
  from assms(3) have vs: "versions_of s' (ct_Code c) = versions_of s (ct_Code c) @ [c]"
    and s': "s' = s\<lparr>cs_Constraints := mput (ct_Code c) (versions_of s (ct_Code c) @ [c]) (cs_Constraints s)\<rparr>"
    by (auto simp: cs_Add_Inr_iff)
  from assms(1) obtain rest where f: "filter ct_Active (versions_of s (ct_Code c)) = old # rest"
    by (auto simp: cs_Active_def find_filter split: list.splits)
  have n: "2 \<le> active_count s' (ct_Code c)" using vs f assms(2) by (simp add: active_count_def)
  have "map_of (cs_Constraints s') (ct_Code c) = Some (versions_of s' (ct_Code c))"
    using s' vs by simp
  then have "(ct_Code c, versions_of s' (ct_Code c)) \<in> set (cs_Constraints s')" by (rule map_of_SomeD)
  moreover have "MultipleActive (ct_Code c) (active_count s' (ct_Code c))
      \<in> set (integrity_of (ct_Code c) (versions_of s' (ct_Code c)))"
    using n by (simp add: integrity_of_def active_count_def)
  ultimately have "MultipleActive (ct_Code c) (active_count s' (ct_Code c)) \<in> set (ValidateIntegrity s')"
    by (force simp: ValidateIntegrity_def)
  with n show ?thesis using vs f by (simp add: cs_Active_def find_filter)
qed

theorem add_second_active_witness:
  "2 \<le> active_count demo_set2 GEO_WIDTH \<and> cs_Active demo_set2 GEO_WIDTH = Some (demo_rule 1 True)"
proof -
  have c: "ct_Code (demo_rule 2 True) = GEO_WIDTH" "ct_Active (demo_rule 2 True)"
    by (simp_all add: demo_rule_def)
  have "cs_Active demo_set1 GEO_WIDTH = Some (demo_rule 1 True)"
    by (simp add: cs_Active_def versions_of_def demo_set1_def demo_rule_def)
  then show ?thesis using add_second_active[of demo_set1 "demo_rule 2 True"] c demo_steps(2) by simp
qed

end
