(* ===== verification/Stair_Config.thy ===== *)
theory Stair_Config
  imports Units
begin

text \<open>
  \<open>internal/domain/engineering/stair.go\<close>: the parametric configuration of a stair and its
  validation. The string types of the code (\<open>FlightType\<close>, \<open>RailingSide\<close>, \<open>TurnDirection\<close>,
  \<open>TurnKind\<close>, \<open>SpiralDirection\<close>) stay strings, because values outside the constants are
  representable and \<open>Validate\<close> has to deal with them. The lemmas describe exactly which
  configurations pass, and what \<open>NewStairConfiguration\<close> can build.
\<close>

type_synonym FlightType = string
type_synonym RailingSide = string
type_synonym TurnDirection = string
type_synonym TurnKind = string
type_synonym SpiralDirection = string

definition FlightStraight :: FlightType where "FlightStraight = ''straight''"
definition FlightLShape :: FlightType where "FlightLShape = ''l_shape''"
definition FlightUShape :: FlightType where "FlightUShape = ''u_shape''"
definition FlightSpiral :: FlightType where "FlightSpiral = ''spiral''"

lemmas flight_defs = FlightStraight_def FlightLShape_def FlightUShape_def FlightSpiral_def

definition RailingSide_Valid :: "RailingSide \<Rightarrow> bool" where
  "RailingSide_Valid s \<longleftrightarrow> s \<in> {''none'', ''left'', ''right'', ''both''}"

definition TurnDirection_Valid :: "TurnDirection \<Rightarrow> bool" where
  "TurnDirection_Valid d \<longleftrightarrow> d = ''left'' \<or> d = ''right''"

definition TurnPlatform :: TurnKind where "TurnPlatform = ''platform''"
definition TurnWinder :: TurnKind where "TurnWinder = ''winder''"

definition TurnKind_Valid :: "TurnKind \<Rightarrow> bool" where
  "TurnKind_Valid k \<longleftrightarrow> k \<in> {TurnPlatform, TurnWinder, ''''}"

definition SpiralDirection_Valid :: "SpiralDirection \<Rightarrow> bool" where
  "SpiralDirection_Valid d \<longleftrightarrow> d = ''cw'' \<or> d = ''ccw''"

definition DefaultRailing :: "SpiralDirection \<Rightarrow> RailingSide" where
  "DefaultRailing d = (if d = ''cw'' then ''right'' else ''left'')"

record StairConfiguration =
  cf_Width :: Length
  cf_Height :: Length
  cf_Length :: Length
  cf_Angle :: Angle
  cf_Flight :: FlightType
  cf_StepCount :: int
  cf_StepHeight :: Length
  cf_StepWidth :: Length
  cf_TreadDepth :: Length
  cf_Clearance :: Length
  cf_RailingHeight :: Length
  cf_StringerLength :: Length
  cf_StringerThickness :: Length
  cf_StepThickness :: Length
  cf_Riser :: bool
  cf_LowerStepCount :: int
  cf_LandingWidth :: Length
  cf_LandingDepth :: Length
  cf_RoomWidth :: Length
  cf_RoomLength :: Length
  cf_ApproachSpace :: Length
  cf_TurnKind :: TurnKind
  cf_WinderCount :: int
  cf_OuterRadius :: Length
  cf_Material :: string
  cf_Railing :: RailingSide
  cf_RailingLower :: RailingSide
  cf_RailingLanding :: RailingSide
  cf_RailingUpper :: RailingSide
  cf_Direction :: TurnDirection
  cf_SpiralDirection :: SpiralDirection

text \<open>The zero value of the struct.\<close>

definition zero_config :: StairConfiguration where
  "zero_config = \<lparr>cf_Width = 0, cf_Height = 0, cf_Length = 0, cf_Angle = 0, cf_Flight = '''',
     cf_StepCount = 0, cf_StepHeight = 0, cf_StepWidth = 0, cf_TreadDepth = 0, cf_Clearance = 0,
     cf_RailingHeight = 0, cf_StringerLength = 0, cf_StringerThickness = 0, cf_StepThickness = 0,
     cf_Riser = False, cf_LowerStepCount = 0, cf_LandingWidth = 0, cf_LandingDepth = 0,
     cf_RoomWidth = 0, cf_RoomLength = 0, cf_ApproachSpace = 0, cf_TurnKind = '''',
     cf_WinderCount = 0, cf_OuterRadius = 0, cf_Material = '''', cf_Railing = '''',
     cf_RailingLower = '''', cf_RailingLanding = '''', cf_RailingUpper = '''',
     cf_Direction = '''', cf_SpiralDirection = ''''\<rparr>"

text \<open>One constructor per error return of \<open>Validate\<close>.\<close>

datatype stair_error =
    WidthNotPositive | HeightNotPositive | FlightRequired | StepCountNotPositive
  | NegativeStringerThickness | NegativeStepThickness | NegativeTreadDepth | NegativeClearance
  | NegativeRailingHeight | NegativeStringerLength | NegativeLowerStepCount
  | NegativeLandingWidth | NegativeLandingDepth | NegativeRoomWidth | NegativeRoomLength
  | NegativeApproachSpace | ApproachOutOfRange | InvalidTurnKind | WinderCountTooSmall
  | WellWidthNotPositive | LowerStepOutOfRange int | LandingNarrowerThanFlight
  | LandingDepthTooSmall | OuterRadiusTooSmall | InvalidRailingSide | InvalidTurnDirection
  | InvalidSpiralDirection

text \<open>The three groups of checks that depend on the flight type.\<close>

definition validate_approach :: "StairConfiguration \<Rightarrow> (stair_error, unit) result" where
  "validate_approach c =
     (if cf_Flight c = FlightStraight then
        (let a = (if feq (cf_ApproachSpace c) 0 then Fin 1000 else cf_ApproachSpace c)
         in guard_with (a < Fin 1000 \<or> a > Fin 1200) ApproachOutOfRange (Inr ()))
      else Inr ())"

definition validate_turn :: "StairConfiguration \<Rightarrow> (stair_error, unit) result" where
  "validate_turn c =
     (if (cf_Flight c = FlightLShape \<or> cf_Flight c = FlightUShape) \<and> cf_StepCount c > 1 then
        (if cf_TurnKind c = TurnWinder then
           guard_with (cf_WinderCount c < 3) WinderCountTooSmall
           (guard_with (cf_LandingWidth c \<le> 0) WellWidthNotPositive
           (guard_with (cf_LowerStepCount c < 1 \<or> cf_LowerStepCount c \<ge> cf_StepCount c)
              (LowerStepOutOfRange (cf_StepCount c - 1)) (Inr ())))
         else
           guard_with (cf_LandingWidth c < cf_Width c) LandingNarrowerThanFlight
           (guard_with (cf_LandingDepth c > 0 \<and> cf_LandingDepth c < cf_Width c)
              LandingDepthTooSmall
           (guard_with (cf_LowerStepCount c < 1 \<or> cf_LowerStepCount c \<ge> cf_StepCount c)
              (LowerStepOutOfRange (cf_StepCount c - 1)) (Inr ()))))
      else Inr ())"

definition validate_spiral :: "StairConfiguration \<Rightarrow> (stair_error, unit) result" where
  "validate_spiral c =
     (if cf_Flight c = FlightSpiral
      then guard_with (cf_OuterRadius c \<le> cf_Width c) OuterRadiusTooSmall (Inr ())
      else Inr ())"

definition validate_sides :: "StairConfiguration \<Rightarrow> (stair_error, unit) result" where
  "validate_sides c =
     guard_with ((cf_Railing c \<noteq> '''' \<and> \<not> RailingSide_Valid (cf_Railing c)) \<or>
                 (cf_RailingLower c \<noteq> '''' \<and> \<not> RailingSide_Valid (cf_RailingLower c)) \<or>
                 (cf_RailingLanding c \<noteq> '''' \<and> \<not> RailingSide_Valid (cf_RailingLanding c)) \<or>
                 (cf_RailingUpper c \<noteq> '''' \<and> \<not> RailingSide_Valid (cf_RailingUpper c)))
       InvalidRailingSide
     (guard_with (cf_Direction c \<noteq> '''' \<and> \<not> TurnDirection_Valid (cf_Direction c))
       InvalidTurnDirection
     (guard_with (cf_SpiralDirection c \<noteq> '''' \<and> \<not> SpiralDirection_Valid (cf_SpiralDirection c))
       InvalidSpiralDirection
     (Inr ())))"

definition stair_Validate :: "StairConfiguration \<Rightarrow> (stair_error, unit) result" where
  "stair_Validate c =
     guard_with (cf_Width c \<le> 0) WidthNotPositive
     (guard_with (cf_Height c \<le> 0) HeightNotPositive
     (guard_with (cf_Flight c = '''') FlightRequired
     (guard_with (cf_StepCount c < 1) StepCountNotPositive
     (guard_with (cf_StringerThickness c < 0) NegativeStringerThickness
     (guard_with (cf_StepThickness c < 0) NegativeStepThickness
     (guard_with (cf_TreadDepth c < 0) NegativeTreadDepth
     (guard_with (cf_Clearance c < 0) NegativeClearance
     (guard_with (cf_RailingHeight c < 0) NegativeRailingHeight
     (guard_with (cf_StringerLength c < 0) NegativeStringerLength
     (guard_with (cf_LowerStepCount c < 0) NegativeLowerStepCount
     (guard_with (cf_LandingWidth c < 0) NegativeLandingWidth
     (guard_with (cf_LandingDepth c < 0) NegativeLandingDepth
     (guard_with (cf_RoomWidth c < 0) NegativeRoomWidth
     (guard_with (cf_RoomLength c < 0) NegativeRoomLength
     (guard_with (cf_ApproachSpace c < 0) NegativeApproachSpace
     (bindR (validate_approach c) (\<lambda>_.
      guard_with (cf_TurnKind c \<noteq> '''' \<and> \<not> TurnKind_Valid (cf_TurnKind c)) InvalidTurnKind
     (bindR (validate_turn c) (\<lambda>_.
      bindR (validate_spiral c) (\<lambda>_.
      validate_sides c))))))))))))))))))))"

text \<open>
  \<open>NewStairConfiguration\<close> returns the configuration together with the validation error; the
  caller uses the configuration when the error is nil.
\<close>

definition initial_config :: "Length \<Rightarrow> Length \<Rightarrow> FlightType \<Rightarrow> StairConfiguration" where
  "initial_config w h f = zero_config\<lparr>cf_Width := w, cf_Height := h, cf_Flight := f,
     cf_StepCount := 1, cf_StepHeight := h, cf_Riser := True\<rparr>"

definition NewStairConfiguration ::
    "Length \<Rightarrow> Length \<Rightarrow> FlightType \<Rightarrow> StairConfiguration \<times> (stair_error, unit) result" where
  "NewStairConfiguration w h f = (initial_config w h f, stair_Validate (initial_config w h f))"

subsection \<open>What a valid configuration guarantees\<close>

lemma stair_Validate_Inr_D:
  assumes "stair_Validate c = Inr u"
  shows "\<not> cf_Width c \<le> 0" "\<not> cf_Height c \<le> 0" "1 \<le> cf_StepCount c"
    "0 \<le> cf_LowerStepCount c"
    "validate_approach c = Inr ()" "validate_turn c = Inr ()" "validate_spiral c = Inr ()"
    "validate_sides c = Inr ()"
  using assms by (auto simp: stair_Validate_def result_iffs)

text \<open>A valid L- or U-shaped configuration of more than one step has a lower flight of at
  least one step and leaves at least one for the rest; with winders there are at least three of
  them and the well has a positive width, with a platform the landing is not narrower than the
  flight. A valid spiral has an outer radius above its width.
\<close>

theorem valid_turn_shape:
  assumes "stair_Validate c = Inr ()"
  shows "\<not> cf_Width c \<le> 0 \<and> \<not> cf_Height c \<le> 0 \<and> 1 \<le> cf_StepCount c
    \<and> (cf_Flight c \<in> {FlightLShape, FlightUShape} \<and> 1 < cf_StepCount c \<longrightarrow>
        1 \<le> cf_LowerStepCount c \<and> cf_LowerStepCount c < cf_StepCount c \<and>
        (if cf_TurnKind c = TurnWinder
         then 3 \<le> cf_WinderCount c \<and> \<not> cf_LandingWidth c \<le> 0
         else \<not> cf_LandingWidth c < cf_Width c))
    \<and> (cf_Flight c = FlightSpiral \<longrightarrow> \<not> cf_OuterRadius c \<le> cf_Width c)"
  using stair_Validate_Inr_D[OF assms]
  by (auto simp: validate_turn_def validate_spiral_def result_iffs split: if_splits)

theorem valid_turn_shape_witness:
  "stair_Validate (zero_config\<lparr>cf_Width := Fin 900, cf_Height := Fin 3000, cf_Flight := FlightLShape,
      cf_StepCount := 17, cf_LowerStepCount := 6, cf_LandingWidth := Fin 1000\<rparr>) = Inr ()
   \<and> (6::int) < 17"
proof -
  let ?c = "zero_config\<lparr>cf_Width := Fin 900, cf_Height := Fin 3000, cf_Flight := FlightLShape,
      cf_StepCount := 17, cf_LowerStepCount := 6, cf_LandingWidth := Fin 1000\<rparr>"
  have v: "stair_Validate ?c = Inr ()" by code_simp
  then show ?thesis using valid_turn_shape[OF v] by (simp add: flight_defs)
qed

text \<open>
  The factory builds straight, L-shaped and U-shaped configurations but never a spiral one: its
  outer radius is left at zero, which the radius check rejects for every width the first check
  lets through.
\<close>

lemma zero_config_fields:
  "validate_sides (initial_config w h f) = Inr ()"
  "validate_turn (initial_config w h f) = Inr ()"
  "validate_approach (initial_config w h f) = Inr ()"
  "validate_spiral (initial_config w h f) =
     (if f = FlightSpiral then guard_with (0 \<le> w) OuterRadiusTooSmall (Inr ()) else Inr ())"
  by (simp_all add: initial_config_def zero_config_def validate_sides_def validate_turn_def
      validate_approach_def validate_spiral_def zero_f64_def)

lemma NewStairConfiguration_result:
  "snd (NewStairConfiguration w h f) =
     guard_with (w \<le> 0) WidthNotPositive
     (guard_with (h \<le> 0) HeightNotPositive
     (guard_with (f = '''') FlightRequired
     (guard_with (f = FlightSpiral \<and> 0 \<le> w) OuterRadiusTooSmall
     (Inr ()))))"
proof -
  have "stair_Validate (initial_config w h f) =
      guard_with (w \<le> 0) WidthNotPositive
      (guard_with (h \<le> 0) HeightNotPositive
      (guard_with (f = '''') FlightRequired
      (bindR (validate_spiral (initial_config w h f)) (\<lambda>_. Inr ()))))"
    unfolding stair_Validate_def zero_config_fields(1,2,3)
    by (simp add: initial_config_def zero_config_def zero_f64_def TurnKind_Valid_def)
  then show ?thesis
    by (simp add: NewStairConfiguration_def zero_config_fields(4) guard_with_def)
qed

end
