(* ===== verification/Go_Fmt.thy ===== *)
theory Go_Fmt
  imports Float64
begin

text \<open>
  The parts of Go's \<open>strconv\<close>, \<open>fmt\<close> and \<open>strings\<close> the modelled code prints with:
  \<open>strconv.Itoa\<close>, the verb \<open>%.<d>f\<close> (correctly rounded, half to even on the exact value) and
  \<open>strings.NewReplacer\<close>.
\<close>

definition digit_char :: "nat \<Rightarrow> char" where
  "digit_char d = char_of (48 + d)"

fun show_nat :: "nat \<Rightarrow> string" where
  "show_nat n = (if n < 10 then [digit_char n] else show_nat (n div 10) @ [digit_char (n mod 10)])"

declare show_nat.simps [simp del]

definition Itoa :: "int \<Rightarrow> string" where
  "Itoa n = (if n < 0 then ''-'' @ show_nat (nat (- n)) else show_nat (nat n))"

lemma digit_char_inject: "a < 10 \<Longrightarrow> b < 10 \<Longrightarrow> digit_char a = digit_char b \<longleftrightarrow> a = b"
  by (simp add: digit_char_def char_of_eq_iff take_bit_nat_eq_self)

text \<open>Reading the digits back: \<open>show_nat\<close> is injective.\<close>

definition read_nat :: "string \<Rightarrow> nat" where
  "read_nat s = fold (\<lambda>c n. 10 * n + (of_char c - 48)) s 0"

lemma read_show_nat [simp]: "read_nat (show_nat n) = n"
proof (induction n rule: show_nat.induct)
  case (1 n)
  have d: "of_char (digit_char k) = (48 + k :: nat)" if "k < 10" for k
    using that by (simp add: digit_char_def)
  show ?case
  proof (cases "n < 10")
    case True
    then show ?thesis by (simp add: show_nat.simps [of n] read_nat_def d)
  next
    case False
    with 1 have "read_nat (show_nat (n div 10)) = n div 10" by simp
    then show ?thesis using False by (simp add: show_nat.simps [of n] read_nat_def d)
  qed
qed

lemma show_nat_inject: "show_nat m = show_nat n \<longleftrightarrow> m = n"
  by (metis read_show_nat)

lemma show_nat_nonempty: "show_nat n \<noteq> []"
  by (subst show_nat.simps) simp

lemma show_nat_no_minus: "hd (show_nat n) \<noteq> CHR ''-''"
proof (induction n rule: show_nat.induct)
  case (1 n)
  have "digit_char k \<noteq> CHR ''-''" if "k < 10" for k
    using that by (simp add: digit_char_def char_of_eq_iff take_bit_nat_eq_self)
  then show ?case using 1 show_nat_nonempty[of "n div 10"]
    by (cases "n < 10") (auto simp: show_nat.simps [of n])
qed

lemma Itoa_inject: "Itoa m = Itoa n \<longleftrightarrow> m = n"
proof -
  have "show_nat a \<noteq> ''-'' @ s" for a s using show_nat_no_minus[of a] by auto
  then show ?thesis by (auto simp: Itoa_def show_nat_inject split: if_splits) (metis append_Cons append_Nil)
qed

text \<open>\<open>fmt.Sprintf("%.<d>f", x)\<close>\<close>

definition pad_left :: "nat \<Rightarrow> char \<Rightarrow> string \<Rightarrow> string" where
  "pad_left w c s = replicate (w - length s) c @ s"

fun fmt_f :: "nat \<Rightarrow> f64 \<Rightarrow> string" where
  "fmt_f d NaN = ''NaN''"
| "fmt_f d (Inf s) = (if s then ''-Inf'' else ''+Inf'')"
| "fmt_f d (Fin q) =
     (let k = nat (rhe (\<bar>q\<bar> * 10 ^ d));
          body = show_nat (k div 10 ^ d) @
            (if d = 0 then '''' else ''.'' @ pad_left d (CHR ''0'') (show_nat (k mod 10 ^ d)))
      in if q < 0 then ''-'' @ body else body)"

text \<open>
  \<open>strings.NewReplacer(old1, new1, ...).Replace(s)\<close>: one pass from the left; at each position
  the first pair whose old string (never empty here) starts there wins, and the replacement is
  not scanned again.
\<close>

function replacer :: "(string \<times> string) list \<Rightarrow> string \<Rightarrow> string" where
  "replacer kvs [] = []"
| "replacer kvs (c # cs) =
     (case find (\<lambda>(k, v). k \<noteq> [] \<and> take (length k) (c # cs) = k) kvs of
        None \<Rightarrow> c # replacer kvs cs
      | Some (k, v) \<Rightarrow> v @ replacer kvs (drop (length k - 1) cs))"
  by pat_completeness auto
termination
  by (relation "measure (\<lambda>(kvs, s). length s)") auto

text \<open>A text without any of the old strings is left alone.\<close>

lemma replacer_id:
  assumes "\<And>i k v. (k, v) \<in> set kvs \<Longrightarrow> k \<noteq> [] \<Longrightarrow> take (length k) (drop i s) \<noteq> k"
  shows "replacer kvs s = s"
  using assms
proof (induction s)
  case (Cons c cs)
  have "find (\<lambda>(k, v). k \<noteq> [] \<and> take (length k) (c # cs) = k) kvs = None"
    using Cons.prems[of _ _ 0] by (auto simp: find_None_iff)
  moreover have "replacer kvs cs = cs" using Cons.prems[of _ _ "Suc i" for i] by (intro Cons.IH) auto
  ultimately show ?case by simp
qed simp

end
