(* ===== verification/Validation.thy ===== *)
theory Validation
  imports Constraint Stair_Config Go_Fmt
begin

text \<open>
  The Validation Engine, \<open>internal/engine/validation/\<close>: the bindings of rules to fields of the
  parametric model, \<open>Validate\<close> and the rendering of a rule's guide. The fields \<open>Suggestions\<close> and
  \<open>Variations\<close> of an issue are empty here; the advisor fills the first.
  \<open>sort.Slice\<close> on at most six issues is the insertion sort of the library.
\<close>

record Suggestion =
  sg_StepCount :: int
  sg_LowerStepCount :: int
  sg_WinderCount :: int
  sg_StepHeightMm :: f64
  sg_TreadDepthMm :: f64
  sg_AngleDeg :: f64
  sg_OuterRadiusMm :: f64
  sg_WidthMm :: f64

record Variation =
  vn_ID :: string
  vn_Title :: string
  vn_Description :: string
  vn_Config :: "(string \<times> string) list"
  vn_Fits :: bool
  vn_PassesNorms :: bool
  vn_Summary :: string

record Issue =
  is_ID :: string
  is_Code :: RuleCode
  is_Severity :: Severity
  is_Element :: string
  is_Message :: string
  is_Value :: f64
  is_Min :: f64
  is_Max :: f64
  is_HasMin :: bool
  is_HasMax :: bool
  is_Fix :: string
  is_Param :: string
  is_Guide :: string
  is_Suggestions :: "Suggestion list"
  is_Variations :: "Variation list"

record Result =
  rs_Issues :: "Issue list"
  rs_Valid :: bool
  rs_Blocking :: bool

record binding =
  bd_code :: RuleCode
  bd_element :: string
  bd_value :: "StairConfiguration \<Rightarrow> f64"

definition bindings :: "binding list" where
  "bindings =
    [\<lparr>bd_code = GEO_STEP_HEIGHT, bd_element = ''step_height'', bd_value = cf_StepHeight\<rparr>,
     \<lparr>bd_code = GEO_TREAD_DEPTH, bd_element = ''tread_depth'', bd_value = cf_TreadDepth\<rparr>,
     \<lparr>bd_code = GEO_ANGLE, bd_element = ''angle'', bd_value = (\<lambda>c. Degrees (cf_Angle c))\<rparr>,
     \<lparr>bd_code = GEO_CLEARANCE, bd_element = ''clearance'', bd_value = cf_Clearance\<rparr>,
     \<lparr>bd_code = GEO_STRINGER_THICKNESS, bd_element = ''stringer_thickness'',
       bd_value = cf_StringerThickness\<rparr>,
     \<lparr>bd_code = SAF_RAILING_HEIGHT, bd_element = ''railing_height'', bd_value = cf_RailingHeight\<rparr>]"

definition RenderGuide :: "string \<Rightarrow> Issue \<Rightarrow> f64 \<Rightarrow> string" where
  "RenderGuide tpl it heightMm = replacer
     [(''{value}'', fmt_f 0 (is_Value it)), (''{angle}'', fmt_f 1 (is_Value it)),
      (''{min}'', fmt_f 0 (is_Min it)), (''{max}'', fmt_f 0 (is_Max it)),
      (''{height}'', fmt_f 0 heightMm)] tpl"

definition make_issue :: "binding \<Rightarrow> Constraint \<Rightarrow> StairConfiguration \<Rightarrow> Issue" where
  "make_issue b rule cfg =
     (let i = \<lparr>is_ID = '''', is_Code = ct_Code rule, is_Severity = ct_Severity rule,
            is_Element = bd_element b, is_Message = ct_Message rule, is_Value = bd_value b cfg,
            is_Min = rg_Min (ct_Range rule), is_Max = rg_Max (ct_Range rule),
            is_HasMin = rg_HasMin (ct_Range rule), is_HasMax = rg_HasMax (ct_Range rule),
            is_Fix = ct_Fix rule, is_Param = '''', is_Guide = '''',
            is_Suggestions = [], is_Variations = []\<rparr>
      in case ct_Advice rule of
           None \<Rightarrow> i
         | Some a \<Rightarrow> (let i' = i\<lparr>is_Param := ad_Param a\<rparr>
                    in i'\<lparr>is_Guide := RenderGuide (ad_Guide a) i' (cf_Height cfg)\<rparr>))"

text \<open>The body of the loop over the bindings: the issue of one binding, if it has one.\<close>

definition issue_of :: "StairConfiguration \<Rightarrow> ConstraintSet \<Rightarrow> binding \<Rightarrow> Issue option" where
  "issue_of cfg s b =
     (case cs_Resolve s (bd_code b) (bd_value b cfg) of
        (Some rule, False) \<Rightarrow> Some (make_issue b rule cfg)
      | _ \<Rightarrow> None)"

definition hasSeverity :: "Issue list \<Rightarrow> Severity \<Rightarrow> bool" where
  "hasSeverity is sev \<longleftrightarrow> (\<exists>i \<in> set is. is_Severity i = sev)"

fun number_issues :: "nat \<Rightarrow> Issue list \<Rightarrow> Issue list" where
  "number_issues k [] = []"
| "number_issues k (i # is) = i\<lparr>is_ID := ''ISSUE-'' @ Itoa (int k + 1)\<rparr> # number_issues (Suc k) is"

definition Validate :: "StairConfiguration \<Rightarrow> ConstraintSet \<Rightarrow> Result" where
  "Validate cfg s =
     (let issues = number_issues 0 (insertion_sort is_Code
            (List.map_filter (issue_of cfg s) bindings))
      in \<lparr>rs_Issues = issues, rs_Valid = \<not> hasSeverity issues SeverityError,
          rs_Blocking = hasSeverity issues SeverityError\<rparr>)"

subsection \<open>Facts\<close>

lemma number_issues_fields:
  assumes "\<And>i x. f (i\<lparr>is_ID := x\<rparr>) = f i"
  shows "map f (number_issues k is) = map f is"
  by (induction "is" arbitrary: k) (auto simp: assms)

lemma number_issues_length [simp]: "length (number_issues k is) = length is"
  by (induction "is" arbitrary: k) auto



lemma number_issues_IDs:
  "map is_ID (number_issues k is) = map (\<lambda>j. ''ISSUE-'' @ Itoa (int j)) [Suc k ..< Suc (k + length is)]"
proof (induction "is" arbitrary: k)
  case (Cons i "is")
  have "[Suc k ..< Suc (k + length (i # is))] = Suc k # [Suc (Suc k) ..< Suc (Suc k + length is)]"
    using upt_conv_Cons[of "Suc k" "Suc (k + length (i # is))"] by simp
  then show ?case using Cons[of "Suc k"] by (simp add: add.commute del: upt_Suc)
qed simp

lemma hasSeverity_map: "map is_Severity xs = map is_Severity ys \<Longrightarrow> hasSeverity xs s = hasSeverity ys s"
  by (auto simp: hasSeverity_def) (metis image_eqI imageE list.set_map)+

lemma hasSeverity_number [simp]: "hasSeverity (number_issues k is) s = hasSeverity is s"
  by (rule hasSeverity_map) (simp add: number_issues_fields)

lemma hasSeverity_sort [simp]: "hasSeverity (insertion_sort f is) s = hasSeverity is s"
  by (simp add: hasSeverity_def)

text \<open>When a binding is violated: its rule is active and does not contain the value.\<close>

definition violated :: "StairConfiguration \<Rightarrow> ConstraintSet \<Rightarrow> binding \<Rightarrow> Constraint \<Rightarrow> bool" where
  "violated cfg s b rule \<longleftrightarrow>
     cs_Active s (bd_code b) = Some rule \<and> \<not> Contains (ct_Range rule) (bd_value b cfg)"

lemma issue_of_Some:
  "issue_of cfg s b = Some i \<longleftrightarrow> (\<exists>rule. violated cfg s b rule \<and> i = make_issue b rule cfg)"
  by (auto simp: issue_of_def cs_Resolve_def violated_def split: option.splits bool.splits)

lemma make_issue_fields [simp]:
  "is_Code (make_issue b r cfg) = ct_Code r"
  "is_Severity (make_issue b r cfg) = ct_Severity r"
  "is_Element (make_issue b r cfg) = bd_element b"
  "is_Value (make_issue b r cfg) = bd_value b cfg"
  by (simp_all add: make_issue_def Let_def split: option.splits)

lemma set_map_filter': "set (List.map_filter f xs) = {y. \<exists>x \<in> set xs. f x = Some y}"
  by (auto simp: List.map_filter_def) force

lemma violated_code: "set_ok s \<Longrightarrow> violated cfg s b r \<Longrightarrow> ct_Code r = bd_code b"
  by (auto simp: violated_def dest: cs_Active_code)

lemma Validate_blocking_iff:
  "rs_Blocking (Validate cfg s) \<longleftrightarrow>
     (\<exists>b \<in> set bindings. \<exists>r. violated cfg s b r \<and> ct_Severity r = SeverityError)"
proof -
  have "rs_Blocking (Validate cfg s) \<longleftrightarrow>
      hasSeverity (List.map_filter (issue_of cfg s) bindings) SeverityError"
    by (simp add: Validate_def Let_def)
  also have "\<dots> \<longleftrightarrow> (\<exists>b \<in> set bindings. \<exists>r. violated cfg s b r \<and> ct_Severity r = SeverityError)"
    by (fastforce simp: hasSeverity_def set_map_filter' issue_of_Some)
  finally show ?thesis .
qed

text \<open>Comparison of a value with a bound fails on NaN, so no range refuses it.\<close>

lemma Contains_NaN [simp]: "Contains r NaN"
  by (cases "rg_Tolerance r"; cases "rg_Min r"; cases "rg_Max r") (simp_all add: Contains_def minus_f64_def)

subsection \<open>The tolerance of a range\<close>

lemma f64_le_less_trans: "x \<le> y \<Longrightarrow> y < z \<Longrightarrow> x < (z :: f64)"
  by (cases x; cases y; cases z) auto

lemma f64_less_le_trans: "x < y \<Longrightarrow> y \<le> z \<Longrightarrow> x < (z :: f64)"
  by (cases x; cases y; cases z) auto

lemma f64_not_less: "x \<le> y \<Longrightarrow> \<not> y < (x :: f64)"
  by (cases x; cases y) auto

lemma tolerance_near:
  assumes "0 \<le> tol" "tol \<le> 1"
  shows "fl tol = Fin (rnd tol)" "\<bar>rnd tol - tol\<bar> \<le> 1 / 10000" "0 \<le> rnd tol"
  using fl_near[of tol 0] assms rnd_nonneg[of tol] by auto

lemma sum_below:
  assumes tol: "0 \<le> tol" "tol \<le> 1" and lo: "\<bar>lo\<bar> \<le> 4000" "q \<le> lo - tol - 1 / 1000"
  shows "Fin q + fl tol < Fin lo"
proof -
  let ?y = "lo - 9 / 10000"
  have "\<bar>?y\<bar> \<le> 2 ^ 12" using lo(1) by simp
  note y = fl_near[OF this]
  have "q + rnd tol \<le> ?y" using tolerance_near[OF tol] lo(2) by linarith
  then have "fl (q + rnd tol) \<le> fl ?y" by (rule fl_mono)
  moreover have "rnd ?y < lo" using y(2) by (simp add: abs_if split: if_splits)
  then have "fl ?y < Fin lo" using y(1) by simp
  ultimately show ?thesis using tolerance_near(1)[OF tol] by (simp add: f64_le_less_trans)
qed

lemma sum_not_below:
  assumes tol: "0 \<le> tol" "tol \<le> 1" and lo: "is_rep (Fin lo)" "lo \<le> q"
  shows "\<not> Fin q + fl tol < Fin lo"
proof -
  have "fl lo \<le> fl (q + rnd tol)" using tolerance_near(3)[OF tol] lo(2) by (intro fl_mono) simp
  then show ?thesis using tolerance_near(1)[OF tol] lo(1) by (simp add: fl_of_rep f64_not_less)
qed

lemma diff_sum: "Fin q - fl tol = - (Fin (- q) + fl tol)"
proof -
  have m: "fl (- x) = - fl x" for x by (auto simp: fl_def rnd_minus Let_def)
  show ?thesis
  proof (cases "fl tol")
    case (Fin t)
    have "fl (q - t) = - fl (t - q)" using m[of "t - q"] by simp
    then show ?thesis using Fin by (simp add: minus_f64_def)
  qed (auto simp: minus_f64_def)
qed

lemma minus_less_iff: "Fin hi < - x \<longleftrightarrow> x < Fin (- hi)"
  by (cases x) auto

lemma diff_above:
  assumes "0 \<le> tol" "tol \<le> 1" "\<bar>hi\<bar> \<le> 4000" "hi + tol + 1 / 1000 \<le> q"
  shows "Fin hi < Fin q - fl tol"
  unfolding diff_sum minus_less_iff using assms by (intro sum_below) auto

lemma diff_not_above:
  assumes "0 \<le> tol" "tol \<le> 1" "is_rep (Fin hi)" "q \<le> hi"
  shows "\<not> Fin hi < Fin q - fl tol"
  unfolding diff_sum minus_less_iff using assms
  by (intro sum_not_below) (auto simp: is_rep_def rnd_minus)

lemma is_rep_numeral: "\<bar>n\<bar> \<le> 2 ^ 53 \<Longrightarrow> is_rep (Fin (of_int n))"
proof -
  assume n: "\<bar>n\<bar> \<le> 2 ^ 53"
  then have "(of_int \<bar>n\<bar> :: rat) \<le> of_int (2 ^ 53)" using of_int_le_iff by blast
  also have "(of_int (2 ^ 53) :: rat) < 2 ^ 1024" by simp
  finally show ?thesis using rnd_of_int[OF n] by (simp add: is_rep_def)
qed

lemma Contains_minmax:
  assumes "\<bar>lo\<bar> \<le> 4000" "\<bar>hi\<bar> \<le> 4000" "0 \<le> tol" "tol \<le> 1"
  shows "of_int lo \<le> q \<and> q \<le> of_int hi \<Longrightarrow> Contains (range_minmax (of_int lo) (of_int hi) tol) (Fin q)"
    and "q \<le> of_int lo - tol - 1 / 1000 \<or> of_int hi + tol + 1 / 1000 \<le> q \<Longrightarrow>
      \<not> Contains (range_minmax (of_int lo) (of_int hi) tol) (Fin q)"
proof -
  have r: "is_rep (Fin (of_int lo))" "is_rep (Fin (of_int hi))"
    using assms by (auto intro!: is_rep_numeral)
  have a: "\<bar>of_int lo\<bar> \<le> (4000::rat)" "\<bar>of_int hi\<bar> \<le> (4000::rat)"
    using assms by (simp_all add: abs_le_iff)
  show "Contains (range_minmax (of_int lo) (of_int hi) tol) (Fin q)"
    if "of_int lo \<le> q \<and> q \<le> of_int hi"
    using that r assms sum_not_below[of tol "of_int lo" q] diff_not_above[of tol "of_int hi" q]
    by (simp add: Contains_def range_minmax_def fl_of_rep)
  show "\<not> Contains (range_minmax (of_int lo) (of_int hi) tol) (Fin q)"
    if "q \<le> of_int lo - tol - 1 / 1000 \<or> of_int hi + tol + 1 / 1000 \<le> q"
    using that r a assms sum_below[of tol "of_int lo" q] diff_above[of tol "of_int hi" q]
    by (auto simp: Contains_def range_minmax_def fl_of_rep)
qed

subsection \<open>Properties\<close>

text \<open>The violations of a model, one per binding whose active rule refuses the value.\<close>

definition violations_of ::
    "StairConfiguration \<Rightarrow> ConstraintSet \<Rightarrow> (RuleCode \<times> Severity \<times> string \<times> f64) list" where
  "violations_of cfg s = concat (map (\<lambda>b.
     case cs_Active s (bd_code b) of
       None \<Rightarrow> []
     | Some r \<Rightarrow> if Contains (ct_Range r) (bd_value b cfg) then []
         else [(ct_Code r, ct_Severity r, bd_element b, bd_value b cfg)]) bindings)"

definition issue_key :: "Issue \<Rightarrow> RuleCode \<times> Severity \<times> string \<times> f64" where
  "issue_key i = (is_Code i, is_Severity i, is_Element i, is_Value i)"

lemma map_filter_key:
  "map issue_key (List.map_filter (issue_of cfg s) bs) = concat (map (\<lambda>b.
     case cs_Active s (bd_code b) of
       None \<Rightarrow> []
     | Some r \<Rightarrow> if Contains (ct_Range r) (bd_value b cfg) then []
         else [(ct_Code r, ct_Severity r, bd_element b, bd_value b cfg)]) bs)"
  by (induction bs)
    (auto simp: List.map_filter_def issue_of_def cs_Resolve_def issue_key_def split: option.splits)

text \<open>C6: validation reports exactly the violated bindings, each once, sorted by code with the
  identifiers \<open>ISSUE-1, ISSUE-2, ...\<close> in that order; the result blocks exactly when a rule of
  severity error is violated, and is valid exactly when it does not block.\<close>

theorem validate_report:
  fixes cfg s defines "r \<equiv> Validate cfg s"
  shows "mset (map issue_key (rs_Issues r)) = mset (violations_of cfg s)
    \<and> sorted (map is_Code (rs_Issues r))
    \<and> map is_ID (rs_Issues r) = map (\<lambda>k. ''ISSUE-'' @ Itoa (int k)) [1 ..< Suc (length (violations_of cfg s))]
    \<and> (rs_Blocking r \<longleftrightarrow> (\<exists>v \<in> set (violations_of cfg s). fst (snd v) = SeverityError))
    \<and> rs_Valid r = (\<not> rs_Blocking r)"
proof -
  let ?l = "List.map_filter (issue_of cfg s) bindings"
  have k: "map issue_key ?l = violations_of cfg s" by (simp add: map_filter_key violations_of_def)
  have is': "rs_Issues r = number_issues 0 (insertion_sort is_Code ?l)"
    by (simp add: r_def Validate_def Let_def)
  have m: "mset (map issue_key (rs_Issues r)) = mset (violations_of cfg s)"
  proof -
    have "map issue_key (rs_Issues r) = map issue_key (insertion_sort is_Code ?l)"
      unfolding is' by (rule number_issues_fields) (simp add: issue_key_def)
    then have "mset (map issue_key (rs_Issues r)) = mset (map issue_key ?l)"
      by (simp add: mset_map)
    then show ?thesis using k by simp
  qed
  have "length (violations_of cfg s) = length ?l" using k by (metis length_map)
  then have ids: "map is_ID (rs_Issues r)
      = map (\<lambda>k. ''ISSUE-'' @ Itoa (int k)) [1 ..< Suc (length (violations_of cfg s))]"
    by (simp add: is' number_issues_IDs del: upt_Suc)
  have "rs_Blocking r \<longleftrightarrow> hasSeverity ?l SeverityError"
    by (simp add: r_def Validate_def Let_def)
  also have "\<dots> \<longleftrightarrow> (\<exists>v \<in> set (violations_of cfg s). fst (snd v) = SeverityError)"
    by (auto simp: hasSeverity_def issue_key_def simp flip: k)
  finally show ?thesis using m ids
    by (simp add: is' number_issues_fields) (simp add: r_def Validate_def Let_def)
qed

lemma mustAdd_versions:
  assumes "ct_Code c \<noteq> []" "ct_Version c = 1" "versions_of s (ct_Code c) = []"
  shows "versions_of (mustAdd s c) code = (if code = ct_Code c then [c] else versions_of s code)"
  using assms by (simp add: mustAdd_def cs_Add_def)

lemma foldl_mustAdd_versions:
  assumes "list_all (\<lambda>c. ct_Code c \<noteq> [] \<and> ct_Version c = 1 \<and> versions_of s (ct_Code c) = []) rs"
    "distinct (map ct_Code rs)"
  shows "versions_of (foldl mustAdd s rs) code = versions_of s code @ filter (\<lambda>c. ct_Code c = code) rs"
  using assms
proof (induction rs arbitrary: s)
  case (Cons c rs)
  have "list_all (\<lambda>d. ct_Code d \<noteq> [] \<and> ct_Version d = 1 \<and> versions_of (mustAdd s c) (ct_Code d) = []) rs"
    using Cons.prems by (auto simp: list_all_iff mustAdd_versions image_iff)
  with Cons.prems show ?case
    by (auto simp: Cons.IH mustAdd_versions filter_empty_conv image_iff)
qed simp

lemma standard_codes: "map ct_Code (standard_rules txt) = [GEO_STEP_HEIGHT, GEO_TREAD_DEPTH, GEO_ANGLE, GEO_CLEARANCE,
    GEO_STRINGER_THICKNESS, SAF_RAILING_HEIGHT, GEO_SPIRAL_TREAD, GEO_SPIRAL_RADIUS]"
  by (simp add: standard_rules_def profile_rule_def)

lemma codes_distinct: "distinct (map ct_Code (standard_rules txt))"
  unfolding standard_codes by (simp add: rule_codes)

lemma standard_versions:
  "versions_of (StandardProfile txt name) code = filter (\<lambda>c. ct_Code c = code) (standard_rules txt)"
proof -
  have "list_all (\<lambda>c. ct_Code c \<noteq> []) (standard_rules txt)"
    by (simp add: standard_rules_def profile_rule_def rule_codes)
  moreover have "list_all (\<lambda>c. ct_Version c = 1) (standard_rules txt)"
    by (simp add: standard_rules_def profile_rule_def)
  ultimately show ?thesis unfolding StandardProfile_def
    by (subst foldl_mustAdd_versions[OF _ codes_distinct]) (auto simp: list_all_iff versions_of_def NewSet_def)
qed

lemma find_distinct:
  assumes "distinct (map f xs)" "i < length xs" "P (xs ! i)"
  shows "find P (filter (\<lambda>x. f x = f (xs ! i)) xs) = Some (xs ! i)"
proof -
  have "filter (\<lambda>x. f x = f (xs ! i)) xs = [xs ! i]" using assms(1,2)
  proof (induction xs arbitrary: i)
    case (Cons x xs)
    have "f (xs ! k) \<noteq> f x" if "k < length xs" for k
      using Cons.prems that nth_mem[OF that] by (metis distinct.simps(2) image_eqI list.set_map list.simps(9))
    note ne = this
    show ?case
    proof (cases i)
      case 0
      then show ?thesis using Cons.prems by (auto simp: filter_empty_conv dest: sym)
    next
      case (Suc k)
      then show ?thesis using Cons.prems Cons.IH[of k] ne[of k] by auto
    qed
  qed simp
  then show ?thesis using assms(3) by simp
qed

lemma standard_nth:
  assumes "i < length (standard_rules txt)"
  shows "cs_Active (StandardProfile txt name) (map ct_Code (standard_rules txt) ! i) = Some (standard_rules txt ! i)"
proof -
  have "list_all ct_Active (standard_rules txt)" by (simp add: standard_rules_def profile_rule_def)
  then show ?thesis using assms find_distinct[OF codes_distinct assms, of ct_Active]
    by (simp add: cs_Active_def standard_versions list_all_length)
qed

lemma standard_active:
  "cs_Active (StandardProfile txt name) GEO_STEP_HEIGHT = Some (standard_rules txt ! 0)"
  "cs_Active (StandardProfile txt name) GEO_TREAD_DEPTH = Some (standard_rules txt ! 1)"
  "cs_Active (StandardProfile txt name) GEO_ANGLE = Some (standard_rules txt ! 2)"
  "cs_Active (StandardProfile txt name) GEO_CLEARANCE = Some (standard_rules txt ! 3)"
  "cs_Active (StandardProfile txt name) GEO_STRINGER_THICKNESS = Some (standard_rules txt ! 4)"
  "cs_Active (StandardProfile txt name) SAF_RAILING_HEIGHT = Some (standard_rules txt ! 5)"
proof -
  have len: "length (standard_rules txt) = 8" by (simp add: standard_rules_def)
  have n: "i < 8 \<Longrightarrow> cs_Active (StandardProfile txt name) ([GEO_STEP_HEIGHT, GEO_TREAD_DEPTH, GEO_ANGLE, GEO_CLEARANCE,
      GEO_STRINGER_THICKNESS, SAF_RAILING_HEIGHT, GEO_SPIRAL_TREAD, GEO_SPIRAL_RADIUS] ! i) = Some (standard_rules txt ! i)" for i
    by (metis standard_nth standard_codes len)
  show "cs_Active (StandardProfile txt name) GEO_STEP_HEIGHT = Some (standard_rules txt ! 0)"
    "cs_Active (StandardProfile txt name) GEO_TREAD_DEPTH = Some (standard_rules txt ! 1)"
    "cs_Active (StandardProfile txt name) GEO_ANGLE = Some (standard_rules txt ! 2)"
    "cs_Active (StandardProfile txt name) GEO_CLEARANCE = Some (standard_rules txt ! 3)"
    "cs_Active (StandardProfile txt name) GEO_STRINGER_THICKNESS = Some (standard_rules txt ! 4)"
    "cs_Active (StandardProfile txt name) SAF_RAILING_HEIGHT = Some (standard_rules txt ! 5)"
    using n[of 0] n[of 1] n[of 2] n[of 3] n[of 4] n[of 5] by simp_all
qed

lemma standard_blocking:
  assumes "cf_StepHeight cfg = Fin h" "cf_TreadDepth cfg = Fin b" "Degrees (cf_Angle cfg) = Fin a"
  shows "rs_Blocking (Validate cfg (StandardProfile txt name)) \<longleftrightarrow> \<not> (Contains (range_minmax 150 200 (1/10)) (Fin h)
    \<and> Contains (range_minmax 260 320 (1/10)) (Fin b) \<and> Contains (range_minmax 30 45 (1/100)) (Fin a))"
  unfolding Validate_blocking_iff bindings_def
  by (auto simp: violated_def standard_active standard_rules_def profile_rule_def assms)

text \<open>C7: against the STANDARD profile a configuration is blocked by the step height, the tread depth
  and the angle only: with h in 150..200, b in 260..320 and the angle in 30..45 degrees it is
  valid whatever the other fields are, and a value outside by more than the tolerance blocks
  (0.1 mm and 0.01 degrees, up to the rounding of the floats).\<close>

theorem validate_standard:
  assumes "cf_StepHeight cfg = Fin h" "cf_TreadDepth cfg = Fin b" "Degrees (cf_Angle cfg) = Fin a"
  shows "(150 \<le> h \<and> h \<le> 200 \<and> 260 \<le> b \<and> b \<le> 320 \<and> 30 \<le> a \<and> a \<le> 45 \<longrightarrow>
      rs_Valid (Validate cfg (StandardProfile txt name)))
    \<and> (h \<le> 149899/1000 \<or> 200101/1000 \<le> h \<or> b \<le> 259899/1000 \<or> 320101/1000 \<le> b
      \<or> a \<le> 29989/1000 \<or> 45011/1000 \<le> a \<longrightarrow>
      rs_Blocking (Validate cfg (StandardProfile txt name)))"
proof -
  let ?s = "StandardProfile txt name"
  have v: "rs_Valid (Validate cfg ?s) \<longleftrightarrow> \<not> rs_Blocking (Validate cfg ?s)"
    by (simp add: Validate_def Let_def)
  show ?thesis
    unfolding v standard_blocking[OF assms]
    using Contains_minmax[of 150 200 "1/10" h] Contains_minmax[of 260 320 "1/10" b]
      Contains_minmax[of 30 45 "1/100" a] by auto
qed

definition demo_cfg :: "f64 \<Rightarrow> f64 \<Rightarrow> f64 \<Rightarrow> StairConfiguration" where
  "demo_cfg h b a = zero_config\<lparr>cf_StepHeight := h, cf_TreadDepth := b, cf_Angle := a\<rparr>"

lemma demo_degrees: "Degrees (Fin (5/8)) = Fin (5039790063769915 / 140737488355328)"
  by code_simp

definition no_texts :: "RuleCode \<Rightarrow> rule_texts" where
  "no_texts code = \<lparr>tx_Message = [], tx_Fix = [], tx_Param = [], tx_Guide = []\<rparr>"

theorem validate_standard_witness:
  "rs_Valid (Validate (demo_cfg (Fin 170) (Fin 280) (Fin (5/8))) (StandardProfile no_texts []))
   \<and> rs_Blocking (Validate (demo_cfg (Fin 120) (Fin 280) (Fin (5/8))) (StandardProfile no_texts []))"
  using validate_standard[of "demo_cfg (Fin 170) (Fin 280) (Fin (5/8))" 170 280 "5039790063769915 / 140737488355328" no_texts "[]"]
    validate_standard[of "demo_cfg (Fin 120) (Fin 280) (Fin (5/8))" 120 280 "5039790063769915 / 140737488355328" no_texts "[]"]
  by (simp add: demo_degrees demo_cfg_def)

end
