(* ===== verification/Solver.thy ===== *)
theory Solver
  imports Validation
begin

text \<open>
  The Solver, \<open>internal/engine/solver/\<close>: the formulas of the straight, L-shaped, U-shaped
  (platform and winder) and spiral flights in float64 arithmetic, \<open>Apply\<close> and the checked
  variants that write the result into a configuration and validate it. \<open>math.Atan\<close> is a
  parameter \<open>atn\<close>: no operation here depends on its value. The optional last argument \<open>s\<close>
  (\<open>...float64\<close>) is an option. An \<open>InputError\<close> keeps its numbers; its texts are functions of
  \<open>ie_Kind\<close>, which says which constructor function of \<open>input.go\<close> built it.
\<close>

datatype input_kind =
    RiseInput | RiserInput | WidthInput | NoFlightInput f64 | ComfortInput f64 | TreadPositive f64
  | LandingPositive | LowerStepInput int int | WinderCountInput int | UpperStepInput int int
  | LandingNarrow f64 f64 | RadiusNarrow f64 f64 | SpiralTreadInput string f64 f64 f64

record InputError =
  ie_Code :: RuleCode
  ie_Kind :: input_kind
  ie_Value :: f64
  ie_Min :: f64
  ie_Max :: f64
  ie_HasMin :: bool
  ie_HasMax :: bool

definition inputError :: "RuleCode \<Rightarrow> input_kind \<Rightarrow> InputError" where
  "inputError code k = \<lparr>ie_Code = code, ie_Kind = k, ie_Value = 0, ie_Min = 0, ie_Max = 0,
     ie_HasMin = False, ie_HasMax = False\<rparr>"

definition rangeError :: "RuleCode \<Rightarrow> f64 \<Rightarrow> f64 \<Rightarrow> f64 \<Rightarrow> input_kind \<Rightarrow> InputError" where
  "rangeError code v lo hi k = \<lparr>ie_Code = code, ie_Kind = k, ie_Value = v, ie_Min = lo,
     ie_Max = hi, ie_HasMin = True, ie_HasMax = True\<rparr>"

definition minError :: "RuleCode \<Rightarrow> f64 \<Rightarrow> f64 \<Rightarrow> input_kind \<Rightarrow> InputError" where
  "minError code v lo k = \<lparr>ie_Code = code, ie_Kind = k, ie_Value = v, ie_Min = lo,
     ie_Max = 0, ie_HasMin = True, ie_HasMax = False\<rparr>"

definition DefaultComfortStep :: f64 where "DefaultComfortStep = Fin 630"
definition ComfortStepMin :: f64 where "ComfortStepMin = Fin 600"
definition ComfortStepMax :: f64 where "ComfortStepMax = Fin 640"

definition riseInputError where "riseInputError = inputError GEO_HEIGHT RiseInput"
definition riserInputError where "riserInputError = inputError GEO_HEIGHT RiserInput"
definition widthInputError where "widthInputError = inputError GEO_WIDTH WidthInput"
definition noFlightInputError where
  "noFlightInputError hm = inputError GEO_HEIGHT (NoFlightInput hm)"
definition comfortInputError where
  "comfortInputError step =
     rangeError GEO_COMFORT_STEP step ComfortStepMin ComfortStepMax (ComfortInput step)"
definition treadPositiveError where
  "treadPositiveError b = inputError GEO_TREAD_POSITIVE (TreadPositive b)"
definition landingPositiveError where
  "landingPositiveError = inputError GEO_WIDTH LandingPositive"
definition lowerStepInputError where
  "lowerStepInputError n1 n =
     rangeError GEO_LOWER_STEP (of_int64 n1) (Fin 1) (of_int64 (n - 1)) (LowerStepInput n1 n)"
definition winderCountInputError where
  "winderCountInputError nw = minError GEO_LOWER_STEP (of_int64 nw) (Fin 3) (WinderCountInput nw)"
definition upperStepInputError where
  "upperStepInputError n nw = inputError GEO_LOWER_STEP (UpperStepInput n nw)"
definition landingNarrowError where
  "landingNarrowError wp w = minError GEO_LANDING_WIDTH wp w (LandingNarrow wp w)"
definition radiusNarrowError where
  "radiusNarrowError rm wm = minError GEO_SPIRAL_RADIUS rm wm (RadiusNarrow rm wm)"
definition spiralTreadInputError where
  "spiralTreadInputError kind v lo hi =
     (if kind = ''walk''
      then rangeError GEO_SPIRAL_TREAD v lo hi (SpiralTreadInput kind v lo hi)
      else minError GEO_SPIRAL_TREAD v lo (SpiralTreadInput kind v lo hi))"

subsection \<open>The formulas\<close>

definition step_arg :: "f64 option \<Rightarrow> f64" where
  "step_arg s = (case s of Some x \<Rightarrow> x | None \<Rightarrow> DefaultComfortStep)"

text \<open>\<open>n := int(math.Round(hm / h0m))\<close>, \<open>h := hm / float64(n)\<close>, \<open>b := step - 2*h\<close>.\<close>

definition step_count :: "f64 \<Rightarrow> f64 \<Rightarrow> int" where
  "step_count hm h0m = to_int64 (fround (hm / h0m))"

definition riser_of :: "f64 \<Rightarrow> int \<Rightarrow> f64" where
  "riser_of hm n = hm / of_int64 n"

definition tread_of :: "f64 \<Rightarrow> f64 \<Rightarrow> f64" where
  "tread_of step h = step - Fin 2 * h"

record FlightResult =
  fr_StepCount :: int
  fr_StepHeight :: Length
  fr_TreadDepth :: Length
  fr_Run :: Length
  fr_Stringer :: Length
  fr_Angle :: Angle

definition flight_Apply :: "FlightResult \<Rightarrow> StairConfiguration \<Rightarrow> StairConfiguration" where
  "flight_Apply r cfg = cfg\<lparr>cf_StepCount := fr_StepCount r, cf_StepHeight := fr_StepHeight r,
     cf_TreadDepth := fr_TreadDepth r, cf_Length := fr_Run r, cf_StringerLength := fr_Stringer r,
     cf_Angle := fr_Angle r\<rparr>"

definition Solve :: "(f64 \<Rightarrow> f64) \<Rightarrow> Length \<Rightarrow> Length \<Rightarrow> f64 option \<Rightarrow> (InputError, FlightResult) result"
where
  "Solve atn H h0 s =
     (let step = step_arg s in
      guard_with (H \<le> 0) riseInputError
      (guard_with (h0 \<le> 0) riserInputError
      (guard_with (step < ComfortStepMin \<or> step > ComfortStepMax) (comfortInputError step)
      (let n = step_count H h0 in
       guard_with (n < 1) (noFlightInputError H)
       (let h = riser_of H n; b = tread_of step h in
        guard_with (b \<le> 0) (treadPositiveError b)
        (let alpha = atn (h / b); L = of_int64 n * b; R = fsqrt (L * L + H * H) in
         Inr \<lparr>fr_StepCount = n, fr_StepHeight = h, fr_TreadDepth = b, fr_Run = L,
              fr_Stringer = R, fr_Angle = alpha\<rparr>))))))"

record twoFlightValues =
  tf_n :: int
  tf_n1 :: int
  tf_n2 :: int
  tf_nw :: int
  tf_h :: f64
  tf_b :: f64
  tf_alpha :: f64
  tf_h1 :: f64
  tf_h2 :: f64
  tf_l1 :: f64
  tf_l2 :: f64
  tf_r1 :: f64
  tf_r2 :: f64
  tf_wp :: f64

definition solveTwoFlight ::
  "(f64 \<Rightarrow> f64) \<Rightarrow> Length \<Rightarrow> Length \<Rightarrow> int \<Rightarrow> Length \<Rightarrow> f64 option \<Rightarrow> (InputError, twoFlightValues) result"
where
  "solveTwoFlight atn H h0 n1 wp s =
     (let step = step_arg s in
      guard_with (H \<le> 0) riseInputError
      (guard_with (h0 \<le> 0) riserInputError
      (guard_with (wp \<le> 0) landingPositiveError
      (guard_with (step < ComfortStepMin \<or> step > ComfortStepMax) (comfortInputError step)
      (let n = step_count H h0 in
       guard_with (n < 1) (noFlightInputError H)
       (guard_with (n1 < 1 \<or> n1 > n - 1) (lowerStepInputError n1 n)
       (let h = riser_of H n; b = tread_of step h in
        guard_with (b \<le> 0) (treadPositiveError b)
        (let alpha = atn (h / b); n2 = n - n1;
             h1 = of_int64 n1 * h; h2 = of_int64 n2 * h;
             l1 = of_int64 n1 * b; l2 = of_int64 n2 * b;
             r1 = fsqrt (l1 * l1 + h1 * h1); r2 = fsqrt (l2 * l2 + h2 * h2) in
         Inr \<lparr>tf_n = n, tf_n1 = n1, tf_n2 = n2, tf_nw = 0, tf_h = h, tf_b = b, tf_alpha = alpha,
              tf_h1 = h1, tf_h2 = h2, tf_l1 = l1, tf_l2 = l2, tf_r1 = r1, tf_r2 = r2,
              tf_wp = wp\<rparr>))))))))"

definition solveUShapeWinder ::
  "(f64 \<Rightarrow> f64) \<Rightarrow> Length \<Rightarrow> Length \<Rightarrow> int \<Rightarrow> int \<Rightarrow> Length \<Rightarrow> f64 option \<Rightarrow>
   (InputError, twoFlightValues) result"
where
  "solveUShapeWinder atn H h0 n1 nw wp s =
     (let step = step_arg s in
      guard_with (H \<le> 0) riseInputError
      (guard_with (h0 \<le> 0) riserInputError
      (guard_with (wp \<le> 0) landingPositiveError
      (guard_with (step < ComfortStepMin \<or> step > ComfortStepMax) (comfortInputError step)
      (let n = step_count H h0 in
       guard_with (n < 1) (noFlightInputError H)
       (guard_with (n1 < 1 \<or> n1 > n - 1) (lowerStepInputError n1 n)
       (guard_with (nw < 3) (winderCountInputError nw)
       (let n2 = n - n1 - nw in
        guard_with (n2 < 1) (upperStepInputError n nw)
       (let h = riser_of H n; b = tread_of step h in
        guard_with (b \<le> 0) (treadPositiveError b)
        (let alpha = atn (h / b);
             h1 = of_int64 n1 * h; h2 = of_int64 n2 * h;
             l1 = of_int64 n1 * b; l2 = of_int64 n2 * b;
             r1 = fsqrt (l1 * l1 + h1 * h1); r2 = fsqrt (l2 * l2 + h2 * h2) in
         Inr \<lparr>tf_n = n, tf_n1 = n1, tf_n2 = n2, tf_nw = nw, tf_h = h, tf_b = b, tf_alpha = alpha,
              tf_h1 = h1, tf_h2 = h2, tf_l1 = l1, tf_l2 = l2, tf_r1 = r1, tf_r2 = r2,
              tf_wp = wp\<rparr>))))))))))"

record LShapeResult =
  ls_StepCount :: int
  ls_LowerStepCount :: int
  ls_UpperStepCount :: int
  ls_StepHeight :: Length
  ls_TreadDepth :: Length
  ls_Angle :: Angle
  ls_LowerHeight :: Length
  ls_UpperHeight :: Length
  ls_LowerRun :: Length
  ls_UpperRun :: Length
  ls_LowerStringer :: Length
  ls_UpperStringer :: Length
  ls_LandingWidth :: Length
  ls_LandingDepth :: Length
  ls_RoomWidth :: Length
  ls_RoomLength :: Length

definition lshape_Apply :: "LShapeResult \<Rightarrow> StairConfiguration \<Rightarrow> StairConfiguration" where
  "lshape_Apply r cfg = cfg\<lparr>cf_StepCount := ls_StepCount r, cf_StepHeight := ls_StepHeight r,
     cf_TreadDepth := ls_TreadDepth r, cf_Length := ls_LowerRun r,
     cf_StringerLength := ls_LowerStringer r, cf_Angle := ls_Angle r,
     cf_LandingWidth := ls_LandingWidth r, cf_LandingDepth := ls_LandingDepth r,
     cf_LowerStepCount := ls_LowerStepCount r\<rparr>"

definition SolveLShape ::
  "(f64 \<Rightarrow> f64) \<Rightarrow> Length \<Rightarrow> Length \<Rightarrow> int \<Rightarrow> Length \<Rightarrow> f64 option \<Rightarrow> (InputError, LShapeResult) result"
where
  "SolveLShape atn H h0 n1 wp s = bindR (solveTwoFlight atn H h0 n1 wp s) (\<lambda>v.
     Inr \<lparr>ls_StepCount = tf_n v, ls_LowerStepCount = tf_n1 v, ls_UpperStepCount = tf_n2 v,
          ls_StepHeight = tf_h v, ls_TreadDepth = tf_b v, ls_Angle = tf_alpha v,
          ls_LowerHeight = tf_h1 v, ls_UpperHeight = tf_h2 v, ls_LowerRun = tf_l1 v,
          ls_UpperRun = tf_l2 v, ls_LowerStringer = tf_r1 v, ls_UpperStringer = tf_r2 v,
          ls_LandingWidth = tf_wp v, ls_LandingDepth = 0, ls_RoomWidth = 0, ls_RoomLength = 0\<rparr>)"

record UShapeResult =
  us_StepCount :: int
  us_LowerStepCount :: int
  us_UpperStepCount :: int
  us_WinderCount :: int
  us_StepHeight :: Length
  us_TreadDepth :: Length
  us_Angle :: Angle
  us_LowerHeight :: Length
  us_UpperHeight :: Length
  us_LowerRun :: Length
  us_UpperRun :: Length
  us_LowerStringer :: Length
  us_UpperStringer :: Length
  us_LandingWidth :: Length

definition ushape_Apply :: "UShapeResult \<Rightarrow> StairConfiguration \<Rightarrow> StairConfiguration" where
  "ushape_Apply r cfg = cfg\<lparr>cf_StepCount := us_StepCount r, cf_StepHeight := us_StepHeight r,
     cf_TreadDepth := us_TreadDepth r, cf_Length := us_LowerRun r,
     cf_StringerLength := us_LowerStringer r, cf_Angle := us_Angle r,
     cf_LandingWidth := us_LandingWidth r, cf_LowerStepCount := us_LowerStepCount r,
     cf_WinderCount := us_WinderCount r\<rparr>"

definition ushape_of :: "twoFlightValues \<Rightarrow> UShapeResult" where
  "ushape_of v = \<lparr>us_StepCount = tf_n v, us_LowerStepCount = tf_n1 v, us_UpperStepCount = tf_n2 v,
     us_WinderCount = tf_nw v, us_StepHeight = tf_h v, us_TreadDepth = tf_b v,
     us_Angle = tf_alpha v, us_LowerHeight = tf_h1 v, us_UpperHeight = tf_h2 v,
     us_LowerRun = tf_l1 v, us_UpperRun = tf_l2 v, us_LowerStringer = tf_r1 v,
     us_UpperStringer = tf_r2 v, us_LandingWidth = tf_wp v\<rparr>"

definition SolveUShape ::
  "(f64 \<Rightarrow> f64) \<Rightarrow> Length \<Rightarrow> Length \<Rightarrow> int \<Rightarrow> Length \<Rightarrow> f64 option \<Rightarrow> (InputError, UShapeResult) result"
where
  "SolveUShape atn H h0 n1 wp s =
     bindR (solveTwoFlight atn H h0 n1 wp s) (\<lambda>v. Inr (ushape_of v))"

definition SolveUShapeWinder ::
  "(f64 \<Rightarrow> f64) \<Rightarrow> Length \<Rightarrow> Length \<Rightarrow> int \<Rightarrow> int \<Rightarrow> Length \<Rightarrow> f64 option \<Rightarrow> (InputError, UShapeResult) result"
where
  "SolveUShapeWinder atn H h0 n1 nw wp s =
     bindR (solveUShapeWinder atn H h0 n1 nw wp s) (\<lambda>v. Inr (ushape_of v))"

text \<open>\<open>2 * math.Pi\<close> and \<open>2.0/3.0\<close> are untyped constants, rounded once.\<close>

definition FullTurnRadians :: f64 where
  "FullTurnRadians = Fin (884279719003555 / 140737488355328)"

record spiralValues =
  sv_n :: int
  sv_h :: f64
  sv_rm :: f64
  sv_r :: f64
  sv_rWalk :: f64
  sv_delta :: f64
  sv_bIn :: f64
  sv_bWalk :: f64
  sv_bOut :: f64
  sv_alpha :: f64
  sv_arcLen :: f64

definition solveSpiral ::
  "(f64 \<Rightarrow> f64) \<Rightarrow> Length \<Rightarrow> Length \<Rightarrow> Length \<Rightarrow> Length \<Rightarrow> (InputError, spiralValues) result"
where
  "solveSpiral atn H h0 W R =
     guard_with (H \<le> 0) riseInputError
     (guard_with (h0 \<le> 0) riserInputError
     (guard_with (W \<le> 0) widthInputError
     (guard_with (R \<le> W) (radiusNarrowError R W)
     (let n = step_count H h0 in
      guard_with (n < 1) (noFlightInputError H)
      (let h = riser_of H n; r = R - W; rWalk = r + fl (2 / 3) * W;
           delta = FullTurnRadians / of_int64 n;
           bIn = delta * r; bWalk = delta * rWalk; bOut = delta * R in
       guard_with (bIn < Fin 100) (spiralTreadInputError ''inner'' bIn (Fin 100) 0)
       (guard_with (bOut < Fin 250) (spiralTreadInputError ''outer'' bOut (Fin 250) 0)
       (guard_with (bWalk < Fin 260 \<or> bWalk > Fin 320)
          (spiralTreadInputError ''walk'' bWalk (Fin 260) (Fin 320))
       (let s = Fin 2 * h + bWalk in
        guard_with (s < ComfortStepMin \<or> s > ComfortStepMax) (comfortInputError s)
        (let alpha = atn (h / bWalk); arcLen = delta * R * of_int64 n in
         Inr \<lparr>sv_n = n, sv_h = h, sv_rm = R, sv_r = r, sv_rWalk = rWalk, sv_delta = delta,
              sv_bIn = bIn, sv_bWalk = bWalk, sv_bOut = bOut, sv_alpha = alpha,
              sv_arcLen = arcLen\<rparr>)))))))))"

record SpiralResult =
  sr_StepCount :: int
  sr_StepHeight :: Length
  sr_OuterRadius :: Length
  sr_ColumnRadius :: Length
  sr_WalkRadius :: Length
  sr_InnerTread :: Length
  sr_WalkTread :: Length
  sr_OuterTread :: Length
  sr_Angle :: Angle
  sr_AngularStep :: f64
  sr_ArcLength :: Length
  sr_ComfortStep :: f64
  sr_AngularTotal :: f64

definition spiral_Apply :: "SpiralResult \<Rightarrow> StairConfiguration \<Rightarrow> StairConfiguration" where
  "spiral_Apply r cfg = cfg\<lparr>cf_StepCount := sr_StepCount r, cf_StepHeight := sr_StepHeight r,
     cf_TreadDepth := sr_WalkTread r, cf_Angle := sr_Angle r\<rparr>"

definition SolveSpiral ::
  "(f64 \<Rightarrow> f64) \<Rightarrow> Length \<Rightarrow> Length \<Rightarrow> Length \<Rightarrow> Length \<Rightarrow> (InputError, SpiralResult) result"
where
  "SolveSpiral atn H h0 W R = bindR (solveSpiral atn H h0 W R) (\<lambda>v.
     Inr \<lparr>sr_StepCount = sv_n v, sr_StepHeight = sv_h v, sr_OuterRadius = sv_rm v,
          sr_ColumnRadius = sv_r v, sr_WalkRadius = sv_rWalk v, sr_InnerTread = sv_bIn v,
          sr_WalkTread = sv_bWalk v, sr_OuterTread = sv_bOut v, sr_Angle = sv_alpha v,
          sr_AngularStep = sv_delta v, sr_ArcLength = sv_arcLen v,
          sr_ComfortStep = Fin 2 * sv_h v + sv_bWalk v, sr_AngularTotal = FullTurnRadians\<rparr>)"

subsection \<open>The checked variants\<close>

text \<open>The result, the validation result and the configuration after the call. On an error the
  configuration is untouched.\<close>

definition SolveChecked ::
  "(f64 \<Rightarrow> f64) \<Rightarrow> StairConfiguration \<Rightarrow> ConstraintSet \<Rightarrow> f64 option \<Rightarrow>
   (InputError, FlightResult \<times> Result \<times> StairConfiguration) result"
where
  "SolveChecked atn cfg rules s = bindR (Solve atn (cf_Height cfg) (cf_StepHeight cfg) s) (\<lambda>res.
     let cfg1 = flight_Apply res cfg; vr = Validate cfg1 rules;
         cfg2 = (if rs_Blocking vr
           then cfg1\<lparr>cf_StepCount := 0, cf_StepHeight := 0, cf_TreadDepth := 0, cf_Length := 0,
             cf_StringerLength := 0, cf_Angle := 0\<rparr>
           else cfg1)
     in Inr (res, vr, cfg2))"

definition SolveCheckedLShape ::
  "(f64 \<Rightarrow> f64) \<Rightarrow> StairConfiguration \<Rightarrow> ConstraintSet \<Rightarrow> f64 option \<Rightarrow>
   (InputError, LShapeResult \<times> Result \<times> StairConfiguration) result"
where
  "SolveCheckedLShape atn cfg rules s =
     bindR (SolveLShape atn (cf_Height cfg) (cf_StepHeight cfg) (cf_LowerStepCount cfg)
              (cf_LandingWidth cfg) s) (\<lambda>res.
     guard_with (ls_LandingWidth res < cf_Width cfg)
       (landingNarrowError (ls_LandingWidth res) (cf_Width cfg))
     (let cfg1 = lshape_Apply res cfg;
          ld = (if cf_LandingDepth cfg1 \<le> 0 then cf_Width cfg1 else cf_LandingDepth cfg1);
          res' = res\<lparr>ls_LandingDepth := ld, ls_RoomWidth := cf_RoomWidth cfg1,
            ls_RoomLength := cf_RoomLength cfg1\<rparr>;
          vr = Validate cfg1 rules;
          cfg2 = (if rs_Blocking vr
            then cfg1\<lparr>cf_StepCount := 0, cf_StepHeight := 0, cf_TreadDepth := 0, cf_Length := 0,
              cf_StringerLength := 0, cf_Angle := 0, cf_LandingWidth := 0,
              cf_LowerStepCount := 0\<rparr>
            else cfg1)
      in Inr (res', vr, cfg2)))"

definition SolveCheckedUShape ::
  "(f64 \<Rightarrow> f64) \<Rightarrow> StairConfiguration \<Rightarrow> ConstraintSet \<Rightarrow> f64 option \<Rightarrow>
   (InputError, UShapeResult \<times> Result \<times> StairConfiguration) result"
where
  "SolveCheckedUShape atn cfg rules s =
     bindR (if cf_TurnKind cfg = TurnWinder
            then SolveUShapeWinder atn (cf_Height cfg) (cf_StepHeight cfg) (cf_LowerStepCount cfg)
                   (cf_WinderCount cfg) (cf_LandingWidth cfg) s
            else SolveUShape atn (cf_Height cfg) (cf_StepHeight cfg) (cf_LowerStepCount cfg)
                   (cf_LandingWidth cfg) s) (\<lambda>res.
     guard_with (cf_TurnKind cfg \<noteq> TurnWinder \<and> us_LandingWidth res < cf_Width cfg)
       (landingNarrowError (us_LandingWidth res) (cf_Width cfg))
     (let cfg1 = ushape_Apply res cfg;
          vr = Validate cfg1 rules;
          cfg2 = (if rs_Blocking vr
            then cfg1\<lparr>cf_StepCount := 0, cf_StepHeight := 0, cf_TreadDepth := 0, cf_Length := 0,
              cf_StringerLength := 0, cf_Angle := 0, cf_LandingWidth := 0,
              cf_LowerStepCount := 0, cf_WinderCount := 0\<rparr>
            else cfg1)
      in Inr (res, vr, cfg2)))"

definition SolveCheckedSpiral ::
  "(f64 \<Rightarrow> f64) \<Rightarrow> StairConfiguration \<Rightarrow> ConstraintSet \<Rightarrow>
   (InputError, SpiralResult \<times> Result \<times> StairConfiguration) result"
where
  "SolveCheckedSpiral atn cfg rules =
     bindR (SolveSpiral atn (cf_Height cfg) (cf_StepHeight cfg) (cf_Width cfg) (cf_OuterRadius cfg))
       (\<lambda>res.
     let cfg1 = spiral_Apply res cfg; vr = Validate cfg1 rules;
         cfg2 = (if rs_Blocking vr
           then cfg1\<lparr>cf_StepCount := 0, cf_StepHeight := 0, cf_TreadDepth := 0, cf_Angle := 0\<rparr>
           else cfg1)
     in Inr (res, vr, cfg2))"

end
