(* ===== verification/Solver_Props.thy ===== *)
theory Solver_Props
  imports Solver
begin

text \<open>
  What the Solver guarantees of its floats: the step count is the nearest integer to H/h0, the
  risers add up to the rise, the comfort formula 2h + b holds up to one rounding, the flights of a
  turned stair share the steps and the rise; for the ranges the norms name it always answers.
  The checked variants write exactly the fields of \<open>Apply\<close>, or reset them when validation blocks.
\<close>

subsection \<open>The formulas on finite values\<close>

lemma round_away_near: "\<bar>of_int (round_away q) - q\<bar> \<le> 1 / 2"
proof (cases "0 \<le> q")
  case True then show ?thesis unfolding round_away_def by (intro abs_leI) ((simp; fail) | (simp, linarith))+
next
  case False then show ?thesis unfolding round_away_def by (intro abs_leI) ((simp; fail) | (simp, linarith))+
qed

lemma to_int64_of_int: "\<bar>k\<bar> < 2 ^ 63 \<Longrightarrow> to_int64 (Fin (of_int k)) = k"
  by (auto simp: trunc_def)

lemma step_count_near:
  assumes "0 \<le> H" "H \<le> 10 ^ 9" "1 \<le> h0"
  shows "\<bar>of_int (step_count (Fin H) (Fin h0)) - H / h0\<bar> \<le> 1 / 2 + 1 / 2 ^ 20"
    and "step_count (Fin H) (Fin h0) \<le> 2 ^ 30"
proof -
  let ?x = "H / h0"
  have "?x \<le> H / 1" using assms by (intro divide_left_mono) auto
  then have x: "0 \<le> ?x" "?x \<le> 10 ^ 9" using assms by auto
  then have "\<bar>?x\<bar> \<le> 2 ^ 30" by simp
  note n = fl_near[OF this]
  define k where "k = round_away (rnd ?x)"
  have k: "\<bar>of_int k - rnd ?x\<bar> \<le> 1 / 2" unfolding k_def by (rule round_away_near)
  have err: "\<bar>of_int k - ?x\<bar> \<le> 1 / 2 + 1 / 2 ^ 20" using abs_triangle_ineq[of "of_int k - rnd ?x" "rnd ?x - ?x"] k n(2) by simp
  have one: "1 / 2 + 1 / 2 ^ 20 \<le> (1 :: rat)" by simp
  have "of_int k - ?x \<le> 1" "- (of_int k - ?x) \<le> 1"
    using order_trans[OF abs_le_D1[OF err] one] order_trans[OF abs_le_D2[OF err] one] .
  moreover have "(10::rat) ^ 9 + 1 < of_int (2 ^ 30)" "of_int (- (2 ^ 30)) < - (1 :: rat)" by simp_all
  ultimately have "of_int k < (of_int (2 ^ 30) :: rat)" "(of_int (- (2 ^ 30)) :: rat) < of_int k"
    using x by linarith+
  then have kb: "k < 2 ^ 30" "- (2 ^ 30) < k" by (simp_all only: of_int_less_iff)
  have "step_count (Fin H) (Fin h0) = k"
    using assms n(1) kb to_int64_of_int[of k] by (simp add: step_count_def k_def)
  then show "\<bar>of_int (step_count (Fin H) (Fin h0)) - H / h0\<bar> \<le> 1 / 2 + 1 / 2 ^ 20"
    "step_count (Fin H) (Fin h0) \<le> 2 ^ 30" using err kb by simp_all
qed

lemma of_int64_small: "1 \<le> n \<Longrightarrow> n \<le> 2 ^ 30 \<Longrightarrow> of_int64 n = Fin (of_int n)"
  by (rule of_int64_exact) simp

lemma riser_near:
  assumes "1 \<le> H" "H \<le> 10 ^ 9" "1 \<le> n" "n \<le> 2 ^ 30"
  obtains h where "riser_of (Fin H) n = Fin h" "rnd h = h" "0 < h" "h \<le> 10 ^ 9"
    "\<bar>of_int n * h - H\<bar> \<le> H / 2 ^ 53"
proof -
  let ?n = "of_int n :: rat" and ?x = "H / of_int n"
  have n: "1 \<le> ?n" using assms(3) by simp
  have n2: "?n \<le> of_int (2 ^ 30)" using assms(4) by (simp only: of_int_le_iff)
  have "?x \<le> H / 1" using assms n by (intro divide_left_mono) auto
  then have hi: "?x \<le> 10 ^ 9" using assms by simp
  have "1 / 2 ^ 30 \<le> ?x" using assms n n2 by (intro frac_le) auto
  moreover have "(2::rat) powi (- 1022) \<le> 2 powi (- 30)" by (simp add: powi_le_iff)
  moreover have "(2::rat) powi (- 30) = 1 / 2 ^ 30" by (simp add: power_int_minus_divide)
  ultimately have lo: "2 powi (- 1022) \<le> \<bar>?x\<bar>" by linarith
  have err: "\<bar>rnd ?x - ?x\<bar> \<le> ?x / 2 ^ 53"
    using rnd_err_rel[OF lo] \<open>1 / 2 ^ 30 \<le> ?x\<close> by simp
  have f: "fl ?x = Fin (rnd ?x)" using fl_near(1)[of ?x 30] hi \<open>1 / 2 ^ 30 \<le> ?x\<close> by simp
  have "rnd ?x \<le> 10 ^ 9" using bin64.rd_le[of "10 ^ 9" ?x] hi rnd_of_int[of "10 ^ 9"] by simp
  moreover have "0 < rnd ?x" using err \<open>1 / 2 ^ 30 \<le> ?x\<close> by simp
  moreover have "\<bar>?n * rnd ?x - H\<bar> \<le> H / 2 ^ 53"
  proof -
    have "?n * rnd ?x - H = ?n * (rnd ?x - ?x)" using n by (simp add: right_diff_distrib)
    then have "\<bar>?n * rnd ?x - H\<bar> = ?n * \<bar>rnd ?x - ?x\<bar>" using n by (simp add: abs_mult)
    also have "\<dots> \<le> ?n * (?x / 2 ^ 53)" using n err by (intro mult_left_mono) auto
    also have "\<dots> = H / 2 ^ 53" using n by simp
    finally show ?thesis .
  qed
  moreover have "riser_of (Fin H) n = Fin (rnd ?x)"
    using f n by (simp add: riser_of_def of_int64_small[OF assms(3,4)])
  ultimately show ?thesis by (intro that[of "rnd ?x"]) auto
qed

lemma tread_near:
  assumes "rnd h = h" "0 < h" "h \<le> 10 ^ 9" "600 \<le> S" "S \<le> 640"
    and b: "tread_of (Fin S) (Fin h) = B" "\<not> B \<le> 0"
  obtains b where "B = Fin b" "rnd b = b" "0 < b" "b \<le> 640" "h < 320" "\<bar>b + 2 * h - S\<bar> \<le> 1 / 2 ^ 44"
proof -
  have d: "fl (2 * h) = Fin (2 * h)"
    using fl_near(1)[of "2 * h" 31] assms rnd_double[OF assms(1)] by simp
  let ?y = "S - 2 * h"
  have f: "fl ?y = Fin (rnd ?y)" using fl_near(1)[of ?y 31] assms by simp
  have B: "B = Fin (rnd ?y)" using b(1) d f by (simp add: tread_of_def minus_f64_def)
  then have p: "0 < rnd ?y" using b(2) by (simp add: zero_f64_def)
  then have y: "0 < ?y" using bin64.rd_nonpos[of ?y] by linarith
  have "\<bar>?y\<bar> \<le> 2 ^ 10" using y assms by simp
  note e = fl_near(2)[OF this]
  have "rnd ?y \<le> 640" using bin64.rd_le[of 640 ?y] rnd_of_int[of 640] y assms by simp
  moreover have "\<bar>rnd ?y + 2 * h - S\<bar> \<le> 1 / 2 ^ 44"
  proof -
    have "rnd ?y + 2 * h - S = rnd ?y - ?y" by simp
    moreover have "(2::rat) ^ 10 / 2 ^ 54 = 1 / 2 ^ 44" by simp
    ultimately show ?thesis using e by (simp only:)
  qed
  ultimately show ?thesis using B p y assms(5) by (intro that[of "rnd ?y"]) auto
qed

text \<open>The step argument: a guard lets 600..640 through, and NaN, which no comparison refuses.\<close>

lemma step_guard:
  assumes "\<not> (x < ComfortStepMin \<or> x > ComfortStepMax)" "\<not> isNaN x"
  obtains S where "x = Fin S" "600 \<le> S" "S \<le> 640"
  using assms by (cases x) (auto simp: ComfortStepMin_def ComfortStepMax_def split: if_splits)

lemma run_near:
  assumes "1 \<le> n" "n \<le> 2 ^ 30" "rnd b = b" "0 < b" "b \<le> 10 ^ 9"
  obtains L where "of_int64 n * Fin b = Fin L" "0 \<le> L" "L \<le> 10 ^ 20"
    "\<bar>L - of_int n * b\<bar> \<le> of_int n * b / 2 ^ 53"
proof -
  let ?x = "of_int n * b"
  have n: "0 < (of_int n :: rat)" "(of_int n :: rat) \<le> of_int (2 ^ 30)"
    using assms by (simp, simp only: of_int_le_iff)
  have x: "0 < ?x" "?x \<le> 2 ^ 30 * 10 ^ 9" using assms n by (simp, intro mult_mono, auto)
  then have f: "fl ?x = Fin (rnd ?x)" using fl_near(1)[of ?x 60] by simp
  have e: "\<bar>rnd ?x - ?x\<bar> \<le> ?x / 2 ^ 53" using rnd_mult_int[OF assms(3), of n] x(1) by simp
  have "rnd ?x \<le> 10 ^ 20"
  proof -
    have "rnd ?x \<le> ?x + ?x / 2 ^ 53" using abs_le_D1[OF e] by (simp only: diff_le_eq add.commute)
    also have "\<dots> \<le> ?x + ?x" using x by (intro add_left_mono) (simp add: field_simps)
    also have "\<dots> \<le> 2 ^ 30 * 10 ^ 9 + 2 ^ 30 * 10 ^ 9" using x(2) by (intro add_mono)
    also have "\<dots> \<le> (10 ^ 20 :: rat)" by simp
    finally show ?thesis .
  qed
  moreover have "0 \<le> rnd ?x" using x by (intro rnd_nonneg) simp
  ultimately show ?thesis using e f of_int64_small[OF assms(1,2)] by (intro that[of "rnd ?x"]) auto
qed

text \<open>Three rounded operations and a root: the arithmetic of the error.\<close>

lemma hypot_error:
  fixes P Q a c q T :: rat
  assumes "0 \<le> P" "1 \<le> Q" "\<bar>a - P\<bar> \<le> \<bar>P\<bar> / 2 ^ 53 + 1 / 2 ^ 100" "\<bar>c - Q\<bar> \<le> \<bar>Q\<bar> / 2 ^ 53 + 1 / 2 ^ 100"
    "\<bar>q - (a + c)\<bar> \<le> \<bar>a + c\<bar> / 2 ^ 53 + 1 / 2 ^ 100"
  shows "0 < a + c" "a + c \<le> 2 * (P + Q)" "0 < q" "\<bar>T - q\<bar> \<le> q / 2 ^ 51 \<Longrightarrow> \<bar>T - (P + Q)\<bar> \<le> (P + Q) / 2 ^ 50"
proof -
  have PQ: "\<bar>P\<bar> = P" "\<bar>Q\<bar> = Q" using assms by auto
  note b = assms(1,2) assms(3,4)[unfolded PQ, THEN abs_le_D1] assms(3,4)[unfolded PQ, THEN abs_le_D2]
  have ac: "1 / 2 \<le> a + c" using b by ((simp; fail) | (simp, linarith))
  show "a + c \<le> 2 * (P + Q)" using b by ((simp; fail) | (simp, linarith))
  have ac': "\<bar>a + c\<bar> = a + c" using ac by simp
  note b = b assms(5)[unfolded ac', THEN abs_le_D1] assms(5)[unfolded ac', THEN abs_le_D2]
  show "0 < a + c" using ac by simp
  have "(a + c) / 2 ^ 53 + 1 / 2 ^ 100 \<le> (a + c) / 4 + 1 / 16" using ac by (intro add_mono) auto
  then have "- (q - (a + c)) \<le> (a + c) / 4 + 1 / 16" using b(8) by (rule order_trans[rotated])
  then show "0 < q" using ac by (simp add: field_simps)
  assume T: "\<bar>T - q\<bar> \<le> q / 2 ^ 51"
  show "\<bar>T - (P + Q)\<bar> \<le> (P + Q) / 2 ^ 50"
    using b abs_le_D1[OF T] abs_le_D2[OF T] by (intro abs_leI) ((simp add: field_simps; fail) | (simp add: field_simps, linarith))+
qed

lemma hypot_near:
  assumes "0 \<le> L" "L \<le> 10 ^ 20" "1 \<le> H" "H \<le> 10 ^ 9"
  obtains R where "fsqrt (Fin L * Fin L + Fin H * Fin H) = Fin R" "0 \<le> R"
    "\<bar>R * R - (L * L + H * H)\<bar> \<le> (L * L + H * H) / 2 ^ 50"
proof -
  have LL: "0 \<le> L * L" "L * L \<le> 10 ^ 40" using mult_mono[of L "10 ^ 20" L "10 ^ 20"] assms by auto
  have HH: "1 \<le> H * H" "H * H \<le> 10 ^ 18"
    using mult_mono[of 1 H 1 H] mult_mono[of H "10 ^ 9" H "10 ^ 9"] assms by auto
  let ?a = "rnd (L * L)" and ?c = "rnd (H * H)"
  let ?q = "rnd (?a + ?c)"
  note err = hypot_error[OF LL(1) HH(1) rnd_err_mix rnd_err_mix rnd_err_mix]
  have a: "fl (L * L) = Fin ?a" using fl_near(1)[of "L * L" 200] LL by simp
  have c: "fl (H * H) = Fin ?c" using fl_near(1)[of "H * H" 200] HH by simp
  have "\<bar>?a + ?c\<bar> \<le> 2 ^ 200"
  proof -
    have "\<bar>?a + ?c\<bar> = ?a + ?c" using err(1) by simp
    also have "\<dots> \<le> 2 * (L * L + H * H)" using err(2) by simp
    also have "\<dots> \<le> 2 * (10 ^ 40 + 10 ^ 18)" using LL(2) HH(2) by (intro mult_left_mono add_mono) auto
    finally show ?thesis by simp
  qed
  then have q: "fl (?a + ?c) = Fin ?q" by (rule fl_near(1)) simp
  obtain R where R: "fsqrt (Fin ?q) = Fin R" "0 \<le> R" "\<bar>R * R - ?q\<bar> \<le> ?q / 2 ^ 51"
    using fsqrt_rel[OF err(3)] by blast
  show ?thesis using R(1,2) err(4)[OF R(3)] a c q by (intro that[of R]) auto
qed

subsection \<open>The straight flight\<close>

lemma Solve_Inr_iff:
  "Solve atn H h0 s = Inr r \<longleftrightarrow> \<not> H \<le> 0 \<and> \<not> h0 \<le> 0
     \<and> \<not> (step_arg s < ComfortStepMin \<or> step_arg s > ComfortStepMax)
     \<and> 1 \<le> step_count H h0
     \<and> \<not> tread_of (step_arg s) (riser_of H (step_count H h0)) \<le> 0
     \<and> r = (let n = step_count H h0; h = riser_of H n; b = tread_of (step_arg s) h;
                L = of_int64 n * b
            in \<lparr>fr_StepCount = n, fr_StepHeight = h, fr_TreadDepth = b, fr_Run = L,
                fr_Stringer = fsqrt (L * L + H * H), fr_Angle = atn (h / b)\<rparr>)"
  by (auto simp: Solve_def Let_def result_iffs not_less)

text \<open>The quantities every flight shares, whatever the turn.\<close>

lemma flight_core:
  assumes "1 \<le> H" "H \<le> 10 ^ 9" "1 \<le> h0"
    and "\<not> (x < ComfortStepMin \<or> x > ComfortStepMax)" "\<not> isNaN x"
    and n: "step_count (Fin H) (Fin h0) = n" "1 \<le> n"
    and b: "\<not> tread_of x (riser_of (Fin H) n) \<le> 0"
  obtains S h b where "x = Fin S" "600 \<le> S" "S \<le> 640" "n \<le> 2 ^ 30"
    "riser_of (Fin H) n = Fin h" "rnd h = h" "0 < h" "h < 320" "\<bar>of_int n * h - H\<bar> \<le> H / 2 ^ 53"
    "tread_of x (riser_of (Fin H) n) = Fin b" "rnd b = b" "0 < b" "b \<le> 640"
    "\<bar>b + 2 * h - S\<bar> \<le> 1 / 2 ^ 44"
proof -
  obtain S where S: "x = Fin S" "600 \<le> S" "S \<le> 640" using step_guard assms(4,5) by blast
  have n2: "n \<le> 2 ^ 30" using step_count_near(2)[of H h0] assms by simp
  obtain h where h: "riser_of (Fin H) n = Fin h" "rnd h = h" "0 < h" "h \<le> 10 ^ 9"
    "\<bar>of_int n * h - H\<bar> \<le> H / 2 ^ 53"
    using riser_near[OF assms(1,2) n(2) n2] by blast
  obtain b where "tread_of (Fin S) (Fin h) = Fin b" "rnd b = b" "0 < b" "b \<le> 640" "h < 320"
    "\<bar>b + 2 * h - S\<bar> \<le> 1 / 2 ^ 44"
    using tread_near[OF h(2-4) S(2,3) refl] b S(1) h(1) by metis
  then show ?thesis using S h n2 by (intro that[of S h b]) auto
qed

text \<open>C1: the straight flight the Solver returns, in the float64 arithmetic of the code: the step
  count is the integer nearest to H/h0 (up to the rounding of the quotient), the n risers add up
  to the rise H up to one relative rounding error, the comfort formula b + 2h = step holds within
  2^-44 mm, the run is n treads and the stringer is the hypotenuse, up to rounding; h and b are
  positive.\<close>

theorem solve_sound:
  assumes "Solve atn (Fin H) (Fin h0) s = Inr r" "1 \<le> H" "H \<le> 10 ^ 9" "1 \<le> h0" "\<not> isNaN (step_arg s)"
  shows "\<exists>n h b S L R. r = \<lparr>fr_StepCount = n, fr_StepHeight = Fin h, fr_TreadDepth = Fin b,
        fr_Run = Fin L, fr_Stringer = Fin R, fr_Angle = atn (Fin h / Fin b)\<rparr>
      \<and> step_arg s = Fin S \<and> 600 \<le> S \<and> S \<le> 640
      \<and> 1 \<le> n \<and> \<bar>of_int n - H / h0\<bar> \<le> 1 / 2 + 1 / 2 ^ 20
      \<and> 0 < h \<and> h < 320 \<and> 0 < b
      \<and> \<bar>of_int n * h - H\<bar> \<le> H / 2 ^ 53
      \<and> \<bar>b + 2 * h - S\<bar> \<le> 1 / 2 ^ 44
      \<and> \<bar>L - of_int n * b\<bar> \<le> of_int n * b / 2 ^ 53
      \<and> 0 \<le> R \<and> \<bar>R * R - (L * L + H * H)\<bar> \<le> (L * L + H * H) / 2 ^ 50"
proof -
  define n where "n = step_count (Fin H) (Fin h0)"
  note g = assms(1)[unfolded Solve_Inr_iff, folded n_def]
  obtain S h b where c: "step_arg s = Fin S" "600 \<le> S" "S \<le> 640" "n \<le> 2 ^ 30"
    "riser_of (Fin H) n = Fin h" "0 < h" "h < 320" "\<bar>of_int n * h - H\<bar> \<le> H / 2 ^ 53"
    "tread_of (step_arg s) (riser_of (Fin H) n) = Fin b" "rnd b = b" "0 < b" "b \<le> 640"
    "\<bar>b + 2 * h - S\<bar> \<le> 1 / 2 ^ 44"
    using flight_core[OF assms(2-4) _ assms(5) n_def[symmetric]] g by metis
  obtain L where L: "of_int64 n * Fin b = Fin L" "0 \<le> L" "L \<le> 10 ^ 20"
    "\<bar>L - of_int n * b\<bar> \<le> of_int n * b / 2 ^ 53"
    using run_near[of n b] c g by auto
  obtain R where R: "fsqrt (Fin L * Fin L + Fin H * Fin H) = Fin R" "0 \<le> R"
    "\<bar>R * R - (L * L + H * H)\<bar> \<le> (L * L + H * H) / 2 ^ 50"
    using hypot_near[OF L(2,3) assms(2,3)] by blast
  have "\<bar>of_int n - H / h0\<bar> \<le> 1 / 2 + 1 / 2 ^ 20"
    using step_count_near(1)[of H h0] assms by (simp only: n_def)
  moreover have "r = \<lparr>fr_StepCount = n, fr_StepHeight = Fin h, fr_TreadDepth = Fin b,
        fr_Run = Fin L, fr_Stringer = Fin R, fr_Angle = atn (Fin h / Fin b)\<rparr>"
    using g c(5,9) L(1) R(1) by (simp add: Let_def)
  ultimately show ?thesis using c L R g by blast
qed

text \<open>C2: for the ranges of the norms (rise 600..10^6 mm, target riser 150..200 mm, comfort step
  600..640 mm, so a flight of three steps or more) the straight Solver always answers.\<close>

theorem solve_total:
  assumes "600 \<le> H" "H \<le> 10 ^ 6" "150 \<le> h0" "h0 \<le> 200" "step_arg s = Fin S" "600 \<le> S" "S \<le> 640"
  shows "\<exists>r. Solve atn (Fin H) (Fin h0) s = Inr r \<and> 3 \<le> fr_StepCount r"
proof -
  define n where "n = step_count (Fin H) (Fin h0)"
  define x where "x = H / h0"
  have x: "3 \<le> x" using assms by (simp add: x_def field_simps)
  have H: "H = x * h0" using assms by (simp add: x_def)
  have "\<bar>of_int n - x\<bar> \<le> 1 / 2 + 1 / 2 ^ 20" and n2: "n \<le> 2 ^ 30"
    using step_count_near[of H h0] assms by (simp_all add: n_def x_def)
  then have n: "of_int n - x \<le> 1 / 2 + 1 / 2 ^ 20" "x - of_int n \<le> 1 / 2 + 1 / 2 ^ 20"
    by (simp_all only: abs_le_iff minus_diff_eq)
  have "(of_int 2 :: rat) < of_int n" using n x by simp
  then have n3: "3 \<le> n" by (simp only: of_int_less_iff)
  obtain h where h: "riser_of (Fin H) n = Fin h" "rnd h = h" "0 < h" "h \<le> 10 ^ 9"
    "\<bar>of_int n * h - H\<bar> \<le> H / 2 ^ 53"
    using riser_near[of H n] assms n3 n2 by force
  have N: "3 \<le> (of_int n :: rat)" using n3 by simp
  have "H / 2 ^ 53 \<le> 1" using assms by simp
  then have "of_int n * h \<le> H + 1" using abs_le_D1[OF h(5)] by linarith
  also have "\<dots> \<le> (of_int n + 1) * 200 + 1"
    using n(2) assms x mult_mono[of x "of_int n + 1" h0 200] by (simp add: H)
  also have "\<dots> < of_int n * 270" using N by (simp add: algebra_simps)
  finally have h2: "h < 270" using N by (simp add: mult_less_cancel_left)
  have b: "\<not> tread_of (Fin S) (Fin h) \<le> 0"
  proof -
    have d: "fl (2 * h) = Fin (2 * h)" using fl_near(1)[of "2 * h" 31] h(3) h2 rnd_double[OF h(2)] by simp
    have f: "fl (S - 2 * h) = Fin (rnd (S - 2 * h))" using fl_near(1)[of "S - 2 * h" 31] h(3) h2 assms by simp
    have "60 \<le> rnd (S - 2 * h)" using bin64.rd_ge[of 60] rnd_of_int[of 60] h2 assms by simp
    then show ?thesis using d f by (simp add: tread_of_def minus_f64_def zero_f64_def)
  qed
  have "\<exists>r. Solve atn (Fin H) (Fin h0) s = Inr r \<and> fr_StepCount r = n"
    unfolding Solve_Inr_iff using assms n3 h(1) b
    by (simp add: n_def[symmetric] ComfortStepMin_def ComfortStepMax_def zero_f64_def Let_def)
  then show ?thesis using n3 by auto
qed

text \<open>Two of the paper's inputs, evaluated: 2700 mm in risers of about 180 mm.\<close>

definition no_atan :: "f64 \<Rightarrow> f64" where
  "no_atan x = x"

lemma demo_solve: "\<exists>r. Solve no_atan (Fin 2700) (Fin 180) None = Inr r \<and> fr_StepCount r = 15"
proof -
  have "(case Solve no_atan (Fin 2700) (Fin 180) None of Inl e \<Rightarrow> - 1 | Inr r \<Rightarrow> fr_StepCount r) = 15"
    by code_simp
  then show ?thesis by (auto split: sum.splits)
qed

theorem solve_sound_witness:
  "\<exists>r h b. Solve no_atan (Fin 2700) (Fin 180) None = Inr r \<and> fr_StepHeight r = Fin h
     \<and> fr_TreadDepth r = Fin b \<and> \<bar>b + 2 * h - 630\<bar> \<le> 1 / 2 ^ 44"
proof -
  obtain r where r: "Solve no_atan (Fin 2700) (Fin 180) None = Inr r" using demo_solve by blast
  have "step_arg None = Fin 630" by (simp add: step_arg_def DefaultComfortStep_def)
  then show ?thesis using solve_sound[OF r] r by fastforce
qed

theorem solve_total_witness:
  "\<exists>r. Solve no_atan (Fin 2700) (Fin 180) (Some (Fin 630)) = Inr r \<and> 3 \<le> fr_StepCount r"
  using solve_total[of 2700 180 "Some (Fin 630)" 630 no_atan] by (simp add: step_arg_def)

subsection \<open>Two flights\<close>

lemma solveTwoFlight_Inr_iff:
  "solveTwoFlight atn H h0 n1 wp s = Inr v \<longleftrightarrow> \<not> H \<le> 0 \<and> \<not> h0 \<le> 0 \<and> \<not> wp \<le> 0
     \<and> \<not> (step_arg s < ComfortStepMin \<or> step_arg s > ComfortStepMax)
     \<and> 1 \<le> step_count H h0 \<and> 1 \<le> n1 \<and> n1 \<le> step_count H h0 - 1
     \<and> \<not> tread_of (step_arg s) (riser_of H (step_count H h0)) \<le> 0
     \<and> v = (let n = step_count H h0; h = riser_of H n; b = tread_of (step_arg s) h; n2 = n - n1;
                h1 = of_int64 n1 * h; h2 = of_int64 n2 * h; l1 = of_int64 n1 * b; l2 = of_int64 n2 * b
            in \<lparr>tf_n = n, tf_n1 = n1, tf_n2 = n2, tf_nw = 0, tf_h = h, tf_b = b,
                tf_alpha = atn (h / b), tf_h1 = h1, tf_h2 = h2, tf_l1 = l1, tf_l2 = l2,
                tf_r1 = fsqrt (l1 * l1 + h1 * h1), tf_r2 = fsqrt (l2 * l2 + h2 * h2), tf_wp = wp\<rparr>)"
  by (auto simp: solveTwoFlight_def Let_def result_iffs not_less)

lemma solveUShapeWinder_Inr_iff:
  "solveUShapeWinder atn H h0 n1 nw wp s = Inr v \<longleftrightarrow> \<not> H \<le> 0 \<and> \<not> h0 \<le> 0 \<and> \<not> wp \<le> 0
     \<and> \<not> (step_arg s < ComfortStepMin \<or> step_arg s > ComfortStepMax)
     \<and> 1 \<le> step_count H h0 \<and> 1 \<le> n1 \<and> n1 \<le> step_count H h0 - 1 \<and> 3 \<le> nw
     \<and> 1 \<le> step_count H h0 - n1 - nw
     \<and> \<not> tread_of (step_arg s) (riser_of H (step_count H h0)) \<le> 0
     \<and> v = (let n = step_count H h0; h = riser_of H n; b = tread_of (step_arg s) h; n2 = n - n1 - nw;
                h1 = of_int64 n1 * h; h2 = of_int64 n2 * h; l1 = of_int64 n1 * b; l2 = of_int64 n2 * b
            in \<lparr>tf_n = n, tf_n1 = n1, tf_n2 = n2, tf_nw = nw, tf_h = h, tf_b = b,
                tf_alpha = atn (h / b), tf_h1 = h1, tf_h2 = h2, tf_l1 = l1, tf_l2 = l2,
                tf_r1 = fsqrt (l1 * l1 + h1 * h1), tf_r2 = fsqrt (l2 * l2 + h2 * h2), tf_wp = wp\<rparr>)"
  by (auto simp: solveUShapeWinder_def Let_def result_iffs not_less)

text \<open>The heights of the sections add up to the rise.\<close>

lemma section_height:
  assumes "1 \<le> m" "m \<le> 2 ^ 30" "rnd h = h" "0 < h" "h < 320"
  obtains k where "of_int64 m * Fin h = Fin k" "\<bar>k - of_int m * h\<bar> \<le> of_int m * h / 2 ^ 53"
  using run_near[OF assms(1-4)] assms(5) by auto

lemma section_sum:
  fixes h k1 k2 H :: rat
  assumes "\<bar>k1 - of_int n1 * h\<bar> \<le> of_int n1 * h / 2 ^ 53" "\<bar>k2 - of_int n2 * h\<bar> \<le> of_int n2 * h / 2 ^ 53"
    and "\<bar>of_int n * h - H\<bar> \<le> H / 2 ^ 53" "n = n1 + nw + n2" "0 \<le> nw" "0 < h" "0 \<le> H"
  shows "\<bar>k1 + of_int nw * h + k2 - H\<bar> \<le> H / 2 ^ 51"
proof -
  define x1 where "x1 = of_int n1 * h"
  define x2 where "x2 = of_int n2 * h"
  define w where "w = of_int nw * h"
  have w: "0 \<le> w" using assms(5,6) by (simp add: w_def)
  have n: "of_int n * h = x1 + w + x2" by (simp add: assms(4) x1_def x2_def w_def algebra_simps)
  note a = assms(1,2)[folded x1_def x2_def] assms(3)[unfolded n]
  note b = a[THEN abs_le_D1] a[THEN abs_le_D2]
  show ?thesis unfolding w_def[symmetric]
    using b w assms(7)
    by (intro abs_leI) ((simp add: field_simps; fail) | (simp add: field_simps, linarith))+
qed

lemma two_flight_core:
  assumes v: "solveTwoFlight atn (Fin H) (Fin h0) n1 wp s = Inr v \<or>
      solveUShapeWinder atn (Fin H) (Fin h0) n1 nw wp s = Inr v"
    and "1 \<le> H" "H \<le> 10 ^ 9" "1 \<le> h0" "\<not> isNaN (step_arg s)"
  shows "\<exists>h b h1 h2. tf_h v = Fin h \<and> tf_b v = Fin b \<and> tf_h1 v = Fin h1 \<and> tf_h2 v = Fin h2
    \<and> 0 < h \<and> 0 < b \<and> 1 \<le> tf_n1 v \<and> 1 \<le> tf_n2 v \<and> tf_n1 v = n1
    \<and> tf_n v = tf_n1 v + tf_nw v + tf_n2 v
    \<and> \<bar>h1 + of_int (tf_nw v) * h + h2 - H\<bar> \<le> H / 2 ^ 51"
proof -
  define n where "n = step_count (Fin H) (Fin h0)"
  define x where "x = step_arg s"
  have g: "1 \<le> n" "1 \<le> n1" "\<not> (x < ComfortStepMin \<or> x > ComfortStepMax)"
    "\<not> tread_of x (riser_of (Fin H) n) \<le> 0"
    "tf_n1 v = n1" "0 \<le> tf_nw v" "1 \<le> tf_n2 v" "tf_n v = n" "n = n1 + tf_nw v + tf_n2 v"
    "tf_h v = riser_of (Fin H) n" "tf_b v = tread_of x (tf_h v)"
    "tf_h1 v = of_int64 n1 * tf_h v" "tf_h2 v = of_int64 (tf_n2 v) * tf_h v"
    using v by (auto simp: solveTwoFlight_Inr_iff solveUShapeWinder_Inr_iff Let_def n_def x_def)
  obtain h b where c: "n \<le> 2 ^ 30" "riser_of (Fin H) n = Fin h" "rnd h = h" "0 < h" "h < 320"
    "\<bar>of_int n * h - H\<bar> \<le> H / 2 ^ 53" "tread_of x (riser_of (Fin H) n) = Fin b" "0 < b"
    using flight_core[OF assms(2-4) g(3) _ n_def[symmetric] g(1,4)] assms(5) x_def by metis
  have b1: "n1 \<le> 2 ^ 30" "tf_n2 v \<le> 2 ^ 30" using c(1) g(2,6,7,9) by linarith+
  obtain k1 where k1: "of_int64 n1 * Fin h = Fin k1" "\<bar>k1 - of_int n1 * h\<bar> \<le> of_int n1 * h / 2 ^ 53"
    using section_height[OF g(2) b1(1) c(3-5)] by blast
  obtain k2 where k2: "of_int64 (tf_n2 v) * Fin h = Fin k2"
      "\<bar>k2 - of_int (tf_n2 v) * h\<bar> \<le> of_int (tf_n2 v) * h / 2 ^ 53"
    using section_height[OF g(7) b1(2) c(3-5)] by blast
  have "\<bar>k1 + of_int (tf_nw v) * h + k2 - H\<bar> \<le> H / 2 ^ 51"
    using section_sum[OF k1(2) k2(2) c(6) g(9,6) c(4)] assms(2) by simp
  then show ?thesis using g c k1(1) k2(1) by (intro exI[of _ h] exI[of _ b] exI[of _ k1] exI[of _ k2]) auto
qed

text \<open>An L-shaped flight (and a U-shaped one with a platform, which uses the same block of
  formulas) splits its steps into a lower flight of the requested n1 steps and an upper one, each
  of one step at least, n1 + n2 = n, and the heights of the two flights add up to the rise, up to
  a relative error of 2^-51.\<close>

theorem lshape_sections:
  assumes "SolveLShape atn (Fin H) (Fin h0) n1 wp s = Inr r"
    and "1 \<le> H" "H \<le> 10 ^ 9" "1 \<le> h0" "\<not> isNaN (step_arg s)"
  shows "\<exists>h1 h2. ls_LowerHeight r = Fin h1 \<and> ls_UpperHeight r = Fin h2
    \<and> ls_LowerStepCount r = n1 \<and> 1 \<le> n1 \<and> 1 \<le> ls_UpperStepCount r
    \<and> ls_LowerStepCount r + ls_UpperStepCount r = ls_StepCount r
    \<and> \<bar>h1 + h2 - H\<bar> \<le> H / 2 ^ 51 \<and> ls_LandingWidth r = wp"
proof -
  obtain v where v: "solveTwoFlight atn (Fin H) (Fin h0) n1 wp s = Inr v"
    and r: "ls_LowerHeight r = tf_h1 v" "ls_UpperHeight r = tf_h2 v" "ls_LowerStepCount r = tf_n1 v"
      "ls_UpperStepCount r = tf_n2 v" "ls_StepCount r = tf_n v" "ls_LandingWidth r = tf_wp v"
    using assms(1) by (auto simp: SolveLShape_def bindR_Inr_iff)
  have "tf_nw v = 0" "tf_wp v = wp" using v by (auto simp: solveTwoFlight_Inr_iff Let_def)
  then show ?thesis using two_flight_core[OF disjI1[OF v] assms(2-5)] r by fastforce
qed

text \<open>A U-shaped flight with winders has n1 >= 1 lower, nw >= 3 winder and n2 >= 1 upper steps
  with n1 + nw + n2 = n, and the heights of the three sections add up to the rise.\<close>

theorem winder_sections:
  assumes "SolveUShapeWinder atn (Fin H) (Fin h0) n1 nw wp s = Inr r"
    and "1 \<le> H" "H \<le> 10 ^ 9" "1 \<le> h0" "\<not> isNaN (step_arg s)"
  shows "\<exists>h h1 h2. us_StepHeight r = Fin h \<and> us_LowerHeight r = Fin h1 \<and> us_UpperHeight r = Fin h2
    \<and> us_LowerStepCount r = n1 \<and> 1 \<le> n1 \<and> us_WinderCount r = nw \<and> 3 \<le> nw
    \<and> 1 \<le> us_UpperStepCount r \<and> n1 + nw + us_UpperStepCount r = us_StepCount r
    \<and> \<bar>h1 + of_int nw * h + h2 - H\<bar> \<le> H / 2 ^ 51"
proof -
  obtain v where v: "solveUShapeWinder atn (Fin H) (Fin h0) n1 nw wp s = Inr v" and r: "r = ushape_of v"
    using assms(1) by (auto simp: SolveUShapeWinder_def bindR_Inr_iff)
  have "tf_nw v = nw" "3 \<le> nw" using v by (auto simp: solveUShapeWinder_Inr_iff Let_def)
  then show ?thesis using two_flight_core[OF disjI2[OF v] assms(2-5)] r
    by (fastforce simp: ushape_of_def)
qed

text \<open>The witness: 3000 mm in risers of 180 mm, so 17 of them, six of them below the landing.\<close>

lemma demo_values:
  "step_count (Fin 3000) (Fin 180) = 17"
  "\<not> tread_of (step_arg None) (riser_of (Fin 3000) 17) \<le> 0"
  "\<not> (step_arg None < ComfortStepMin \<or> step_arg None > ComfortStepMax)"
  by code_simp+

lemma demo_lshape: "\<exists>r. SolveLShape no_atan (Fin 3000) (Fin 180) 6 (Fin 900) None = Inr r"
  unfolding SolveLShape_def bindR_Inr_iff solveTwoFlight_Inr_iff
  using demo_values by (simp add: zero_f64_def)

theorem lshape_sections_witness:
  "\<exists>r h1 h2. SolveLShape no_atan (Fin 3000) (Fin 180) 6 (Fin 900) None = Inr r
     \<and> ls_LowerHeight r = Fin h1 \<and> ls_UpperHeight r = Fin h2 \<and> \<bar>h1 + h2 - 3000\<bar> \<le> 3000 / 2 ^ 51"
proof -
  obtain r where r: "SolveLShape no_atan (Fin 3000) (Fin 180) 6 (Fin 900) None = Inr r"
    using demo_lshape by blast
  have "\<not> isNaN (step_arg None)" by (simp add: step_arg_def DefaultComfortStep_def)
  then show ?thesis using lshape_sections[OF r] r by fastforce
qed

lemma demo_winder:
  "\<exists>r. SolveUShapeWinder no_atan (Fin 3000) (Fin 180) 6 4 (Fin 900) None = Inr r"
  unfolding SolveUShapeWinder_def bindR_Inr_iff solveUShapeWinder_Inr_iff
  using demo_values by (simp add: zero_f64_def)

theorem winder_sections_witness:
  "\<exists>r. SolveUShapeWinder no_atan (Fin 3000) (Fin 180) 6 4 (Fin 900) None = Inr r
     \<and> us_WinderCount r = 4 \<and> 6 + 4 + us_UpperStepCount r = us_StepCount r"
proof -
  obtain r where r: "SolveUShapeWinder no_atan (Fin 3000) (Fin 180) 6 4 (Fin 900) None = Inr r"
    using demo_winder by blast
  have "\<not> isNaN (step_arg None)" by (simp add: step_arg_def DefaultComfortStep_def)
  then show ?thesis using winder_sections[OF r] r by fastforce
qed

subsection \<open>The spiral\<close>

lemma solveSpiral_Inr_D:
  assumes "SolveSpiral atn H h0 W R = Inr q"
  defines "n \<equiv> step_count H h0"
  defines "r \<equiv> R - W" and "d \<equiv> FullTurnRadians / of_int64 n"
  defines "rw \<equiv> r + fl (2 / 3) * W"
  shows "\<not> R \<le> W" "1 \<le> n" "sr_StepCount q = n" "sr_StepHeight q = riser_of H n"
    "sr_OuterRadius q = R" "sr_ColumnRadius q = r" "sr_WalkRadius q = rw"
    "sr_AngularStep q = d" "sr_InnerTread q = d * r" "sr_WalkTread q = d * rw" "sr_OuterTread q = d * R"
    "sr_ComfortStep q = Fin 2 * riser_of H n + d * rw"
    "\<not> d * r < Fin 100" "\<not> d * R < Fin 250" "\<not> (d * rw < Fin 260 \<or> d * rw > Fin 320)"
    "\<not> (sr_ComfortStep q < ComfortStepMin \<or> sr_ComfortStep q > ComfortStepMax)"
  using assms by (auto simp: SolveSpiral_def solveSpiral_def Let_def result_iffs)

lemma two_thirds: "fl (2 / 3) = Fin (6004799503160661 / 9007199254740992)"
  by code_simp

lemma walk_radius:
  assumes "1 \<le> W" "W \<le> R" "R \<le> 10 ^ 6" "rnd R = R"
  obtains r rw where "Fin R - Fin W = Fin r" "Fin r + fl (2 / 3) * Fin W = Fin rw"
    "0 \<le> r" "r \<le> rw" "rw \<le> R" "rnd r = r"
proof -
  let ?c = "6004799503160661 / 9007199254740992 :: rat"
  let ?r = "rnd (R - W)"
  let ?x = "?c * W"
  have d: "\<bar>R - W\<bar> \<le> 2 ^ 20" "\<bar>?x\<bar> \<le> 2 ^ 20" using assms by simp_all
  note e = fl_near[OF d(1)] fl_near[OF d(2)]
  have r: "0 \<le> ?r" using assms by (intro rnd_nonneg) simp
  have x: "0 \<le> rnd ?x" using assms by (intro rnd_nonneg) simp
  have "?r - (R - W) \<le> 1 / 10000" "rnd ?x - ?x \<le> 1 / 10000"
    using abs_le_D1[OF e(2)] abs_le_D1[OF e(4)] by simp_all
  then have up: "?r + rnd ?x \<le> R" using assms by simp
  have "\<bar>?r + rnd ?x\<bar> \<le> 2 ^ 20" using up r x assms by simp
  note s = fl_near(1)[OF this]
  have "rnd (?r + rnd ?x) \<le> R" using bin64.rd_le[OF assms(4) up] .
  moreover have "?r \<le> rnd (?r + rnd ?x)" using bin64.rd_ge[of ?r "?r + rnd ?x"] x by simp
  ultimately show ?thesis using r e(1,3) s
    by (intro that[of ?r "rnd (?r + rnd ?x)"]) (auto simp: minus_f64_def two_thirds)
qed

text \<open>The products with the angular step keep the order of the radii.\<close>

lemma spiral_products:
  assumes "0 < d" "d \<le> 10" "0 \<le> r" "r \<le> rw" "rw \<le> R" "R \<le> 10 ^ 6"
  obtains bi bw bo where "Fin d * Fin r = Fin bi" "Fin d * Fin rw = Fin bw" "Fin d * Fin R = Fin bo"
    "0 \<le> bi" "bi \<le> bw" "bw \<le> bo"
proof -
  have m: "d * r \<le> d * rw" "d * rw \<le> d * R" "0 \<le> d * r" using assms by (auto intro: mult_left_mono)
  have "d * R \<le> 10 * 10 ^ 6" using assms by (intro mult_mono) auto
  then have b: "\<bar>d * r\<bar> \<le> 2 ^ 30" "\<bar>d * rw\<bar> \<le> 2 ^ 30" "\<bar>d * R\<bar> \<le> 2 ^ 30" using m by simp_all
  show ?thesis using fl_near(1)[OF b(1)] fl_near(1)[OF b(2)] fl_near(1)[OF b(3)] m rnd_nonneg[OF m(3)]
    by (intro that[of "rnd (d * r)" "rnd (d * rw)" "rnd (d * R)"]) (auto intro: rnd_mono)
qed

lemma angular_step:
  assumes "1 \<le> n" "n \<le> 2 ^ 30"
  obtains d where "FullTurnRadians / of_int64 n = Fin d" "0 < d" "d \<le> 10"
proof -
  let ?t = "884279719003555 / 140737488355328 :: rat"
  let ?x = "?t / of_int n"
  have n: "1 \<le> (of_int n :: rat)" using assms by simp
  have n2: "(of_int n :: rat) \<le> of_int (2 ^ 30)" using assms(2) by (simp only: of_int_le_iff)
  have "?x \<le> ?t / 1" using n by (intro divide_left_mono) auto
  then have hi: "?x \<le> 10" by simp
  have lo: "?t / 2 ^ 30 \<le> ?x" using n n2 by (intro divide_left_mono) auto
  then have "1 / 2 ^ 30 \<le> ?x" by (rule order_trans[rotated]) simp
  then have "rnd (1 / 2 ^ 30) \<le> rnd ?x" by (rule rnd_mono)
  moreover have "rnd (1 / 2 ^ 30) = 1 / 2 ^ 30"
    using rnd_pow2[of "- 30"] by (simp add: power_int_minus_divide)
  moreover have "(0::rat) < 1 / 2 ^ 30" by simp
  ultimately have p: "0 < rnd ?x" by linarith
  have "rnd ?x \<le> 10" using bin64.rd_le[of 10 ?x] rnd_of_int[of 10] hi by simp
  moreover have "fl ?x = Fin (rnd ?x)" using fl_near(1)[of ?x 10] hi lo n by simp
  ultimately show ?thesis using p n of_int64_small[OF assms]
    by (intro that[of "rnd ?x"]) (auto simp: FullTurnRadians_def)
qed

text \<open>C4: a spiral the Solver returns has an open column (0 < r), a walking line between the column
  and the outer edge (r <= r_walk <= R), treads that widen outwards (b_in <= b_walk <= b_out) within
  the limits 100, 260..320 and 250 mm, a comfort step 2h + b_walk of 600..640 mm on the walking
  line, and risers that add up to the rise.\<close>

theorem spiral_sound:
  assumes "SolveSpiral atn (Fin H) (Fin h0) (Fin W) (Fin R) = Inr q"
    and "1 \<le> H" "H \<le> 10 ^ 9" "1 \<le> h0" "1 \<le> W" "R \<le> 10 ^ 6" "is_rep (Fin R)"
  shows "\<exists>n h r rw bi bw bo S. sr_StepCount q = n \<and> sr_StepHeight q = Fin h
    \<and> sr_ColumnRadius q = Fin r \<and> sr_WalkRadius q = Fin rw \<and> sr_InnerTread q = Fin bi
    \<and> sr_WalkTread q = Fin bw \<and> sr_OuterTread q = Fin bo \<and> sr_ComfortStep q = Fin S
    \<and> 1 \<le> n \<and> 0 < h \<and> \<bar>of_int n * h - H\<bar> \<le> H / 2 ^ 53
    \<and> W < R \<and> 0 < r \<and> r \<le> rw \<and> rw \<le> R
    \<and> 100 \<le> bi \<and> bi \<le> bw \<and> bw \<le> bo \<and> 250 \<le> bo \<and> 260 \<le> bw \<and> bw \<le> 320
    \<and> 600 \<le> S \<and> S \<le> 640"
proof -
  define n where "n = step_count (Fin H) (Fin h0)"
  note g = solveSpiral_Inr_D[OF assms(1), folded n_def]
  have n2: "n \<le> 2 ^ 30" using step_count_near(2)[of H h0] assms by (simp add: n_def)
  obtain h where h: "riser_of (Fin H) n = Fin h" "rnd h = h" "0 < h" "h \<le> 10 ^ 9"
    "\<bar>of_int n * h - H\<bar> \<le> H / 2 ^ 53"
    using riser_near[OF assms(2,3) g(2) n2] by blast
  have WR: "W < R" using g(1) by simp
  obtain r rw where r: "Fin R - Fin W = Fin r" "Fin r + fl (2 / 3) * Fin W = Fin rw"
    "0 \<le> r" "r \<le> rw" "rw \<le> R" "rnd r = r"
    using walk_radius[of W R] assms WR by (auto simp: is_rep_def)
  obtain d where d: "FullTurnRadians / of_int64 n = Fin d" "0 < d" "d \<le> 10"
    using angular_step[OF g(2) n2] by blast
  obtain bi bw bo where b: "Fin d * Fin r = Fin bi" "Fin d * Fin rw = Fin bw" "Fin d * Fin R = Fin bo"
    "0 \<le> bi" "bi \<le> bw" "bw \<le> bo"
    using spiral_products[OF d(2,3) r(3-5) assms(6)] by blast
  have lim: "100 \<le> bi" "250 \<le> bo" "260 \<le> bw" "bw \<le> 320"
    using g(13-15)[unfolded d(1) r(1,2) b(1-3)] by (simp_all add: not_less)
  have "r \<noteq> 0" using b(1) lim(1) by (auto simp: fl_def)
  obtain S where "sr_ComfortStep q = Fin S"
  proof -
    have a: "fl (2 * h) = Fin (2 * h)" using fl_near(1)[of "2 * h" 31] h rnd_double[OF h(2)] by simp
    have "fl (2 * h + bw) = Fin (rnd (2 * h + bw))" using fl_near(1)[of "2 * h + bw" 32] h lim by simp
    then show ?thesis using that a g(12)[unfolded d(1) r(1,2) b(1-3) h(1)] by simp
  qed
  moreover from this have "600 \<le> S" "S \<le> 640"
    using g(16) by (simp_all add: ComfortStepMin_def ComfortStepMax_def not_less)
  moreover have "sr_ColumnRadius q = Fin r" "sr_WalkRadius q = Fin rw" "sr_InnerTread q = Fin bi"
    "sr_WalkTread q = Fin bw" "sr_OuterTread q = Fin bo" "sr_StepHeight q = Fin h"
    using g(4,6,7,9,10,11) unfolding d(1) r(1,2) b(1-3) h(1) by simp_all
  moreover have "0 < r" using r(3) \<open>r \<noteq> 0\<close> by simp
  ultimately show ?thesis using g(2,3) h(3,5) r(4,5) b(5,6) lim WR by blast
qed

subsection \<open>Recalculation\<close>

text \<open>The riser the Solver writes back is a fixed point: it asks for the same step count again.\<close>

lemma step_count_stable:
  assumes "1 \<le> H" "1 \<le> n" "n \<le> 2 ^ 30" "0 < h" "\<bar>of_int n * h - H\<bar> \<le> H / 2 ^ 53"
  shows "step_count (Fin H) (Fin h) = n"
proof -
  define N :: rat where "N = of_int n"
  define x where "x = H / h"
  have N: "1 \<le> N" "N \<le> 2 ^ 30"
  proof -
    show "1 \<le> N" using assms(2) by (simp add: N_def)
    have "N \<le> of_int (2 ^ 30)" unfolding N_def using assms(3) by (simp only: of_int_le_iff)
    then show "N \<le> 2 ^ 30" by simp
  qed
  have xh: "x * h = H" using assms(4) by (simp add: x_def)
  have x0: "0 < x" using assms(1,4) by (simp add: x_def)
  have "\<bar>N * h - x * h\<bar> \<le> x * h / 2 ^ 53" using assms(5) by (simp add: N_def xh)
  moreover have "\<bar>N * h - x * h\<bar> = \<bar>N - x\<bar> * h" using assms(4) by (simp add: abs_mult flip: left_diff_distrib)
  ultimately have "\<bar>N - x\<bar> * h \<le> x / 2 ^ 53 * h" by simp
  then have e: "\<bar>N - x\<bar> \<le> x / 2 ^ 53" using assms(4) by (simp only: mult_le_cancel_right_pos)
  have "x / 2 ^ 53 \<le> x / 2" using x0 by (intro divide_left_mono) auto
  then have "x \<le> 2 * N" using abs_le_D2[OF e] by linarith
  then have x2: "x \<le> 2 ^ 31" using N(2) by simp
  have "x / 2 ^ 53 \<le> 2 ^ 31 / 2 ^ 53" using x2 by (intro divide_right_mono) auto
  then have e2: "\<bar>N - x\<bar> \<le> 1 / 1000" using e by simp
  have "\<bar>x\<bar> \<le> 2 ^ 31" using x0 x2 by simp
  note f = fl_near[OF this]
  have "\<bar>rnd x - x\<bar> \<le> 1 / 1000" using f(2) by simp
  then have r: "\<bar>rnd x - N\<bar> \<le> 1 / 500"
    using e2 abs_triangle_ineq[of "rnd x - x" "x - N"] by (simp add: abs_minus_commute)
  have "0 \<le> rnd x" using x0 by (intro rnd_nonneg) simp
  then have "round_away (rnd x) = n"
    using abs_le_D1[OF r] abs_le_D2[OF r] unfolding round_away_def
    by (simp add: floor_unique N_def)
  then show ?thesis
    using f(1) assms to_int64_of_int[of n] by (simp add: step_count_def x_def)
qed

text \<open>Recalculation is stable: solving again with the riser height the Solver returned as the
  target gives the same result, every field of it. So applying a result to a configuration and
  solving that configuration again changes nothing.\<close>

theorem solve_stable:
  assumes "Solve atn (Fin H) (Fin h0) s = Inr r" "1 \<le> H" "H \<le> 10 ^ 9" "1 \<le> h0" "\<not> isNaN (step_arg s)"
  shows "Solve atn (Fin H) (fr_StepHeight r) s = Inr r"
proof -
  define n where "n = step_count (Fin H) (Fin h0)"
  note g = assms(1)[unfolded Solve_Inr_iff, folded n_def]
  obtain S h b where c: "n \<le> 2 ^ 30" "riser_of (Fin H) n = Fin h" "0 < h" "\<bar>of_int n * h - H\<bar> \<le> H / 2 ^ 53"
    using flight_core[OF assms(2-4) _ assms(5) n_def[symmetric]] g by metis
  have r: "fr_StepHeight r = Fin h" using g c(2) by (simp add: Let_def)
  have "step_count (Fin H) (Fin h) = n" using step_count_stable assms(2) g c by blast
  then show ?thesis unfolding Solve_Inr_iff r using g c(2,3) by (simp add: zero_f64_def)
qed

theorem solve_stable_witness:
  "\<exists>r. Solve no_atan (Fin 2700) (Fin 180) None = Inr r
     \<and> Solve no_atan (Fin 2700) (fr_StepHeight r) None = Inr r"
proof -
  obtain r where r: "Solve no_atan (Fin 2700) (Fin 180) None = Inr r" using demo_solve by blast
  have "\<not> isNaN (step_arg None)" by (simp add: step_arg_def DefaultComfortStep_def)
  then show ?thesis using solve_stable[OF r] r by simp
qed

lemma demo_spiral:
  "\<exists>q. SolveSpiral no_atan (Fin 2720) (Fin 170) (Fin 600) (Fin 913) = Inr q"
proof -
  have "(case SolveSpiral no_atan (Fin 2720) (Fin 170) (Fin 600) (Fin 913) of
      Inl e \<Rightarrow> - 1 | Inr q \<Rightarrow> sr_StepCount q) = 16"
    by code_simp
  then show ?thesis by (auto split: sum.splits)
qed

theorem spiral_sound_witness:
  "\<exists>q r rw. SolveSpiral no_atan (Fin 2720) (Fin 170) (Fin 600) (Fin 913) = Inr q
     \<and> sr_ColumnRadius q = Fin r \<and> sr_WalkRadius q = Fin rw \<and> 0 < r \<and> r \<le> rw \<and> rw \<le> 913"
proof -
  obtain q where q: "SolveSpiral no_atan (Fin 2720) (Fin 170) (Fin 600) (Fin 913) = Inr q"
    using demo_spiral by blast
  have "is_rep (Fin 913)" using is_rep_numeral[of 913] by simp
  then show ?thesis using spiral_sound[OF q] q by fastforce
qed

subsection \<open>The checked variants\<close>

lemma SolveChecked_Inr_iff:
  "SolveChecked atn cfg rules s = Inr (res, vr, cfg') \<longleftrightarrow>
     Solve atn (cf_Height cfg) (cf_StepHeight cfg) s = Inr res
     \<and> vr = Validate (flight_Apply res cfg) rules
     \<and> cfg' = (if rs_Blocking vr
         then cfg\<lparr>cf_StepCount := 0, cf_StepHeight := 0, cf_TreadDepth := 0, cf_Length := 0,
           cf_StringerLength := 0, cf_Angle := 0\<rparr>
         else flight_Apply res cfg)"
  by (auto simp: SolveChecked_def bindR_Inr_iff Let_def flight_Apply_def)

text \<open>C3: a checked solve that validation lets through leaves the configuration with exactly the
  fields of \<open>Apply\<close> written, and the validation result it returns is the one of the configuration
  it leaves; running it again on that configuration returns the same and changes nothing.\<close>

theorem solve_checked_stable:
  assumes "SolveChecked atn cfg rules s = Inr (res, vr, cfg')" "\<not> rs_Blocking vr"
    and "cf_Height cfg = Fin H" "1 \<le> H" "H \<le> 10 ^ 9" "cf_StepHeight cfg = Fin h0" "1 \<le> h0"
    and "\<not> isNaN (step_arg s)"
  shows "cfg' = flight_Apply res cfg \<and> vr = Validate cfg' rules
    \<and> SolveChecked atn cfg' rules s = Inr (res, vr, cfg')"
proof -
  have s: "Solve atn (Fin H) (Fin h0) s = Inr res" and v: "vr = Validate (flight_Apply res cfg) rules"
    and c: "cfg' = flight_Apply res cfg"
    using assms(1-3,6) by (auto simp: SolveChecked_Inr_iff)
  have "Solve atn (Fin H) (fr_StepHeight res) s = Inr res"
    using solve_stable[OF s assms(4,5,7,8)] .
  moreover have "cf_Height cfg' = Fin H" "cf_StepHeight cfg' = fr_StepHeight res"
    "flight_Apply res cfg' = cfg'"
    using assms(3) by (simp_all add: c flight_Apply_def)
  ultimately show ?thesis using v c assms(2) by (simp add: SolveChecked_Inr_iff)
qed

lemma Solve_zero_riser: "\<not> H \<le> 0 \<Longrightarrow> Solve atn H 0 s = Inl riserInputError"
  by (simp add: Solve_def Let_def zero_f64_def)

lemma two_flight_zero_riser:
  "\<not> H \<le> 0 \<Longrightarrow> solveTwoFlight atn H 0 n1 wp s = Inl riserInputError"
  "\<not> H \<le> 0 \<Longrightarrow> solveUShapeWinder atn H 0 n1 nw wp s = Inl riserInputError"
  "\<not> H \<le> 0 \<Longrightarrow> solveSpiral atn H 0 W R = Inl riserInputError"
  by (simp_all add: solveTwoFlight_def solveUShapeWinder_def solveSpiral_def Let_def zero_f64_def)

text \<open>What each checked variant leaves when validation blocks: the rise is kept, the riser is zero.\<close>

lemma SolveCheckedLShape_D:
  assumes "SolveCheckedLShape atn cfg rules s = Inr (res, vr, cfg')"
  shows "\<not> cf_Height cfg \<le> 0" "cf_Height cfg' = cf_Height cfg" "rs_Blocking vr \<longrightarrow> cf_StepHeight cfg' = 0"
    "cf_LandingDepth cfg' = 0" "ls_LandingDepth res = cf_Width cfg"
    "\<not> cf_LandingWidth cfg < cf_Width cfg" "\<not> cf_LandingWidth cfg \<le> 0"
  using assms
  by (auto simp: SolveCheckedLShape_def SolveLShape_def solveTwoFlight_Inr_iff result_iffs Let_def
      lshape_Apply_def zero_f64_def)

lemma SolveCheckedUShape_D:
  assumes "SolveCheckedUShape atn cfg rules s = Inr (res, vr, cfg')"
  shows "\<not> cf_Height cfg \<le> 0" "cf_Height cfg' = cf_Height cfg" "rs_Blocking vr \<longrightarrow> cf_StepHeight cfg' = 0"
  using assms
  by (auto simp: SolveCheckedUShape_def SolveUShape_def SolveUShapeWinder_def solveTwoFlight_Inr_iff
      solveUShapeWinder_Inr_iff result_iffs Let_def ushape_Apply_def split: if_splits)

lemma SolveCheckedSpiral_D:
  assumes "SolveCheckedSpiral atn cfg rules = Inr (res, vr, cfg')"
  shows "\<not> cf_Height cfg \<le> 0" "cf_Height cfg' = cf_Height cfg" "rs_Blocking vr \<longrightarrow> cf_StepHeight cfg' = 0"
  using assms
  by (auto simp: SolveCheckedSpiral_def SolveSpiral_def solveSpiral_def result_iffs Let_def spiral_Apply_def)

lemma SolveChecked_D:
  assumes "SolveChecked atn cfg rules s = Inr (res, vr, cfg')"
  shows "\<not> cf_Height cfg \<le> 0" "cf_Height cfg' = cf_Height cfg" "rs_Blocking vr \<longrightarrow> cf_StepHeight cfg' = 0"
  using assms by (auto simp: SolveChecked_Inr_iff Solve_Inr_iff flight_Apply_def)

lemma checked_zero_riser:
  assumes "\<not> cf_Height cfg \<le> 0" "cf_StepHeight cfg = 0"
  shows "SolveChecked atn cfg rules s = Inl riserInputError"
    "SolveCheckedLShape atn cfg rules s = Inl riserInputError"
    "SolveCheckedUShape atn cfg rules s = Inl riserInputError"
    "SolveCheckedSpiral atn cfg rules = Inl riserInputError"
  using assms Solve_zero_riser two_flight_zero_riser
  by (simp_all add: SolveChecked_def SolveCheckedLShape_def SolveLShape_def SolveCheckedUShape_def
      SolveUShape_def SolveUShapeWinder_def SolveCheckedSpiral_def SolveSpiral_def)

text \<open>When validation blocks, a checked solve leaves the configuration with the fields of \<open>Apply\<close> zero,
  the target riser of the input among them, and each checked variant resets the target riser, so repeating
  the call on the same configuration, whatever the rules, is refused with the riser input error.\<close>

theorem checked_block_resets:
  "(\<forall>res vr cfg'. SolveChecked atn cfg rules s = Inr (res, vr, cfg') \<and> rs_Blocking vr \<longrightarrow>
      cfg' = cfg\<lparr>cf_StepCount := 0, cf_StepHeight := 0, cf_TreadDepth := 0, cf_Length := 0,
        cf_StringerLength := 0, cf_Angle := 0\<rparr>
      \<and> SolveChecked atn cfg' rules' s = Inl riserInputError)
   \<and> (\<forall>res vr cfg'. SolveCheckedLShape atn cfg rules s = Inr (res, vr, cfg') \<and> rs_Blocking vr \<longrightarrow>
      SolveCheckedLShape atn cfg' rules' s = Inl riserInputError)
   \<and> (\<forall>res vr cfg'. SolveCheckedUShape atn cfg rules s = Inr (res, vr, cfg') \<and> rs_Blocking vr \<longrightarrow>
      SolveCheckedUShape atn cfg' rules' s = Inl riserInputError)
   \<and> (\<forall>res vr cfg'. SolveCheckedSpiral atn cfg rules = Inr (res, vr, cfg') \<and> rs_Blocking vr \<longrightarrow>
      SolveCheckedSpiral atn cfg' rules' = Inl riserInputError)"
proof (intro conjI allI impI; elim conjE)
  fix vr :: Result and cfg' :: StairConfiguration assume b: "rs_Blocking vr"
  show "cfg' = cfg\<lparr>cf_StepCount := 0, cf_StepHeight := 0, cf_TreadDepth := 0, cf_Length := 0,
        cf_StringerLength := 0, cf_Angle := 0\<rparr>"
    if "SolveChecked atn cfg rules s = Inr (res, vr, cfg')" for res
    using that b by (simp add: SolveChecked_Inr_iff)
  show "SolveChecked atn cfg' rules' s = Inl riserInputError"
    if "SolveChecked atn cfg rules s = Inr (res, vr, cfg')" for res
    using SolveChecked_D[OF that] b by (intro checked_zero_riser) auto
  show "SolveCheckedLShape atn cfg' rules' s = Inl riserInputError"
    if "SolveCheckedLShape atn cfg rules s = Inr (res, vr, cfg')" for res
    using SolveCheckedLShape_D[OF that] b by (intro checked_zero_riser) auto
  show "SolveCheckedUShape atn cfg' rules' s = Inl riserInputError"
    if "SolveCheckedUShape atn cfg rules s = Inr (res, vr, cfg')" for res
    using SolveCheckedUShape_D[OF that] b by (intro checked_zero_riser) auto
  show "SolveCheckedSpiral atn cfg' rules' = Inl riserInputError"
    if "SolveCheckedSpiral atn cfg rules = Inr (res, vr, cfg')" for res
    using SolveCheckedSpiral_D[OF that] b by (intro checked_zero_riser) auto
qed

text \<open>A checked L-shaped solve loses the configured landing depth: whatever it was, the
  configuration comes back with landing depth zero and the result reports the width of the flight
  as the depth of the landing; the landing it accepts is not narrower than the flight.\<close>

theorem lshape_landing_depth_lost:
  assumes "SolveCheckedLShape atn cfg rules s = Inr (res, vr, cfg')"
  shows "cf_LandingDepth cfg' = 0 \<and> ls_LandingDepth res = cf_Width cfg
    \<and> \<not> cf_LandingWidth cfg < cf_Width cfg"
  using SolveCheckedLShape_D[OF assms] by simp

definition demo_l_cfg :: StairConfiguration where
  "demo_l_cfg = zero_config\<lparr>cf_Height := Fin 3000, cf_StepHeight := Fin 180, cf_LowerStepCount := 6,
     cf_LandingWidth := Fin 900, cf_Width := Fin 900, cf_LandingDepth := Fin 1500\<rparr>"

lemma demo_l_checked:
  "\<exists>res vr cfg'. SolveCheckedLShape no_atan demo_l_cfg (NewSet [] []) None = Inr (res, vr, cfg')"
proof -
  obtain v where v: "solveTwoFlight no_atan (Fin 3000) (Fin 180) 6 (Fin 900) None = Inr v" "tf_wp v = Fin 900"
    unfolding solveTwoFlight_Inr_iff using demo_values by (auto simp: zero_f64_def Let_def)
  then show ?thesis by (simp add: SolveCheckedLShape_def SolveLShape_def demo_l_cfg_def Let_def)
qed

theorem lshape_landing_depth_lost_witness:
  "\<exists>res vr cfg'. SolveCheckedLShape no_atan demo_l_cfg (NewSet [] []) None = Inr (res, vr, cfg')
     \<and> cf_LandingDepth demo_l_cfg = Fin 1500 \<and> cf_LandingDepth cfg' = 0 \<and> ls_LandingDepth res = Fin 900"
proof -
  obtain res vr cfg' where "SolveCheckedLShape no_atan demo_l_cfg (NewSet [] []) None = Inr (res, vr, cfg')"
    using demo_l_checked by blast
  moreover note lshape_landing_depth_lost[OF this]
  ultimately show ?thesis by (auto simp: demo_l_cfg_def)
qed

text \<open>A blocked case: 600 mm with risers of 200 mm and a comfort step of 600 mm, a tread of 200 mm.\<close>

definition demo_steep :: StairConfiguration where
  "demo_steep = zero_config\<lparr>cf_Height := Fin 600, cf_StepHeight := Fin 200\<rparr>"

lemma demo_steep_values:
  "step_count (Fin 600) (Fin 200) = 3" "riser_of (Fin 600) 3 = Fin 200"
  "tread_of (Fin 600) (Fin 200) = Fin 200"
  by code_simp+

lemma demo_steep_blocks:
  "\<exists>res vr cfg'. SolveChecked no_atan demo_steep (StandardProfile no_texts []) (Some (Fin 600)) = Inr (res, vr, cfg')
     \<and> rs_Blocking vr"
proof -
  obtain res where s: "Solve no_atan (Fin 600) (Fin 200) (Some (Fin 600)) = Inr res"
    and t: "fr_TreadDepth res = Fin 200"
    unfolding Solve_Inr_iff using demo_steep_values
    by (auto simp: step_arg_def zero_f64_def ComfortStepMin_def ComfortStepMax_def Let_def)
  have "violated (flight_Apply res demo_steep) (StandardProfile no_texts [])
      \<lparr>bd_code = GEO_TREAD_DEPTH, bd_element = ''tread_depth'', bd_value = cf_TreadDepth\<rparr>
      (standard_rules no_texts ! 1)"
    using t Contains_minmax(2)[of 260 320 "1/10" 200]
    by (simp add: violated_def standard_active standard_rules_def profile_rule_def flight_Apply_def)
  then have "rs_Blocking (Validate (flight_Apply res demo_steep) (StandardProfile no_texts []))"
    unfolding Validate_blocking_iff bindings_def by (force simp: standard_rules_def profile_rule_def)
  then show ?thesis using s by (simp add: SolveChecked_Inr_iff demo_steep_def)
qed

theorem checked_block_resets_witness:
  "\<exists>res vr cfg'. SolveChecked no_atan demo_steep (StandardProfile no_texts []) (Some (Fin 600)) = Inr (res, vr, cfg')
     \<and> SolveChecked no_atan cfg' (NewSet [] []) (Some (Fin 600)) = Inl riserInputError"
  using demo_steep_blocks checked_block_resets[of no_atan demo_steep "StandardProfile no_texts []" "Some (Fin 600)" "NewSet [] []"]
  by blast

text \<open>A case that validation lets through, against the empty rule set.\<close>

definition demo_gentle :: StairConfiguration where
  "demo_gentle = zero_config\<lparr>cf_Height := Fin 2700, cf_StepHeight := Fin 180\<rparr>"

theorem solve_checked_stable_witness:
  "\<exists>res vr cfg'. SolveChecked no_atan demo_gentle (NewSet [] []) None = Inr (res, vr, cfg')
     \<and> SolveChecked no_atan cfg' (NewSet [] []) None = Inr (res, vr, cfg')"
proof -
  obtain res where s: "Solve no_atan (Fin 2700) (Fin 180) None = Inr res" using demo_solve by blast
  let ?vr = "Validate (flight_Apply res demo_gentle) (NewSet [] [])"
  have nb: "\<not> rs_Blocking ?vr"
    by (simp add: Validate_blocking_iff violated_def cs_Active_def versions_of_def NewSet_def)
  have c: "SolveChecked no_atan demo_gentle (NewSet [] []) None
      = Inr (res, ?vr, flight_Apply res demo_gentle)"
    using s nb by (simp add: SolveChecked_Inr_iff demo_gentle_def)
  have "\<not> isNaN (step_arg None)" by (simp add: step_arg_def DefaultComfortStep_def)
  then show ?thesis using solve_checked_stable[OF c nb, of 2700 180] c by (auto simp: demo_gentle_def)
qed

end
