(* ===== verification/Graph_Core.thy ===== *)
theory Graph_Core
  imports Float64 "HOL-Library.Word"
begin

text \<open>
  The Graph Engine, \<open>internal/engine/graph/graph.go\<close>: the node and edge registry with its
  adjacency maps. A \<open>map[string]struct\{\}\<close> is a list of keys (\<open>List.insert\<close>, \<open>removeAll\<close>);
  \<open>uint64\<close> counters are \<open>64 word\<close>s and wrap. \<open>Payload any\<close> is a type variable. A write into
  the nil map of a missing key is the Go panic \<open>NilMapPanic\<close>.
\<close>

definition NodeStateDirty :: string where "NodeStateDirty = ''dirty''"
definition NodeStateClean :: string where "NodeStateClean = ''clean''"

record 'p Node =
  nd_ID :: string
  nd_Type :: string
  nd_Version :: "64 word"
  nd_State :: string
  nd_Payload :: 'p
  nd_Metadata :: "(string \<times> string) list"

record Edge =
  ed_ID :: string
  ed_From :: string
  ed_To :: string
  ed_Type :: string
  ed_Weight :: f64
  ed_Metadata :: "(string \<times> string) list"

type_synonym adjacency_map = "(string \<times> string list) list"

record 'p Graph =
  gr_nodes :: "(string \<times> 'p Node) list"
  gr_edges :: "(string \<times> Edge) list"
  gr_outgoing :: adjacency_map
  gr_incoming :: adjacency_map
  gr_revision :: "64 word"

datatype graph_error = EmptyNodeID | MissingNodes string string | NilMapPanic | ErrCycleDetected

definition New :: "'p Graph" where
  "New = \<lparr>gr_nodes = [], gr_edges = [], gr_outgoing = [], gr_incoming = [], gr_revision = 0\<rparr>"

definition adj :: "adjacency_map \<Rightarrow> string \<Rightarrow> string list" where
  "adj m k = (case map_of m k of None \<Rightarrow> [] | Some xs \<Rightarrow> xs)"

text \<open>\<open>m[k][x] = struct\{\}\{\}\<close> and \<open>delete(m[k], x)\<close>.\<close>

definition adj_put :: "string \<Rightarrow> string \<Rightarrow> adjacency_map \<Rightarrow> adjacency_map option" where
  "adj_put k x m = (case map_of m k of None \<Rightarrow> None | Some xs \<Rightarrow> Some (mput k (List.insert x xs) m))"

definition adj_del :: "string \<Rightarrow> string \<Rightarrow> adjacency_map \<Rightarrow> adjacency_map" where
  "adj_del k x m = (case map_of m k of None \<Rightarrow> m | Some xs \<Rightarrow> mput k (removeAll x xs) m)"

definition HasNode :: "'p Graph \<Rightarrow> string \<Rightarrow> bool" where
  "HasNode g i \<longleftrightarrow> map_of (gr_nodes g) i \<noteq> None"

definition AddNode :: "'p Graph \<Rightarrow> 'p Node \<Rightarrow> (graph_error, 'p Graph) result" where
  "AddNode g n =
     guard_with (nd_ID n = '''') EmptyNodeID
     (let n' = n\<lparr>nd_Version := nd_Version n + 1, nd_State := NodeStateDirty\<rparr>;
          g1 = g\<lparr>gr_nodes := mput (nd_ID n) n' (gr_nodes g)\<rparr>;
          g2 = (if map_of (gr_outgoing g1) (nd_ID n) = None
                then g1\<lparr>gr_outgoing := mput (nd_ID n) [] (gr_outgoing g1),
                       gr_incoming := mput (nd_ID n) [] (gr_incoming g1)\<rparr>
                else g1)
      in Inr (g2\<lparr>gr_revision := gr_revision g2 + 1\<rparr>))"

text \<open>\<open>from + "->" + to\<close>\<close>

definition edge_key :: "string \<Rightarrow> string \<Rightarrow> string" where
  "edge_key f t = f @ ''->'' @ t"

text \<open>\<open>removeEdgeFrom\<close>: the canonical key if it is there, else the first edge from \<open>f\<close> to \<open>t\<close>
  the range over the map meets.\<close>

definition find_edge_key :: "'p Graph \<Rightarrow> string \<Rightarrow> string \<Rightarrow> string option" where
  "find_edge_key g f t =
     (if map_of (gr_edges g) (edge_key f t) \<noteq> None then Some (edge_key f t)
      else map_option fst (find (\<lambda>(i, e). ed_From e = f \<and> ed_To e = t) (gr_edges g)))"

definition removeEdgeFrom :: "'p Graph \<Rightarrow> string \<Rightarrow> string \<Rightarrow> bool \<times> 'p Graph" where
  "removeEdgeFrom g f t =
     (case find_edge_key g f t of
        None \<Rightarrow> (False, g)
      | Some key \<Rightarrow> if key = '''' then (False, g) else
          (True, g\<lparr>gr_edges := mdel key (gr_edges g),
                   gr_outgoing := adj_del f t (gr_outgoing g),
                   gr_incoming := adj_del t f (gr_incoming g),
                   gr_revision := gr_revision g + 1\<rparr>))"

definition RemoveEdge :: "'p Graph \<Rightarrow> string \<Rightarrow> string \<Rightarrow> bool \<times> 'p Graph" where
  "RemoveEdge g f t = removeEdgeFrom g f t"

definition RemoveNode :: "'p Graph \<Rightarrow> string \<Rightarrow> bool \<times> 'p Graph" where
  "RemoveNode g i =
     (if \<not> HasNode g i then (False, g)
      else
        (let g1 = fold (\<lambda>f h. snd (removeEdgeFrom h f i)) (adj (gr_incoming g) i) g;
             g2 = fold (\<lambda>t h. snd (removeEdgeFrom h i t)) (adj (gr_outgoing g1) i) g1
         in (True, g2\<lparr>gr_nodes := mdel i (gr_nodes g2), gr_outgoing := mdel i (gr_outgoing g2),
               gr_incoming := mdel i (gr_incoming g2), gr_revision := gr_revision g2 + 1\<rparr>)))"

definition AddEdge :: "'p Graph \<Rightarrow> Edge \<Rightarrow> (graph_error, 'p Graph) result" where
  "AddEdge g e0 =
     guard_with (\<not> HasNode g (ed_From e0) \<or> \<not> HasNode g (ed_To e0)) (MissingNodes (ed_From e0) (ed_To e0))
     (let e = (if ed_ID e0 = '''' then e0\<lparr>ed_ID := edge_key (ed_From e0) (ed_To e0)\<rparr> else e0)
      in case (adj_put (ed_From e) (ed_To e) (gr_outgoing g), adj_put (ed_To e) (ed_From e) (gr_incoming g)) of
           (Some out', Some in') \<Rightarrow>
             Inr (g\<lparr>gr_edges := mput (ed_ID e) e (gr_edges g), gr_outgoing := out',
                  gr_incoming := in', gr_revision := gr_revision g + 1\<rparr>)
         | _ \<Rightarrow> Inl NilMapPanic)"

definition Successors :: "'p Graph \<Rightarrow> string \<Rightarrow> string list" where
  "Successors g i = sort_strings (adj (gr_outgoing g) i)"

definition Predecessors :: "'p Graph \<Rightarrow> string \<Rightarrow> string list" where
  "Predecessors g i = sort_strings (adj (gr_incoming g) i)"

definition Nodes :: "'p Graph \<Rightarrow> 'p Node list" where
  "Nodes g = map (\<lambda>i. the (map_of (gr_nodes g) i)) (sort_strings (keys (gr_nodes g)))"

definition MarkClean :: "'p Graph \<Rightarrow> string \<Rightarrow> 'p Graph" where
  "MarkClean g i =
     (case map_of (gr_nodes g) i of
        None \<Rightarrow> g
      | Some n \<Rightarrow> g\<lparr>gr_nodes := mput i (n\<lparr>nd_State := NodeStateClean\<rparr>) (gr_nodes g)\<rparr>)"

definition DirtyNodes :: "'p Graph \<Rightarrow> string list" where
  "DirtyNodes g = sort_strings (map fst (filter (\<lambda>(i, n). nd_State n = NodeStateDirty) (gr_nodes g)))"

subsection \<open>The snapshot\<close>

record 'p Snapshot =
  sn_Revision :: "64 word"
  sn_Nodes :: "'p Node list"
  sn_Edges :: "Edge list"

definition take_snapshot :: "'p Graph \<Rightarrow> 'p Snapshot" where
  "take_snapshot g = \<lparr>sn_Revision = gr_revision g, sn_Nodes = Nodes g,
     sn_Edges = map (\<lambda>i. the (map_of (gr_edges g) i)) (sort_strings (keys (gr_edges g)))\<rparr>"

definition restore_node :: "'p Node \<Rightarrow> 'p Graph \<Rightarrow> 'p Graph" where
  "restore_node n g = g\<lparr>gr_nodes := mput (nd_ID n) n (gr_nodes g),
     gr_outgoing := mput (nd_ID n) [] (gr_outgoing g),
     gr_incoming := mput (nd_ID n) [] (gr_incoming g)\<rparr>"

fun restore_edges :: "Edge list \<Rightarrow> 'p Graph \<Rightarrow> (graph_error, 'p Graph) result" where
  "restore_edges [] g = Inr g"
| "restore_edges (e # es) g =
     (case (adj_put (ed_From e) (ed_To e) (gr_outgoing g), adj_put (ed_To e) (ed_From e) (gr_incoming g)) of
        (Some out', Some in') \<Rightarrow>
          restore_edges es (g\<lparr>gr_edges := mput (ed_ID e) e (gr_edges g), gr_outgoing := out',
            gr_incoming := in'\<rparr>)
      | _ \<Rightarrow> Inl NilMapPanic)"

definition Restore :: "'p Snapshot \<Rightarrow> (graph_error, 'p Graph) result" where
  "Restore s = bindR (restore_edges (sn_Edges s) (fold restore_node (sn_Nodes s) New))
     (\<lambda>g. Inr (g\<lparr>gr_revision := sn_Revision s\<rparr>))"

subsection \<open>Adjacency maps\<close>

lemma adj_put_Some:
  "adj_put k x m = Some m' \<longleftrightarrow> map_of m k \<noteq> None \<and> m' = mput k (List.insert x (adj m k)) m"
  by (auto simp: adj_put_def adj_def split: option.splits)

lemma adj_mput [simp]: "adj (mput k xs m) k' = (if k' = k then xs else adj m k')"
  by (simp add: adj_def)

lemma adj_mdel [simp]: "adj (mdel k m) k' = (if k' = k then [] else adj m k')"
  by (simp add: adj_def)

lemma adj_adj_del [simp]: "adj (adj_del k x m) k' = (if k' = k then removeAll x (adj m k) else adj m k')"
  by (auto simp: adj_del_def adj_def split: option.splits)

lemma dom_adj_del [simp]: "dom (map_of (adj_del k x m)) = dom (map_of m)"
  by (auto simp: adj_del_def split: option.splits)

lemma is_map_adj_del [simp]: "is_map m \<Longrightarrow> is_map (adj_del k x m)"
  by (auto simp: adj_del_def split: option.splits)

subsection \<open>The invariant\<close>

text \<open>
  What every operation keeps, whatever edge identifiers a client chooses: the maps are maps, a
  node is stored under its identifier, both adjacency maps have an entry for exactly the nodes,
  they are each other's converse, and their entries are nodes.
\<close>

definition node_ids :: "'p Graph \<Rightarrow> string set" where
  "node_ids g = dom (map_of (gr_nodes g))"

definition graph_ok :: "'p Graph \<Rightarrow> bool" where
  "graph_ok g \<longleftrightarrow> is_map (gr_nodes g) \<and> is_map (gr_edges g) \<and> is_map (gr_outgoing g) \<and> is_map (gr_incoming g)
     \<and> (\<forall>i n. map_of (gr_nodes g) i = Some n \<longrightarrow> nd_ID n = i \<and> i \<noteq> [])
     \<and> dom (map_of (gr_outgoing g)) = node_ids g \<and> dom (map_of (gr_incoming g)) = node_ids g
     \<and> (\<forall>i. distinct (adj (gr_outgoing g) i) \<and> distinct (adj (gr_incoming g) i))
     \<and> (\<forall>f t. t \<in> set (adj (gr_outgoing g) f) \<longleftrightarrow> f \<in> set (adj (gr_incoming g) t))"

lemma graph_okD:
  assumes "graph_ok g"
  shows "is_map (gr_nodes g)" "is_map (gr_edges g)" "is_map (gr_outgoing g)" "is_map (gr_incoming g)"
    "map_of (gr_nodes g) i = Some n \<Longrightarrow> nd_ID n = i \<and> i \<noteq> []"
    "dom (map_of (gr_outgoing g)) = node_ids g" "dom (map_of (gr_incoming g)) = node_ids g"
    "distinct (adj (gr_outgoing g) j)" "distinct (adj (gr_incoming g) j)"
    "t \<in> set (adj (gr_outgoing g) f) \<longleftrightarrow> f \<in> set (adj (gr_incoming g) t)"
  using assms by (auto simp: graph_ok_def)

lemma adj_outside: "k \<notin> dom (map_of m) \<Longrightarrow> adj m k = []"
  by (auto simp: adj_def split: option.splits)

lemma adj_in_nodes:
  assumes "graph_ok g" "t \<in> set (adj (gr_outgoing g) f)"
  shows "f \<in> node_ids g" "t \<in> node_ids g"
  using assms adj_outside[of f "gr_outgoing g"] adj_outside[of t "gr_incoming g"] graph_okD[OF assms(1)]
  by (metis list.set(1) empty_iff)+

lemma HasNode_iff: "HasNode g i \<longleftrightarrow> i \<in> node_ids g"
  by (auto simp: HasNode_def node_ids_def)

lemma finite_node_ids [simp]: "finite (node_ids g)"
  by (simp add: node_ids_def finite_dom_map_of)

lemma graph_ok_New [inv_intros]: "graph_ok New"
  by (simp add: graph_ok_def New_def node_ids_def adj_def)

subsection \<open>Canonical graphs\<close>

text \<open>
  The code finds an edge by the key \<open>from->to\<close>. It is the right one when every edge has that
  key for its identifier (the default of \<open>AddEdge\<close>) and no node identifier contains \<open>->\<close>.
\<close>

fun no_arrow :: "string \<Rightarrow> bool" where
  "no_arrow (a # b # s) \<longleftrightarrow> \<not> (a = CHR ''-'' \<and> b = CHR ''>'') \<and> no_arrow (b # s)"
| "no_arrow _ \<longleftrightarrow> True"

lemma no_arrow_append: "no_arrow (p @ CHR ''-'' # CHR ''>'' # s) \<longleftrightarrow> False"
proof (induction p)
  case (Cons a p)
  then show ?case by (cases p) auto
qed simp

lemma edge_key_inject:
  assumes "no_arrow a" "no_arrow b" "edge_key f t = edge_key a b"
  shows "f = a \<and> t = b"
proof -
  have "f @ ''->'' @ t = a @ ''->'' @ b" using assms(3) by (simp add: edge_key_def)
  then consider us where "f = a @ us" "us @ ''->'' @ t = ''->'' @ b"
    | us where "a = f @ us" "us @ ''->'' @ b = ''->'' @ t"
    unfolding append_eq_append_conv2 by metis
  then show ?thesis
  proof cases
    case 1
    show ?thesis
    proof (cases us)
      case (Cons c cs)
      then show ?thesis using 1 assms(2) by (cases cs) (auto simp: no_arrow_append)
    qed (use 1 in simp)
  next
    case 2
    show ?thesis
    proof (cases us)
      case (Cons c cs)
      then show ?thesis using 2 assms(1) by (cases cs) (auto simp: no_arrow_append)
    qed (use 2 in simp)
  qed
qed

definition arcs :: "'p Graph \<Rightarrow> (string \<times> string) set" where
  "arcs g = {(f, t). t \<in> set (adj (gr_outgoing g) f)}"

definition wf_graph :: "'p Graph \<Rightarrow> bool" where
  "wf_graph g \<longleftrightarrow> graph_ok g \<and> (\<forall>i \<in> node_ids g. no_arrow i)
     \<and> (\<forall>i e. map_of (gr_edges g) i = Some e \<longrightarrow>
          ed_ID e = i \<and> i = edge_key (ed_From e) (ed_To e) \<and> (ed_From e, ed_To e) \<in> arcs g)
     \<and> (\<forall>(f, t) \<in> arcs g. map_of (gr_edges g) (edge_key f t) \<noteq> None)"

lemma wf_graphD:
  assumes "wf_graph g"
  shows "graph_ok g" "i \<in> node_ids g \<Longrightarrow> no_arrow i"
    "map_of (gr_edges g) i = Some e \<Longrightarrow>
       ed_ID e = i \<and> i = edge_key (ed_From e) (ed_To e) \<and> (ed_From e, ed_To e) \<in> arcs g"
    "(f, t) \<in> arcs g \<Longrightarrow> map_of (gr_edges g) (edge_key f t) \<noteq> None"
  using assms by (auto simp: wf_graph_def)

lemma arcs_nodes: "graph_ok g \<Longrightarrow> (f, t) \<in> arcs g \<Longrightarrow> f \<in> node_ids g \<and> t \<in> node_ids g"
  using adj_in_nodes[of g t f] by (simp add: arcs_def)

lemma edge_key_iff:
  assumes "wf_graph g"
  shows "map_of (gr_edges g) (edge_key f t) \<noteq> None \<longleftrightarrow> (f, t) \<in> arcs g"
proof
  assume "map_of (gr_edges g) (edge_key f t) \<noteq> None"
  then obtain e where e: "map_of (gr_edges g) (edge_key f t) = Some e" by auto
  note d = wf_graphD(3)[OF assms e]
  have "ed_From e \<in> node_ids g" "ed_To e \<in> node_ids g"
    using arcs_nodes[OF wf_graphD(1)[OF assms]] d by blast+
  then show "(f, t) \<in> arcs g"
    using edge_key_inject[of "ed_From e" "ed_To e" f t] wf_graphD(2)[OF assms] d by auto
qed (use wf_graphD(4)[OF assms] in blast)

lemma find_edge_key_wf:
  assumes "wf_graph g"
  shows "find_edge_key g f t = (if (f, t) \<in> arcs g then Some (edge_key f t) else None)"
proof (cases "(f, t) \<in> arcs g")
  case True
  then show ?thesis using edge_key_iff[OF assms] by (simp add: find_edge_key_def)
next
  case False
  have "\<not> (ed_From e = f \<and> ed_To e = t)" if "(i, e) \<in> set (gr_edges g)" for i e
  proof -
    have "map_of (gr_edges g) i = Some e"
      using that is_map_in_set[OF graph_okD(2)[OF wf_graphD(1)[OF assms]]] by blast
    then show ?thesis using wf_graphD(3)[OF assms] False by blast
  qed
  then have "find (\<lambda>(i, e). ed_From e = f \<and> ed_To e = t) (gr_edges g) = None"
    by (auto simp: find_None_iff)
  then show ?thesis using edge_key_iff[OF assms, of f t] False by (simp add: find_edge_key_def)
qed

lemma edge_key_nonempty [simp]: "edge_key f t \<noteq> []"
  by (simp add: edge_key_def)

lemma removeEdgeFrom_wf:
  assumes "wf_graph g"
  shows "removeEdgeFrom g f t =
    (if (f, t) \<in> arcs g
     then (True, g\<lparr>gr_edges := mdel (edge_key f t) (gr_edges g),
            gr_outgoing := adj_del f t (gr_outgoing g), gr_incoming := adj_del t f (gr_incoming g),
            gr_revision := gr_revision g + 1\<rparr>)
     else (False, g))"
  by (simp add: removeEdgeFrom_def find_edge_key_wf[OF assms])

lemma removeEdgeFrom_nodes [keep]: "gr_nodes (snd (removeEdgeFrom g f t)) = gr_nodes g"
  by (auto simp: removeEdgeFrom_def split: option.splits)

lemma removeEdgeFrom_arcs:
  "wf_graph g \<Longrightarrow> arcs (snd (removeEdgeFrom g f t)) = arcs g - {(f, t)}"
  by (auto simp: removeEdgeFrom_wf arcs_def split: if_splits)

lemma removeEdgeFrom_keeps [inv_intros]:
  assumes "wf_graph g" shows "wf_graph (snd (removeEdgeFrom g f t))"
proof (cases "(f, t) \<in> arcs g")
  case False then show ?thesis using assms by (simp add: removeEdgeFrom_wf)
next
  case True
  let ?h = "snd (removeEdgeFrom g f t)"
  note ok = wf_graphD(1)[OF assms]
  have n: "node_ids ?h = node_ids g" by (simp add: node_ids_def keep)
  have "graph_ok ?h"
    using ok True graph_okD(6,7,10)[OF ok] unfolding graph_ok_def n
    by (auto simp: removeEdgeFrom_wf[OF assms] distinct_removeAll)
  moreover have "ed_ID e = i \<and> i = edge_key (ed_From e) (ed_To e) \<and> (ed_From e, ed_To e) \<in> arcs ?h"
    if "map_of (gr_edges ?h) i = Some e" for i e
  proof -
    have i: "map_of (gr_edges g) i = Some e" "i \<noteq> edge_key f t"
      using that True by (auto simp: removeEdgeFrom_wf[OF assms] split: if_splits)
    then show ?thesis using wf_graphD(3)[OF assms i(1)] by (auto simp: removeEdgeFrom_arcs[OF assms])
  qed
  moreover have "map_of (gr_edges ?h) (edge_key a b) \<noteq> None" if "(a, b) \<in> arcs ?h" for a b
  proof -
    have ab: "(a, b) \<in> arcs g" "(a, b) \<noteq> (f, t)" using that by (auto simp: removeEdgeFrom_arcs[OF assms])
    have "no_arrow f" "no_arrow t" using True arcs_nodes[OF ok] wf_graphD(2)[OF assms] by blast+
    then have "edge_key a b \<noteq> edge_key f t" using edge_key_inject ab(2) by blast
    then show ?thesis using wf_graphD(4)[OF assms ab(1)] True by (simp add: removeEdgeFrom_wf[OF assms])
  qed
  ultimately show ?thesis using wf_graphD(2)[OF assms] by (auto simp: wf_graph_def n)
qed

lemma wf_graphI:
  assumes "graph_ok g" "\<And>i. i \<in> node_ids g \<Longrightarrow> no_arrow i"
    "\<And>i e. map_of (gr_edges g) i = Some e \<Longrightarrow>
       ed_ID e = i \<and> i = edge_key (ed_From e) (ed_To e) \<and> (ed_From e, ed_To e) \<in> arcs g"
    "\<And>f t. (f, t) \<in> arcs g \<Longrightarrow> map_of (gr_edges g) (edge_key f t) \<noteq> None"
  shows "wf_graph g"
  using assms by (auto simp: wf_graph_def)

lemma wf_New [inv_intros]: "wf_graph New"
  by (rule wf_graphI[OF graph_ok_New]) (simp_all add: New_def node_ids_def arcs_def adj_def)

lemma AddNode_fields:
  assumes "AddNode g n = Inr g'"
  shows "nd_ID n \<noteq> []" "gr_edges g' = gr_edges g"
    "gr_nodes g' = mput (nd_ID n) (n\<lparr>nd_Version := nd_Version n + 1, nd_State := NodeStateDirty\<rparr>) (gr_nodes g)"
    "gr_outgoing g' = (if map_of (gr_outgoing g) (nd_ID n) = None then mput (nd_ID n) [] (gr_outgoing g) else gr_outgoing g)"
    "gr_incoming g' = (if map_of (gr_outgoing g) (nd_ID n) = None then mput (nd_ID n) [] (gr_incoming g) else gr_incoming g)"
  using assms
  by (cases "map_of (gr_outgoing g) (nd_ID n)"; force simp: AddNode_def result_iffs Let_def)+

lemma AddNode_Inr_D:
  assumes "graph_ok g" "AddNode g n = Inr g'"
  shows "nd_ID n \<noteq> []" "node_ids g' = insert (nd_ID n) (node_ids g)" "arcs g' = arcs g"
    "gr_edges g' = gr_edges g"
    "map_of (gr_nodes g') = (map_of (gr_nodes g))(nd_ID n \<mapsto> n\<lparr>nd_Version := nd_Version n + 1, nd_State := NodeStateDirty\<rparr>)"
    "graph_ok g'"
proof -
  note d = graph_okD[OF assms(1)]
  note f = AddNode_fields[OF assms(2)]
  show ne: "nd_ID n \<noteq> []" by (rule f(1))
  show ids: "node_ids g' = insert (nd_ID n) (node_ids g)" and "gr_edges g' = gr_edges g"
    and "map_of (gr_nodes g') = (map_of (gr_nodes g))(nd_ID n \<mapsto> n\<lparr>nd_Version := nd_Version n + 1, nd_State := NodeStateDirty\<rparr>)"
    using f by (simp_all add: node_ids_def)
  have new: "map_of (gr_outgoing g) (nd_ID n) = None \<longleftrightarrow> nd_ID n \<notin> node_ids g" using d(6) by auto
  have a: "adj (gr_outgoing g') k = adj (gr_outgoing g) k" "adj (gr_incoming g') k = adj (gr_incoming g) k" for k
    using f(4,5) new d(6,7) adj_outside[of "nd_ID n" "gr_outgoing g"] adj_outside[of "nd_ID n" "gr_incoming g"]
    by auto
  then show "arcs g' = arcs g" by (simp add: arcs_def)
  have "dom (map_of (gr_outgoing g')) = node_ids g'" "dom (map_of (gr_incoming g')) = node_ids g'"
    unfolding ids f(4,5) new using d(6,7) by auto
  then show "graph_ok g'"
    unfolding graph_ok_def a
    using d(1-5,8-10) f by (auto split: if_splits)
qed

lemma AddNode_keeps [inv_intros]:
  assumes "wf_graph g" "AddNode g n = Inr g'" "no_arrow (nd_ID n)"
  shows "wf_graph g'"
proof -
  note d = AddNode_Inr_D[OF wf_graphD(1)[OF assms(1)] assms(2)]
  show ?thesis
    by (rule wf_graphI) (use wf_graphD[OF assms(1)] assms(3) d in auto)
qed

text \<open>\<open>AddEdge\<close> never writes into a nil map; on success it adds the arc.\<close>

lemma AddEdge_Inr_D:
  assumes "graph_ok g" "AddEdge g e0 = Inr g'"
  defines "e \<equiv> (if ed_ID e0 = [] then e0\<lparr>ed_ID := edge_key (ed_From e0) (ed_To e0)\<rparr> else e0)"
  shows "ed_From e0 \<in> node_ids g" "ed_To e0 \<in> node_ids g" "gr_nodes g' = gr_nodes g"
    "gr_edges g' = mput (ed_ID e) e (gr_edges g)" "arcs g' = insert (ed_From e0, ed_To e0) (arcs g)"
    "graph_ok g'"
proof -
  note d = graph_okD[OF assms(1)]
  have f: "ed_From e = ed_From e0" "ed_To e = ed_To e0" by (simp_all add: e_def)
  have n: "ed_From e0 \<in> node_ids g" "ed_To e0 \<in> node_ids g"
    using assms(2) by (auto simp: AddEdge_def result_iffs HasNode_iff)
  have g': "g' = g\<lparr>gr_edges := mput (ed_ID e) e (gr_edges g),
      gr_outgoing := mput (ed_From e) (List.insert (ed_To e) (adj (gr_outgoing g) (ed_From e))) (gr_outgoing g),
      gr_incoming := mput (ed_To e) (List.insert (ed_From e) (adj (gr_incoming g) (ed_To e))) (gr_incoming g),
      gr_revision := gr_revision g + 1\<rparr>"
    using assms(2) unfolding AddEdge_def result_iffs Let_def e_def[symmetric]
    by (auto simp: adj_put_Some split: option.splits prod.splits)
  show "ed_From e0 \<in> node_ids g" "ed_To e0 \<in> node_ids g" "gr_nodes g' = gr_nodes g"
    "gr_edges g' = mput (ed_ID e) e (gr_edges g)" using n g' by simp_all
  show "arcs g' = insert (ed_From e0, ed_To e0) (arcs g)"
    by (auto simp: g' arcs_def f split: if_splits)
  have ids: "node_ids g' = node_ids g" by (simp add: g' node_ids_def)
  show "graph_ok g'"
    unfolding graph_ok_def ids
    using d n by (auto simp: g' f distinct_insert)
qed

lemma AddEdge_no_panic: "graph_ok g \<Longrightarrow> AddEdge g e \<noteq> Inl NilMapPanic"
  using graph_okD(6,7)[of g]
  by (auto simp: AddEdge_def guard_with_def HasNode_iff adj_put_def Let_def split: option.splits)

lemma AddEdge_keeps [inv_intros]:
  assumes "wf_graph g" "AddEdge g e = Inr g'" "ed_ID e \<in> {[], edge_key (ed_From e) (ed_To e)}"
  shows "wf_graph g'"
proof -
  let ?k = "edge_key (ed_From e) (ed_To e)"
  note d = AddEdge_Inr_D[OF wf_graphD(1)[OF assms(1)] assms(2)]
  have ids: "node_ids g' = node_ids g" using d(3) by (simp add: node_ids_def)
  have "(if ed_ID e = [] then e\<lparr>ed_ID := ?k\<rparr> else e) = e\<lparr>ed_ID := ?k\<rparr>"
    using assms(3) by (cases e) auto
  then have "gr_edges g' = mput ?k (e\<lparr>ed_ID := ?k\<rparr>) (gr_edges g)"
    using d(4) by (simp only:) simp
  then show ?thesis
    using wf_graphD[OF assms(1)] d(5,6) by (intro wf_graphI) (auto simp: ids split: if_splits)
qed

lemma MarkClean_map [keep]:
  "map_of (gr_nodes (MarkClean g i)) j =
     (if j = i then map_option (\<lambda>n. n\<lparr>nd_State := NodeStateClean\<rparr>) (map_of (gr_nodes g) i)
      else map_of (gr_nodes g) j)"
  by (auto simp: MarkClean_def split: option.splits)

lemma MarkClean_rest [keep]:
  "gr_edges (MarkClean g i) = gr_edges g" "gr_outgoing (MarkClean g i) = gr_outgoing g"
  "gr_incoming (MarkClean g i) = gr_incoming g" "gr_revision (MarkClean g i) = gr_revision g"
  "node_ids (MarkClean g i) = node_ids g" "arcs (MarkClean g i) = arcs g"
  by (auto simp: MarkClean_def node_ids_def arcs_def split: option.splits)

lemma MarkClean_keeps [inv_intros]: assumes "wf_graph g" shows "wf_graph (MarkClean g i)"
proof -
  have "is_map (gr_nodes (MarkClean g i))"
    using graph_okD(1)[OF wf_graphD(1)[OF assms]] by (simp add: MarkClean_def split: option.splits)
  then have "graph_ok (MarkClean g i)"
    using wf_graphD(1)[OF assms] unfolding graph_ok_def by (auto simp: keep split: if_splits)
  then show ?thesis using wf_graphD[OF assms] by (intro wf_graphI) (auto simp: keep)
qed

text \<open>The two loops of \<open>RemoveNode\<close>.\<close>

lemma remove_loop:
  assumes "wf_graph g"
  shows "wf_graph (fold (\<lambda>x h. snd (removeEdgeFrom h (a x) (b x))) xs g)
    \<and> gr_nodes (fold (\<lambda>x h. snd (removeEdgeFrom h (a x) (b x))) xs g) = gr_nodes g
    \<and> arcs (fold (\<lambda>x h. snd (removeEdgeFrom h (a x) (b x))) xs g) = arcs g - (\<lambda>x. (a x, b x)) ` set xs"
  using assms
proof (induction xs arbitrary: g)
  case (Cons x xs)
  from Cons.IH[OF removeEdgeFrom_keeps[OF Cons.prems]] show ?case
    by (auto simp: removeEdgeFrom_arcs[OF Cons.prems] keep)
qed simp

lemma RemoveNode_wf:
  assumes "wf_graph g" "i \<in> node_ids g"
  defines "h \<equiv> snd (RemoveNode g i)"
  shows "fst (RemoveNode g i)" "wf_graph h" "node_ids h = node_ids g - {i}"
    "arcs h = {(f, t) \<in> arcs g. f \<noteq> i \<and> t \<noteq> i}" "map_of (gr_nodes h) = (map_of (gr_nodes g))(i := None)"
proof -
  define g1 where "g1 = fold (\<lambda>f h. snd (removeEdgeFrom h f i)) (adj (gr_incoming g) i) g"
  define g2 where "g2 = fold (\<lambda>t h. snd (removeEdgeFrom h i t)) (adj (gr_outgoing g1) i) g1"
  note r1 = remove_loop[OF assms(1), of "\<lambda>f. f" "\<lambda>_. i" "adj (gr_incoming g) i", folded g1_def]
  have r2: "wf_graph g2 \<and> gr_nodes g2 = gr_nodes g1 \<and> arcs g2 = arcs g1 - (\<lambda>t. (i, t)) ` set (adj (gr_outgoing g1) i)"
    using remove_loop[of g1 "\<lambda>_. i" "\<lambda>t. t" "adj (gr_outgoing g1) i"] r1 by (simp add: g2_def)
  have h: "h = g2\<lparr>gr_nodes := mdel i (gr_nodes g2), gr_outgoing := mdel i (gr_outgoing g2),
      gr_incoming := mdel i (gr_incoming g2), gr_revision := gr_revision g2 + 1\<rparr>"
    and ok: "fst (RemoveNode g i)"
    using assms(2) by (simp_all add: h_def RemoveNode_def HasNode_iff g1_def g2_def Let_def)
  show "fst (RemoveNode g i)" by (rule ok)
  have "arcs g1 = arcs g - {(f, t). t = i}"
    using r1 graph_okD(10)[OF wf_graphD(1)[OF assms(1)]] by (auto simp: arcs_def)
  moreover have "(\<lambda>t. (i, t)) ` set (adj (gr_outgoing g1) i) = {(f, t) \<in> arcs g1. f = i}"
    by (auto simp: arcs_def)
  ultimately have a2: "arcs g2 = {(f, t) \<in> arcs g. f \<noteq> i \<and> t \<noteq> i}"
    using r2 by auto
  have ns: "gr_nodes g2 = gr_nodes g" using r1 r2 by simp
  show nh: "node_ids h = node_ids g - {i}" and "map_of (gr_nodes h) = (map_of (gr_nodes g))(i := None)"
    using ns by (auto simp: h node_ids_def)
  have out: "adj (gr_outgoing g2) i = []"
    using a2 by (auto simp: arcs_def set_eq_iff) (metis list.set_intros(1) neq_Nil_conv)
  show ah: "arcs h = {(f, t) \<in> arcs g. f \<noteq> i \<and> t \<noteq> i}"
  proof -
    have "adj (gr_outgoing h) f = adj (gr_outgoing g2) f" for f using out by (simp add: h)
    then show ?thesis using a2 by (simp add: arcs_def)
  qed
  have w2: "wf_graph g2" using r2 by simp
  note d = graph_okD[OF wf_graphD(1)[OF w2]]
  have noin: "f \<notin> set (adj (gr_incoming g2) i)" "i \<notin> set (adj (gr_incoming g2) f)" for f
    using a2 d(10)[of i f] d(10)[of f i] by (auto simp: arcs_def)
  have "graph_ok h"
    unfolding graph_ok_def nh
    using d noin by (auto simp: h node_ids_def ns)
  then show "wf_graph h"
    using wf_graphD[OF w2] wf_graphD(2)[OF assms(1)] a2
    by (intro wf_graphI) (auto simp: nh ah, auto simp: h)
qed

subsection \<open>Graphs a program builds\<close>

text \<open>The operations, with arrow-free node names and default (canonical) edge identifiers.\<close>

inductive built :: "'p Graph \<Rightarrow> bool" where
  b_new: "built New"
| b_node: "built g \<Longrightarrow> no_arrow (nd_ID n) \<Longrightarrow> AddNode g n = Inr g' \<Longrightarrow> built g'"
| b_edge: "built g \<Longrightarrow> ed_ID e = [] \<Longrightarrow> AddEdge g e = Inr g' \<Longrightarrow> built g'"
| b_unedge: "built g \<Longrightarrow> built (snd (RemoveEdge g f t))"
| b_unnode: "built g \<Longrightarrow> built (snd (RemoveNode g i))"
| b_clean: "built g \<Longrightarrow> built (MarkClean g i)"

inductive_cases built_cases: "built g"

lemma RemoveNode_keeps [inv_intros]: "wf_graph g \<Longrightarrow> wf_graph (snd (RemoveNode g i))"
  using RemoveNode_wf(2)[of g i] by (cases "i \<in> node_ids g") (auto simp: RemoveNode_def HasNode_iff)

lemma built_wf: "built g \<Longrightarrow> wf_graph g"
  by (induction rule: built.induct) (auto simp: RemoveEdge_def intro: inv_intros)

lemma sort_strings_adj:
  "distinct xs \<Longrightarrow> distinct ys \<Longrightarrow> set xs = set ys \<Longrightarrow> sort_strings xs = sort_strings ys"
  by (rule sort_strings_cong)

text \<open>C8: in a graph built with the operations an edge from f to t is registered exactly when t is
  a successor of f and f a predecessor of t, both lists are sorted without repetition, both ends
  are nodes, and removing a node removes exactly the edges that touch it.\<close>

theorem graph_registry:
  assumes "built g"
  shows "(map_of (gr_edges g) (edge_key f t) \<noteq> None) = (t \<in> set (Successors g f))
    \<and> (t \<in> set (Successors g f)) = (f \<in> set (Predecessors g t))
    \<and> sorted (Successors g f) \<and> distinct (Successors g f)
    \<and> (t \<in> set (Successors g f) \<longrightarrow> HasNode g f \<and> HasNode g t)
    \<and> (HasNode g i \<longrightarrow> \<not> HasNode (snd (RemoveNode g i)) i
        \<and> (t \<in> set (Successors (snd (RemoveNode g i)) f)) = (t \<in> set (Successors g f) \<and> f \<noteq> i \<and> t \<noteq> i))"
proof -
  note wf = built_wf[OF assms]
  note d = graph_okD[OF wf_graphD(1)[OF wf]]
  have s: "t \<in> set (Successors h f) \<longleftrightarrow> (f, t) \<in> arcs h" for h :: "'a Graph" and f t
    by (simp add: Successors_def arcs_def)
  have srt: "sorted (Successors g f)" using sorted_insertion_sort[of "\<lambda>s. s"] by (simp add: Successors_def)
  have "HasNode g i \<Longrightarrow> \<not> HasNode (snd (RemoveNode g i)) i"
    "HasNode g i \<Longrightarrow> (f, t) \<in> arcs (snd (RemoveNode g i)) \<longleftrightarrow> (f, t) \<in> arcs g \<and> f \<noteq> i \<and> t \<noteq> i"
    using RemoveNode_wf[OF wf] by (auto simp: HasNode_iff)
  then show ?thesis
    unfolding s using edge_key_iff[OF wf] d(8,10) srt arcs_nodes[OF wf_graphD(1)[OF wf]]
    by (auto simp: Successors_def Predecessors_def arcs_def HasNode_iff)
qed

subsection \<open>Restoring a snapshot\<close>

lemma fold_mput:
  "map_of (fold (\<lambda>x m. mput (k x) (v x) m) xs m) = map_of m ++ map_of (rev (map (\<lambda>x. (k x, v x)) xs))"
  by (induction xs arbitrary: m) (auto simp: map_add_def fun_eq_iff split: option.splits)

lemma map_of_rev_keys:
  assumes "distinct ks"
  shows "map_of (rev (map (\<lambda>i. (i, f i)) ks)) = (\<lambda>i. if i \<in> set ks then Some (f i) else None)"
proof
  fix i
  have d: "distinct (map fst (rev (map (\<lambda>i. (i, f i)) ks)))"
    using assms by (simp add: rev_map o_def)
  show "map_of (rev (map (\<lambda>i. (i, f i)) ks)) i = (if i \<in> set ks then Some (f i) else None)"
    using map_of_eq_Some_iff[OF d, of i "f i"] by (auto simp: map_of_eq_None_iff image_image)
qed

text \<open>The two loops of \<open>Restore\<close>.\<close>

lemma restore_nodes:
  "gr_nodes (fold restore_node ns g) = fold (\<lambda>n m. mput (nd_ID n) n m) ns (gr_nodes g)
   \<and> gr_edges (fold restore_node ns g) = gr_edges g
   \<and> dom (map_of (gr_outgoing (fold restore_node ns g))) = dom (map_of (gr_outgoing g)) \<union> nd_ID ` set ns
   \<and> dom (map_of (gr_incoming (fold restore_node ns g))) = dom (map_of (gr_incoming g)) \<union> nd_ID ` set ns
   \<and> (is_map (gr_outgoing g) \<longrightarrow> is_map (gr_outgoing (fold restore_node ns g)))
   \<and> (is_map (gr_incoming g) \<longrightarrow> is_map (gr_incoming (fold restore_node ns g)))
   \<and> ((\<forall>k. adj (gr_outgoing g) k = []) \<longrightarrow> adj (gr_outgoing (fold restore_node ns g)) k = [])
   \<and> ((\<forall>k. adj (gr_incoming g) k = []) \<longrightarrow> adj (gr_incoming (fold restore_node ns g)) k = [])"
proof (induction ns arbitrary: g)
  case (Cons n ns)
  from Cons.IH[of "restore_node n g"] show ?case
    by (auto simp: restore_node_def)
qed simp

lemma restore_edges_ok:
  assumes "\<forall>e \<in> set es. ed_From e \<in> dom (map_of (gr_outgoing g)) \<and> ed_To e \<in> dom (map_of (gr_incoming g))"
    and "\<forall>k. distinct (adj (gr_outgoing g) k) \<and> distinct (adj (gr_incoming g) k)"
    and "is_map (gr_outgoing g)" "is_map (gr_incoming g)"
  shows "\<exists>h. restore_edges es g = Inr h \<and> gr_nodes h = gr_nodes g
    \<and> gr_edges h = fold (\<lambda>e m. mput (ed_ID e) e m) es (gr_edges g)
    \<and> dom (map_of (gr_outgoing h)) = dom (map_of (gr_outgoing g))
    \<and> dom (map_of (gr_incoming h)) = dom (map_of (gr_incoming g))
    \<and> is_map (gr_outgoing h) \<and> is_map (gr_incoming h)
    \<and> (\<forall>k. distinct (adj (gr_outgoing h) k) \<and> distinct (adj (gr_incoming h) k))
    \<and> (\<forall>f. set (adj (gr_outgoing h) f) = set (adj (gr_outgoing g) f) \<union> {ed_To e |e. e \<in> set es \<and> ed_From e = f})
    \<and> (\<forall>t. set (adj (gr_incoming h) t) = set (adj (gr_incoming g) t) \<union> {ed_From e |e. e \<in> set es \<and> ed_To e = t})"
  using assms
proof (induction es arbitrary: g)
  case (Cons e es)
  let ?g = "g\<lparr>gr_edges := mput (ed_ID e) e (gr_edges g),
      gr_outgoing := mput (ed_From e) (List.insert (ed_To e) (adj (gr_outgoing g) (ed_From e))) (gr_outgoing g),
      gr_incoming := mput (ed_To e) (List.insert (ed_From e) (adj (gr_incoming g) (ed_To e))) (gr_incoming g)\<rparr>"
  have r: "restore_edges (e # es) g = restore_edges es ?g"
    using Cons.prems(1) by (auto simp: adj_put_def adj_def split: option.splits)
  have "\<exists>h. restore_edges es ?g = Inr h \<and> gr_nodes h = gr_nodes ?g
    \<and> gr_edges h = fold (\<lambda>e m. mput (ed_ID e) e m) es (gr_edges ?g)
    \<and> dom (map_of (gr_outgoing h)) = dom (map_of (gr_outgoing ?g))
    \<and> dom (map_of (gr_incoming h)) = dom (map_of (gr_incoming ?g))
    \<and> is_map (gr_outgoing h) \<and> is_map (gr_incoming h)
    \<and> (\<forall>k. distinct (adj (gr_outgoing h) k) \<and> distinct (adj (gr_incoming h) k))
    \<and> (\<forall>f. set (adj (gr_outgoing h) f) = set (adj (gr_outgoing ?g) f) \<union> {ed_To e |e. e \<in> set es \<and> ed_From e = f})
    \<and> (\<forall>t. set (adj (gr_incoming h) t) = set (adj (gr_incoming ?g) t) \<union> {ed_From e |e. e \<in> set es \<and> ed_To e = t})"
    using Cons.prems by (intro Cons.IH) (auto simp: distinct_insert)
  then obtain h where h: "restore_edges es ?g = Inr h" "gr_nodes h = gr_nodes g"
    "gr_edges h = fold (\<lambda>e m. mput (ed_ID e) e m) es (gr_edges ?g)"
    "dom (map_of (gr_outgoing h)) = dom (map_of (gr_outgoing ?g))"
    "dom (map_of (gr_incoming h)) = dom (map_of (gr_incoming ?g))"
    "is_map (gr_outgoing h)" "is_map (gr_incoming h)"
    "\<forall>k. distinct (adj (gr_outgoing h) k) \<and> distinct (adj (gr_incoming h) k)"
    "\<forall>f. set (adj (gr_outgoing h) f) = set (adj (gr_outgoing ?g) f) \<union> {ed_To e |e. e \<in> set es \<and> ed_From e = f}"
    "\<forall>t. set (adj (gr_incoming h) t) = set (adj (gr_incoming ?g) t) \<union> {ed_From e |e. e \<in> set es \<and> ed_To e = t}"
    by auto
  have d: "dom (map_of (gr_outgoing ?g)) = dom (map_of (gr_outgoing g))"
    "dom (map_of (gr_incoming ?g)) = dom (map_of (gr_incoming g))"
    using Cons.prems(1) by auto
  show ?case unfolding r using h d by (intro exI[of _ h]) (auto split: if_splits)
qed auto

text \<open>A map listed by its sorted keys and put back.\<close>

lemma relist_map:
  assumes "is_map m" "\<And>i x. map_of m i = Some x \<Longrightarrow> k x = i"
  shows "map_of (fold (\<lambda>x m. mput (k x) x m) (map (\<lambda>i. the (map_of m i)) (sort_strings (keys m))) []) = map_of m"
    and "k ` set (map (\<lambda>i. the (map_of m i)) (sort_strings (keys m))) = dom (map_of m)"
    and "set (map (\<lambda>i. the (map_of m i)) (sort_strings (keys m))) = ran (map_of m)"
proof -
  have m: "map (\<lambda>x. (k x, x)) (map (\<lambda>i. the (map_of m i)) (sort_strings (keys m)))
      = map (\<lambda>i. (i, the (map_of m i))) (sort_strings (keys m))"
    using assms(2) by (auto simp: in_keys_iff)
  have dk: "distinct (sort_strings (keys m))" using assms(1) by (simp add: is_map_def)
  show "map_of (fold (\<lambda>x m. mput (k x) x m) (map (\<lambda>i. the (map_of m i)) (sort_strings (keys m))) []) = map_of m"
    unfolding fold_mput m map_of_rev_keys[OF dk] by (auto simp: fun_eq_iff in_keys_iff)
  show "k ` set (map (\<lambda>i. the (map_of m i)) (sort_strings (keys m))) = dom (map_of m)"
    using assms(2) by (force simp: set_keys image_image)
  show "set (map (\<lambda>i. the (map_of m i)) (sort_strings (keys m))) = ran (map_of m)"
    by (force simp: set_keys ran_def)
qed

text \<open>C12: restoring the snapshot of a graph never panics and gives back the graph: the same nodes,
  edges and revision, the same successors and predecessors.\<close>

theorem snapshot_roundtrip:
  assumes "built g"
  shows "\<exists>h. Restore (take_snapshot g) = Inr h \<and> map_of (gr_nodes h) = map_of (gr_nodes g)
    \<and> map_of (gr_edges h) = map_of (gr_edges g) \<and> gr_revision h = gr_revision g
    \<and> Successors h = Successors g \<and> Predecessors h = Predecessors g"
proof -
  note wf = built_wf[OF assms]
  note d = graph_okD[OF wf_graphD(1)[OF wf]]
  let ?ns = "sn_Nodes (take_snapshot g)" and ?es = "sn_Edges (take_snapshot g)"
  define g0 where "g0 = fold restore_node ?ns New"
  have ns: "?ns = map (\<lambda>i. the (map_of (gr_nodes g) i)) (sort_strings (keys (gr_nodes g)))"
    and es: "?es = map (\<lambda>i. the (map_of (gr_edges g) i)) (sort_strings (keys (gr_edges g)))"
    by (simp_all add: take_snapshot_def Nodes_def)
  note rn = relist_map[OF d(1), of nd_ID, folded ns] and re = relist_map[OF d(2), of ed_ID, folded es]
  have ids: "nd_ID ` set ?ns = node_ids g" using rn(2) d(5) by (simp add: node_ids_def)
  note r0 = restore_nodes[of ?ns New, folded g0_def]
  have g0: "dom (map_of (gr_outgoing g0)) = node_ids g" "dom (map_of (gr_incoming g0)) = node_ids g"
    "is_map (gr_outgoing g0)" "is_map (gr_incoming g0)" "adj (gr_outgoing g0) k = []" "adj (gr_incoming g0) k = []"
    "map_of (gr_nodes g0) = map_of (gr_nodes g)" "gr_edges g0 = []" for k
    using restore_nodes[of ?ns New, folded g0_def] ids rn(1) d(5) by (auto simp: New_def adj_def)
  have edge: "map_of (gr_edges g) (ed_ID e) = Some e \<and> (ed_From e, ed_To e) \<in> arcs g" if "e \<in> set ?es" for e
    using that re(3) wf_graphD(3)[OF wf] by (auto simp: ran_def)
  have from_arc: "\<exists>e \<in> set ?es. ed_From e = f \<and> ed_To e = t" if ft: "(f, t) \<in> arcs g" for f t
  proof -
    obtain e where e: "map_of (gr_edges g) (edge_key f t) = Some e"
      using wf_graphD(4)[OF wf ft] by auto
    have "no_arrow f" "no_arrow t"
      using arcs_nodes[OF wf_graphD(1)[OF wf] ft] wf_graphD(2)[OF wf] by blast+
    then have "ed_From e = f" "ed_To e = t"
      using wf_graphD(3)[OF wf e] edge_key_inject[of f t "ed_From e" "ed_To e"] by auto
    then show ?thesis using re(3) wf_graphD(3)[OF wf] e by (auto simp: ran_def)
  qed
  have ends: "\<forall>e \<in> set ?es. ed_From e \<in> node_ids g \<and> ed_To e \<in> node_ids g"
    using edge arcs_nodes[OF wf_graphD(1)[OF wf]] by blast
  obtain h where h: "restore_edges ?es g0 = Inr h" "gr_nodes h = gr_nodes g0"
    "gr_edges h = fold (\<lambda>e m. mput (ed_ID e) e m) ?es (gr_edges g0)"
    "\<forall>k. distinct (adj (gr_outgoing h) k) \<and> distinct (adj (gr_incoming h) k)"
    "\<forall>f. set (adj (gr_outgoing h) f) = {ed_To e |e. e \<in> set ?es \<and> ed_From e = f}"
    "\<forall>t. set (adj (gr_incoming h) t) = {ed_From e |e. e \<in> set ?es \<and> ed_To e = t}"
    using restore_edges_ok[of ?es g0] g0 ends by auto
  have E: "map_of (gr_edges h) = map_of (gr_edges g)" using h(3) g0(8) re(1) wf_graphD(3)[OF wf] by simp
  have "set (adj (gr_outgoing h) f) = set (adj (gr_outgoing g) f)" for f
    using h(5) edge from_arc by (fastforce simp: arcs_def)
  then have S: "Successors h = Successors g"
    using h(4) d(8) by (auto simp: Successors_def fun_eq_iff intro!: sort_strings_cong)
  have "set (adj (gr_incoming h) t) = set (adj (gr_incoming g) t)" for t
    using h(6) edge from_arc d(10) by (fastforce simp: arcs_def)
  then have P: "Predecessors h = Predecessors g"
    using h(4) d(9) by (auto simp: Predecessors_def fun_eq_iff intro!: sort_strings_cong)
  have "Restore (take_snapshot g) = Inr (h\<lparr>gr_revision := gr_revision g\<rparr>)"
    using h(1) by (simp add: Restore_def g0_def take_snapshot_def)
  then show ?thesis using E S P h(2) g0(7)
    by (intro exI[of _ "h\<lparr>gr_revision := gr_revision g\<rparr>"]) (simp add: Successors_def Predecessors_def fun_eq_iff)
qed

subsection \<open>A small graph\<close>

definition or_new :: "(graph_error, unit Graph) result \<Rightarrow> unit Graph" where
  "or_new r = (case r of Inr g \<Rightarrow> g | Inl e \<Rightarrow> New)"

definition demo_node :: "string \<Rightarrow> unit Node" where
  "demo_node i = \<lparr>nd_ID = i, nd_Type = ''part'', nd_Version = 0, nd_State = '''', nd_Payload = (),
     nd_Metadata = []\<rparr>"

definition demo_edge :: "string \<Rightarrow> string \<Rightarrow> string \<Rightarrow> Edge" where
  "demo_edge i f t = \<lparr>ed_ID = i, ed_From = f, ed_To = t, ed_Type = '''', ed_Weight = 1, ed_Metadata = []\<rparr>"

definition demo_nodes :: "unit Graph" where
  "demo_nodes = or_new (AddNode (or_new (AddNode New (demo_node ''a''))) (demo_node ''b''))"

definition demo_graph :: "unit Graph" where
  "demo_graph = or_new (AddEdge demo_nodes (demo_edge '''' ''a'' ''b''))"

lemma AddNode_or_new: "nd_ID n \<noteq> [] \<Longrightarrow> AddNode g n = Inr (or_new (AddNode g n))"
  by (simp add: AddNode_def or_new_def Let_def)

lemma demo_built: "built demo_graph"
proof -
  have "built (or_new (AddNode New (demo_node ''a'')))"
    by (rule b_node[OF b_new _ AddNode_or_new]) (simp_all add: demo_node_def)
  then have n: "built demo_nodes"
    unfolding demo_nodes_def by (rule b_node[OF _ _ AddNode_or_new]) (simp_all add: demo_node_def)
  have "AddEdge demo_nodes (demo_edge '''' ''a'' ''b'') = Inr demo_graph"
  proof -
    have "\<not> isl (AddEdge demo_nodes (demo_edge '''' ''a'' ''b''))" by code_simp
    then show ?thesis by (auto simp: demo_graph_def or_new_def split: sum.splits)
  qed
  then show ?thesis using b_edge[OF n, of "demo_edge '''' ''a'' ''b''"] by (simp add: demo_edge_def)
qed

theorem graph_registry_witness:
  "''b'' \<in> set (Successors demo_graph ''a'') \<and> ''a'' \<in> set (Predecessors demo_graph ''b'')
   \<and> ''b'' \<notin> set (Successors (snd (RemoveNode demo_graph ''b'')) ''a'')"
proof -
  have "''b'' \<in> set (Successors demo_graph ''a'')" "HasNode demo_graph ''b''" by code_simp+
  then show ?thesis using graph_registry[OF demo_built, of "''a''" "''b''" "''b''"] by simp
qed

theorem snapshot_roundtrip_witness:
  "\<exists>h. Restore (take_snapshot demo_graph) = Inr h \<and> Successors h ''a'' = [''b'']"
proof -
  have "Successors demo_graph ''a'' = [''b'']" by code_simp
  then show ?thesis using snapshot_roundtrip[OF demo_built] by metis
qed

definition demo_parallel :: "unit Graph" where
  "demo_parallel = or_new (AddEdge (or_new (AddEdge demo_nodes (demo_edge ''e1'' ''a'' ''b'')))
    (demo_edge ''e2'' ''a'' ''b''))"

text \<open>With explicit edge identifiers the registry goes out of step: two edges from a to b under
  different identifiers, then \<open>RemoveEdge(a, b)\<close>: one edge is still registered, but b is no longer
  a successor of a; and \<open>RemoveNode(b)\<close> after both were added leaves a registered edge whose end
  is not a node.\<close>

theorem parallel_edges_dangle:
  "(let g = snd (RemoveEdge demo_parallel ''a'' ''b'') in length (gr_edges g) = 1 \<and> Successors g ''a'' = [])
    \<and> (let g = snd (RemoveNode demo_parallel ''b'') in
        (\<exists>e. map_of (gr_edges g) ''e2'' = Some e \<and> ed_To e = ''b'') \<and> \<not> HasNode g ''b'')"
proof -
  have "length (gr_edges (snd (RemoveEdge demo_parallel ''a'' ''b''))) = 1"
    "Successors (snd (RemoveEdge demo_parallel ''a'' ''b'')) ''a'' = []"
    "map_option ed_To (map_of (gr_edges (snd (RemoveNode demo_parallel ''b''))) ''e2'') = Some ''b''"
    "\<not> HasNode (snd (RemoveNode demo_parallel ''b'')) ''b''"
    by code_simp+
  then show ?thesis by (simp add: Let_def map_option_eq_Some)
qed

end
