(* ===== verification/Graph_Search.thy ===== *)
theory Graph_Search
  imports Graph_Core
begin

text \<open>
  Traversal, \<open>internal/engine/graph/traversal.go\<close>: depth-first and breadth-first search,
  Kahn's topological sort, \<open>HasCycle\<close> and \<open>TransitiveDependents\<close>. The algorithms read the graph
  through its outgoing adjacency map only, and terminate on every map. A visitor is a function
  that threads a state and answers whether to go on. The interface \<open>digraphs\<close> is what their
  correctness relies on; it is interpreted on the graphs of theory Graph\_Core.
\<close>

definition succs :: "adjacency_map \<Rightarrow> string \<Rightarrow> string list" where
  "succs m i = sort_strings (adj m i)"

definition universe :: "adjacency_map \<Rightarrow> string set" where
  "universe m = set (keys m) \<union> (\<Union>(k, xs) \<in> set m. set xs)"

definition arcs_of :: "adjacency_map \<Rightarrow> (string \<times> string) set" where
  "arcs_of m = {(u, v). v \<in> set (adj m u)}"

lemma Successors_succs: "Successors g = succs (gr_outgoing g)"
  by (simp add: Successors_def succs_def fun_eq_iff)

lemma arcs_arcs_of: "arcs g = arcs_of (gr_outgoing g)"
  by (simp add: arcs_def arcs_of_def)

lemma set_succs [simp]: "set (succs m i) = set (adj m i)"
  by (simp add: succs_def)

lemma finite_universe [simp]: "finite (universe m)"
  by (auto simp: universe_def)

lemma succs_universe: "s \<in> set (adj m i) \<Longrightarrow> s \<in> universe m \<and> i \<in> universe m"
proof -
  assume s: "s \<in> set (adj m i)"
  then obtain xs where "map_of m i = Some xs" "s \<in> set xs" by (cases "map_of m i") (auto simp: adj_def)
  then have "(i, xs) \<in> set m" "s \<in> set xs" by (auto dest: map_of_SomeD)
  then show ?thesis by (force simp: universe_def keys_def)
qed

lemma succs_outside: "i \<notin> universe m \<Longrightarrow> succs m i = []"
  using succs_universe[of _ m i] by (metis list.set_intros(1) neq_Nil_conv set_succs)

lemma card_universe_insert:
  "i \<in> universe m \<Longrightarrow> i \<notin> seen \<Longrightarrow> card (universe m - insert i seen) < card (universe m - seen)"
  by (rule psubset_card_mono) auto

lemma card_universe_mono: "seen \<subseteq> seen' \<Longrightarrow> card (universe m - seen') \<le> card (universe m - seen)"
  by (rule card_mono) auto

subsection \<open>Depth-first search\<close>

text \<open>\<open>g.dfs\<close> on the start node is the loop on the list of that one node; the loop over the
  successors is the recursive call on their list.\<close>

type_synonym 's visitor = "string \<Rightarrow> 's \<Rightarrow> bool \<times> 's"

function dfs :: "adjacency_map \<Rightarrow> 's visitor \<Rightarrow> string list \<Rightarrow> string set \<times> 's \<Rightarrow> string set \<times> 's" where
  "dfs m visit [] r = r"
| "dfs m visit (i # is) r =
     (if i \<in> fst r then dfs m visit is r
      else if fst (visit i (snd r))
      then dfs m visit is (dfs m visit (succs m i) (insert i (fst r), snd (visit i (snd r))))
      else dfs m visit is (insert i (fst r), snd (visit i (snd r))))"
  by pat_completeness auto

termination
proof (relation "measures [\<lambda>(m, visit, is, r). card (universe m - fst r), \<lambda>(m, visit, is, r). length is]",
    goal_cases)
  case 1 show ?case by simp
next
  case 2 show ?case by simp
next
  case (3 m visit i "is" r)
  then show ?case
    using card_universe_insert[of i m "fst r"] succs_outside[of i m] by (cases "i \<in> universe m") auto
next
  case (4 m visit i "is" r)
  let ?r = "dfs m visit (succs m i) (insert i (fst r), snd (visit i (snd r)))"
  have grows: "dfs_dom (m, visit, is, r) \<Longrightarrow> fst r \<subseteq> fst (dfs m visit is r)" for m "is" and visit :: "'a visitor" and r
  proof (induction rule: dfs.pinduct)
    case (2 m visit i "is" r)
    then show ?case by (auto simp: dfs.psimps)
  qed (simp add: dfs.psimps)
  from 4(3) have "insert i (fst r) \<subseteq> fst ?r" using grows by fastforce
  then have "card (universe m - fst ?r) \<le> card (universe m - fst r)" by (intro card_universe_mono) auto
  then show ?case by auto
next
  case (5 m visit i "is" r)
  have "card (universe m - insert i (fst r)) \<le> card (universe m - fst r)"
    by (intro card_universe_mono) auto
  then show ?case by auto
qed

declare dfs.simps(2) [simp del]

text \<open>What a search with a visitor that never stops has marked: a set that contains the start nodes,
  is closed under successors (outside what was marked before) and is reachable from them.\<close>

lemma dfs_reach:
  assumes "\<And>i st. fst (visit i st)"
  shows "fst r \<subseteq> fst (dfs m visit is r) \<and> set is \<subseteq> fst (dfs m visit is r)
    \<and> (\<forall>x \<in> fst (dfs m visit is r) - fst r. (\<exists>i \<in> set is. (i, x) \<in> (arcs_of m)\<^sup>*)
        \<and> set (adj m x) \<subseteq> fst (dfs m visit is r))"
  using assms
proof (induction m visit "is" r rule: dfs.induct)
  case (2 m visit i "is" r)
  show ?case
  proof (cases "i \<in> fst r")
    case True
    then show ?thesis using 2(1)[OF True 2(5)] by (auto simp: dfs.simps(2))
  next
    case False
    let ?s = "(insert i (fst r), snd (visit i (snd r)))"
    let ?r1 = "dfs m visit (succs m i) ?s" and ?r2 = "dfs m visit is (dfs m visit (succs m i) ?s)"
    have go: "fst (visit i (snd r))" by (rule 2(5))
    have e: "dfs m visit (i # is) r = ?r2" using False go by (simp add: dfs.simps(2))
    note I1 = 2(2)[OF False go 2(5), simplified] and I2 = 2(3)[OF False go 2(5)]
    have arc: "(i, s) \<in> arcs_of m" if "s \<in> set (adj m i)" for s using that by (simp add: arcs_of_def)
    have b1: "\<forall>x \<in> fst ?r1 - fst ?s. (\<exists>s \<in> set (adj m i). (s, x) \<in> (arcs_of m)\<^sup>*) \<and> set (adj m x) \<subseteq> fst ?r1"
      and b2: "\<forall>x \<in> fst ?r2 - fst ?r1. (\<exists>s \<in> set is. (s, x) \<in> (arcs_of m)\<^sup>*) \<and> set (adj m x) \<subseteq> fst ?r2"
      and sub: "set (adj m i) \<subseteq> fst ?r1" "fst ?r1 \<subseteq> fst ?r2"
      using I1 I2 by simp_all
    show ?thesis unfolding e
    proof (intro conjI ballI)
      show "fst r \<subseteq> fst ?r2" "set (i # is) \<subseteq> fst ?r2" using I1 I2 by auto
      fix x assume x: "x \<in> fst ?r2 - fst r"
      have cases: "x = i \<or> x \<in> fst ?r1 - fst ?s \<or> x \<in> fst ?r2 - fst ?r1" using x by auto
      then consider "x = i" | "x \<in> fst ?r1 - fst ?s" | "x \<in> fst ?r2 - fst ?r1" by blast
      then show "\<exists>j \<in> set (i # is). (j, x) \<in> (arcs_of m)\<^sup>*"
      proof cases
        case 2
        from bspec[OF b1 2] have "\<exists>s \<in> set (adj m i). (s, x) \<in> (arcs_of m)\<^sup>*" by (rule conjunct1)
        then obtain s where "s \<in> set (adj m i)" "(s, x) \<in> (arcs_of m)\<^sup>*" by blast
        then show ?thesis using arc converse_rtrancl_into_rtrancl[of i s "arcs_of m" x] by auto
      next
        case 3
        from bspec[OF b2 3] show ?thesis by auto
      qed simp
      from cases show "set (adj m x) \<subseteq> fst ?r2"
      proof (elim disjE)
        assume "x \<in> fst ?r1 - fst ?s"
        from bspec[OF b1 this] show ?thesis using sub(2) by blast
      next
        assume "x \<in> fst ?r2 - fst ?r1"
        from bspec[OF b2 this] show ?thesis by blast
      qed (use sub in blast)
    qed
  qed
qed auto

text \<open>A visitor that records the nodes in the order it meets them.\<close>

definition log_visit :: "string list visitor" where
  "log_visit n a = (True, a @ [n])"

lemma dfs_log:
  assumes "distinct (snd r)" "set (snd r) \<subseteq> fst r"
  shows "distinct (snd (dfs m log_visit is r))
    \<and> set (snd (dfs m log_visit is r)) = set (snd r) \<union> (fst (dfs m log_visit is r) - fst r)
    \<and> fst r \<subseteq> fst (dfs m log_visit is r)"
  using assms
proof (induction m "log_visit" "is" r rule: dfs.induct)
  case (2 m i "is" r)
  show ?case
  proof (cases "i \<in> fst r")
    case True
    then show ?thesis using 2(1)[OF True 2(5,6)] by (simp add: dfs.simps(2))
  next
    case False
    let ?s = "(insert i (fst r), snd (log_visit i (snd r)))"
    have go: "fst (log_visit i (snd r))" by (simp add: log_visit_def)
    have e: "dfs m log_visit (i # is) r = dfs m log_visit is (dfs m log_visit (succs m i) ?s)"
      using False go by (simp add: dfs.simps(2))
    have s: "distinct (snd ?s)" "set (snd ?s) \<subseteq> fst ?s" "set (snd ?s) = insert i (set (snd r))"
      using 2(5,6) False by (auto simp: log_visit_def)
    note I1 = 2(2)[OF False go s(1,2)]
    have s1: "set (snd (dfs m log_visit (succs m i) ?s)) \<subseteq> fst (dfs m log_visit (succs m i) ?s)"
      using I1 s by auto
    have s0: "distinct (snd (dfs m log_visit (succs m i) ?s))" using I1 by blast
    note I2 = 2(3)[OF False go s0 s1]
    show ?thesis unfolding e using I1 I2 s 2(6) False by auto
  qed
qed auto

text \<open>\<open>DFS(start, visit)\<close> returns the visitor's last state.\<close>

definition DFS :: "'p Graph \<Rightarrow> string \<Rightarrow> 's visitor \<Rightarrow> 's \<Rightarrow> 's" where
  "DFS g start visit st = snd (dfs (gr_outgoing g) visit [start] ({}, st))"

definition reachable_from :: "'p Graph \<Rightarrow> string \<Rightarrow> string set" where
  "reachable_from g i = {x. (i, x) \<in> (arcs g)\<^sup>*}"

lemma closed_reach:
  assumes "start \<in> S" "\<forall>x \<in> S. set (adj m x) \<subseteq> S" "(start, x) \<in> (arcs_of m)\<^sup>*"
  shows "x \<in> S"
  using assms(3,1,2) by (induction rule: rtrancl_induct) (auto simp: arcs_of_def)

lemma dfs_marks:
  assumes "\<And>i st. fst (visit i st)"
  shows "fst (dfs (gr_outgoing g) visit [start] ({}, st)) = reachable_from g start"
proof -
  let ?S = "fst (dfs (gr_outgoing g) visit [start] ({}, st))"
  have r: "start \<in> ?S" "\<forall>x \<in> ?S. (start, x) \<in> (arcs g)\<^sup>* \<and> set (adj (gr_outgoing g) x) \<subseteq> ?S"
    using dfs_reach[of visit "({}, st)" "gr_outgoing g" "[start]", OF assms] by (auto simp: arcs_arcs_of)
  then show ?thesis
    using closed_reach[of start ?S "gr_outgoing g"] by (auto simp: reachable_from_def arcs_arcs_of)
qed

text \<open>Depth-first search with a visitor that always goes on visits exactly the nodes reachable
  from the start, each once.\<close>

theorem DFS_visits:
  "distinct (DFS g start log_visit []) \<and> set (DFS g start log_visit []) = reachable_from g start"
proof -
  have "fst (dfs (gr_outgoing g) log_visit [start] ({}, [])) = reachable_from g start"
    by (rule dfs_marks) (simp add: log_visit_def)
  then show ?thesis using dfs_log[of "({}, [])" "gr_outgoing g" "[start]"] by (simp add: DFS_def)
qed

subsection \<open>Breadth-first search\<close>

fun enqueue :: "string \<Rightarrow> string set \<times> string list \<Rightarrow> string set \<times> string list" where
  "enqueue s (seen, q) = (if s \<in> seen then (seen, q) else (insert s seen, q @ [s]))"

lemma enqueue_fold:
  "\<exists>xs. fold enqueue ss (seen, q) = (seen \<union> set ss, q @ xs) \<and> distinct xs \<and> set xs = set ss - seen"
proof (induction ss arbitrary: seen q)
  case (Cons s ss)
  obtain xs where "fold enqueue ss (enqueue s (seen, q)) =
      (fst (enqueue s (seen, q)) \<union> set ss, snd (enqueue s (seen, q)) @ xs)"
    "distinct xs" "set xs = set ss - fst (enqueue s (seen, q))"
    using Cons.IH by (metis prod.collapse)
  then show ?case
    by (intro exI[of _ "if s \<in> seen then xs else s # xs"]) auto
qed auto

text \<open>The loop on the queue: \<open>fold enqueue\<close> is the inner loop over the successors.\<close>

function bfs :: "adjacency_map \<Rightarrow> 's visitor \<Rightarrow> string list \<Rightarrow> string set \<Rightarrow> 's \<Rightarrow> 's" where
  "bfs m visit [] seen st = st"
| "bfs m visit (i # q) seen st =
     (if fst (visit i st)
      then bfs m visit (snd (fold enqueue (succs m i) (seen, q))) (fst (fold enqueue (succs m i) (seen, q)))
             (snd (visit i st))
      else snd (visit i st))"
  by pat_completeness auto
termination
proof (relation "measure (\<lambda>(m, visit, q, seen, st). card (universe m - seen) + length q)", goal_cases)
  case (2 m visit i q seen st)
  obtain xs where xs: "fold enqueue (succs m i) (seen, q) = (seen \<union> set (succs m i), q @ xs)"
    "distinct xs" "set xs = set (succs m i) - seen"
    using enqueue_fold by blast
  have sub: "set xs \<subseteq> universe m - seen" using xs(3) succs_universe by auto
  have "universe m - (seen \<union> set (succs m i)) = (universe m - seen) - set xs" using xs(3) by auto
  then have "card (universe m - (seen \<union> set (succs m i))) + card (set xs) = card (universe m - seen)"
    using sub card_Diff_subset[of "set xs" "universe m - seen"] card_mono[OF _ sub] by simp
  then show ?case using xs distinct_card[OF xs(2)] by simp
qed simp

definition BFS :: "'p Graph \<Rightarrow> string \<Rightarrow> 's visitor \<Rightarrow> 's \<Rightarrow> 's" where
  "BFS g start visit st =
     (if \<not> HasNode g start then st else bfs (gr_outgoing g) visit [start] {start} st)"

lemma bfs_log:
  assumes "distinct (a @ q)" "set (a @ q) = seen" "\<forall>x \<in> set a. set (adj m x) \<subseteq> seen"
  shows "distinct (bfs m log_visit q seen a) \<and> seen \<subseteq> set (bfs m log_visit q seen a)
    \<and> (\<forall>x \<in> set (bfs m log_visit q seen a). set (adj m x) \<subseteq> set (bfs m log_visit q seen a))
    \<and> (\<forall>x \<in> set (bfs m log_visit q seen a) - seen. \<exists>i \<in> set q. (i, x) \<in> (arcs_of m)\<^sup>*)"
  using assms
proof (induction m "log_visit" q seen a rule: bfs.induct)
  case (2 m i q seen a)
  obtain xs where xs: "fold enqueue (succs m i) (seen, q) = (seen \<union> set (succs m i), q @ xs)"
    "distinct xs" "set xs = set (succs m i) - seen"
    using enqueue_fold by blast
  have go: "fst (log_visit i a)" "snd (log_visit i a) = a @ [i]" by (simp_all add: log_visit_def)
  let ?r = "bfs m log_visit (q @ xs) (seen \<union> set (adj m i)) (a @ [i])"
  have e: "bfs m log_visit (i # q) seen a = ?r" using go xs(1) by simp
  have I: "distinct ?r \<and> seen \<union> set (adj m i) \<subseteq> set ?r \<and> (\<forall>x \<in> set ?r. set (adj m x) \<subseteq> set ?r)
    \<and> (\<forall>x \<in> set ?r - (seen \<union> set (adj m i)). \<exists>i \<in> set (q @ xs). (i, x) \<in> (arcs_of m)\<^sup>*)"
  proof -
    have "distinct ((a @ [i]) @ q @ xs)" "set ((a @ [i]) @ q @ xs) = seen \<union> set (adj m i)"
      "\<forall>x \<in> set (a @ [i]). set (adj m x) \<subseteq> seen \<union> set (adj m i)"
      using 2(2-4) xs(2,3) by auto
    then show ?thesis using 2(1)[OF go(1)] unfolding xs(1) go(2) by simp
  qed
  have arc: "(i, s) \<in> (arcs_of m)\<^sup>*" if "s \<in> set (adj m i)" for s using that by (auto simp: arcs_of_def)
  have "\<exists>j \<in> set (i # q). (j, x) \<in> (arcs_of m)\<^sup>*" if x: "x \<in> set ?r - seen" for x
  proof (cases "x \<in> set (adj m i)")
    case True then show ?thesis using arc by auto
  next
    case False
    then have "\<exists>j \<in> set (q @ xs). (j, x) \<in> (arcs_of m)\<^sup>*" using I x by simp
    then obtain j where "j \<in> set q \<or> j \<in> set (adj m i)" "(j, x) \<in> (arcs_of m)\<^sup>*" using xs(3) by auto
    then show ?thesis using arc rtrancl_trans[of i j "arcs_of m" x] by auto
  qed
  then show ?case unfolding e using I by blast
qed simp

text \<open>Breadth-first search with a visitor that always goes on visits exactly the nodes reachable
  from an existing start, each once: the same set as depth-first search.\<close>

theorem BFS_visits:
  assumes "HasNode g start"
  shows "distinct (BFS g start log_visit []) \<and> set (BFS g start log_visit []) = reachable_from g start"
proof -
  let ?r = "bfs (gr_outgoing g) log_visit [start] {start} []"
  have "distinct ?r" "start \<in> set ?r" "\<forall>x \<in> set ?r. set (adj (gr_outgoing g) x) \<subseteq> set ?r"
    "\<forall>x \<in> set ?r. (start, x) \<in> (arcs g)\<^sup>*"
    using bfs_log[of "[]" "[start]" "{start}" "gr_outgoing g"] by (auto simp: arcs_arcs_of)
  then show ?thesis
    using assms closed_reach[of start "set ?r" "gr_outgoing g"]
    by (auto simp: BFS_def reachable_from_def arcs_arcs_of)
qed

subsection \<open>Transitive dependents\<close>

text \<open>The visitor writes into the map \<open>affected\<close>.\<close>

definition affect_visit :: "string list visitor" where
  "affect_visit n a = (True, List.insert n a)"

definition TransitiveDependents :: "'p Graph \<Rightarrow> string \<Rightarrow> string list" where
  "TransitiveDependents g i =
     sort_strings (filter (\<lambda>n. n \<noteq> i) (snd (dfs (gr_outgoing g) affect_visit [i] ({}, []))))"

text \<open>On new nodes the two visitors do the same, up to the order.\<close>

lemma dfs_affect:
  assumes "distinct (snd r)" "set (snd r) = fst r"
  shows "distinct (snd (dfs m affect_visit is r))
    \<and> set (snd (dfs m affect_visit is r)) = fst (dfs m affect_visit is r)"
  using assms
proof (induction m "affect_visit" "is" r rule: dfs.induct)
  case (2 m i "is" r)
  show ?case
  proof (cases "i \<in> fst r")
    case True
    then show ?thesis using 2(1)[OF True 2(5,6)] by (simp add: dfs.simps(2))
  next
    case False
    let ?s = "(insert i (fst r), snd (affect_visit i (snd r)))"
    have go: "fst (affect_visit i (snd r))" by (simp add: affect_visit_def)
    have s: "distinct (snd ?s)" "set (snd ?s) = fst ?s"
      using 2(5,6) by (auto simp: affect_visit_def distinct_insert)
    have "distinct (snd (dfs m affect_visit (succs m i) ?s))"
      "set (snd (dfs m affect_visit (succs m i) ?s)) = fst (dfs m affect_visit (succs m i) ?s)"
      using 2(2)[OF False go s] by blast+
    from 2(3)[OF False go this] show ?thesis using False go by (simp add: dfs.simps(2))
  qed
qed auto

lemma TransitiveDependents_set:
  "set (TransitiveDependents g i) = reachable_from g i - {i}" "distinct (TransitiveDependents g i)"
  "sorted (TransitiveDependents g i)"
proof -
  have "fst (dfs (gr_outgoing g) affect_visit [i] ({}, [])) = reachable_from g i"
    by (rule dfs_marks) (simp add: affect_visit_def)
  then show "set (TransitiveDependents g i) = reachable_from g i - {i}" "distinct (TransitiveDependents g i)"
    using dfs_affect[of "({}, [])" "gr_outgoing g" "[i]"] by (auto simp: TransitiveDependents_def)
  show "sorted (TransitiveDependents g i)"
    unfolding TransitiveDependents_def using sorted_insertion_sort[of "\<lambda>s. s"] by simp
qed

subsection \<open>Topological sort\<close>

definition deg_at :: "(string \<times> int) list \<Rightarrow> string \<Rightarrow> int" where
  "deg_at d i = (case map_of d i of None \<Rightarrow> 0 | Some n \<Rightarrow> n)"

text \<open>\<open>inDegree[k] += x\<close>\<close>

definition deg_add :: "int \<Rightarrow> string \<Rightarrow> (string \<times> int) list \<Rightarrow> (string \<times> int) list" where
  "deg_add x k d = mput k (deg_at d k + x) d"

text \<open>The body of the loop over the successors: decrement, and on zero append to the queue and
  move the new element left while it is smaller.\<close>

fun relax :: "string \<Rightarrow> string list \<times> (string \<times> int) list \<Rightarrow> string list \<times> (string \<times> int) list" where
  "relax s (q, d) =
     (let d' = deg_add (- 1) s d in if deg_at d' s = 0 then (insert_last (\<lambda>x. x) s q, d') else (q, d'))"

definition positive :: "(string \<times> int) list \<Rightarrow> string set" where
  "positive d = {k. 0 < deg_at d k}"

lemma finite_positive [simp]: "finite (positive d)"
proof -
  have "positive d \<subseteq> fst ` set d"
    by (auto simp: positive_def deg_at_def image_iff split: option.splits dest!: map_of_SomeD) force
  then show ?thesis by (rule finite_subset) simp
qed

lemma deg_at_add [simp]: "deg_at (deg_add x k d) j = (if j = k then deg_at d k + x else deg_at d j)"
  by (simp add: deg_add_def deg_at_def)

lemma relax_measure:
  "card (positive (snd (fold relax ss (q, d)))) + length (fst (fold relax ss (q, d)))
     \<le> card (positive d) + length q"
proof (induction ss arbitrary: q d)
  case (Cons s ss)
  let ?d = "deg_add (- 1) s d"
  have sub: "positive ?d \<subseteq> positive d" by (auto simp: positive_def)
  have "card (positive (snd (relax s (q, d)))) + length (fst (relax s (q, d))) \<le> card (positive d) + length q"
  proof (cases "deg_at ?d s = 0")
    case True
    then have "s \<in> positive d" "s \<notin> positive ?d" by (auto simp: positive_def)
    then have "positive ?d \<subset> positive d" using sub by auto
    then have "card (positive ?d) < card (positive d)" by (intro psubset_card_mono) auto
    then show ?thesis using True by (simp add: Let_def)
  next
    case False
    then show ?thesis using card_mono[OF _ sub] by (simp add: Let_def)
  qed
  then show ?case using Cons.IH[of "fst (relax s (q, d))" "snd (relax s (q, d))"] by simp
qed simp

function kahn :: "adjacency_map \<Rightarrow> string list \<Rightarrow> (string \<times> int) list \<Rightarrow> string list \<Rightarrow> string list" where
  "kahn m [] d order = order"
| "kahn m (i # q) d order =
     kahn m (fst (fold relax (succs m i) (q, d))) (snd (fold relax (succs m i) (q, d))) (order @ [i])"
  by pat_completeness auto
termination
  by (relation "measure (\<lambda>(m, q, d, order). card (positive d) + length q)")
    (auto intro: le_less_trans[OF relax_measure])

text \<open>The in-degrees: zero for every node, plus one per edge; the start queue is the sorted list of
  the keys of degree zero.\<close>

definition in_degrees :: "'p Graph \<Rightarrow> (string \<times> int) list" where
  "in_degrees g = fold (\<lambda>(i, e) d. deg_add 1 (ed_To e) d) (gr_edges g) (map (\<lambda>(i, n). (i, 0)) (gr_nodes g))"

definition TopologicalSort :: "'p Graph \<Rightarrow> (graph_error, string list) result" where
  "TopologicalSort g =
     (let d = in_degrees g;
          order = kahn (gr_outgoing g) (sort_strings (map fst (filter (\<lambda>(i, n). n = 0) d))) d []
      in if length order \<noteq> length (gr_nodes g) then Inl ErrCycleDetected else Inr order)"

definition HasCycle :: "'p Graph \<Rightarrow> bool" where
  "HasCycle g \<longleftrightarrow> isl (TopologicalSort g)"

subsection \<open>Correctness of the sort\<close>

definition preds :: "adjacency_map \<Rightarrow> string \<Rightarrow> string set" where
  "preds m v = {u. (u, v) \<in> arcs_of m}"

text \<open>A list that may follow the nodes of \<open>D\<close>: every node comes after all its predecessors.\<close>

fun topo_from :: "adjacency_map \<Rightarrow> string set \<Rightarrow> string list \<Rightarrow> bool" where
  "topo_from m D [] \<longleftrightarrow> True"
| "topo_from m D (v # vs) \<longleftrightarrow> preds m v \<subseteq> D \<and> topo_from m (insert v D) vs"

lemma topo_from_snoc: "topo_from m D (vs @ [v]) \<longleftrightarrow> topo_from m D vs \<and> preds m v \<subseteq> D \<union> set vs"
  by (induction vs arbitrary: D) auto

lemma topo_from_order:
  assumes "topo_from m {} vs" "vs = xs @ v # ys" "(u, v) \<in> arcs_of m"
  shows "u \<in> set xs"
proof -
  have "topo_from m D (xs @ v # ys) \<Longrightarrow> preds m v \<subseteq> D \<union> set xs" for D
    by (induction xs arbitrary: D) fastforce+
  from this[of "{}"] show ?thesis using assms by (auto simp: preds_def)
qed

text \<open>No set of nodes in which each has a predecessor in the set meets a topological order.\<close>

lemma topo_from_no_core:
  assumes "topo_from m D vs" "C \<inter> D = {}" "\<forall>v \<in> C. preds m v \<inter> C \<noteq> {}"
  shows "C \<inter> set vs = {}"
  using assms(1,2)
proof (induction vs arbitrary: D)
  case (Cons v vs)
  have "v \<notin> C"
  proof
    assume "v \<in> C"
    then have "preds m v \<inter> C \<noteq> {}" using assms(3) by blast
    then show False using Cons.prems by auto
  qed
  with Cons show ?case by auto
qed simp

lemma relax_fold:
  "distinct ss \<Longrightarrow> (\<forall>v. deg_at (snd (fold relax ss (q, d))) v = deg_at d v - (if v \<in> set ss then 1 else 0))
     \<and> mset (fst (fold relax ss (q, d))) = mset q + mset (filter (\<lambda>v. deg_at d v = 1) ss)"
proof (induction ss arbitrary: q d)
  case (Cons s ss)
  let ?d = "deg_add (- 1) s d"
  let ?q = "if deg_at d s = 1 then insert_last (\<lambda>x. x) s q else q"
  have f: "filter (\<lambda>v. deg_at ?d v = 1) ss = filter (\<lambda>v. deg_at d v = 1) ss"
    using Cons.prems by (intro filter_cong) auto
  have r: "fold relax (s # ss) (q, d) = fold relax ss (?q, ?d)" by (simp add: Let_def)
  have "mset ?q + mset (filter (\<lambda>v. deg_at d v = 1) ss)
      = mset q + mset (filter (\<lambda>v. deg_at d v = 1) (s # ss))"
    by (simp add: mset_insert_last)
  moreover have "distinct ss" "s \<notin> set ss" using Cons.prems by auto
  ultimately show ?case unfolding r using Cons.IH[of ?q ?d] unfolding f by simp
qed simp

text \<open>The invariant of the loop.\<close>

definition kahn_inv :: "string set \<Rightarrow> adjacency_map \<Rightarrow> string list \<Rightarrow> (string \<times> int) list \<Rightarrow> string list \<Rightarrow> bool" where
  "kahn_inv V m q d order \<longleftrightarrow> distinct (order @ q) \<and> set (order @ q) \<subseteq> V \<and> topo_from m {} order
     \<and> (\<forall>v \<in> V. deg_at d v = int (card (preds m v - set order)))
     \<and> (\<forall>v \<in> V. deg_at d v = 0 \<longrightarrow> v \<in> set (order @ q))
     \<and> (\<forall>v \<in> set (order @ q). deg_at d v = 0)"

lemma kahn_step:
  assumes "finite V" "\<forall>u v. (u, v) \<in> arcs_of m \<longrightarrow> u \<in> V \<and> v \<in> V" "\<forall>u. distinct (adj m u)"
    and inv: "kahn_inv V m (i # q) d order"
  shows "kahn_inv V m (fst (fold relax (succs m i) (q, d))) (snd (fold relax (succs m i) (q, d))) (order @ [i])"
proof -
  let ?q = "fst (fold relax (succs m i) (q, d))" and ?d = "snd (fold relax (succs m i) (q, d))"
  have ds: "distinct (succs m i)" using assms(3) by (simp add: succs_def)
  have d: "deg_at ?d v = deg_at d v - (if v \<in> set (adj m i) then 1 else 0)" for v
    using relax_fold[OF ds] by simp
  have q: "mset ?q = mset q + mset (filter (\<lambda>v. deg_at d v = 1) (succs m i))"
    using relax_fold[OF ds] by blast
  have sq: "set ?q = set q \<union> {v \<in> set (adj m i). deg_at d v = 1}"
  proof -
    have "set ?q = set_mset (mset q + mset (filter (\<lambda>v. deg_at d v = 1) (succs m i)))"
      using q by (metis set_mset_mset)
    then show ?thesis by auto
  qed
  have I1: "distinct (order @ i # q)" and I2: "set (order @ i # q) \<subseteq> V" and I3: "topo_from m {} order"
    and I4: "\<forall>v \<in> V. deg_at d v = int (card (preds m v - set order))"
    and I5: "\<forall>v \<in> V. deg_at d v = 0 \<longrightarrow> v \<in> set (order @ i # q)"
    and I6: "\<forall>v \<in> set (order @ i # q). deg_at d v = 0"
    using inv unfolding kahn_inv_def by blast+
  have iV: "i \<in> V" and i: "i \<notin> set order" "deg_at d i = 0" using I1 I2 I6 by auto
  have fin: "finite (preds m v)" for v
    using assms(1,2) by (intro finite_subset[of "preds m v" V]) (auto simp: preds_def)
  have pi: "preds m i \<subseteq> set order"
    using bspec[OF I4 iV] i(2) fin[of i] by auto
  have succ_pred: "v \<in> set (adj m i) \<longleftrightarrow> i \<in> preds m v" for v by (simp add: preds_def arcs_of_def)
  have deg: "deg_at ?d v = int (card (preds m v - set (order @ [i])))" if v: "v \<in> V" for v
  proof -
    have dv: "deg_at d v = int (card (preds m v - set order))" using I4 v by blast
    show ?thesis
    proof (cases "i \<in> preds m v")
      case True
      then have "preds m v - set order = insert i (preds m v - set (order @ [i]))" using i by auto
      moreover have "card (insert i (preds m v - set (order @ [i]))) = Suc (card (preds m v - set (order @ [i])))"
        using fin[of v] by (intro card_insert_disjoint) auto
      ultimately have "card (preds m v - set order) = Suc (card (preds m v - set (order @ [i])))"
        by (simp only:)
      then show ?thesis using dv True succ_pred by (simp add: d)
    next
      case False
      then have "preds m v - set order = preds m v - set (order @ [i])" by auto
      then show ?thesis using dv False succ_pred by (simp add: d)
    qed
  qed
  have one: "v \<notin> set (order @ i # q)" if "deg_at d v = 1" for v using I6 that by force
  have dist: "distinct (order @ [i] @ ?q)"
  proof -
    have "distinct (order @ i # q @ filter (\<lambda>v. deg_at d v = 1) (succs m i))"
      using I1 ds one by auto
    then have "distinct (order @ [i] @ q @ filter (\<lambda>v. deg_at d v = 1) (succs m i))" by simp
    moreover have "mset (order @ [i] @ ?q) = mset (order @ [i] @ q @ filter (\<lambda>v. deg_at d v = 1) (succs m i))"
      using q by simp
    ultimately show ?thesis using mset_eq_imp_distinct_iff by metis
  qed
  have sub: "set (adj m i) \<subseteq> V" using assms(2) by (auto simp: arcs_of_def)
  have zero: "deg_at ?d v = 0" if v: "v \<in> set (order @ i # q)" for v
  proof -
    have "v \<in> V" "deg_at d v = 0" using I2 I6 v by blast+
    then have "card (preds m v - set order) = 0" using I4 by simp
    then have "i \<notin> preds m v" using i(1) fin[of v] by auto
    then show ?thesis using \<open>deg_at d v = 0\<close> succ_pred by (simp add: d)
  qed
  have zero1: "deg_at ?d v = 0" if "v \<in> set (adj m i)" "deg_at d v = 1" for v using that by (simp add: d)
  have full: "v \<in> set (order @ i # q) \<union> set ?q" if v: "v \<in> V" "deg_at ?d v = 0" for v
  proof (cases "v \<in> set (adj m i)")
    case True then show ?thesis using v by (simp add: d sq)
  next
    case False then show ?thesis using v bspec[OF I5 v(1)] by (auto simp: d)
  qed
  show ?thesis
    unfolding kahn_inv_def
  proof (intro conjI ballI impI)
    show "distinct ((order @ [i]) @ ?q)" using dist by simp
    show "set ((order @ [i]) @ ?q) \<subseteq> V" using I2 sub sq by auto
    show "topo_from m {} (order @ [i])" using I3 pi by (simp add: topo_from_snoc)
    show "deg_at ?d v = int (card (preds m v - set (order @ [i])))" if "v \<in> V" for v using deg that .
    show "v \<in> set ((order @ [i]) @ ?q)" if "v \<in> V" "deg_at ?d v = 0" for v
      using full[OF that] sq by auto
    show "deg_at ?d v = 0" if "v \<in> set ((order @ [i]) @ ?q)" for v
      using that zero[of v] zero1[of v] sq by auto
  qed
qed

lemma kahn_final:
  assumes "finite V" "\<forall>u v. (u, v) \<in> arcs_of m \<longrightarrow> u \<in> V \<and> v \<in> V" "\<forall>u. distinct (adj m u)"
    and "kahn_inv V m q d order"
  shows "\<exists>d'. kahn_inv V m [] d' (kahn m q d order)"
  using assms
proof (induction m q d order rule: kahn.induct)
  case (2 m i q d order)
  from 2(1)[OF 2(2-4) kahn_step[OF 2(2-5)]] show ?case by simp
qed auto

text \<open>The interface: a family of finite graphs, each with an adjacency map that lists every
  successor once and stays inside the nodes. What a client proves from it: Kahn's loop, started
  with the in-degrees, ends with all nodes in topological order or the graph has a cycle.\<close>

locale digraphs =
  fixes ok :: "'g \<Rightarrow> bool" and verts :: "'g \<Rightarrow> string set" and out :: "'g \<Rightarrow> adjacency_map"
  assumes fin: "ok g \<Longrightarrow> finite (verts g)"
    and closed: "ok g \<Longrightarrow> (u, v) \<in> arcs_of (out g) \<Longrightarrow> u \<in> verts g \<and> v \<in> verts g"
    and dist: "ok g \<Longrightarrow> distinct (adj (out g) u)"
begin

lemma finite_arcs: "ok g \<Longrightarrow> finite (arcs_of (out g))"
  using closed[of g] fin[of g] by (auto intro: finite_subset[of _ "verts g \<times> verts g"])

lemma finite_preds: "ok g \<Longrightarrow> finite (preds (out g) v)"
  using closed[of g] fin[of g] by (intro finite_subset[of "preds (out g) v" "verts g"]) (auto simp: preds_def)

lemma kahn_result:
  assumes g: "ok g"
    and deg: "\<forall>v \<in> verts g. deg_at d v = int (card (preds (out g) v))"
    and q: "distinct q" "set q = {v \<in> verts g. deg_at d v = 0}"
  defines "order \<equiv> kahn (out g) q d []"
  shows "distinct order \<and> set order \<subseteq> verts g \<and> topo_from (out g) {} order
    \<and> (\<forall>v \<in> verts g - set order. preds (out g) v - set order \<noteq> {})"
proof -
  have "kahn_inv (verts g) (out g) q d []" using deg q by (auto simp: kahn_inv_def)
  then obtain d' where "kahn_inv (verts g) (out g) [] d' order"
    using kahn_final[of "verts g" "out g"] fin[OF g] closed[OF g] dist[OF g] unfolding order_def by blast
  then show ?thesis
    using finite_preds[OF g] by (auto simp: kahn_inv_def)
qed

lemma order_acyclic:
  assumes g: "ok g" and t: "topo_from (out g) {} order" "set order = verts g"
  shows "acyclic (arcs_of (out g))"
proof (rule acyclicI, safe)
  fix v assume v: "(v, v) \<in> (arcs_of (out g))\<^sup>+"
  let ?C = "{u. (v, u) \<in> (arcs_of (out g))\<^sup>* \<and> (u, v) \<in> (arcs_of (out g))\<^sup>*}"
  have "preds (out g) w \<inter> ?C \<noteq> {}" if w: "w \<in> ?C" for w
  proof -
    have "(v, w) \<in> (arcs_of (out g))\<^sup>+" using v w by (auto intro: trancl_rtrancl_trancl)
    then obtain u where u: "(v, u) \<in> (arcs_of (out g))\<^sup>*" "(u, w) \<in> arcs_of (out g)"
      by (meson tranclD2)
    then have "u \<in> ?C" using w by (auto intro: converse_rtrancl_into_rtrancl)
    then show ?thesis using u by (auto simp: preds_def)
  qed
  then have "?C \<inter> set order = {}" using topo_from_no_core[OF t(1), of ?C] by blast
  moreover have "v \<in> verts g" using tranclD[OF v] closed[OF g] by blast
  ultimately show False using t(2) by blast
qed

lemma core_cycle:
  assumes g: "ok g" and "\<forall>v \<in> verts g - D. preds (out g) v - D \<noteq> {}" "acyclic (arcs_of (out g))"
  shows "verts g \<subseteq> D"
proof (rule ccontr)
  assume "\<not> verts g \<subseteq> D"
  then have ne: "verts g - D \<noteq> {}" by blast
  have "wf (arcs_of (out g))" using finite_acyclic_wf[OF finite_arcs[OF g] assms(3)] .
  then obtain v where v: "v \<in> verts g - D" "\<forall>u. (u, v) \<in> arcs_of (out g) \<longrightarrow> u \<notin> verts g - D"
    using ne by (meson wfE_min')
  then obtain u where "(u, v) \<in> arcs_of (out g)" "u \<notin> D" using assms(2) by (auto simp: preds_def)
  then show False using v closed[OF g] by blast
qed

lemma kahn_complete_iff:
  assumes "ok g" "\<forall>v \<in> verts g. deg_at d v = int (card (preds (out g) v))"
    "distinct q" "set q = {v \<in> verts g. deg_at d v = 0}"
  shows "length (kahn (out g) q d []) = card (verts g) \<longleftrightarrow> acyclic (arcs_of (out g))"
    and "acyclic (arcs_of (out g)) \<Longrightarrow> set (kahn (out g) q d []) = verts g"
proof -
  note r = kahn_result[OF assms]
  have len: "length (kahn (out g) q d []) = card (set (kahn (out g) q d []))"
    using r distinct_card by fastforce
  have a: "set (kahn (out g) q d []) = verts g" if "acyclic (arcs_of (out g))"
    using core_cycle[OF assms(1) _ that] r by blast
  then show "acyclic (arcs_of (out g)) \<Longrightarrow> set (kahn (out g) q d []) = verts g" .
  show "length (kahn (out g) q d []) = card (verts g) \<longleftrightarrow> acyclic (arcs_of (out g))"
  proof
    assume "length (kahn (out g) q d []) = card (verts g)"
    then have "set (kahn (out g) q d []) = verts g"
      using r len fin[OF assms(1)] by (metis card_subset_eq)
    then show "acyclic (arcs_of (out g))" using order_acyclic[OF assms(1)] r by blast
  qed (use a len in simp)
qed

end

interpretation eng: digraphs wf_graph node_ids gr_outgoing
proof unfold_locales
  fix g :: "'a Graph" and u v assume g: "wf_graph g"
  show "finite (node_ids g)" by simp
  show "(u, v) \<in> arcs_of (gr_outgoing g) \<Longrightarrow> u \<in> node_ids g \<and> v \<in> node_ids g"
    using arcs_nodes[OF wf_graphD(1)[OF g]] by (simp add: arcs_arcs_of)
  show "distinct (adj (gr_outgoing g) u)" using graph_okD(8)[OF wf_graphD(1)[OF g]] .
qed

subsection \<open>The sort of an engine graph\<close>

lemma count_degrees:
  "deg_at (fold (\<lambda>(i, e) d. deg_add 1 (ed_To e) d) es d) v
     = deg_at d v + int (length (filter (\<lambda>(i, e). ed_To e = v) es))
   \<and> dom (map_of (fold (\<lambda>(i, e) d. deg_add 1 (ed_To e) d) es d)) = dom (map_of d) \<union> (ed_To \<circ> snd) ` set es
   \<and> (is_map d \<longrightarrow> is_map (fold (\<lambda>(i, e) d. deg_add 1 (ed_To e) d) es d))"
proof (induction es arbitrary: d)
  case (Cons x es)
  obtain i e where x: "x = (i, e)" by (cases x)
  show ?case using Cons.IH[of "deg_add 1 (ed_To e) d"] by (auto simp: x deg_add_def deg_at_def)
qed simp

lemma edges_into:
  assumes "wf_graph g"
  shows "length (filter (\<lambda>(i, e). ed_To e = v) (gr_edges g)) = card (preds (gr_outgoing g) v)"
proof -
  let ?es = "filter (\<lambda>(i, e). ed_To e = v) (gr_edges g)"
  note d = graph_okD[OF wf_graphD(1)[OF assms]]
  have e: "ed_ID e = i \<and> i = edge_key (ed_From e) v \<and> (ed_From e, v) \<in> arcs g"
    if "(i, e) \<in> set ?es" for i e
    using that is_map_in_set[OF d(2)] wf_graphD(3)[OF assms, of i e] by auto
  have dm: "distinct (map fst (gr_edges g))" using d(2) by (simp add: is_map_def keys_def)
  have "inj_on (ed_From \<circ> snd) (set ?es)"
  proof (rule inj_onI)
    fix x y assume xy: "x \<in> set ?es" "y \<in> set ?es" "(ed_From \<circ> snd) x = (ed_From \<circ> snd) y"
    obtain i a where x: "x = (i, a)" by (cases x)
    obtain j b where y: "y = (j, b)" by (cases y)
    have "i = j" using e[of i a] e[of j b] xy by (simp add: x y)
    then show "x = y" using xy is_map_in_set[OF d(2)] by (auto simp: x y)
  qed
  moreover have "distinct ?es" using dm by (simp add: distinct_map)
  ultimately have "length ?es = card ((ed_From \<circ> snd) ` set ?es)"
    by (metis card_image distinct_card)
  also have "(ed_From \<circ> snd) ` set ?es = preds (gr_outgoing g) v"
  proof
    show "(ed_From \<circ> snd) ` set ?es \<subseteq> preds (gr_outgoing g) v"
      using e by (fastforce simp: preds_def arcs_arcs_of)
    show "preds (gr_outgoing g) v \<subseteq> (ed_From \<circ> snd) ` set ?es"
    proof
      fix u assume "u \<in> preds (gr_outgoing g) v"
      then have u: "(u, v) \<in> arcs g" by (simp add: preds_def arcs_arcs_of)
      then obtain x where x: "map_of (gr_edges g) (edge_key u v) = Some x"
        using wf_graphD(4)[OF assms u] by auto
      have "no_arrow u" "no_arrow v" using arcs_nodes[OF wf_graphD(1)[OF assms] u] wf_graphD(2)[OF assms] by blast+
      then have "ed_From x = u" "ed_To x = v"
        using wf_graphD(3)[OF assms x] edge_key_inject[of u v "ed_From x" "ed_To x"] by auto
      then show "u \<in> (ed_From \<circ> snd) ` set ?es"
        using map_of_SomeD[OF x] by (intro image_eqI[of _ _ "(edge_key u v, x)"]) auto
    qed
  qed
  finally show ?thesis .
qed

lemma in_degrees_wf:
  assumes "wf_graph g"
  shows "deg_at (in_degrees g) v = int (card (preds (gr_outgoing g) v))"
    and "is_map (in_degrees g)" "dom (map_of (in_degrees g)) = node_ids g"
proof -
  let ?d0 = "map (\<lambda>(i, n). (i, 0::int)) (gr_nodes g)"
  note d = graph_okD[OF wf_graphD(1)[OF assms]]
  have m0: "map_of ?d0 = map_option (\<lambda>_. 0) \<circ> map_of (gr_nodes g)"
    by (rule ext) (simp add: map_of_map[symmetric] split_def)
  have "deg_at ?d0 v = 0" by (simp add: deg_at_def m0 split: option.splits)
  moreover have k0: "is_map ?d0" using d(1) by (simp add: is_map_def keys_def split_def o_def)
  moreover have "dom (map_of ?d0) = node_ids g" by (auto simp: m0 node_ids_def)
  moreover have "(ed_To \<circ> snd) ` set (gr_edges g) \<subseteq> node_ids g"
    using is_map_in_set[OF d(2)] wf_graphD(3)[OF assms] arcs_nodes[OF wf_graphD(1)[OF assms]] by fastforce
  ultimately show "deg_at (in_degrees g) v = int (card (preds (gr_outgoing g) v))"
    "is_map (in_degrees g)" "dom (map_of (in_degrees g)) = node_ids g"
    using count_degrees[of "gr_edges g" ?d0 v] edges_into[OF assms] by (auto simp: in_degrees_def)
qed

text \<open>A topological order of the graph: all nodes, each once, each after its predecessors.\<close>

definition is_topo_order :: "'p Graph \<Rightarrow> string list \<Rightarrow> bool" where
  "is_topo_order g order \<longleftrightarrow> distinct order \<and> set order = node_ids g
     \<and> (\<forall>xs v ys. order = xs @ v # ys \<longrightarrow> (\<forall>u. (u, v) \<in> arcs g \<longrightarrow> u \<in> set xs))"

lemma TopologicalSort_wf:
  assumes "wf_graph g"
  shows "(case TopologicalSort g of Inr order \<Rightarrow> acyclic (arcs g) \<and> is_topo_order g order
    | Inl e \<Rightarrow> e = ErrCycleDetected \<and> \<not> acyclic (arcs g))"
proof -
  let ?q = "sort_strings (map fst (filter (\<lambda>(i, n). n = 0) (in_degrees g)))"
  note dg = in_degrees_wf[OF assms]
  have "distinct ?q" using dg(2)
    by (simp add: is_map_def keys_def) (metis distinct_map_filter)
  moreover have "set ?q = {v \<in> node_ids g. deg_at (in_degrees g) v = 0}"
  proof -
    have "v \<in> set ?q \<longleftrightarrow> (v, 0) \<in> set (in_degrees g)" for v by (auto simp: image_iff)
    then have "v \<in> set ?q \<longleftrightarrow> map_of (in_degrees g) v = Some 0" for v
      using is_map_in_set[OF dg(2)] by simp
    moreover have "map_of (in_degrees g) v = Some 0 \<longleftrightarrow> v \<in> node_ids g \<and> deg_at (in_degrees g) v = 0" for v
      unfolding dg(3)[symmetric] by (auto simp: deg_at_def split: option.splits)
    ultimately show ?thesis by blast
  qed
  ultimately have k: "length (kahn (gr_outgoing g) ?q (in_degrees g) []) = card (node_ids g) \<longleftrightarrow> acyclic (arcs g)"
    "acyclic (arcs g) \<Longrightarrow> set (kahn (gr_outgoing g) ?q (in_degrees g) []) = node_ids g"
    "distinct (kahn (gr_outgoing g) ?q (in_degrees g) [])"
    "topo_from (gr_outgoing g) {} (kahn (gr_outgoing g) ?q (in_degrees g) [])"
    using eng.kahn_complete_iff[OF assms, of "in_degrees g" ?q]
      eng.kahn_result[OF assms, of "in_degrees g" ?q] dg(1) by (simp_all add: arcs_arcs_of)
  have n: "length (gr_nodes g) = card (node_ids g)"
    using is_map_length[OF graph_okD(1)[OF wf_graphD(1)[OF assms]]] by (simp add: node_ids_def)
  show ?thesis
    using k n topo_from_order[OF k(4)]
    by (auto simp: TopologicalSort_def Let_def is_topo_order_def arcs_arcs_of)
qed

text \<open>C9: on a graph built with the operations the topological sort returns all nodes, each once and
  after all its predecessors, when the graph is acyclic, and the cycle error otherwise.\<close>

theorem topological_sort_correct:
  assumes "built g"
  shows "(case TopologicalSort g of Inr order \<Rightarrow> acyclic (arcs g) \<and> is_topo_order g order
    | Inl e \<Rightarrow> e = ErrCycleDetected \<and> \<not> acyclic (arcs g))"
  using TopologicalSort_wf[OF built_wf[OF assms]] .

theorem DFS_visits_demo: "DFS demo_graph ''a'' log_visit [] = [''a'', ''b'']"
  by code_simp

theorem BFS_visits_witness:
  "set (BFS demo_graph ''a'' log_visit []) = reachable_from demo_graph ''a''"
proof -
  have "HasNode demo_graph ''a''" by code_simp
  then show ?thesis using BFS_visits by blast
qed

theorem topological_sort_correct_witness:
  "acyclic (arcs demo_graph) \<and> is_topo_order demo_graph [''a'', ''b'']"
proof -
  have "TopologicalSort demo_graph = Inr [''a'', ''b'']" by code_simp
  then show ?thesis using topological_sort_correct[OF demo_built] by simp
qed

text \<open>Two edges between the same nodes under different identifiers make the sort report a cycle
  in an acyclic graph: the in-degree counts edges, the loop decrements once per successor.\<close>

theorem parallel_edges_false_cycle:
  "TopologicalSort demo_parallel = Inl ErrCycleDetected \<and> HasCycle demo_parallel \<and> acyclic (arcs demo_parallel)"
proof -
  have t: "TopologicalSort demo_parallel = Inl ErrCycleDetected" "HasCycle demo_parallel" by code_simp+
  have "adj (gr_outgoing demo_parallel) i = (if i = ''a'' then [''b''] else [])" for i
  proof -
    have "gr_outgoing demo_parallel = [(''a'', [''b'']), (''b'', [])]" by code_simp
    then show ?thesis by (simp add: adj_def)
  qed
  then have "arcs demo_parallel = {(''a'', ''b'')}" by (auto simp: arcs_def split: if_splits)
  moreover have "acyclic ({} :: (string \<times> string) set)" by (simp add: acyclic_def)
  ultimately show ?thesis using t by (simp add: acyclic_insert)
qed



definition demo_fork :: "unit Graph" where
  "demo_fork = or_new (AddEdge (or_new (AddEdge (or_new (AddNode demo_nodes (demo_node ''c'')))
     (demo_edge '''' ''a'' ''b''))) (demo_edge '''' ''a'' ''c''))"

definition stop_at_b :: "string list visitor" where
  "stop_at_b n a = (n \<noteq> ''b'', a @ [n])"

text \<open>A visitor that returns false stops breadth-first search, but depth-first search only skips
  the successors of that node: on a graph with edges a to b and a to c, a visitor that stops at b
  still sees c.\<close>

theorem DFS_does_not_stop:
  "DFS demo_fork ''a'' stop_at_b [] = [''a'', ''b'', ''c''] \<and> BFS demo_fork ''a'' stop_at_b [] = [''a'', ''b'']"
proof -
  have "DFS demo_fork ''a'' stop_at_b [] = [''a'', ''b'', ''c'']" by code_simp
  moreover have "BFS demo_fork ''a'' stop_at_b [] = [''a'', ''b'']" by code_simp
  ultimately show ?thesis by blast
qed

end
