(* ===== verification/Graph_Scheduler.thy ===== *)
theory Graph_Scheduler
  imports Graph_Search
begin

text \<open>
  Partial recomputation, \<open>internal/engine/graph/scheduler.go\<close>, and the graph with event hooks,
  \<open>events.go\<close>. The callback \<open>recompute\<close> is a function that threads a state of its own and may
  return an error; the hooks are a list of the notifications sent.
\<close>

definition Plan :: "'p Graph \<Rightarrow> string list \<Rightarrow> (graph_error, string list) result" where
  "Plan g changed =
     (let dirty = filter (HasNode g) changed;
          expanded = concat (map (TransitiveDependents g) dirty)
      in bindR (TopologicalSort g) (\<lambda>order.
         Inr (filter (\<lambda>i. i \<in> set (dirty @ expanded) \<and> i \<notin> set changed) order)))"

datatype 'e exec_error = PlanError graph_error | RecomputeError 'e

text \<open>The loop over the plan; it returns the error, the callback's state and the graph.\<close>

fun exec_loop ::
  "(string \<Rightarrow> 's \<Rightarrow> 'e option \<times> 's) \<Rightarrow> string list \<Rightarrow> 's \<Rightarrow> 'p Graph \<Rightarrow> 'e option \<times> 's \<times> 'p Graph"
where
  "exec_loop rc [] s g = (None, s, g)"
| "exec_loop rc (i # is) s g =
     (case rc i s of
        (Some e, s') \<Rightarrow> (Some e, s', g)
      | (None, s') \<Rightarrow> exec_loop rc is s' (MarkClean g i))"

definition Execute ::
  "(string \<Rightarrow> 's \<Rightarrow> 'e option \<times> 's) \<Rightarrow> string list \<Rightarrow> 's \<Rightarrow> 'p Graph \<Rightarrow> 'e exec_error option \<times> 's \<times> 'p Graph"
where
  "Execute rc changed s g =
     (case Plan g changed of
        Inl e \<Rightarrow> (Some (PlanError e), s, g)
      | Inr plan \<Rightarrow>
          (case exec_loop rc plan s g of
             (Some e, s', g') \<Rightarrow> (Some (RecomputeError e), s', g')
           | (None, s', g') \<Rightarrow> (None, s', fold (\<lambda>i h. MarkClean h i) changed g')))"

subsection \<open>The graph with hooks\<close>

datatype 'p hook_event =
    NodeAdded "'p Node" | NodeRemoved string | NodeDirtied string | EdgeAdded Edge

record hook_set =
  hk_NodeAdded :: bool
  hk_NodeRemoved :: bool
  hk_NodeDirtied :: bool
  hk_EdgeAdded :: bool

text \<open>Each operation returns what the plain graph returns, and the notifications it sends.\<close>

definition ev_AddNode ::
  "hook_set \<Rightarrow> 'p Graph \<Rightarrow> 'p Node \<Rightarrow> (graph_error, 'p Graph) result \<times> 'p hook_event list" where
  "ev_AddNode hk g n =
     (case AddNode g n of
        Inl e \<Rightarrow> (Inl e, [])
      | Inr g' \<Rightarrow> (Inr g', if hk_NodeAdded hk then [NodeAdded n] else []))"

definition ev_RemoveNode :: "hook_set \<Rightarrow> 'p Graph \<Rightarrow> string \<Rightarrow> (bool \<times> 'p Graph) \<times> 'p hook_event list" where
  "ev_RemoveNode hk g i =
     (let r = RemoveNode g i in (r, if fst r \<and> hk_NodeRemoved hk then [NodeRemoved i] else []))"

definition ev_AddEdge ::
  "hook_set \<Rightarrow> 'p Graph \<Rightarrow> Edge \<Rightarrow> (graph_error, 'p Graph) result \<times> 'p hook_event list" where
  "ev_AddEdge hk g e =
     (case AddEdge g e of
        Inl x \<Rightarrow> (Inl x, [])
      | Inr g' \<Rightarrow> (Inr g', if hk_EdgeAdded hk then [EdgeAdded e] else []))"

definition ev_MarkClean :: "hook_set \<Rightarrow> 'p Graph \<Rightarrow> string \<Rightarrow> 'p Graph \<times> 'p hook_event list" where
  "ev_MarkClean hk g i = (MarkClean g i, if hk_NodeDirtied hk then [NodeDirtied i] else [])"

subsection \<open>The plan\<close>

text \<open>What a change of the given roots affects.\<close>

definition affected :: "'p Graph \<Rightarrow> string list \<Rightarrow> string set" where
  "affected g changed = {n. n \<notin> set changed \<and> (\<exists>c \<in> set changed. HasNode g c \<and> (c, n) \<in> (arcs g)\<^sup>+)}"

lemma filter_split:
  "filter P zs = xs @ v # ys \<Longrightarrow> \<exists>as bs. zs = as @ v # bs \<and> filter P as = xs"
proof (induction zs arbitrary: xs)
  case (Cons z zs)
  show ?case
  proof (cases "P z \<and> xs = []")
    case True
    then show ?thesis using Cons.prems by (intro exI[of _ "[]"] exI[of _ zs]) auto
  next
    case False
    then have "filter P zs = (if P z then tl xs else xs) @ v # ys"
      using Cons.prems by (cases xs) (auto split: if_splits)
    from Cons.IH[OF this] obtain as bs where "zs = as @ v # bs" "filter P as = (if P z then tl xs else xs)"
      by blast
    then show ?thesis using False Cons.prems
      by (intro exI[of _ "z # as"] exI[of _ bs]) (cases xs, auto split: if_splits)
  qed
qed simp

lemma Plan_wf:
  assumes "wf_graph g"
  shows "(case Plan g changed of
      Inl e \<Rightarrow> \<not> acyclic (arcs g)
    | Inr plan \<Rightarrow> acyclic (arcs g) \<and> distinct plan \<and> set plan = affected g changed
        \<and> (\<forall>xs v ys. plan = xs @ v # ys \<longrightarrow> (\<forall>u \<in> affected g changed. (u, v) \<in> arcs g \<longrightarrow> u \<in> set xs)))"
proof (cases "TopologicalSort g")
  case (Inl e)
  then show ?thesis using TopologicalSort_wf[OF assms] by (simp add: Plan_def Let_def)
next
  case (Inr order)
  then have t: "acyclic (arcs g)" "distinct order" "set order = node_ids g"
    "\<And>xs v ys u. order = xs @ v # ys \<Longrightarrow> (u, v) \<in> arcs g \<Longrightarrow> u \<in> set xs"
    using TopologicalSort_wf[OF assms] by (auto simp: is_topo_order_def)
  define P where "P = (\<lambda>i. i \<in> set (filter (HasNode g) changed @
      concat (map (TransitiveDependents g) (filter (HasNode g) changed))) \<and> i \<notin> set changed)"
  have pl: "Plan g changed = Inr (filter P order)" unfolding Plan_def Let_def Inr bindR_simps P_def ..
  have P: "P n \<longleftrightarrow> n \<in> affected g changed" for n
    by (auto simp: P_def affected_def TransitiveDependents_set reachable_from_def
        rtrancl_eq_or_trancl trancl_into_rtrancl)
  have "affected g changed \<subseteq> node_ids g"
    using arcs_nodes[OF wf_graphD(1)[OF assms]] by (auto simp: affected_def dest!: tranclD2)
  then have s: "set (filter P order) = affected g changed" using P t(3) by auto
  have "u \<in> set xs" if split: "filter P order = xs @ v # ys" "u \<in> affected g changed" "(u, v) \<in> arcs g" for xs v ys u
  proof -
    obtain as bs where o: "order = as @ v # bs" "filter P as = xs"
      using filter_split[OF split(1)] by blast
    then show ?thesis using t(4)[OF o(1) split(3)] P split(2) by auto
  qed
  then show ?thesis using pl t(1,2) s by simp
qed

text \<open>C10: the plan for a set of changed roots holds exactly the other nodes that depend on an existing
  root, each once and after those of its predecessors that are in the plan; it is refused exactly
  when the graph has a cycle.\<close>

theorem plan_correct:
  assumes "built g"
  shows "(case Plan g changed of
      Inl e \<Rightarrow> \<not> acyclic (arcs g)
    | Inr plan \<Rightarrow> acyclic (arcs g) \<and> distinct plan \<and> set plan = affected g changed
        \<and> (\<forall>xs v ys. plan = xs @ v # ys \<longrightarrow> (\<forall>u \<in> affected g changed. (u, v) \<in> arcs g \<longrightarrow> u \<in> set xs)))"
  by (rule Plan_wf[OF built_wf[OF assms]])

subsection \<open>Execution\<close>

text \<open>The graph after the nodes of \<open>S\<close> were marked clean.\<close>

definition cleaned :: "string set \<Rightarrow> 'p Graph \<Rightarrow> 'p Graph \<Rightarrow> bool" where
  "cleaned S g g' \<longleftrightarrow>
     (\<forall>i. map_of (gr_nodes g') i = (if i \<in> S
        then map_option (\<lambda>n. n\<lparr>nd_State := NodeStateClean\<rparr>) (map_of (gr_nodes g) i)
        else map_of (gr_nodes g) i))
     \<and> gr_edges g' = gr_edges g \<and> gr_outgoing g' = gr_outgoing g \<and> gr_incoming g' = gr_incoming g"

lemma cleaned_refl [simp]: "cleaned {} g g"
  by (simp add: cleaned_def)

lemma cleaned_step: "cleaned S g h \<Longrightarrow> cleaned (insert i S) g (MarkClean h i)"
  by (auto simp: cleaned_def keep option.map_comp o_def split: option.splits)

lemma cleaned_fold: "cleaned S g h \<Longrightarrow> cleaned (S \<union> set is) g (fold (\<lambda>i h. MarkClean h i) is h)"
proof (induction "is" arbitrary: S h)
  case (Cons i "is")
  from Cons.IH[OF cleaned_step[OF Cons.prems]] show ?case by simp
qed simp

text \<open>The loop stops at the first node whose recomputation fails, having cleaned the ones before.\<close>

lemma exec_loop_spec:
  assumes "cleaned S g0 g" "exec_loop rc is s g = (r, s', g')"
  shows "case r of
      None \<Rightarrow> s' = fold (\<lambda>i s. snd (rc i s)) is s \<and> cleaned (S \<union> set is) g0 g'
    | Some e \<Rightarrow> \<exists>p i q. is = p @ i # q \<and> s' = fold (\<lambda>i s. snd (rc i s)) (p @ [i]) s
        \<and> fst (rc i (fold (\<lambda>i s. snd (rc i s)) p s)) = Some e \<and> cleaned (S \<union> set p) g0 g'"
  using assms
proof (induction "is" arbitrary: S s g)
  case (Cons i "is")
  show ?case
  proof (cases "rc i s")
    case (Pair eo s1)
    show ?thesis
    proof (cases eo)
      case (Some e)
      then have "r = Some e" "s' = s1" "g' = g" using Cons.prems Pair by simp_all
      then have "\<exists>p j q. i # is = p @ j # q \<and> s' = fold (\<lambda>i s. snd (rc i s)) (p @ [j]) s
          \<and> fst (rc j (fold (\<lambda>i s. snd (rc i s)) p s)) = Some e \<and> cleaned (S \<union> set p) g0 g'"
        using Pair Some Cons.prems(1) by (intro exI[of _ "[]"] exI[of _ i] exI[of _ "is"]) simp
      then show ?thesis using \<open>r = Some e\<close> by simp
    next
      case None
      then have e: "exec_loop rc is s1 (MarkClean g i) = (r, s', g')" using Cons.prems(2) Pair by simp
      note I = Cons.IH[OF cleaned_step[OF Cons.prems(1)] e]
      show ?thesis
      proof (cases r)
        case None
        then show ?thesis using I Pair by simp
      next
        case (Some x)
        then obtain p j q where "is = p @ j # q" "s' = fold (\<lambda>i s. snd (rc i s)) (p @ [j]) s1"
          "fst (rc j (fold (\<lambda>i s. snd (rc i s)) p s1)) = Some x" "cleaned (insert i S \<union> set p) g0 g'"
          using I by auto
        then have "\<exists>p j q. i # is = p @ j # q \<and> s' = fold (\<lambda>i s. snd (rc i s)) (p @ [j]) s
            \<and> fst (rc j (fold (\<lambda>i s. snd (rc i s)) p s)) = Some x \<and> cleaned (S \<union> set p) g0 g'"
          using Pair by (intro exI[of _ "i # p"] exI[of _ j] exI[of _ q]) simp
        then show ?thesis using Some by simp
      qed
    qed
  qed
qed simp

text \<open>C11: executing a change recomputes the plan in order, each node once; on success exactly the
  nodes of the plan and the existing roots are clean and nothing else of the graph has changed;
  on an error of the callback exactly the nodes recomputed before the failing one are clean, and
  the roots keep their state.\<close>

theorem execute_correct:
  assumes "Execute rc changed s g = (r, s', g')"
  shows "case r of
      None \<Rightarrow> (\<exists>plan. Plan g changed = Inr plan \<and> s' = fold (\<lambda>i s. snd (rc i s)) plan s
        \<and> cleaned (set plan \<union> set changed) g g')
    | Some (RecomputeError e) \<Rightarrow> (\<exists>p i q. Plan g changed = Inr (p @ i # q)
        \<and> s' = fold (\<lambda>i s. snd (rc i s)) (p @ [i]) s
        \<and> fst (rc i (fold (\<lambda>i s. snd (rc i s)) p s)) = Some e \<and> cleaned (set p) g g')
    | Some (PlanError e) \<Rightarrow> Plan g changed = Inl e \<and> s' = s \<and> g' = g"
proof (cases "Plan g changed")
  case (Inl e)
  then show ?thesis using assms by (auto simp: Execute_def)
next
  case (Inr plan)
  obtain r1 s1 g1 where l: "exec_loop rc plan s g = (r1, s1, g1)" by (cases "exec_loop rc plan s g")
  note spec = exec_loop_spec[OF cleaned_refl l]
  show ?thesis
  proof (cases r1)
    case None
    then show ?thesis using assms Inr l spec cleaned_fold[of "set plan" g g1 changed]
      by (auto simp: Execute_def)
  next
    case (Some e)
    then have "r = Some (RecomputeError e)" "s' = s1" "g' = g1" using assms Inr l by (simp_all add: Execute_def)
    then show ?thesis using Some Inr spec by simp
  qed
qed

text \<open>Witnesses on the small graph: a change of a recomputes b.\<close>

lemma demo_plan: "Plan demo_graph [''a''] = Inr [''b'']"
  by code_simp

theorem plan_correct_witness: "affected demo_graph [''a''] = {''b''}"
  using plan_correct[OF demo_built, of "[''a'']"] demo_plan by simp

definition log_rc :: "string \<Rightarrow> string list \<Rightarrow> unit option \<times> string list" where
  "log_rc i s = (None, s @ [i])"

theorem execute_correct_witness:
  "\<exists>g'. Execute log_rc [''a''] [] demo_graph = (None, [''b''], g') \<and> cleaned {''a'', ''b''} demo_graph g'"
proof -
  obtain r s' g' where e: "Execute log_rc [''a''] [] demo_graph = (r, s', g')"
    by (cases "Execute log_rc [''a''] [] demo_graph")
  have r: "r = None" using e demo_plan by (auto simp: Execute_def log_rc_def)
  show ?thesis using execute_correct[OF e] r e demo_plan
    by (auto simp: log_rc_def insert_commute)
qed

text \<open>The hooks change nothing of what the graph does, and are told of successes only.\<close>

lemma hooks_transparent:
  "fst (ev_AddNode hk g n) = AddNode g n" "fst (ev_AddEdge hk g e) = AddEdge g e"
  "fst (ev_RemoveNode hk g i) = RemoveNode g i" "fst (ev_MarkClean hk g i) = MarkClean g i"
  "isl (AddNode g n) \<Longrightarrow> snd (ev_AddNode hk g n) = []" "isl (AddEdge g e) \<Longrightarrow> snd (ev_AddEdge hk g e) = []"
  by (auto simp: ev_AddNode_def ev_AddEdge_def ev_RemoveNode_def ev_MarkClean_def Let_def split: sum.splits)

end
