(* ===== verification/Money.thy ===== *)
theory Money
  imports Units "HOL-Library.Word" "HOL-Library.Signed_Division"
begin

text \<open>
  \<open>internal/domain/pricing/money.go\<close> and \<open>rate.go\<close>: money in minor units and percentage rates,
  both Go \<open>int64\<close>s: \<open>64 word\<close>s read as signed numbers, so sums and products wrap. Division is
  Go's, truncating towards zero.
\<close>

type_synonym Money = "64 word"
type_synonym Rate = "64 word"

record Currency =
  cu_Code :: string
  cu_Decimals :: int

datatype money_error =
    BadCurrencyCode string | BadPrecision string int | InvalidAmount f64 | NegativeAmount f64
  | AmountOverflow f64 | InvalidRate f64 | NegativeRate f64 | RateOverflow f64 | RateNegative

definition CurrencyRUB :: Currency where "CurrencyRUB = \<lparr>cu_Code = ''RUB'', cu_Decimals = 2\<rparr>"
definition CurrencyEUR :: Currency where "CurrencyEUR = \<lparr>cu_Code = ''EUR'', cu_Decimals = 2\<rparr>"
definition CurrencyUSD :: Currency where "CurrencyUSD = \<lparr>cu_Code = ''USD'', cu_Decimals = 2\<rparr>"

definition currency_Validate :: "Currency \<Rightarrow> (money_error, unit) result" where
  "currency_Validate c =
     guard_with (length (cu_Code c) \<noteq> 3) (BadCurrencyCode (cu_Code c))
     (guard_with (cu_Decimals c < 0 \<or> cu_Decimals c > 4) (BadPrecision (cu_Code c) (cu_Decimals c))
     (Inr ()))"

text \<open>\<open>math.Pow10\<close>, called only on validated currencies here.\<close>

definition currency_scale :: "Currency \<Rightarrow> f64" where
  "currency_scale c = (if 0 \<le> cu_Decimals c then fl (10 ^ nat (cu_Decimals c))
     else fl (1 / 10 ^ nat (- cu_Decimals c)))"

definition i64 :: "int \<Rightarrow> 64 word" where
  "i64 n = word_of_int n"

definition MaxInt64_float :: f64 where
  "MaxInt64_float = fl (9223372036854775807)"

definition FromMajor :: "Currency \<Rightarrow> f64 \<Rightarrow> (money_error, Money) result" where
  "FromMajor c v = bindR (currency_Validate c) (\<lambda>_.
     guard_with (isNaN v \<or> isInf v) (InvalidAmount v)
     (guard_with (v < 0) (NegativeAmount v)
     (let scaled = v * currency_scale c in
      guard_with (scaled > MaxInt64_float) (AmountOverflow v)
      (Inr (i64 (to_int64 (ffloor (scaled + Fin (1 / 2)))))))))"

definition money_Major :: "Money \<Rightarrow> Currency \<Rightarrow> f64" where
  "money_Major m c = of_int64 (sint m) / currency_scale c"

definition money_Add :: "Money \<Rightarrow> Money \<Rightarrow> Money" where "money_Add m n = m + n"
definition money_Sub :: "Money \<Rightarrow> Money \<Rightarrow> Money" where "money_Sub m n = m - n"

definition go_div :: "64 word \<Rightarrow> 64 word \<Rightarrow> 64 word" where
  "go_div a b = i64 (sint a sdiv sint b)"

definition rateScale :: "64 word" where "rateScale = 100000"

definition MulRate :: "Money \<Rightarrow> Rate \<Rightarrow> Money" where
  "MulRate m r =
     (let num = m * r in
      if sint num < 0 then - go_div (- num + go_div rateScale 2) rateScale
      else go_div (num + go_div rateScale 2) rateScale)"

definition NewRate :: "f64 \<Rightarrow> (money_error, Rate) result" where
  "NewRate percent =
     guard_with (isNaN percent \<or> isInf percent) (InvalidRate percent)
     (guard_with (percent < 0) (NegativeRate percent)
     (let scaled = percent * Fin 1000 in
      guard_with (scaled > MaxInt64_float) (RateOverflow percent)
      (Inr (i64 (to_int64 (ffloor (scaled + Fin (1 / 2))))))))"

text \<open>\<open>MustRate\<close> panics on an error: None.\<close>

definition MustRate :: "f64 \<Rightarrow> Rate option" where
  "MustRate percent = (case NewRate percent of Inl e \<Rightarrow> None | Inr r \<Rightarrow> Some r)"

definition rate_Percent :: "Rate \<Rightarrow> f64" where
  "rate_Percent r = of_int64 (sint r) / Fin 1000"

definition rate_Validate :: "Rate \<Rightarrow> (money_error, unit) result" where
  "rate_Validate r = guard_with (sint r < 0) RateNegative (Inr ())"

subsection \<open>Signed words\<close>

lemma sint_i64: "- (2 ^ 63) \<le> n \<Longrightarrow> n < 2 ^ 63 \<Longrightarrow> sint (i64 n) = n"
  unfolding i64_def by (simp add: sint_sbintrunc' signed_take_bit_int_eq_self)

lemma sint_range: "- (2 ^ 63) \<le> sint (w :: 64 word)" "sint (w :: 64 word) < 2 ^ 63"
  using sint_range_size[of w] by (simp_all add: word_size)

lemma i64_sint [simp]: "i64 (sint w) = w"
  by (simp add: i64_def)

lemma i64_arith: "i64 a + i64 b = i64 (a + b)" "i64 a - i64 b = i64 (a - b)" "i64 a * i64 b = i64 (a * b)"
  "- i64 a = i64 (- a)"
  by (simp_all add: i64_def)

lemma sint_add: "- (2 ^ 63) \<le> sint a + sint b \<Longrightarrow> sint a + sint b < 2 ^ 63 \<Longrightarrow>
    sint (a + b) = sint a + sint (b :: 64 word)"
  using sint_i64[of "sint a + sint b"] i64_arith(1)[of "sint a" "sint b"] by simp

lemma sint_sub: "- (2 ^ 63) \<le> sint a - sint b \<Longrightarrow> sint a - sint b < 2 ^ 63 \<Longrightarrow>
    sint (a - b) = sint a - sint (b :: 64 word)"
  using sint_i64[of "sint a - sint b"] i64_arith(2)[of "sint a" "sint b"] by simp

lemma sint_mult: "- (2 ^ 63) \<le> sint a * sint b \<Longrightarrow> sint a * sint b < 2 ^ 63 \<Longrightarrow>
    sint (a * b) = sint a * sint (b :: 64 word)"
  using sint_i64[of "sint a * sint b"] i64_arith(3)[of "sint a" "sint b"] by simp

lemma sint_uminus: "- (2 ^ 63) < sint a \<Longrightarrow> sint (- a) = - sint (a :: 64 word)"
  using sint_i64[of "- sint a"] i64_arith(4)[of "sint a"] sint_range[of a] by simp

lemma sint_rateScale: "sint rateScale = 100000" "go_div rateScale 2 = i64 50000"
  by (simp_all add: rateScale_def go_div_def)

subsection \<open>Rounding of a product\<close>

lemma sdiv_nonneg: "0 \<le> a \<Longrightarrow> 0 < b \<Longrightarrow> a sdiv b = a div (b :: int)"
  by (cases "a = 0") (simp_all add: signed_divide_int_def)

text \<open>Half up on the absolute value.\<close>

definition half_up :: "int \<Rightarrow> int" where
  "half_up n = (if 0 \<le> n then (n + 50000) div 100000 else - ((- n + 50000) div 100000))"

lemma MulRate_exact:
  assumes "\<bar>sint m * sint r\<bar> < 2 ^ 63 - 50000"
  shows "sint (MulRate m r) = half_up (sint m * sint r)"
proof -
  define p where "p = sint m * sint r"
  have mul: "sint (m * r) = p" using assms unfolding p_def by (intro sint_mult) auto
  have mr: "m * r = i64 p" using mul i64_sint by metis
  show ?thesis
  proof (cases "0 \<le> p")
    case True
    have "sint (m * r + go_div rateScale 2) = p + 50000"
      unfolding mr sint_rateScale i64_arith using assms True by (intro sint_i64) (auto simp: p_def[symmetric])
    then have "MulRate m r = i64 ((p + 50000) div 100000)"
      using True by (simp add: MulRate_def Let_def mul go_div_def[of _ rateScale] sint_rateScale(1) sdiv_nonneg)
    moreover have "(p + 50000) div 100000 < 2 ^ 63" "0 \<le> (p + 50000) div 100000"
      using assms True p_def by auto
    ultimately show ?thesis using True by (simp add: half_up_def p_def[symmetric] sint_i64)
  next
    case False
    have "sint (- (m * r) + go_div rateScale 2) = - p + 50000"
      unfolding mr sint_rateScale i64_arith using assms False by (intro sint_i64) (auto simp: p_def[symmetric])
    then have "MulRate m r = - i64 ((- p + 50000) div 100000)"
      using False by (simp add: MulRate_def Let_def mul go_div_def[of _ rateScale] sint_rateScale(1) sdiv_nonneg)
    then have "MulRate m r = i64 (- ((- p + 50000) div 100000))" by (simp add: i64_arith)
    moreover have "(- p + 50000) div 100000 < 2 ^ 63" "0 \<le> (- p + 50000) div 100000"
      using assms False p_def by auto
    ultimately show ?thesis using False by (simp add: half_up_def p_def[symmetric] sint_i64)
  qed
qed

lemma half_up_nonneg: "0 \<le> n \<Longrightarrow> 0 \<le> half_up n"
  by (simp add: half_up_def pos_imp_zdiv_nonneg_iff)

lemma half_up_le: assumes "0 \<le> a" "0 \<le> r" "r \<le> 100000" shows "half_up (a * r) \<le> a"
proof -
  have "a * r \<le> a * 100000" using assms by (intro mult_left_mono) auto
  then have "(a * r + 50000) div 100000 \<le> (a * 100000 + 50000) div 100000"
    by (intro zdiv_mono1) auto
  also have "\<dots> = a" by simp
  finally show ?thesis using assms by (simp add: half_up_def)
qed

lemma MulRate_small:
  assumes "0 \<le> sint m" "sint m \<le> 2 ^ 44" "0 \<le> sint r" "sint r \<le> 100000"
  shows "sint (MulRate m r) = half_up (sint m * sint r)"
    "0 \<le> half_up (sint m * sint r)" "half_up (sint m * sint r) \<le> sint m"
proof -
  have "sint m * sint r \<le> 2 ^ 44 * 100000" using assms by (intro mult_mono) auto
  then show "sint (MulRate m r) = half_up (sint m * sint r)"
    using assms by (intro MulRate_exact) (simp add: abs_mult)
  show "0 \<le> half_up (sint m * sint r)" using assms by (intro half_up_nonneg) simp
  show "half_up (sint m * sint r) \<le> sint m" using assms by (intro half_up_le)
qed

text \<open>While the product of amount and rate stays within int64, \<open>MulRate\<close> is the exact
  percentage rounded half up on its absolute value: it is off by at most half a minor unit, it is
  odd in the amount, and a rate of at most 100 percent never yields more than the amount.\<close>

theorem MulRate_half_up:
  assumes "\<bar>sint m * sint r\<bar> < 2 ^ 63 - 50000"
  shows "sint (MulRate m r) = half_up (sint m * sint r)
    \<and> \<bar>100000 * sint (MulRate m r) - sint m * sint r\<bar> \<le> 50000
    \<and> (0 \<le> sint m \<and> 0 \<le> sint r \<and> sint r \<le> 100000 \<longrightarrow>
         0 \<le> sint (MulRate m r) \<and> sint (MulRate m r) \<le> sint m)"
proof -
  note e = MulRate_exact[OF assms]
  have near: "\<bar>100000 * half_up p - p\<bar> \<le> 50000" for p
    by (auto simp: half_up_def abs_if minus_mult_div_eq_mod[symmetric] algebra_simps)
  show ?thesis using e near[of "sint m * sint r"] half_up_le[of "sint m" "sint r"]
      half_up_nonneg[of "sint m * sint r"] by simp
qed

theorem MulRate_half_up_witness: "sint (MulRate 1050 12345) = 130"
  using MulRate_half_up[of 1050 12345] by (simp add: half_up_def)

text \<open>Outside that range amounts turn wrong silently: 100 percent of 10^14 minor units is not
  10^14, and the overflow check of \<open>FromMajor\<close> lets the amount through that scales to exactly
  2^63, which becomes the negative amount -2^63.\<close>

theorem money_overflow:
  "MulRate (i64 (10 ^ 14)) (i64 100000) \<noteq> i64 (10 ^ 14)
   \<and> FromMajor CurrencyRUB (Fin 92233720368547760) = Inr (i64 (- (2 ^ 63)))"
  by (rule conjI; code_simp)

end
