(* ===== verification/Float_Order.thy ===== *)
theory Float_Order
  imports Units
begin

text \<open>
  Sums of non-negative floats as the geometry of the program compares them: the interface
  \<open>sum_order\<close> collects what a placement argument needs of the order and of the rounded sum (the
  sum is monotone in both arguments and absorbs nothing below its arguments), and
  \<open>float64\<close> provides it on the non-negative representable values.
\<close>

locale sum_order =
  fixes le :: "'a \<Rightarrow> 'a \<Rightarrow> bool" and lt :: "'a \<Rightarrow> 'a \<Rightarrow> bool" and add :: "'a \<Rightarrow> 'a \<Rightarrow> 'a" and nil :: 'a
    and ok :: "'a \<Rightarrow> bool"
  assumes ok_nil: "ok nil"
    and ok_add: "ok a \<Longrightarrow> ok b \<Longrightarrow> ok (add a b)"
    and le_refl: "ok a \<Longrightarrow> le a a"
    and le_trans: "le a b \<Longrightarrow> le b c \<Longrightarrow> le a c"
    and lt_iff: "ok a \<Longrightarrow> ok b \<Longrightarrow> lt a b \<longleftrightarrow> \<not> le b a"
    and le_total: "ok a \<Longrightarrow> ok b \<Longrightarrow> le a b \<or> le b a"
    and nil_le: "ok a \<Longrightarrow> le nil a"
    and nil_add: "ok a \<Longrightarrow> add nil a = a"
    and add_comm: "add a b = add b a"
    and add_left: "ok a \<Longrightarrow> ok b \<Longrightarrow> ok c \<Longrightarrow> le a b \<Longrightarrow> le (add a c) (add b c)"
begin

lemma add_mono: "ok a \<Longrightarrow> ok b \<Longrightarrow> ok c \<Longrightarrow> ok d \<Longrightarrow> le a b \<Longrightarrow> le c d \<Longrightarrow> le (add a c) (add b d)"
  using add_left[of a b c] add_left[of c d b] by (auto simp: add_comm intro: le_trans)

lemma add_right: "ok a \<Longrightarrow> ok b \<Longrightarrow> ok c \<Longrightarrow> le a b \<Longrightarrow> le (add c a) (add c b)"
  using add_left[of a b c] by (simp add: add_comm)

lemma add_nil: "ok a \<Longrightarrow> add a nil = a"
  using nil_add[of a] add_comm[of a nil] by simp

lemma le_add: "ok a \<Longrightarrow> ok b \<Longrightarrow> le a (add a b)"
  using add_right[of nil b a] by (simp add: ok_nil nil_le add_nil)

lemma le_add2: "ok a \<Longrightarrow> ok b \<Longrightarrow> le a (add b a)"
  using le_add by (simp add: add_comm)

lemma drop_summand: "ok a \<Longrightarrow> ok b \<Longrightarrow> ok c \<Longrightarrow> le (add a (add b c)) d \<Longrightarrow> le (add a b) d"
  by (rule le_trans[OF add_right[OF _ _ _ le_add]]) (auto intro: ok_add)

text \<open>The running maximum of the code: \<open>if x > m { m = x }\<close>.\<close>

lemma fold_max:
  assumes "ok m" "\<And>x. x \<in> set xs \<Longrightarrow> ok (f x)"
  shows "ok (fold (\<lambda>x m. if lt m (f x) then f x else m) xs m)
    \<and> le m (fold (\<lambda>x m. if lt m (f x) then f x else m) xs m)
    \<and> (\<forall>x \<in> set xs. le (f x) (fold (\<lambda>x m. if lt m (f x) then f x else m) xs m))"
  using assms
proof (induction xs arbitrary: m)
  case Nil then show ?case by (simp add: le_refl)
next
  case (Cons x xs)
  let ?m = "if lt m (f x) then f x else m"
  have m: "ok ?m" "le m ?m" "le (f x) ?m"
    using Cons.prems le_refl lt_iff[of m "f x"] le_total[of m "f x"] by auto
  then show ?case using Cons.IH[of ?m] Cons.prems by (auto intro: le_trans)
qed

end

text \<open>The carrier: non-negative values the format represents.\<close>

definition len_ok :: "f64 \<Rightarrow> bool" where
  "len_ok x \<longleftrightarrow> Fin 0 \<le> x \<and> is_rep x"

lemma len_ok_cases: "len_ok x \<Longrightarrow> (\<exists>q \<ge> 0. x = Fin q \<and> fl q = Fin q) \<or> x = Inf False"
  by (cases x) (auto simp: len_ok_def fl_of_rep)

lemma len_ok_Inf [simp]: "len_ok (Inf False)"
  by (simp add: len_ok_def is_rep_def)

lemma fl_ge_0: "0 \<le> q \<Longrightarrow> Fin 0 \<le> fl q"
  using fl_mono[of 0 q] by (simp add: fl_def)

lemma len_ok_fl: "0 \<le> q \<Longrightarrow> len_ok (fl q)"
  by (simp add: len_ok_def fl_ge_0)

lemma fl_numeral: "numeral k \<le> (2::int) ^ 53 \<Longrightarrow> fl (numeral k) = Fin (numeral k)"
  using of_int64_exact[of "numeral k"] by (simp add: of_int64_def)

lemma len_ok_numeral: "numeral k \<le> (2::int) ^ 53 \<Longrightarrow> len_ok (Fin (numeral k))"
  using fl_numeral[of k] by (metis is_rep_fl len_ok_def less_eq_f64.simps(1) zero_le_numeral)

lemma f64_add_comm: "a + b = b + (a :: f64)"
  by (cases a; cases b) (auto simp: add.commute)

lemma f64_trans: "a \<le> b \<Longrightarrow> b \<le> c \<Longrightarrow> a \<le> (c :: f64)"
  by (cases a; cases b; cases c) auto

lemma fl_le_Inf: "fl q \<le> Inf False"
  by (auto simp: fl_def Let_def)

interpretation flen: sum_order "(\<le>)" "(<)" "(+)" "Fin 0" len_ok
proof
  show "len_ok (Fin 0)" using len_ok_fl[of 0] by (simp add: fl_def)
  show "len_ok (a + b)" if "len_ok a" "len_ok b" for a b
    using len_ok_cases[OF that(1)] len_ok_cases[OF that(2)] by (auto simp: len_ok_fl)
  show "a \<le> a" if "len_ok a" for a using len_ok_cases[OF that] by auto
  show "a \<le> c" if "a \<le> b" "b \<le> c" for a b c :: f64 using that by (rule f64_trans)
  show "a < b \<longleftrightarrow> \<not> b \<le> a" if "len_ok a" "len_ok b" for a b
    using len_ok_cases[OF that(1)] len_ok_cases[OF that(2)] by auto
  show "a \<le> b \<or> b \<le> a" if "len_ok a" "len_ok b" for a b
    using len_ok_cases[OF that(1)] len_ok_cases[OF that(2)] by auto
  show "Fin 0 \<le> a" if "len_ok a" for a using that by (simp add: len_ok_def)
  show "Fin 0 + a = a" if "len_ok a" for a using len_ok_cases[OF that] by auto
  show "a + b = b + a" for a b :: f64 by (rule f64_add_comm)
  show "a + c \<le> b + c" if "len_ok a" "len_ok b" "len_ok c" "a \<le> b" for a b c
    using len_ok_cases[OF that(1)] len_ok_cases[OF that(2)] len_ok_cases[OF that(3)] that(4)
    by (auto intro!: fl_mono simp: fl_le_Inf)
qed

end
