(* ===== verification/Mfg_Data.thy ===== *)
theory Mfg_Data
  imports Float_Order
begin

text \<open>
  The part of \<open>internal/domain/manufacturing\<close> that pricing consumes: the operation plan
  (\<open>operations.go\<close>) and the production dataset (\<open>cost.go\<close>) with their validation.
  \<open>OperationType\<close>, \<open>MachineType\<close>, \<open>PartNumber\<close> and \<open>MaterialCode\<close> are Go
  strings; the plan of a dataset is a pointer, so an \<open>option\<close>.
\<close>

definition operation_types :: "string list" where
  "operation_types = [''cutting'', ''drilling'', ''milling'', ''turning'', ''grinding'', ''bending'',
     ''punching'', ''welding'', ''threading'', ''painting'', ''powder-coating'',
     ''galvanizing'', ''heat-treatment'', ''assembly'', ''finishing'', ''packaging'', ''custom'']"

definition OperationType_IsValid :: "string \<Rightarrow> bool" where
  "OperationType_IsValid t \<longleftrightarrow> t \<in> set operation_types"

definition machine_types :: "string list" where
  "machine_types = [''laser-cutter'', ''waterjet'', ''plasma-cutter'', ''band-saw'',
     ''cnc-mill'', ''cnc-lathe'', ''press-brake'', ''welding-station'',
     ''painting-booth'', ''assembly-station'', ''manual-workstation'']"

definition MachineType_IsValid :: "string \<Rightarrow> bool" where
  "MachineType_IsValid m \<longleftrightarrow> m \<in> set machine_types"

record Operation =
  op_ID :: int
  op_PartNumber :: string
  op_Type :: string
  op_Sequence :: int
  op_Machine :: string
  op_EstimatedTime :: f64
  op_OperatorRequired :: bool

record PartOperationPlan =
  pp_PartNumber :: string
  pp_Operations :: "Operation list"

type_synonym OperationPlan = "PartOperationPlan list"

datatype mfg_error =
    PlanHasNoParts | PlanPartNoNumber nat | PlanPartNoOperations string
  | OpBadID nat string | OpDuplicateID int | OpWrongPart int string string
  | OpBadSequence int string int nat | OpBadType int string string | OpBadMachine int string string
  | OpBadTime int string
  | NoConsumption | NoParts | BadOperationCount | NegativeFasteners | NoOperationPlan
  | PlanPartsMismatch nat int | PlanOpsMismatch nat int | MetricsInvalid | ProductionTimeMismatch
  | SheetAreaNotPositive | PartAreaExceedsSheet | RatiosOutOfRange
  | ConsumptionNoMaterial nat | ConsumptionInvalid string | ConsumptionAreaExceeds string
  | TotalsMismatch | WasteInconsistent

definition bad_metric :: "f64 \<Rightarrow> bool" where
  "bad_metric m \<longleftrightarrow> isNaN m \<or> isInf m \<or> m < 0"

text \<open>One operation: the body of the inner loop, \<open>seen\<close> the IDs met so far.\<close>

definition check_op :: "string \<Rightarrow> nat \<Rightarrow> int list \<Rightarrow> Operation \<Rightarrow> (mfg_error, unit) result" where
  "check_op pn j seen op =
     guard_with (op_ID op \<le> 0) (OpBadID j pn)
     (guard_with (op_ID op \<in> set seen) (OpDuplicateID (op_ID op))
     (guard_with (op_PartNumber op \<noteq> pn) (OpWrongPart (op_ID op) pn (op_PartNumber op))
     (guard_with (op_Sequence op \<noteq> int j + 1) (OpBadSequence (op_ID op) pn (op_Sequence op) (j + 1))
     (guard_with (\<not> OperationType_IsValid (op_Type op)) (OpBadType (op_ID op) pn (op_Type op))
     (guard_with (\<not> MachineType_IsValid (op_Machine op)) (OpBadMachine (op_ID op) pn (op_Machine op))
     (guard_with (bad_metric (op_EstimatedTime op)) (OpBadTime (op_ID op) pn)
     (Inr ())))))))"

fun check_ops :: "string \<Rightarrow> nat \<Rightarrow> int list \<Rightarrow> Operation list \<Rightarrow> (mfg_error, int list) result" where
  "check_ops pn j seen [] = Inr seen"
| "check_ops pn j seen (op # ops) =
     bindR (check_op pn j seen op) (\<lambda>_. check_ops pn (Suc j) (op_ID op # seen) ops)"

fun check_parts :: "nat \<Rightarrow> int list \<Rightarrow> PartOperationPlan list \<Rightarrow> (mfg_error, unit) result" where
  "check_parts i seen [] = Inr ()"
| "check_parts i seen (p # ps) =
     guard_with (pp_PartNumber p = []) (PlanPartNoNumber i)
     (guard_with (pp_Operations p = []) (PlanPartNoOperations (pp_PartNumber p))
     (bindR (check_ops (pp_PartNumber p) 0 seen (pp_Operations p))
       (\<lambda>seen'. check_parts (Suc i) seen' ps)))"

definition plan_Validate :: "OperationPlan \<Rightarrow> (mfg_error, unit) result" where
  "plan_Validate p = guard_with (p = []) PlanHasNoParts (check_parts 0 [] p)"

definition plan_ops :: "OperationPlan \<Rightarrow> Operation list" where
  "plan_ops p = concat (map pp_Operations p)"

definition TotalTime :: "OperationPlan option \<Rightarrow> f64" where
  "TotalTime p = (case p of None \<Rightarrow> 0 | Some ps \<Rightarrow>
     fold (\<lambda>part t. fold (\<lambda>op u. u + op_EstimatedTime op) (pp_Operations part) t) ps 0)"

text \<open>\<open>cost.go\<close>\<close>

record MaterialConsumption =
  mc_MaterialCode :: string
  mc_PartArea :: f64
  mc_WasteArea :: f64
  mc_SheetArea :: f64
  mc_Volume :: f64
  mc_Mass :: f64

record ManufacturingCostDataset =
  ds_MaterialConsumption :: "MaterialConsumption list"
  ds_PartCount :: int
  ds_OperationCount :: int
  ds_FastenerCount :: int
  ds_PartArea :: f64
  ds_WasteArea :: f64
  ds_SheetArea :: f64
  ds_WastePercent :: f64
  ds_Utilization :: f64
  ds_Volume :: f64
  ds_SurfaceArea :: f64
  ds_Mass :: f64
  ds_OperationPlan :: "OperationPlan option"
  ds_EstimatedMachineTime :: f64
  ds_EstimatedLaborTime :: f64
  ds_EstimatedProductionTime :: f64

definition precision_of :: "f64 \<Rightarrow> f64" where
  "precision_of v = (if feq v 0 then Precision else v * fl (1 / 1000000000))"

definition check_consumption :: "nat \<Rightarrow> MaterialConsumption \<Rightarrow> (mfg_error, unit) result" where
  "check_consumption i c =
     guard_with (mc_MaterialCode c = []) (ConsumptionNoMaterial i)
     (guard_with (list_ex bad_metric
          [mc_PartArea c, mc_WasteArea c, mc_SheetArea c, mc_Volume c, mc_Mass c])
        (ConsumptionInvalid (mc_MaterialCode c))
     (guard_with (mc_SheetArea c < mc_PartArea c - Precision) (ConsumptionAreaExceeds (mc_MaterialCode c))
     (Inr ())))"

definition fsum :: "('a \<Rightarrow> f64) \<Rightarrow> 'a list \<Rightarrow> f64" where
  "fsum f xs = fold (\<lambda>x s. s + f x) xs 0"

definition off :: "f64 \<Rightarrow> f64 \<Rightarrow> bool" where
  "off s t \<longleftrightarrow> \<bar>s - t\<bar> > precision_of s"

definition dataset_Validate :: "ManufacturingCostDataset \<Rightarrow> (mfg_error, unit) result" where
  "dataset_Validate d =
     guard_with (ds_MaterialConsumption d = []) NoConsumption
     (guard_with (ds_PartCount d \<le> 0) NoParts
     (guard_with (ds_OperationCount d \<le> 0) BadOperationCount
     (guard_with (ds_FastenerCount d < 0) NegativeFasteners
     (case ds_OperationPlan d of None \<Rightarrow> Inl NoOperationPlan | Some plan \<Rightarrow>
       bindR (plan_Validate plan) (\<lambda>_.
       guard_with (int (length plan) \<noteq> ds_PartCount d) (PlanPartsMismatch (length plan) (ds_PartCount d))
       (let planOps = fold (\<lambda>p n. n + length (pp_Operations p)) plan 0 in
       guard_with (int planOps \<noteq> ds_OperationCount d) (PlanOpsMismatch planOps (ds_OperationCount d))
       (guard_with (list_ex bad_metric [ds_PartArea d, ds_WasteArea d, ds_SheetArea d, ds_Volume d,
            ds_SurfaceArea d, ds_Mass d, ds_EstimatedMachineTime d, ds_EstimatedLaborTime d,
            ds_EstimatedProductionTime d]) MetricsInvalid
       (guard_with (\<bar>ds_EstimatedProductionTime d - (ds_EstimatedMachineTime d + ds_EstimatedLaborTime d)\<bar>
            > precision_of (ds_EstimatedProductionTime d)) ProductionTimeMismatch
       (guard_with (ds_SheetArea d \<le> 0) SheetAreaNotPositive
       (guard_with (ds_PartArea d > ds_SheetArea d + Precision) PartAreaExceedsSheet
       (guard_with (list_ex (\<lambda>v. isNaN v \<or> isInf v \<or> v < 0 \<or> v > fl (1 + 1 / 1000000))
            [ds_WastePercent d, ds_Utilization d]) RatiosOutOfRange
       (bindR (check_from 0 check_consumption (ds_MaterialConsumption d)) (\<lambda>_.
        let cs = ds_MaterialConsumption d in
        guard_with (off (fsum mc_PartArea cs) (ds_PartArea d)
            \<or> off (fsum mc_WasteArea cs) (ds_WasteArea d)
            \<or> off (fsum mc_SheetArea cs) (ds_SheetArea d)
            \<or> off (fsum mc_Volume cs) (ds_Volume d)
            \<or> off (fsum mc_Mass cs) (ds_Mass d)) TotalsMismatch
        (guard_with (\<bar>ds_WasteArea d - (ds_SheetArea d - ds_PartArea d)\<bar> > precision_of (ds_SheetArea d))
            WasteInconsistent
        (Inr ())))))))))))))))"

subsection \<open>What a validated plan is\<close>

definition op_wf :: "string \<Rightarrow> Operation \<Rightarrow> bool" where
  "op_wf pn op \<longleftrightarrow> 0 < op_ID op \<and> op_PartNumber op = pn \<and> OperationType_IsValid (op_Type op)
     \<and> MachineType_IsValid (op_Machine op) \<and> \<not> bad_metric (op_EstimatedTime op)"

definition route_wf :: "PartOperationPlan \<Rightarrow> bool" where
  "route_wf p \<longleftrightarrow> pp_PartNumber p \<noteq> [] \<and> pp_Operations p \<noteq> []
     \<and> map op_Sequence (pp_Operations p) = map int [1..<Suc (length (pp_Operations p))]
     \<and> list_all (op_wf (pp_PartNumber p)) (pp_Operations p)"

lemma check_op_Inr_iff:
  "check_op pn j seen op = Inr u \<longleftrightarrow> op_wf pn op \<and> op_ID op \<notin> set seen \<and> op_Sequence op = int j + 1"
  by (auto simp: check_op_def op_wf_def result_iffs)

lemma upt_int_Cons: "map int [Suc j..<Suc (j + length (x # xs))] = (int j + 1) # map int [Suc (Suc j)..<Suc (Suc j + length xs)]"
  by (subst upt_conv_Cons) auto

lemma check_ops_Inr_iff:
  "check_ops pn j seen ops = Inr s \<longleftrightarrow> s = rev (map op_ID ops) @ seen
     \<and> distinct (map op_ID ops) \<and> set (map op_ID ops) \<inter> set seen = {}
     \<and> map op_Sequence ops = map int [Suc j..<Suc (j + length ops)] \<and> list_all (op_wf pn) ops"
proof (induction ops arbitrary: j seen)
  case Nil then show ?case by auto
next
  case (Cons op ops)
  have "map op_Sequence (op # ops) = map int [Suc j..<Suc (j + length (op # ops))] \<longleftrightarrow>
      op_Sequence op = int j + 1 \<and> map op_Sequence ops = map int [Suc (Suc j)..<Suc (Suc j + length ops)]"
    unfolding upt_int_Cons by simp
  then show ?case unfolding check_ops.simps bindR_Inr_iff check_op_Inr_iff Cons by auto
qed

lemma plan_ops_simps [simp]: "plan_ops [] = []" "plan_ops (p # ps) = pp_Operations p @ plan_ops ps"
  by (simp_all add: plan_ops_def)

lemma check_parts_Inr_iff:
  "check_parts i seen ps = Inr u \<longleftrightarrow> list_all route_wf ps
     \<and> distinct (map op_ID (plan_ops ps)) \<and> set (map op_ID (plan_ops ps)) \<inter> set seen = {}"
proof (induction ps arbitrary: i seen)
  case Nil then show ?case by simp
next
  case (Cons p ps)
  show ?case unfolding check_parts.simps result_iffs Cons check_ops_Inr_iff
    by (auto simp: route_wf_def[of p] simp del: upt_Suc)
qed

text \<open>A plan passes validation exactly when it has parts, the operation IDs are distinct over the
  whole plan, and every route is non-empty, numbered 1, 2, ..., n in order, and made of
  well-formed operations of its own part.\<close>

theorem plan_validated:
  "plan_Validate plan = Inr () \<longleftrightarrow>
     plan \<noteq> [] \<and> distinct (map op_ID (plan_ops plan)) \<and> list_all route_wf plan"
  by (auto simp: plan_Validate_def result_iffs check_parts_Inr_iff)

subsection \<open>What a validated dataset gives\<close>

definition demo_dataset :: ManufacturingCostDataset where
  "demo_dataset = \<lparr>
     ds_MaterialConsumption = [\<lparr>mc_MaterialCode = ''STEEL-S235'', mc_PartArea = Fin 750, mc_WasteArea = Fin 250,
       mc_SheetArea = Fin 1000, mc_Volume = Fin 7500, mc_Mass = Fin 4\<rparr>],
     ds_PartCount = 1, ds_OperationCount = 1, ds_FastenerCount = 0,
     ds_PartArea = Fin 750, ds_WasteArea = Fin 250, ds_SheetArea = Fin 1000,
     ds_WastePercent = Fin (1 / 4), ds_Utilization = Fin (3 / 4),
     ds_Volume = Fin 7500, ds_SurfaceArea = Fin 1600, ds_Mass = Fin 4,
     ds_OperationPlan = Some [\<lparr>pp_PartNumber = ''P-1'', pp_Operations = [\<lparr>op_ID = 1,
       op_PartNumber = ''P-1'', op_Type = ''cutting'', op_Sequence = 1, op_Machine = ''laser-cutter'',
       op_EstimatedTime = Fin 30, op_OperatorRequired = False\<rparr>]\<rparr>],
     ds_EstimatedMachineTime = Fin 30, ds_EstimatedLaborTime = Fin 15, ds_EstimatedProductionTime = Fin 45\<rparr>"

lemma small_consts: "\<exists>r \<ge> 0. fl (1 / 1000000000) = Fin r" "\<exists>r \<ge> 0. Precision = Fin r"
  using fl_near(1)[of "1 / 1000000000" 0] rnd_nonneg[of "1 / 1000000000"]
    fl_near(1)[of "1 / 1000000" 0] rnd_nonneg[of "1 / 1000000"] by (simp_all add: Precision_def)

lemma precision_of_nonneg: assumes "0 \<le> q" shows "Fin 0 \<le> precision_of (Fin q)"
proof -
  obtain r p where "0 \<le> r" "fl (1 / 1000000000) = Fin r" "0 \<le> p" "Precision = Fin p"
    using small_consts by blast
  note p = this
  show ?thesis using assms p(1,3) unfolding precision_of_def zero_f64_def p(2,4)
    by (simp add: fl_ge_0)
qed

lemma off_same: assumes "0 \<le> q" shows "\<not> off (Fin q) (Fin q)"
  using precision_of_nonneg[OF assms]
  by (cases "precision_of (Fin q)") (auto simp: off_def minus_f64_def fl_def)

lemma fl_not_above: "fl b = Fin b \<Longrightarrow> a \<le> b \<Longrightarrow> \<not> Fin b < fl a"
  using fl_mono[of a b] by (cases "fl a") auto

lemma fl_not_below: "fl a = Fin a \<Longrightarrow> a \<le> b \<Longrightarrow> c \<le> a \<Longrightarrow> \<not> fl b < Fin c"
  using fl_mono[of a b] by (cases "fl b") auto

lemma demo_plan_valid: "plan_Validate (the (ds_OperationPlan demo_dataset)) = Inr ()"
  by code_simp

lemma demo_dataset_valid: "dataset_Validate demo_dataset = Inr ()"
proof -
  obtain p where p: "Precision = Fin p" "0 \<le> p" using small_consts by auto
  have one: "fl 1 = Fin 1" using of_int64_exact[of 1] by (simp add: of_int64_def)
  have r: "\<not> fl (1 + 1 / 1000000) < Fin (1 / 4)" "\<not> fl (1 + 1 / 1000000) < Fin (3 / 4)"
    by (rule fl_not_below[OF one]; simp)+
  have s: "\<not> Fin 1000 < fl (750 - p)" "\<not> fl (1000 + p) < Fin 750"
    using p fl_not_above[of 1000 "750 - p"] fl_not_below[of 1000 "1000 + p" 750] fl_numeral[of "num.Bit0 (num.Bit0 (num.Bit0 (num.Bit1 (num.Bit0 (num.Bit1 (num.Bit1 (num.Bit1 (num.Bit1 num.One))))))))"]
    by auto
  have t: "\<not> \<bar>Fin q - Fin q\<bar> > precision_of (Fin k)" if "0 \<le> k" for q k
    using precision_of_nonneg[OF that]
    by (cases "precision_of (Fin k)") (auto simp: minus_f64_def fl_def)
  note e = fl_numeral zero_f64_def p
  have "check_from 0 check_consumption (ds_MaterialConsumption demo_dataset) = Inr ()"
    using s by (simp add: demo_dataset_def check_consumption_def bad_metric_def e minus_f64_def)
  moreover have "fsum f [c] = 0 + f c" for f and c :: MaterialConsumption by (simp add: fsum_def)
  moreover have "Fin 1000 - Fin 750 = (Fin 250 :: f64)" by (simp add: minus_f64_def e)
  ultimately show ?thesis using demo_plan_valid r s t off_same
    by (simp add: demo_dataset_def dataset_Validate_def bad_metric_def e Let_def)
qed

lemma plan_count: "fold (\<lambda>p n. n + length (pp_Operations p)) plan k = k + length (plan_ops plan)"
  by (induction plan arbitrary: k) auto

lemma not_bad_metric: "\<not> bad_metric m \<longleftrightarrow> (\<exists>q \<ge> 0. m = Fin q)"
  by (cases m) (auto simp: bad_metric_def zero_f64_def)

lemma dataset_times:
  "dataset_Validate d = Inr u \<Longrightarrow> \<not> bad_metric (ds_EstimatedMachineTime d) \<and> \<not> bad_metric (ds_EstimatedLaborTime d)"
  by (auto simp: dataset_Validate_def result_iffs Let_def split: option.splits)

text \<open>A dataset that passes carries a valid plan whose part and operation counts are the
  dataset's, its metrics are finite and non-negative, and no consumption has a part area above its
  sheet area (up to the tolerance).\<close>

theorem dataset_validated:
  assumes "dataset_Validate d = Inr ()"
  shows "\<exists>plan. ds_OperationPlan d = Some plan \<and> plan_Validate plan = Inr ()
     \<and> ds_PartCount d = int (length plan) \<and> ds_OperationCount d = int (length (plan_ops plan))
     \<and> 0 < ds_OperationCount d \<and> ds_MaterialConsumption d \<noteq> []
     \<and> \<not> bad_metric (ds_EstimatedMachineTime d) \<and> \<not> bad_metric (ds_EstimatedLaborTime d)
     \<and> list_all (\<lambda>c. \<not> bad_metric (mc_Mass c) \<and> \<not> mc_SheetArea c < mc_PartArea c - Precision)
         (ds_MaterialConsumption d)"
  using assms
  by (auto simp: dataset_Validate_def result_iffs Let_def plan_count check_from_Inr_iff
      check_consumption_def list_all_length split: option.splits)

theorem dataset_validated_witness:
  "0 < ds_OperationCount demo_dataset \<and> ds_PartCount demo_dataset = 1"
  using dataset_validated[OF demo_dataset_valid] by (simp add: demo_dataset_def)

end
