(* ===== verification/Pricing.thy ===== *)
theory Pricing
  imports Money Mfg_Data Go_Fmt
begin

text \<open>
  \<open>internal/domain/pricing/pricing.go\<close> (the price breakdown and its validation) and
  \<open>internal/engine/pricing/pricing.go\<close> (\<open>Price\<close>). The map of category sums is an association
  list in the order of first occurrence; Go's iteration order decides only which of several
  mismatching categories an error names, so that error carries no category.
\<close>

definition CategoryMaterial :: string where "CategoryMaterial = ''material''"
definition CategoryMachine :: string where "CategoryMachine = ''machine''"
definition CategoryLabor :: string where "CategoryLabor = ''labor''"
definition CategoryOverhead :: string where "CategoryOverhead = ''overhead''"
definition CategoryMargin :: string where "CategoryMargin = ''margin''"
definition CategoryDiscount :: string where "CategoryDiscount = ''discount''"
definition CategoryTax :: string where "CategoryTax = ''tax''"

lemmas category_defs = CategoryMaterial_def CategoryMachine_def CategoryLabor_def CategoryOverhead_def
  CategoryMargin_def CategoryDiscount_def CategoryTax_def

definition CostCategory_IsValid :: "string \<Rightarrow> bool" where
  "CostCategory_IsValid c \<longleftrightarrow> c \<in> set [CategoryMaterial, CategoryMachine, CategoryLabor, CategoryOverhead,
     CategoryMargin, CategoryDiscount, CategoryTax]"

record CostComponent =
  cc_Name :: string
  cc_Category :: string
  cc_Amount :: Money
  cc_Source :: string

record PriceBreakdown =
  pb_Currency :: Currency
  pb_Material :: Money
  pb_Machine :: Money
  pb_Labor :: Money
  pb_Overhead :: Money
  pb_ProductionCost :: Money
  pb_Margin :: Money
  pb_Discount :: Money
  pb_PreTax :: Money
  pb_Tax :: Money
  pb_FinalPrice :: Money
  pb_Lines :: "CostComponent list"

datatype pricing_error =
    PE_Money money_error | NegativeAmountInBreakdown | ProductionCostMismatch | PreTaxMismatch
  | FinalPriceMismatch | NoCostLines | LineNoName nat | LineBadCategory nat string | LineNoSource nat
  | LineNegative nat | LinesTotalMismatch
  | NoMaterialPrices | NegativeMaterialPrice | NegativeHourlyRate
  | PE_Dataset mfg_error | NoDataset | NoPriceForMaterial string | NoPartArea string

definition liftM :: "(money_error, 'a) result \<Rightarrow> (pricing_error, 'a) result" where
  "liftM r = (case r of Inl e \<Rightarrow> Inl (PE_Money e) | Inr a \<Rightarrow> Inr a)"

definition neg :: "Money \<Rightarrow> bool" where
  "neg m \<longleftrightarrow> sint m < 0"

definition sum_of :: "(string \<times> Money) list \<Rightarrow> string \<Rightarrow> Money" where
  "sum_of tots c = (case map_of tots c of None \<Rightarrow> 0 | Some m \<Rightarrow> m)"

definition check_line :: "nat \<Rightarrow> CostComponent \<Rightarrow> (pricing_error, unit) result" where
  "check_line i l =
     guard_with (cc_Name l = []) (LineNoName i)
     (guard_with (\<not> CostCategory_IsValid (cc_Category l)) (LineBadCategory i (cc_Category l))
     (guard_with (cc_Source l = []) (LineNoSource i)
     (guard_with (neg (cc_Amount l)) (LineNegative i)
     (Inr ()))))"

fun sum_lines :: "nat \<Rightarrow> (string \<times> Money) list \<Rightarrow> CostComponent list
    \<Rightarrow> (pricing_error, (string \<times> Money) list) result" where
  "sum_lines i tots [] = Inr tots"
| "sum_lines i tots (l # ls) = bindR (check_line i l) (\<lambda>_.
     sum_lines (Suc i) (mput (cc_Category l) (money_Add (sum_of tots (cc_Category l)) (cc_Amount l)) tots) ls)"

definition want_totals :: "PriceBreakdown \<Rightarrow> (string \<times> Money) list" where
  "want_totals b = [(CategoryMaterial, pb_Material b), (CategoryMachine, pb_Machine b),
     (CategoryLabor, pb_Labor b), (CategoryOverhead, pb_Overhead b), (CategoryMargin, pb_Margin b),
     (CategoryDiscount, pb_Discount b), (CategoryTax, pb_Tax b)]"

definition breakdown_Validate :: "PriceBreakdown \<Rightarrow> (pricing_error, unit) result" where
  "breakdown_Validate b =
     bindR (liftM (currency_Validate (pb_Currency b))) (\<lambda>_.
     guard_with (list_ex neg [pb_Material b, pb_Machine b, pb_Labor b, pb_Overhead b, pb_ProductionCost b,
          pb_Margin b, pb_Discount b, pb_PreTax b, pb_Tax b, pb_FinalPrice b]) NegativeAmountInBreakdown
     (let base = money_Add (money_Add (pb_Material b) (pb_Machine b)) (pb_Labor b) in
      guard_with (pb_ProductionCost b \<noteq> money_Add base (pb_Overhead b)) ProductionCostMismatch
     (let gross = money_Add (pb_ProductionCost b) (pb_Margin b) in
      guard_with (pb_PreTax b \<noteq> money_Sub gross (pb_Discount b)) PreTaxMismatch
     (guard_with (pb_FinalPrice b \<noteq> money_Add (pb_PreTax b) (pb_Tax b)) FinalPriceMismatch
     (guard_with (pb_Lines b = []) NoCostLines
     (bindR (sum_lines 0 [] (pb_Lines b)) (\<lambda>tots.
      guard_with (list_ex (\<lambda>(c, s). sum_of (want_totals b) c \<noteq> s) tots) LinesTotalMismatch
      (Inr ()))))))))"

text \<open>\<open>internal/engine/pricing/pricing.go\<close>\<close>

record Rates =
  rt_Currency :: Currency
  rt_Material :: "(string \<times> Money) list"
  rt_MachinePerHour :: Money
  rt_LaborPerHour :: Money
  rt_OverheadPercent :: Rate
  rt_MarginPercent :: Rate
  rt_DiscountPercent :: Rate
  rt_TaxPercent :: Rate

definition rates_Validate :: "Rates \<Rightarrow> (pricing_error, unit) result" where
  "rates_Validate r =
     bindR (liftM (currency_Validate (rt_Currency r))) (\<lambda>_.
     guard_with (rt_Material r = []) NoMaterialPrices
     (guard_with (list_ex (\<lambda>(code, price). neg price) (rt_Material r)) NegativeMaterialPrice
     (guard_with (neg (rt_MachinePerHour r) \<or> neg (rt_LaborPerHour r)) NegativeHourlyRate
     (check_all (\<lambda>rate. liftM (rate_Validate rate))
        [rt_OverheadPercent r, rt_MarginPercent r, rt_DiscountPercent r, rt_TaxPercent r]))))"

definition DefaultRates :: "Rates option" where
  "DefaultRates = (case (MustRate (Fin 20), MustRate (Fin 30), MustRate (Fin 5), MustRate (Fin 20)) of
     (Some ov, Some mg, Some dc, Some tx) \<Rightarrow> Some \<lparr>
       rt_Currency = CurrencyRUB,
       rt_Material = [(''STEEL-S235'', 10000), (''ALUM-5083'', 50000), (''WOOD-OAK'', 8000)],
       rt_MachinePerHour = 800000, rt_LaborPerHour = 300000,
       rt_OverheadPercent = ov, rt_MarginPercent = mg, rt_DiscountPercent = dc, rt_TaxPercent = tx\<rparr>
   | _ \<Rightarrow> None)"

definition moneyFromQuantity :: "f64 \<Rightarrow> Money \<Rightarrow> Money" where
  "moneyFromQuantity quantity unitPrice =
     (if quantity \<le> 0 \<or> isNaN quantity \<or> isInf quantity then 0
      else i64 (to_int64 (ffloor (quantity * of_int64 (sint unitPrice) + Fin (1 / 2)))))"

definition moneyFromMinutes :: "f64 \<Rightarrow> Money \<Rightarrow> Money" where
  "moneyFromMinutes minutes perHour =
     (if minutes \<le> 0 \<or> isNaN minutes \<or> isInf minutes then 0
      else i64 (to_int64 (ffloor (minutes * of_int64 (sint perHour) / Fin 60 + Fin (1 / 2)))))"

definition line :: "string \<Rightarrow> string \<Rightarrow> Money \<Rightarrow> string \<Rightarrow> CostComponent" where
  "line nm cat amount src = \<lparr>cc_Name = nm, cc_Category = cat, cc_Amount = amount, cc_Source = src\<rparr>"

text \<open>The loop over the consumption: the material total and its lines.\<close>

fun price_materials :: "(string \<times> Money) list \<Rightarrow> MaterialConsumption list \<Rightarrow> Money \<Rightarrow> CostComponent list
    \<Rightarrow> (pricing_error, Money \<times> CostComponent list) result" where
  "price_materials prices [] acc ls = Inr (acc, ls)"
| "price_materials prices (c # cs) acc ls =
     (case map_of prices (mc_MaterialCode c) of
        None \<Rightarrow> Inl (NoPriceForMaterial (mc_MaterialCode c))
      | Some price \<Rightarrow>
        guard_with (mc_PartArea c \<le> 0) (NoPartArea (mc_MaterialCode c))
        (let sheetMass = mc_Mass c * (mc_SheetArea c / mc_PartArea c);
             amount = moneyFromQuantity sheetMass price in
         price_materials prices cs (money_Add acc amount)
           (ls @ [line (''Material '' @ mc_MaterialCode c) CategoryMaterial amount
                    (''material:'' @ mc_MaterialCode c)])))"

text \<open>The cost chain shared by \<open>Price\<close> and \<open>CalculateBreakdown\<close>.\<close>

definition price_chain :: "Currency \<Rightarrow> Money \<Rightarrow> Money \<Rightarrow> Money \<Rightarrow> Rate \<Rightarrow> Rate \<Rightarrow> Rate \<Rightarrow> Rate \<Rightarrow> PriceBreakdown" where
  "price_chain cur material machine labor ov mg dc tx =
     (let base = money_Add (money_Add material machine) labor;
          overhead = MulRate base ov;
          production = money_Add base overhead;
          margin = MulRate production mg;
          gross = money_Add production margin;
          discount = MulRate gross dc;
          preTax = money_Sub gross discount;
          tax = MulRate preTax tx in
      \<lparr>pb_Currency = cur, pb_Material = material, pb_Machine = machine, pb_Labor = labor,
       pb_Overhead = overhead, pb_ProductionCost = production, pb_Margin = margin, pb_Discount = discount,
       pb_PreTax = preTax, pb_Tax = tax, pb_FinalPrice = money_Add preTax tax, pb_Lines = []\<rparr>)"

definition Price :: "ManufacturingCostDataset option \<Rightarrow> Rates \<Rightarrow> (pricing_error, PriceBreakdown) result" where
  "Price dso rates = (case dso of None \<Rightarrow> Inl NoDataset | Some ds \<Rightarrow>
     bindR (case dataset_Validate ds of Inl e \<Rightarrow> Inl (PE_Dataset e) | Inr u \<Rightarrow> Inr u) (\<lambda>_.
     bindR (rates_Validate rates) (\<lambda>_.
     bindR (price_materials (rt_Material rates) (ds_MaterialConsumption ds) 0 []) (\<lambda>(material, ls).
     let machine = moneyFromMinutes (ds_EstimatedMachineTime ds) (rt_MachinePerHour rates);
         labor = moneyFromMinutes (ds_EstimatedLaborTime ds) (rt_LaborPerHour rates);
         b = price_chain (rt_Currency rates) material machine labor (rt_OverheadPercent rates)
               (rt_MarginPercent rates) (rt_DiscountPercent rates) (rt_TaxPercent rates);
         b' = b\<lparr>pb_Lines := ls @ [
           line ''Machine time'' CategoryMachine machine ''machine:laser-cutting'',
           line ''Labor time'' CategoryLabor labor ''labor:manual-finishing'',
           line ''Overhead'' CategoryOverhead (pb_Overhead b) ''overhead:rate'',
           line ''Margin'' CategoryMargin (pb_Margin b) ''margin:rate'',
           line ''Discount'' CategoryDiscount (pb_Discount b) ''discount:rate'',
           line ''Tax'' CategoryTax (pb_Tax b) ''tax:rate'']\<rparr> in
     bindR (breakdown_Validate b') (\<lambda>_. Inr b')))))"

subsection \<open>The category sums\<close>

definition lines_total :: "string \<Rightarrow> CostComponent list \<Rightarrow> Money" where
  "lines_total c ls = sum_list (map cc_Amount (filter (\<lambda>l. cc_Category l = c) ls))"

definition line_wf :: "CostComponent \<Rightarrow> bool" where
  "line_wf l \<longleftrightarrow> cc_Name l \<noteq> [] \<and> CostCategory_IsValid (cc_Category l) \<and> cc_Source l \<noteq> []
     \<and> 0 \<le> sint (cc_Amount l)"

lemma lines_total_simps [simp]:
  "lines_total c [] = 0"
  "lines_total c (l # ls) = (if cc_Category l = c then cc_Amount l + lines_total c ls else lines_total c ls)"
  "lines_total c (ls @ ks) = lines_total c ls + lines_total c ks"
  by (simp_all add: lines_total_def)

lemma lines_total_absent: "c \<notin> cc_Category ` set ls \<Longrightarrow> lines_total c ls = 0"
  by (induction ls) auto

lemma check_line_Inr_iff: "check_line i l = Inr u \<longleftrightarrow> line_wf l"
  by (auto simp: check_line_def line_wf_def neg_def result_iffs)

lemma sum_of_mput: "sum_of (mput k v m) c = (if c = k then v else sum_of m c)"
  by (simp add: sum_of_def)

lemma sum_lines_Inr:
  assumes "sum_lines i m ls = Inr s" "is_map m"
  shows "is_map s \<and> list_all line_wf ls \<and>
    map_of s = (\<lambda>c. if c \<in> cc_Category ` set ls then Some (sum_of m c + lines_total c ls) else map_of m c)"
  using assms
proof (induction ls arbitrary: i m)
  case (Cons l ls)
  let ?m = "mput (cc_Category l) (money_Add (sum_of m (cc_Category l)) (cc_Amount l)) m"
  have "line_wf l" "sum_lines (Suc i) ?m ls = Inr s"
    using Cons.prems(1) by (auto simp: bindR_Inr_iff check_line_Inr_iff)
  moreover have "is_map ?m" using Cons.prems(2) by simp
  ultimately show ?case using Cons.IH[of "Suc i" ?m]
    by (auto simp: fun_eq_iff sum_of_mput money_Add_def lines_total_absent)
qed simp

lemma sum_lines_total: "list_all line_wf ls \<Longrightarrow> \<exists>s. sum_lines i m ls = Inr s"
  by (induction ls arbitrary: i m) (auto simp: bindR_Inr_iff check_line_Inr_iff)

lemma not_neg: "\<not> neg m \<longleftrightarrow> 0 \<le> sint m"
  by (auto simp: neg_def)

lemma liftM_Inr_iff: "liftM r = Inr a \<longleftrightarrow> r = Inr a"
  by (auto simp: liftM_def split: sum.splits)

definition breakdown_amounts :: "PriceBreakdown \<Rightarrow> Money list" where
  "breakdown_amounts b = [pb_Material b, pb_Machine b, pb_Labor b, pb_Overhead b, pb_ProductionCost b,
     pb_Margin b, pb_Discount b, pb_PreTax b, pb_Tax b, pb_FinalPrice b]"

text \<open>A price breakdown passes validation exactly when its currency is valid, no amount is
  negative, the chain of sums is right, it has well-formed lines, and for every category that has a
  line the amounts of its lines add up to the category's total.\<close>

theorem breakdown_validated:
  "breakdown_Validate b = Inr () \<longleftrightarrow>
     currency_Validate (pb_Currency b) = Inr () \<and> list_all (\<lambda>m. 0 \<le> sint m) (breakdown_amounts b)
     \<and> pb_ProductionCost b = pb_Material b + pb_Machine b + pb_Labor b + pb_Overhead b
     \<and> pb_PreTax b = pb_ProductionCost b + pb_Margin b - pb_Discount b
     \<and> pb_FinalPrice b = pb_PreTax b + pb_Tax b
     \<and> pb_Lines b \<noteq> [] \<and> list_all line_wf (pb_Lines b)
     \<and> list_all (\<lambda>l. lines_total (cc_Category l) (pb_Lines b) = sum_of (want_totals b) (cc_Category l)) (pb_Lines b)"
proof -
  have tots: "(\<exists>s. sum_lines 0 [] (pb_Lines b) = Inr s
        \<and> \<not> list_ex (\<lambda>(c, s). sum_of (want_totals b) c \<noteq> s) s) \<longleftrightarrow>
      list_all line_wf (pb_Lines b) \<and>
      list_all (\<lambda>l. lines_total (cc_Category l) (pb_Lines b) = sum_of (want_totals b) (cc_Category l)) (pb_Lines b)"
    (is "?L \<longleftrightarrow> ?R")
  proof -
    have 1: "list_all line_wf (pb_Lines b) \<and> (\<not> list_ex (\<lambda>(c, s). sum_of (want_totals b) c \<noteq> s) s \<longleftrightarrow>
        list_all (\<lambda>l. lines_total (cc_Category l) (pb_Lines b) = sum_of (want_totals b) (cc_Category l)) (pb_Lines b))"
      if "sum_lines 0 [] (pb_Lines b) = Inr s" for s
    proof -
      note f = sum_lines_Inr[OF that is_map_Nil]
      then have "(c, v) \<in> set s \<longleftrightarrow> c \<in> cc_Category ` set (pb_Lines b) \<and> v = lines_total c (pb_Lines b)" for c v
        by (auto simp: is_map_in_set sum_of_def split: if_splits)
      then have "(\<exists>(c, v) \<in> set s. sum_of (want_totals b) c \<noteq> v) \<longleftrightarrow>
          (\<exists>c \<in> cc_Category ` set (pb_Lines b). sum_of (want_totals b) c \<noteq> lines_total c (pb_Lines b))"
        unfolding Bex_def split_paired_Ex by auto
      then show ?thesis using f unfolding list_ex_iff list_all_iff by fastforce
    qed
    then show ?thesis using sum_lines_total[of "pb_Lines b" 0 "[]"] by blast
  qed
  show ?thesis
    unfolding breakdown_Validate_def Let_def result_iffs liftM_Inr_iff using tots
    by (auto simp: money_Add_def money_Sub_def not_neg breakdown_amounts_def)
qed

text \<open>The validation does not compare a category that has no line: a breakdown whose whole
  price is a material total passes although no line accounts for any material.\<close>

theorem breakdown_total_without_lines:
  "\<exists>b. breakdown_Validate b = Inr () \<and> sint (pb_Material b) = 100
     \<and> pb_FinalPrice b = pb_Material b \<and> lines_total CategoryMaterial (pb_Lines b) = 0"
proof -
  let ?b = "\<lparr>pb_Currency = CurrencyRUB, pb_Material = 100, pb_Machine = 0, pb_Labor = 0, pb_Overhead = 0,
    pb_ProductionCost = 100, pb_Margin = 0, pb_Discount = 0, pb_PreTax = 100, pb_Tax = 0, pb_FinalPrice = 100,
    pb_Lines = [line ''Tax'' CategoryTax 0 ''tax:rate'']\<rparr>"
  have "breakdown_Validate ?b = Inr ()" "sint (pb_Material ?b) = 100"
    "lines_total CategoryMaterial (pb_Lines ?b) = 0" by code_simp+
  then show ?thesis by (intro exI[of _ ?b]) simp
qed

subsection \<open>The price of a dataset\<close>

text \<open>The chain in unbounded integers: the specification of the final price.\<close>

definition exact_price :: "int \<Rightarrow> int \<Rightarrow> int \<Rightarrow> int \<Rightarrow> int \<Rightarrow> int" where
  "exact_price base ov mg dc tx =
     (let production = base + half_up (base * ov);
          gross = production + half_up (production * mg);
          preTax = gross - half_up (gross * dc) in
      preTax + half_up (preTax * tx))"

definition percent :: "Rate \<Rightarrow> bool" where
  "percent r \<longleftrightarrow> 0 \<le> sint r \<and> sint r \<le> 100000"

lemma price_chain_exact:
  fixes cur :: Currency
  assumes n: "0 \<le> sint mat" "0 \<le> sint mach" "0 \<le> sint lab" "sint mat + sint mach + sint lab \<le> 2 ^ 40"
    and r: "percent ov" "percent mg" "percent dc" "percent tx"
  defines "b \<equiv> price_chain cur mat mach lab ov mg dc tx"
  shows "list_all (\<lambda>m. 0 \<le> sint m) (breakdown_amounts b)"
    and "sint (pb_FinalPrice b) = exact_price (sint mat + sint mach + sint lab) (sint ov) (sint mg) (sint dc) (sint tx)"
proof -
  define B where "B = sint mat + sint mach + sint lab"
  have base: "sint (mat + mach + lab) = B" using n by (simp add: B_def sint_add)
  have B: "0 \<le> B" "B \<le> 2 ^ 40" using n by (auto simp: B_def)
  note rr = r[unfolded percent_def]
  have O: "sint (pb_Overhead b) = half_up (B * sint ov)" "0 \<le> sint (pb_Overhead b)" "sint (pb_Overhead b) \<le> B"
    using MulRate_small[of "mat + mach + lab" ov] rr B base
    by (auto simp: b_def price_chain_def Let_def money_Add_def)
  have P: "sint (pb_ProductionCost b) = B + sint (pb_Overhead b)"
    using sint_add[of "mat + mach + lab" "pb_Overhead b"] O B base
    by (simp add: b_def price_chain_def Let_def money_Add_def)
  have M: "sint (pb_Margin b) = half_up (sint (pb_ProductionCost b) * sint mg)" "0 \<le> sint (pb_Margin b)"
      "sint (pb_Margin b) \<le> sint (pb_ProductionCost b)"
    using MulRate_small[of "pb_ProductionCost b" mg] rr B O P
    by (auto simp: b_def price_chain_def Let_def money_Add_def)
  define G where "G = pb_ProductionCost b + pb_Margin b"
  have G: "sint G = sint (pb_ProductionCost b) + sint (pb_Margin b)" "0 \<le> sint G" "sint G \<le> 2 ^ 42"
    unfolding G_def using sint_add[of "pb_ProductionCost b" "pb_Margin b"] B O P M by auto
  have D: "sint (pb_Discount b) = half_up (sint G * sint dc)" "0 \<le> sint (pb_Discount b)"
      "sint (pb_Discount b) \<le> sint G"
    using MulRate_small[of G dc] rr G
    by (auto simp: G_def b_def price_chain_def Let_def money_Add_def)
  have T: "sint (pb_PreTax b) = sint G - sint (pb_Discount b)"
    using sint_sub[of G "pb_Discount b"] G D
    by (simp add: G_def b_def price_chain_def Let_def money_Add_def money_Sub_def)
  have X: "sint (pb_Tax b) = half_up (sint (pb_PreTax b) * sint tx)" "0 \<le> sint (pb_Tax b)"
      "sint (pb_Tax b) \<le> sint (pb_PreTax b)"
    using MulRate_small[of "pb_PreTax b" tx] rr G D T
    by (auto simp: b_def price_chain_def Let_def money_Add_def)
  have F: "sint (pb_FinalPrice b) = sint (pb_PreTax b) + sint (pb_Tax b)"
    using sint_add[of "pb_PreTax b" "pb_Tax b"] G D T X
    by (simp add: b_def price_chain_def Let_def money_Add_def)
  have in_out: "pb_Material b = mat" "pb_Machine b = mach" "pb_Labor b = lab"
    by (simp_all add: b_def price_chain_def Let_def)
  show "list_all (\<lambda>m. 0 \<le> sint m) (breakdown_amounts b)"
    using n B O P M G D T X F by (simp add: breakdown_amounts_def in_out)
  show "sint (pb_FinalPrice b) = exact_price (sint mat + sint mach + sint lab) (sint ov) (sint mg) (sint dc) (sint tx)"
    using O(1) P M(1) G(1) D(1) T X(1) F by (simp add: exact_price_def Let_def B_def)
qed

definition material_line :: "CostComponent \<Rightarrow> bool" where
  "material_line l \<longleftrightarrow> cc_Category l = CategoryMaterial \<and> cc_Name l \<noteq> [] \<and> cc_Source l \<noteq> []"

lemma price_materials_Inr:
  assumes "price_materials prices cs acc ls = Inr (m, ls')"
  shows "\<exists>new. ls' = ls @ new \<and> m = acc + sum_list (map cc_Amount new) \<and> list_all material_line new
    \<and> map cc_Name new = map (\<lambda>c. ''Material '' @ mc_MaterialCode c) cs
    \<and> list_all (\<lambda>c. map_of prices (mc_MaterialCode c) \<noteq> None \<and> \<not> mc_PartArea c \<le> 0) cs"
  using assms
proof (induction cs arbitrary: acc ls)
  case (Cons c cs)
  from Cons.prems obtain price where pr: "map_of prices (mc_MaterialCode c) = Some price" "\<not> mc_PartArea c \<le> 0"
    by (auto simp: result_iffs split: option.splits)
  define a where "a = moneyFromQuantity (mc_Mass c * (mc_SheetArea c / mc_PartArea c)) price"
  let ?l = "line (''Material '' @ mc_MaterialCode c) CategoryMaterial a (''material:'' @ mc_MaterialCode c)"
  have "price_materials prices cs (acc + a) (ls @ [?l]) = Inr (m, ls')"
    using Cons.prems pr by (simp add: result_iffs Let_def a_def money_Add_def)
  from Cons.IH[OF this] obtain new where new: "ls' = (ls @ [?l]) @ new" "m = acc + a + sum_list (map cc_Amount new)"
    "list_all material_line new" "map cc_Name new = map (\<lambda>c. ''Material '' @ mc_MaterialCode c) cs"
    "list_all (\<lambda>c. map_of prices (mc_MaterialCode c) \<noteq> None \<and> \<not> mc_PartArea c \<le> 0) cs" by blast
  then show ?case using pr
    by (intro exI[of _ "?l # new"]) (simp add: line_def material_line_def[of "\<lparr>cc_Name = _, cc_Category = _, cc_Amount = _, cc_Source = _\<rparr>"] add.assoc)
qed simp

lemma sint_sum_list:
  assumes "list_all (\<lambda>m. 0 \<le> sint m) xs" "sum_list (map sint xs) \<le> 2 ^ 40"
  shows "sint (sum_list xs) = sum_list (map sint (xs :: 64 word list)) \<and> 0 \<le> sum_list (map sint xs)"
  using assms
proof (induction xs)
  case (Cons x xs)
  have "0 \<le> sum_list (map sint xs)" using Cons.prems(1) by (intro sum_list_nonneg) (auto simp: list_all_iff)
  then show ?case using Cons by (simp add: sint_add)
qed simp

lemma lines_total_material:
  "list_all material_line new \<Longrightarrow> lines_total c new = (if c = CategoryMaterial then sum_list (map cc_Amount new) else 0)"
  by (induction new) (auto simp: material_line_def)

lemma breakdown_ValidateI:
  assumes "currency_Validate (pb_Currency b) = Inr ()" "list_all (\<lambda>m. 0 \<le> sint m) (breakdown_amounts b)"
    "pb_ProductionCost b = pb_Material b + pb_Machine b + pb_Labor b + pb_Overhead b"
    "pb_PreTax b = pb_ProductionCost b + pb_Margin b - pb_Discount b"
    "pb_FinalPrice b = pb_PreTax b + pb_Tax b" "pb_Lines b \<noteq> []" "list_all line_wf (pb_Lines b)"
    "\<And>c. c \<in> cc_Category ` set (pb_Lines b) \<Longrightarrow> lines_total c (pb_Lines b) = sum_of (want_totals b) c"
  shows "breakdown_Validate b = Inr ()"
proof -
  obtain s where s: "sum_lines 0 [] (pb_Lines b) = Inr s" using sum_lines_total[OF assms(7)] by blast
  note f = sum_lines_Inr[OF s is_map_Nil]
  then have "(c, v) \<in> set s \<Longrightarrow> sum_of (want_totals b) c = v" for c v
    using assms(8)[of c] by (auto simp: is_map_in_set sum_of_def split: if_splits)
  then have "\<not> list_ex (\<lambda>(c, s). sum_of (want_totals b) c \<noteq> s) s" by (auto simp: list_ex_iff)
  then show ?thesis using assms(1-6) s unfolding breakdown_Validate_def Let_def result_iffs liftM_Inr_iff
    by (auto simp: money_Add_def money_Sub_def not_neg breakdown_amounts_def)
qed

lemma price_chain_eqs:
  "pb_ProductionCost (price_chain cur a b c ov mg dc tx) = a + b + c + pb_Overhead (price_chain cur a b c ov mg dc tx)"
  "pb_PreTax (price_chain cur a b c ov mg dc tx) = pb_ProductionCost (price_chain cur a b c ov mg dc tx)
     + pb_Margin (price_chain cur a b c ov mg dc tx) - pb_Discount (price_chain cur a b c ov mg dc tx)"
  "pb_FinalPrice (price_chain cur a b c ov mg dc tx) = pb_PreTax (price_chain cur a b c ov mg dc tx)
     + pb_Tax (price_chain cur a b c ov mg dc tx)"
  "pb_Currency (price_chain cur a b c ov mg dc tx) = cur" "pb_Material (price_chain cur a b c ov mg dc tx) = a"
  "pb_Machine (price_chain cur a b c ov mg dc tx) = b" "pb_Labor (price_chain cur a b c ov mg dc tx) = c"
  by (simp_all add: price_chain_def Let_def money_Add_def money_Sub_def)

lemma rates_Validate_currency: "rates_Validate r = Inr u \<Longrightarrow> currency_Validate (rt_Currency r) = Inr ()"
  by (auto simp: rates_Validate_def result_iffs liftM_Inr_iff)

definition demo_rates :: Rates where
  "demo_rates = \<lparr>rt_Currency = CurrencyRUB, rt_Material = [(''STEEL-S235'', 10000)],
     rt_MachinePerHour = 800000, rt_LaborPerHour = 300000, rt_OverheadPercent = 20000,
     rt_MarginPercent = 30000, rt_DiscountPercent = 5000, rt_TaxPercent = 20000\<rparr>"

lemma demo_rates_valid: "rates_Validate demo_rates = Inr ()"
  by code_simp

lemma demo_materials:
  "price_materials (rt_Material demo_rates) (ds_MaterialConsumption demo_dataset) 0 [] =
     Inr (53333, [line ''Material STEEL-S235'' CategoryMaterial 53333 ''material:STEEL-S235''])"
  by code_simp

lemma demo_times:
  "moneyFromMinutes (ds_EstimatedMachineTime demo_dataset) (rt_MachinePerHour demo_rates) = 400000"
  "moneyFromMinutes (ds_EstimatedLaborTime demo_dataset) (rt_LaborPerHour demo_rates) = 75000"
  by code_simp+

text \<open>C15: for a valid dataset and valid rates with a price for every material, amounts that are
  not negative, a base of at most 2^40 minor units and percentages of at most 100, \<open>Price\<close>
  succeeds, and its final price is the price chain computed in unbounded integers with half-up
  rounding at each percentage.\<close>

theorem Price_exact:
  assumes "dataset_Validate ds = Inr ()" "rates_Validate r = Inr ()"
    and m: "price_materials (rt_Material r) (ds_MaterialConsumption ds) 0 [] = Inr (material, ls)"
    and pc: "percent (rt_OverheadPercent r)" "percent (rt_MarginPercent r)"
      "percent (rt_DiscountPercent r)" "percent (rt_TaxPercent r)"
    and ls: "list_all (\<lambda>l. 0 \<le> sint (cc_Amount l)) ls"
    and mach: "machine = moneyFromMinutes (ds_EstimatedMachineTime ds) (rt_MachinePerHour r)" "0 \<le> sint machine"
    and lab: "labor = moneyFromMinutes (ds_EstimatedLaborTime ds) (rt_LaborPerHour r)" "0 \<le> sint labor"
    and base: "base = sum_list (map (sint \<circ> cc_Amount) ls) + sint machine + sint labor" "base \<le> 2 ^ 40"
  shows "\<exists>b. Price (Some ds) r = Inr b \<and> breakdown_Validate b = Inr ()
    \<and> sint (pb_FinalPrice b) = exact_price base (sint (rt_OverheadPercent r)) (sint (rt_MarginPercent r))
        (sint (rt_DiscountPercent r)) (sint (rt_TaxPercent r))
    \<and> length (pb_Lines b) = length (ds_MaterialConsumption ds) + 6"
proof -
  from price_materials_Inr[OF m] have new: "material = sum_list (map cc_Amount ls)" "list_all material_line ls"
    "length ls = length (ds_MaterialConsumption ds)" by (auto dest: map_eq_imp_length_eq)
  have sm: "sint material = sum_list (map (sint \<circ> cc_Amount) ls)" "0 \<le> sint material"
    using sint_sum_list[of "map cc_Amount ls"] ls base mach(2) lab(2) unfolding new(1)
    by (simp_all add: list_all_iff)
  let ?c = "price_chain (rt_Currency r) material machine labor (rt_OverheadPercent r)
               (rt_MarginPercent r) (rt_DiscountPercent r) (rt_TaxPercent r)"
  let ?ls = "ls @ [line ''Machine time'' CategoryMachine machine ''machine:laser-cutting'',
           line ''Labor time'' CategoryLabor labor ''labor:manual-finishing'',
           line ''Overhead'' CategoryOverhead (pb_Overhead ?c) ''overhead:rate'',
           line ''Margin'' CategoryMargin (pb_Margin ?c) ''margin:rate'',
           line ''Discount'' CategoryDiscount (pb_Discount ?c) ''discount:rate'',
           line ''Tax'' CategoryTax (pb_Tax ?c) ''tax:rate'']"
  let ?b = "?c\<lparr>pb_Lines := ?ls\<rparr>"
  have ex: "list_all (\<lambda>m. 0 \<le> sint m) (breakdown_amounts ?c)" "sint (pb_FinalPrice ?c) =
      exact_price base (sint (rt_OverheadPercent r)) (sint (rt_MarginPercent r))
        (sint (rt_DiscountPercent r)) (sint (rt_TaxPercent r))"
    using price_chain_exact[OF sm(2) mach(2) lab(2) _ pc, of "rt_Currency r"] base sm(1) by simp_all
  have v: "breakdown_Validate ?b = Inr ()"
  proof (rule breakdown_ValidateI)
    show "list_all line_wf (pb_Lines ?b)"
      using ex(1) ls new(2) mach(2) lab(2)
      by (auto simp: line_wf_def line_def breakdown_amounts_def CostCategory_IsValid_def list_all_iff material_line_def)
    show "lines_total c (pb_Lines ?b) = sum_of (want_totals ?b) c" if "c \<in> cc_Category ` set (pb_Lines ?b)" for c
      using that new by (auto simp: lines_total_material line_def sum_of_def want_totals_def category_defs
          material_line_def list_all_iff price_chain_eqs)
  qed (use rates_Validate_currency[OF assms(2)] ex(1) in \<open>auto simp: price_chain_eqs breakdown_amounts_def\<close>)
  have "Price (Some ds) r = Inr ?b"
    using v assms(1,2) m unfolding Price_def mach(1)[symmetric] lab(1)[symmetric]
    by (simp add: Let_def mach(1)[symmetric] lab(1)[symmetric])
  then show ?thesis using v ex(2) new(3) by (intro exI[of _ ?b]) simp
qed

theorem Price_exact_witness:
  "\<exists>b. Price (Some demo_dataset) demo_rates = Inr b \<and> sint (pb_FinalPrice b) = 939588"
proof -
  have r: "percent (rt_OverheadPercent demo_rates)" "percent (rt_MarginPercent demo_rates)"
    "percent (rt_DiscountPercent demo_rates)" "percent (rt_TaxPercent demo_rates)"
    by (simp_all add: percent_def demo_rates_def)
  have "exact_price 528333 20000 30000 5000 20000 = 939588" by (simp add: exact_price_def half_up_def Let_def)
  then show ?thesis
    using Price_exact[OF demo_dataset_valid demo_rates_valid demo_materials r _ demo_times(1)[symmetric] _
        demo_times(2)[symmetric] _ refl]
    by (auto simp: line_def demo_rates_def)
qed

end
