(* ===== verification/Project_Pricing.thy ===== *)
theory Project_Pricing
  imports Pricing
begin

text \<open>
  \<open>internal/domain/pricing/extended.go\<close>: costs of finishings, operations and materials that
  carry their own totals, and the breakdown of a project built from them. The slices hold values,
  so the nil checks of the element validators never fire and the model has no branch for them.
\<close>

definition finishing_types :: "string list" where
  "finishing_types = [''none'', ''painting'', ''powder-coating'', ''galvanizing'', ''heat-treatment'',
     ''anodizing'', ''brushing'', ''polishing'', ''sandblasting'', ''custom'']"

definition FinishingType_IsValid :: "string \<Rightarrow> bool" where
  "FinishingType_IsValid t \<longleftrightarrow> t \<in> set finishing_types"

record FinishingCost =
  fc_Type :: string
  fc_Area :: f64
  fc_UnitPrice :: Money
  fc_TotalPrice :: Money
  fc_Description :: string

record OperationCost =
  oc_OperationID :: int
  oc_OperationType :: string
  oc_MachineType :: string
  oc_EstimatedTime :: f64
  oc_HourlyRate :: Money
  oc_TotalCost :: Money

record MaterialCost =
  mt_PartNumber :: string
  mt_Material :: string
  mt_Volume :: f64
  mt_Density :: f64
  mt_PricePerKg :: Money
  mt_TotalCost :: Money

datatype project_error =
    FinBadType string | FinAreaNotPositive f64 | FinNegativePrice | FinTotalMismatch Money Money
  | OpcBadID | OpcNoType | OpcNoMachine | OpcNegativeTime | OpcNegativeRate | OpcTotalMismatch Money Money
  | MtNoPart | MtNoMaterial | MtVolume | MtDensity | MtNegativePrice | MtTotalMismatch Money Money
  | NoProjectID | NoCostItems | OverheadRate money_error | MarginRate money_error
  | DiscountRate money_error | TaxRate money_error | ProjectCurrency money_error
  | MaterialItem nat project_error | OperationItem nat project_error | FinishingItem nat project_error
  | BreakdownFailed pricing_error

definition finishing_total :: "FinishingCost \<Rightarrow> Money" where
  "finishing_total fc = i64 (to_int64 (of_int64 (sint (fc_UnitPrice fc)) * fc_Area fc))"

definition finishing_Validate :: "FinishingCost \<Rightarrow> (project_error, unit) result" where
  "finishing_Validate fc =
     guard_with (\<not> FinishingType_IsValid (fc_Type fc)) (FinBadType (fc_Type fc))
     (guard_with (fc_Area fc \<le> 0) (FinAreaNotPositive (fc_Area fc))
     (guard_with (neg (fc_UnitPrice fc)) FinNegativePrice
     (guard_with (fc_TotalPrice fc \<noteq> finishing_total fc)
        (FinTotalMismatch (fc_TotalPrice fc) (finishing_total fc))
     (Inr ()))))"

definition operation_total :: "OperationCost \<Rightarrow> Money" where
  "operation_total oc = i64 (to_int64 (of_int64 (sint (oc_HourlyRate oc)) * oc_EstimatedTime oc / Fin 60))"

definition operation_Validate :: "OperationCost \<Rightarrow> (project_error, unit) result" where
  "operation_Validate oc =
     guard_with (oc_OperationID oc \<le> 0) OpcBadID
     (guard_with (oc_OperationType oc = []) OpcNoType
     (guard_with (oc_MachineType oc = []) OpcNoMachine
     (guard_with (oc_EstimatedTime oc < 0) OpcNegativeTime
     (guard_with (neg (oc_HourlyRate oc)) OpcNegativeRate
     (guard_with (oc_TotalCost oc \<noteq> operation_total oc)
        (OpcTotalMismatch (oc_TotalCost oc) (operation_total oc))
     (Inr ()))))))"

definition material_total :: "MaterialCost \<Rightarrow> Money" where
  "material_total mc = (let weightKg = mt_Volume mc * mt_Density mc / Fin 1000000000 in
     i64 (to_int64 (of_int64 (sint (mt_PricePerKg mc)) * weightKg)))"

definition material_Validate :: "MaterialCost \<Rightarrow> (project_error, unit) result" where
  "material_Validate mc =
     guard_with (mt_PartNumber mc = []) MtNoPart
     (guard_with (mt_Material mc = []) MtNoMaterial
     (guard_with (mt_Volume mc \<le> 0) MtVolume
     (guard_with (mt_Density mc \<le> 0) MtDensity
     (guard_with (neg (mt_PricePerKg mc)) MtNegativePrice
     (guard_with (mt_TotalCost mc \<noteq> material_total mc)
        (MtTotalMismatch (mt_TotalCost mc) (material_total mc))
     (Inr ()))))))"

record ProjectPricing =
  pj_ProjectID :: string
  pj_Currency :: Currency
  pj_Materials :: "MaterialCost list"
  pj_Operations :: "OperationCost list"
  pj_Finishings :: "FinishingCost list"
  pj_Overhead :: Rate
  pj_Margin :: Rate
  pj_Discount :: Rate
  pj_Tax :: Rate
  pj_Breakdown :: "PriceBreakdown option"

definition wrap_err :: "('e \<Rightarrow> 'f) \<Rightarrow> ('e, 'a) result \<Rightarrow> ('f, 'a) result" where
  "wrap_err f r = (case r of Inl e \<Rightarrow> Inl (f e) | Inr a \<Rightarrow> Inr a)"

definition project_Validate :: "ProjectPricing \<Rightarrow> (project_error, unit) result" where
  "project_Validate pp =
     guard_with (pj_ProjectID pp = []) NoProjectID
     (bindR (wrap_err ProjectCurrency (currency_Validate (pj_Currency pp))) (\<lambda>_.
      bindR (wrap_err OverheadRate (rate_Validate (pj_Overhead pp))) (\<lambda>_.
      bindR (wrap_err MarginRate (rate_Validate (pj_Margin pp))) (\<lambda>_.
      bindR (wrap_err DiscountRate (rate_Validate (pj_Discount pp))) (\<lambda>_.
      bindR (wrap_err TaxRate (rate_Validate (pj_Tax pp))) (\<lambda>_.
      guard_with (pj_Materials pp = [] \<and> pj_Operations pp = [] \<and> pj_Finishings pp = []) NoCostItems
      (bindR (check_from 0 (\<lambda>i m. wrap_err (MaterialItem i) (material_Validate m)) (pj_Materials pp)) (\<lambda>_.
       bindR (check_from 0 (\<lambda>i o'. wrap_err (OperationItem i) (operation_Validate o')) (pj_Operations pp)) (\<lambda>_.
       check_from 0 (\<lambda>i f. wrap_err (FinishingItem i) (finishing_Validate f)) (pj_Finishings pp))))))))))"

definition rate_source :: "Rate \<Rightarrow> string" where
  "rate_source r = ''rate:'' @ fmt_f 2 (rate_Percent r) @ ''%''"

definition material_cost_line :: "MaterialCost \<Rightarrow> CostComponent" where
  "material_cost_line m = line (''Material: '' @ mt_PartNumber m @ '' ('' @ mt_Material m @ '')'')
     CategoryMaterial (mt_TotalCost m) (''part:'' @ mt_PartNumber m @ '',material:'' @ mt_Material m)"

definition operation_cost_line :: "OperationCost \<Rightarrow> CostComponent" where
  "operation_cost_line oc = line (''Operation: '' @ oc_OperationType oc @ '' ('' @ oc_MachineType oc @ '')'')
     CategoryMachine (oc_TotalCost oc)
     (''op:'' @ Itoa (oc_OperationID oc) @ '',type:'' @ oc_OperationType oc @ '',machine:'' @ oc_MachineType oc)"

definition finishing_cost_line :: "FinishingCost \<Rightarrow> CostComponent" where
  "finishing_cost_line f = line (''Finishing: '' @ fc_Type f) CategoryLabor (fc_TotalPrice f)
     (''finishing:'' @ fc_Type f @ '',area:'' @ fmt_f 0 (fc_Area f))"

definition CalculateBreakdown :: "ProjectPricing \<Rightarrow> (project_error, PriceBreakdown) result" where
  "CalculateBreakdown pp =
     bindR (project_Validate pp) (\<lambda>_.
     let materialTotal = fold (\<lambda>m t. money_Add t (mt_TotalCost m)) (pj_Materials pp) 0;
         machineTotal = fold (\<lambda>x t. money_Add t (oc_TotalCost x)) (pj_Operations pp) 0;
         c = price_chain (pj_Currency pp) materialTotal machineTotal 0 (pj_Overhead pp) (pj_Margin pp)
               (pj_Discount pp) (pj_Tax pp);
         ls = map material_cost_line (pj_Materials pp)
            @ map operation_cost_line (pj_Operations pp)
            @ map finishing_cost_line (pj_Finishings pp)
            @ [line ''Overhead'' CategoryOverhead (pb_Overhead c) (rate_source (pj_Overhead pp)),
               line ''Margin'' CategoryMargin (pb_Margin c) (rate_source (pj_Margin pp))]
            @ (if sint (pb_Discount c) > 0
               then [line ''Discount'' CategoryDiscount (pb_Discount c) (rate_source (pj_Discount pp))] else [])
            @ (if sint (pb_Tax c) > 0
               then [line ''Tax'' CategoryTax (pb_Tax c) (rate_source (pj_Tax pp))] else []);
         b = c\<lparr>pb_Lines := ls\<rparr> in
     wrap_err BreakdownFailed (bindR (breakdown_Validate b) (\<lambda>_. Inr b)))"

subsection \<open>Finishings\<close>

lemma wrap_err_Inr_iff: "wrap_err f r = Inr a \<longleftrightarrow> r = Inr a"
  by (auto simp: wrap_err_def split: sum.splits)

lemma lines_total_map:
  "(\<And>x. cc_Category (g x) = k) \<Longrightarrow> lines_total c (map g xs) = (if c = k then sum_list (map (cc_Amount \<circ> g) xs) else 0)"
  by (induction xs) auto

lemma breakdown_Validate_line:
  assumes "breakdown_Validate b = Inr u" "l \<in> set (pb_Lines b)"
  shows "line_wf l \<and> lines_total (cc_Category l) (pb_Lines b) = sum_of (want_totals b) (cc_Category l)"
proof -
  obtain s where s: "sum_lines 0 [] (pb_Lines b) = Inr s"
      "\<not> list_ex (\<lambda>(c, s). sum_of (want_totals b) c \<noteq> s) s"
    using assms(1) unfolding breakdown_Validate_def Let_def result_iffs by auto
  note f = sum_lines_Inr[OF s(1) is_map_Nil]
  then have "(cc_Category l, lines_total (cc_Category l) (pb_Lines b)) \<in> set s"
    using assms(2) by (auto simp: is_map_in_set sum_of_def)
  then show ?thesis using f s(2) assms(2) by (auto simp: list_ex_iff list_all_iff)
qed

definition demo_finishing :: ProjectPricing where
  "demo_finishing = \<lparr>pj_ProjectID = ''P-1'', pj_Currency = CurrencyRUB, pj_Materials = [], pj_Operations = [],
     pj_Finishings = [\<lparr>fc_Type = ''painting'', fc_Area = Fin 1000, fc_UnitPrice = 50, fc_TotalPrice = 50000,
       fc_Description = ''''\<rparr>],
     pj_Overhead = 20000, pj_Margin = 30000, pj_Discount = 0, pj_Tax = 20000, pj_Breakdown = None\<rparr>"

lemma demo_finishing_valid: "project_Validate demo_finishing = Inr ()"
  by code_simp

text \<open>Finishings are lines of the labor category while the labor total is always zero, so a
  project whose finishings cost anything (their sum is not zero) never gets a breakdown.\<close>

theorem finishing_unpriced:
  assumes "sum_list (map fc_TotalPrice (pj_Finishings pp)) \<noteq> 0"
  shows "\<exists>e. CalculateBreakdown pp = Inl e"
proof (rule ccontr)
  assume "\<nexists>e. CalculateBreakdown pp = Inl e"
  then obtain b where "CalculateBreakdown pp = Inr b" by (cases "CalculateBreakdown pp") auto
  then have b: "breakdown_Validate b = Inr ()" "pb_Labor b = 0" and
    ls: "lines_total CategoryLabor (pb_Lines b) = sum_list (map fc_TotalPrice (pj_Finishings pp))"
      "set (map finishing_cost_line (pj_Finishings pp)) \<subseteq> set (pb_Lines b)"
    unfolding CalculateBreakdown_def Let_def bindR_Inr_iff wrap_err_Inr_iff
    by (auto simp: price_chain_eqs lines_total_map[of material_cost_line CategoryMaterial]
        lines_total_map[of operation_cost_line CategoryMachine]
        lines_total_map[of finishing_cost_line CategoryLabor] material_cost_line_def
        operation_cost_line_def finishing_cost_line_def line_def category_defs comp_def)
  obtain f where "f \<in> set (pj_Finishings pp)" using assms by (cases "pj_Finishings pp") auto
  then have l: "finishing_cost_line f \<in> set (pb_Lines b)" using ls(2) by auto
  have "cc_Category (finishing_cost_line f) = CategoryLabor" by (simp add: finishing_cost_line_def line_def)
  then have "lines_total CategoryLabor (pb_Lines b) = sum_of (want_totals b) CategoryLabor"
    using breakdown_Validate_line[OF b(1) l] by simp
  also have "\<dots> = 0" using b(2) by (simp add: sum_of_def want_totals_def category_defs)
  finally show False using ls(1) assms by simp
qed

theorem finishing_unpriced_witness:
  "project_Validate demo_finishing = Inr () \<and> (\<exists>e. CalculateBreakdown demo_finishing = Inl e)"
  using finishing_unpriced[of demo_finishing] demo_finishing_valid by (simp add: demo_finishing_def)

subsection \<open>Projects without finishing costs\<close>

lemma fold_money: "fold (\<lambda>x t. money_Add t (f x)) xs a = a + sum_list (map f xs)"
  by (induction xs arbitrary: a) (auto simp: money_Add_def add.assoc)

lemma project_Validate_currency: "project_Validate pp = Inr u \<Longrightarrow> currency_Validate (pj_Currency pp) = Inr ()"
  by (auto simp: project_Validate_def result_iffs wrap_err_Inr_iff)

lemma nonneg_sum_list: "\<forall>x \<in> set xs. 0 \<le> sint (f x) \<Longrightarrow> 0 \<le> sum_list (map (sint \<circ> f) xs)"
  by (rule sum_list_nonneg) auto

text \<open>C16: a valid project whose finishings cost nothing, with amounts that are not negative, a
  base of at most 2^40 minor units and percentages of at most 100, gets a breakdown that validates,
  with the material and machine totals of its items and the exact price of their sum.\<close>

theorem CalculateBreakdown_exact:
  assumes v: "project_Validate pp = Inr ()"
    and fin: "map fc_TotalPrice (pj_Finishings pp) = replicate (length (pj_Finishings pp)) 0"
    and pc: "percent (pj_Overhead pp)" "percent (pj_Margin pp)" "percent (pj_Discount pp)" "percent (pj_Tax pp)"
    and mats: "list_all (\<lambda>m. 0 \<le> sint (mt_TotalCost m)) (pj_Materials pp)"
    and ops: "list_all (\<lambda>x. 0 \<le> sint (oc_TotalCost x)) (pj_Operations pp)"
    and base: "base = sum_list (map (sint \<circ> mt_TotalCost) (pj_Materials pp))
        + sum_list (map (sint \<circ> oc_TotalCost) (pj_Operations pp))" "base \<le> 2 ^ 40"
  shows "\<exists>b. CalculateBreakdown pp = Inr b \<and> breakdown_Validate b = Inr ()
    \<and> sint (pb_Material b) + sint (pb_Machine b) = base
    \<and> sint (pb_FinalPrice b) = exact_price base (sint (pj_Overhead pp)) (sint (pj_Margin pp))
        (sint (pj_Discount pp)) (sint (pj_Tax pp))"
proof -
  define mat where "mat = sum_list (map mt_TotalCost (pj_Materials pp))"
  define mach where "mach = sum_list (map oc_TotalCost (pj_Operations pp))"
  have nn: "0 \<le> sum_list (map (sint \<circ> mt_TotalCost) (pj_Materials pp))"
    "0 \<le> sum_list (map (sint \<circ> oc_TotalCost) (pj_Operations pp))"
    using mats ops by (auto intro!: nonneg_sum_list simp: list_all_iff)
  have sm: "sint mat = sum_list (map (sint \<circ> mt_TotalCost) (pj_Materials pp))" "0 \<le> sint mat"
    "sint mach = sum_list (map (sint \<circ> oc_TotalCost) (pj_Operations pp))" "0 \<le> sint mach"
    using sint_sum_list[of "map mt_TotalCost (pj_Materials pp)"] sint_sum_list[of "map oc_TotalCost (pj_Operations pp)"]
      mats ops base nn by (simp_all add: mat_def mach_def list_all_iff)
  let ?c = "price_chain (pj_Currency pp) mat mach 0 (pj_Overhead pp) (pj_Margin pp) (pj_Discount pp) (pj_Tax pp)"
  have ex: "list_all (\<lambda>m. 0 \<le> sint m) (breakdown_amounts ?c)" "sint (pb_FinalPrice ?c) =
      exact_price base (sint (pj_Overhead pp)) (sint (pj_Margin pp)) (sint (pj_Discount pp)) (sint (pj_Tax pp))"
    using price_chain_exact[OF sm(2) sm(4) _ _ pc, of 0 "pj_Currency pp"] base sm by simp_all
  let ?items = "map material_cost_line (pj_Materials pp) @ map operation_cost_line (pj_Operations pp)
            @ map finishing_cost_line (pj_Finishings pp)"
  let ?ls = "?items
            @ [line ''Overhead'' CategoryOverhead (pb_Overhead ?c) (rate_source (pj_Overhead pp)),
               line ''Margin'' CategoryMargin (pb_Margin ?c) (rate_source (pj_Margin pp))]
            @ (if sint (pb_Discount ?c) > 0
               then [line ''Discount'' CategoryDiscount (pb_Discount ?c) (rate_source (pj_Discount pp))] else [])
            @ (if sint (pb_Tax ?c) > 0
               then [line ''Tax'' CategoryTax (pb_Tax ?c) (rate_source (pj_Tax pp))] else [])"
  let ?b = "?c\<lparr>pb_Lines := ?ls\<rparr>"
  have fz: "fc_TotalPrice f = 0" if "f \<in> set (pj_Finishings pp)" for f
    using fin that by (metis imageI list.set_map in_set_replicate)
  have fsz: "sum_list (map fc_TotalPrice (pj_Finishings pp)) = 0" unfolding fin by (simp add: sum_list_replicate)
  have items: "lines_total c (map material_cost_line (pj_Materials pp)) = (if c = CategoryMaterial then mat else 0)"
    "lines_total c (map operation_cost_line (pj_Operations pp)) = (if c = CategoryMachine then mach else 0)"
    "lines_total c (map finishing_cost_line (pj_Finishings pp)) = 0" for c
    using fsz by (simp_all add: lines_total_map[of material_cost_line CategoryMaterial]
        lines_total_map[of operation_cost_line CategoryMachine]
        lines_total_map[of finishing_cost_line CategoryLabor] material_cost_line_def
        operation_cost_line_def finishing_cost_line_def line_def comp_def mat_def mach_def)
  have zero: "pb_Discount ?c = 0" if "\<not> sint (pb_Discount ?c) > 0"
    using that ex(1) by (auto simp: breakdown_amounts_def intro: signed_word_eqI)
  have zero': "pb_Tax ?c = 0" if "\<not> sint (pb_Tax ?c) > 0"
    using that ex(1) by (auto simp: breakdown_amounts_def intro: signed_word_eqI)
  have val: "breakdown_Validate ?b = Inr ()"
  proof (rule breakdown_ValidateI)
    show "list_all line_wf (pb_Lines ?b)"
      using ex(1) mats ops fz
      by (auto simp: line_wf_def line_def breakdown_amounts_def CostCategory_IsValid_def list_all_iff
          material_cost_line_def operation_cost_line_def finishing_cost_line_def rate_source_def)
    show "lines_total c (pb_Lines ?b) = sum_of (want_totals ?b) c" if "c \<in> cc_Category ` set (pb_Lines ?b)" for c
      by (cases "sint (pb_Discount ?c) > 0"; cases "sint (pb_Tax ?c) > 0")
        (auto simp: items zero zero' line_def sum_of_def want_totals_def category_defs price_chain_eqs)
  qed (use project_Validate_currency[OF v] ex(1) in \<open>auto simp: price_chain_eqs breakdown_amounts_def\<close>)
  have "CalculateBreakdown pp = wrap_err BreakdownFailed (bindR (breakdown_Validate ?b) (\<lambda>_. Inr ?b))"
    by (simp add: CalculateBreakdown_def Let_def fold_money mat_def mach_def v)
  also have "\<dots> = Inr ?b" unfolding val by (simp add: wrap_err_def)
  finally show ?thesis using val ex(2) base sm by (intro exI[of _ ?b]) (simp add: price_chain_eqs)
qed

definition demo_project :: ProjectPricing where
  "demo_project = demo_finishing\<lparr>pj_Finishings := [], pj_Operations := [\<lparr>oc_OperationID = 1,
     oc_OperationType = ''cutting'', oc_MachineType = ''laser-cutter'', oc_EstimatedTime = Fin 30,
     oc_HourlyRate = 800000, oc_TotalCost = 400000\<rparr>]\<rparr>"

lemma demo_project_valid: "project_Validate demo_project = Inr ()"
  by code_simp

theorem CalculateBreakdown_exact_witness:
  "\<exists>b. CalculateBreakdown demo_project = Inr b \<and> sint (pb_FinalPrice b) = 748800"
  using CalculateBreakdown_exact[OF demo_project_valid _ _ _ _ _ _ _ refl]
  by (auto simp: demo_project_def demo_finishing_def percent_def exact_price_def half_up_def Let_def)

end
