(* ===== verification/Mfg_Catalog.thy ===== *)
theory Mfg_Catalog
  imports Float_Order
begin

text \<open>
  The data of \<open>internal/domain/manufacturing\<close>: materials (\<open>material.go\<close>), parts (\<open>part.go\<close>),
  bill of materials and cut list (\<open>bom.go\<close>), stock sheets and nesting results (\<open>nesting.go\<close>) and
  the package (\<open>package.go\<close>), with their validation. A pointer that the code checks for nil is an
  \<open>option\<close>. \<open>Quantity\<close> is a Go \<open>int\<close>.
\<close>

datatype cat_error =
    NoMaterial | MatNoCode | MatNoName | MatNoCategory | MatDensity f64 | MatThickness | MatWidth | MatHeight
  | MatDuplicate string
  | NoSheet | SheetNoMaterial | SheetDims | SheetLengthWidth | SheetDuplicate string
  | NoNesting | NestNoSheets | NestNoParts | NestMetrics | NestAreas | NestWaste | NestUtilization
  | NestSheetMaterial nat | NestSheetThickness nat | NestSheetDims nat
  | PlacedNoNumber nat nat | PlacedDims nat string | PlacedNegative nat string | PlacedOutside nat string
  | NestCount nat int
  | PkgNoParts | PartNoNumber nat | PartDuplicate string | PartKindBad string string | PartNoMaterial string
  | PartThickness string | PartDims string | PartSolid string
  | BomEmpty | BomNumbers | BomQuantity int | BomUnknownPart int string
  | PkgNoNesting | PkgCount int nat | PkgUnknownPart string

subsection \<open>\<open>material.go\<close>\<close>

record Material =
  ml_Code :: string
  ml_Name :: string
  ml_Category :: string
  ml_Density :: f64
  ml_MinThickness :: f64
  ml_MaxThickness :: f64
  ml_MaxWidthMm :: f64
  ml_MaxHeightMm :: f64

definition mat_Validate :: "Material option \<Rightarrow> (cat_error, unit) result" where
  "mat_Validate mo = (case mo of None \<Rightarrow> Inl NoMaterial | Some m \<Rightarrow>
     guard_with (ml_Code m = []) MatNoCode
     (guard_with (ml_Name m = []) MatNoName
     (guard_with (ml_Category m = []) MatNoCategory
     (guard_with (isNaN (ml_Density m) \<or> isInf (ml_Density m) \<or> ml_Density m \<le> 0) (MatDensity (ml_Density m))
     (guard_with (isNaN (ml_MinThickness m) \<or> isNaN (ml_MaxThickness m)
          \<or> ml_MinThickness m < 0 \<or> ml_MaxThickness m < ml_MinThickness m) MatThickness
     (guard_with (isNaN (ml_MaxWidthMm m) \<or> ml_MaxWidthMm m \<le> 0) MatWidth
     (guard_with (isNaN (ml_MaxHeightMm m) \<or> ml_MaxHeightMm m \<le> 0) MatHeight
     (Inr ()))))))))"

definition SupportsThickness :: "Material \<Rightarrow> f64 \<Rightarrow> bool" where
  "SupportsThickness m t \<longleftrightarrow> ml_MinThickness m - Precision \<le> t \<and> t \<le> ml_MaxThickness m + Precision"

record MaterialRegistry =
  mr_byCode :: "(string \<times> Material) list"
  mr_order :: "string list"

fun add_materials :: "Material option list \<Rightarrow> MaterialRegistry \<Rightarrow> (cat_error, MaterialRegistry) result" where
  "add_materials [] r = Inr r"
| "add_materials (mo # ms) r =
     bindR (mat_Validate mo) (\<lambda>_.
     let m = the mo in
     guard_with (map_of (mr_byCode r) (ml_Code m) \<noteq> None) (MatDuplicate (ml_Code m))
     (add_materials ms \<lparr>mr_byCode = mput (ml_Code m) m (mr_byCode r), mr_order = mr_order r @ [ml_Code m]\<rparr>))"

definition NewMaterialRegistry :: "Material option list \<Rightarrow> (cat_error, MaterialRegistry) result" where
  "NewMaterialRegistry ms = add_materials ms \<lparr>mr_byCode = [], mr_order = []\<rparr>"

definition reg_Find :: "MaterialRegistry option \<Rightarrow> string \<Rightarrow> Material option" where
  "reg_Find ro code = (case ro of None \<Rightarrow> None | Some r \<Rightarrow> map_of (mr_byCode r) code)"

text \<open>\<open>r.byCode[code]\<close> of an ordered code is a nil pointer only if the code is not in the map.\<close>

definition Materials :: "MaterialRegistry option \<Rightarrow> Material option list" where
  "Materials ro = (case ro of None \<Rightarrow> [] | Some r \<Rightarrow> map (map_of (mr_byCode r)) (mr_order r))"

subsection \<open>\<open>part.go\<close>, \<open>bom.go\<close>\<close>

definition PartStringer :: string where "PartStringer = ''stringer''"
definition PartTread :: string where "PartTread = ''tread''"
definition PartRiser :: string where "PartRiser = ''riser''"
definition PartColumn :: string where "PartColumn = ''column''"

lemmas part_kinds = PartStringer_def PartTread_def PartRiser_def PartColumn_def

definition PartKind_IsValid :: "string \<Rightarrow> bool" where
  "PartKind_IsValid k \<longleftrightarrow> k \<in> {PartStringer, PartTread, PartRiser, PartColumn}"

record Part =
  pt_Number :: string
  pt_Kind :: string
  pt_Material :: string
  pt_Thickness :: Length
  pt_Length :: Length
  pt_Width :: Length
  pt_SolidIndex :: int

record BOMLine =
  bl_Number :: int
  bl_PartNumber :: string
  bl_Description :: string
  bl_MaterialCode :: string
  bl_Thickness :: Length
  bl_Quantity :: int
  bl_Length :: Length
  bl_Width :: Length

record CutItem =
  ci_PartNumber :: string
  ci_MaterialCode :: string
  ci_Thickness :: Length
  ci_Length :: Length
  ci_Width :: Length
  ci_Quantity :: int

subsection \<open>\<open>nesting.go\<close>\<close>

record StockSheet =
  st_MaterialCode :: string
  st_Length :: Length
  st_Width :: Length

definition sheet_Validate :: "StockSheet option \<Rightarrow> (cat_error, unit) result" where
  "sheet_Validate so = (case so of None \<Rightarrow> Inl NoSheet | Some s \<Rightarrow>
     guard_with (st_MaterialCode s = []) SheetNoMaterial
     (guard_with (isNaN (st_Length s) \<or> isInf (st_Length s) \<or> st_Length s \<le> 0 \<or> st_Width s \<le> 0) SheetDims
     (guard_with (st_Length s < st_Width s) SheetLengthWidth
     (Inr ()))))"

record StockSheetRegistry =
  sr_byMaterial :: "(string \<times> StockSheet list) list"
  sr_order :: "string list"

definition sheets_of :: "StockSheetRegistry \<Rightarrow> string \<Rightarrow> StockSheet list" where
  "sheets_of r code = (case map_of (sr_byMaterial r) code of None \<Rightarrow> [] | Some ss \<Rightarrow> ss)"

fun add_sheets :: "StockSheet option list \<Rightarrow> StockSheetRegistry \<Rightarrow> (cat_error, StockSheetRegistry) result" where
  "add_sheets [] r = Inr r"
| "add_sheets (so # ss) r =
     bindR (sheet_Validate so) (\<lambda>_.
     let s = the so; code = st_MaterialCode s in
     guard_with (list_ex (\<lambda>x. length_Equals (st_Length x) (st_Length s) \<and> length_Equals (st_Width x) (st_Width s))
          (sheets_of r code)) (SheetDuplicate code)
     (add_sheets ss \<lparr>sr_byMaterial = mput code (sheets_of r code @ [s]) (sr_byMaterial r),
        sr_order = (if map_of (sr_byMaterial r) code = None then sr_order r @ [code] else sr_order r)\<rparr>))"

definition NewStockSheetRegistry :: "StockSheet option list \<Rightarrow> (cat_error, StockSheetRegistry) result" where
  "NewStockSheetRegistry ss = add_sheets ss \<lparr>sr_byMaterial = [], sr_order = []\<rparr>"

definition SheetsFor :: "StockSheetRegistry option \<Rightarrow> string \<Rightarrow> StockSheet list" where
  "SheetsFor ro code = (case ro of None \<Rightarrow> [] | Some r \<Rightarrow> sheets_of r code)"

record PlacedPart =
  pl_PartNumber :: string
  pl_Length :: Length
  pl_Width :: Length
  pl_X :: f64
  pl_Y :: f64

record SheetLayout =
  ly_MaterialCode :: string
  ly_Thickness :: Length
  ly_Length :: Length
  ly_Width :: Length
  ly_Placed :: "PlacedPart list"

record NestingResult =
  ns_Sheets :: "SheetLayout list"
  ns_PartCount :: int
  ns_PartArea :: f64
  ns_SheetArea :: f64
  ns_WasteArea :: f64
  ns_Utilization :: f64

definition finite_f :: "f64 \<Rightarrow> bool" where
  "finite_f v \<longleftrightarrow> \<not> isNaN v \<and> \<not> isInf v"

definition check_placed :: "nat \<Rightarrow> SheetLayout \<Rightarrow> nat \<Rightarrow> PlacedPart \<Rightarrow> (cat_error, unit) result" where
  "check_placed i s j p =
     guard_with (pl_PartNumber p = []) (PlacedNoNumber i j)
     (guard_with (pl_Length p \<le> 0 \<or> pl_Width p \<le> 0) (PlacedDims i (pl_PartNumber p))
     (guard_with (pl_X p < 0 \<or> pl_Y p < 0) (PlacedNegative i (pl_PartNumber p))
     (guard_with (pl_X p + pl_Length p > ly_Length s + Precision \<or> pl_Y p + pl_Width p > ly_Width s + Precision)
        (PlacedOutside i (pl_PartNumber p))
     (Inr ()))))"

definition check_layout :: "nat \<Rightarrow> SheetLayout \<Rightarrow> (cat_error, unit) result" where
  "check_layout i s =
     guard_with (ly_MaterialCode s = []) (NestSheetMaterial i)
     (guard_with (ly_Thickness s \<le> 0) (NestSheetThickness i)
     (guard_with (ly_Length s \<le> 0 \<or> ly_Width s \<le> 0) (NestSheetDims i)
     (check_from 0 (check_placed i s) (ly_Placed s))))"

definition seen_parts :: "SheetLayout list \<Rightarrow> nat" where
  "seen_parts ss = fold (\<lambda>s n. n + length (ly_Placed s)) ss 0"

definition nesting_Validate :: "NestingResult option \<Rightarrow> (cat_error, unit) result" where
  "nesting_Validate no = (case no of None \<Rightarrow> Inl NoNesting | Some n \<Rightarrow>
     guard_with (ns_Sheets n = []) NestNoSheets
     (guard_with (ns_PartCount n \<le> 0) NestNoParts
     (guard_with (\<not> finite_f (ns_PartArea n) \<or> \<not> finite_f (ns_SheetArea n) \<or> \<not> finite_f (ns_WasteArea n)
          \<or> \<not> finite_f (ns_Utilization n)) NestMetrics
     (guard_with (ns_SheetArea n \<le> 0 \<or> ns_PartArea n > ns_SheetArea n + Precision) NestAreas
     (guard_with (\<bar>ns_WasteArea n - (ns_SheetArea n - ns_PartArea n)\<bar> > Precision) NestWaste
     (guard_with (ns_Utilization n < 0 \<or> ns_Utilization n > fl (1 + 1 / 1000000)) NestUtilization
     (bindR (check_from 0 check_layout (ns_Sheets n)) (\<lambda>_.
      guard_with (int (seen_parts (ns_Sheets n)) \<noteq> ns_PartCount n) (NestCount (seen_parts (ns_Sheets n)) (ns_PartCount n))
      (Inr ())))))))))"

subsection \<open>\<open>package.go\<close>\<close>

record ManufacturingPackage =
  pk_Parts :: "Part list"
  pk_BOM :: "BOMLine list"
  pk_CutList :: "CutItem list"
  pk_Nesting :: "NestingResult option"

definition check_part :: "nat \<Rightarrow> string list \<Rightarrow> Part \<Rightarrow> (cat_error, unit) result" where
  "check_part i seen p =
     guard_with (pt_Number p = []) (PartNoNumber i)
     (guard_with (pt_Number p \<in> set seen) (PartDuplicate (pt_Number p))
     (guard_with (\<not> PartKind_IsValid (pt_Kind p)) (PartKindBad (pt_Number p) (pt_Kind p))
     (guard_with (pt_Material p = []) (PartNoMaterial (pt_Number p))
     (guard_with (pt_Thickness p \<le> 0) (PartThickness (pt_Number p))
     (guard_with (pt_Length p \<le> 0 \<or> pt_Length p < pt_Width p) (PartDims (pt_Number p))
     (guard_with (pt_SolidIndex p < 0) (PartSolid (pt_Number p))
     (Inr ())))))))"

fun check_pkg_parts :: "nat \<Rightarrow> string list \<Rightarrow> Part list \<Rightarrow> (cat_error, string list) result" where
  "check_pkg_parts i seen [] = Inr seen"
| "check_pkg_parts i seen (p # ps) =
     bindR (check_part i seen p) (\<lambda>_. check_pkg_parts (Suc i) (pt_Number p # seen) ps)"

definition check_bom_line :: "string list \<Rightarrow> nat \<Rightarrow> BOMLine \<Rightarrow> (cat_error, unit) result" where
  "check_bom_line seen i l =
     guard_with (bl_Number l \<noteq> int i + 1) BomNumbers
     (guard_with (bl_Quantity l \<le> 0) (BomQuantity (bl_Number l))
     (guard_with (bl_PartNumber l \<notin> set seen) (BomUnknownPart (bl_Number l) (bl_PartNumber l))
     (Inr ())))"

definition package_Validate :: "ManufacturingPackage \<Rightarrow> (cat_error, unit) result" where
  "package_Validate p =
     guard_with (pk_Parts p = []) PkgNoParts
     (bindR (check_pkg_parts 0 [] (pk_Parts p)) (\<lambda>seen.
      guard_with (pk_BOM p = []) BomEmpty
      (bindR (check_from 0 (check_bom_line seen) (pk_BOM p)) (\<lambda>_.
       case pk_Nesting p of None \<Rightarrow> Inl PkgNoNesting | Some n \<Rightarrow>
         bindR (nesting_Validate (Some n)) (\<lambda>_.
         guard_with (ns_PartCount n \<noteq> int (length (pk_Parts p))) (PkgCount (ns_PartCount n) (length (pk_Parts p)))
         (check_all (\<lambda>s. check_all (\<lambda>pl. guard_with (pl_PartNumber pl \<notin> set seen) (PkgUnknownPart (pl_PartNumber pl)) (Inr ()))
             (ly_Placed s)) (ns_Sheets n)))))))"

end
