(* ===== verification/Slots.thy ===== *)
theory Slots
  imports Prelude
begin

text \<open>
  \<open>internal/engine/scheduler/scheduler.go\<close>: the bounded parallel executor with result slots. A task
  \<open>i\<close> either fails or writes slot \<open>i\<close>. The goroutines of the parallel path run in an order the
  program does not control: \<open>sched\<close>, the order in which they complete, is an argument. \<open>cancel i\<close> is
  the context error task \<open>i\<close> observes, if any; \<open>ctx0\<close> the one at the start. The semaphore bounds how
  many run at once and does not appear in the result.
\<close>

type_synonym ('e, 'r) task = "nat \<Rightarrow> 'e + 'r"
type_synonym ('e, 'r) slots = "'e option list \<times> 'r option list"

definition New_limit :: "int \<Rightarrow> int \<Rightarrow> int" where
  "New_limit gomaxprocs limit =
     (let l = (if limit \<le> 0 then gomaxprocs else limit) in if l < 1 then 1 else l)"

fun exec_seq :: "('e, 'r) task \<Rightarrow> nat \<Rightarrow> nat \<Rightarrow> 'r option list \<Rightarrow> 'e option \<times> 'r option list" where
  "exec_seq fn i 0 slots = (None, slots)"
| "exec_seq fn i (Suc k) slots =
     (case fn i of Inl e \<Rightarrow> (Some e, slots) | Inr r \<Rightarrow> exec_seq fn (Suc i) k (slots[i := Some r]))"

definition run_task :: "(nat \<Rightarrow> 'e option) \<Rightarrow> ('e, 'r) task \<Rightarrow> nat \<Rightarrow> ('e, 'r) slots \<Rightarrow> ('e, 'r) slots" where
  "run_task cancel fn i st =
     (case cancel i of
        Some e \<Rightarrow> ((fst st)[i := Some e], snd st)
      | None \<Rightarrow> (case fn i of
            Inl e \<Rightarrow> ((fst st)[i := Some e], snd st)
          | Inr r \<Rightarrow> (fst st, (snd st)[i := Some r])))"

fun first_error :: "'e option list \<Rightarrow> 'e option" where
  "first_error [] = None"
| "first_error (None # es) = first_error es"
| "first_error (Some e # es) = Some e"

definition Execute_slots :: "int \<Rightarrow> 'e option \<Rightarrow> (nat \<Rightarrow> 'e option) \<Rightarrow> nat list \<Rightarrow> nat \<Rightarrow> ('e, 'r) task
    \<Rightarrow> 'e option \<times> 'r option list" where
  "Execute_slots limit ctx0 cancel sched n fn =
     (let slots = replicate n None in
      if n = 0 then (None, slots)
      else if ctx0 \<noteq> None then (ctx0, slots)
      else if limit = 1 \<or> n = 1 then exec_seq fn 0 n slots
      else let st = fold (run_task cancel fn) sched (replicate n None, slots)
           in (first_error (fst st), snd st))"

subsection \<open>The order of completion does not matter\<close>

definition is_schedule :: "nat list \<Rightarrow> nat \<Rightarrow> bool" where
  "is_schedule sched n \<longleftrightarrow> distinct sched \<and> set sched = {..<n}"

definition task_error :: "('e, 'r) task \<Rightarrow> nat \<Rightarrow> 'e option" where
  "task_error fn i = (case fn i of Inl e \<Rightarrow> Some e | Inr r \<Rightarrow> None)"

definition task_result :: "('e, 'r) task \<Rightarrow> nat \<Rightarrow> 'r option" where
  "task_result fn i = (case fn i of Inl e \<Rightarrow> None | Inr r \<Rightarrow> Some r)"

lemma run_tasks_slots:
  assumes "length es = n" "length rs = n" "set sched \<subseteq> {..<n}"
  shows "fst (fold (run_task (\<lambda>_. None) fn) sched (es, rs)) =
      map (\<lambda>i. if i \<in> set sched \<and> task_error fn i \<noteq> None then task_error fn i else es ! i) [0..<n]
    \<and> snd (fold (run_task (\<lambda>_. None) fn) sched (es, rs)) =
      map (\<lambda>i. if i \<in> set sched \<and> task_result fn i \<noteq> None then task_result fn i else rs ! i) [0..<n]"
  using assms
proof (induction sched arbitrary: es rs)
  case Nil then show ?case by (auto intro!: nth_equalityI)
next
  case (Cons i js)
  define es' where "es' = fst (run_task (\<lambda>_. None) fn i (es, rs))"
  define rs' where "rs' = snd (run_task (\<lambda>_. None) fn i (es, rs))"
  have l: "length es' = n" "length rs' = n"
    using Cons.prems by (auto simp: es'_def rs'_def run_task_def split: sum.splits)
  have e: "es' ! j = (if j = i \<and> task_error fn i \<noteq> None then task_error fn i else es ! j)"
      "rs' ! j = (if j = i \<and> task_result fn i \<noteq> None then task_result fn i else rs ! j)" if "j < n" for j
    using that Cons.prems
    by (auto simp: es'_def rs'_def run_task_def task_error_def task_result_def nth_list_update split: sum.splits)
  have "fold (run_task (\<lambda>_. None) fn) (i # js) (es, rs) = fold (run_task (\<lambda>_. None) fn) js (es', rs')"
    by (simp add: es'_def rs'_def)
  then show ?case using Cons.IH[OF l] Cons.prems(3) e by auto
qed

lemma first_error_map:
  "first_error (map f xs) = (case find (\<lambda>x. f x \<noteq> None) xs of None \<Rightarrow> None | Some x \<Rightarrow> f x)"
  by (induction xs) (auto split: option.splits)

lemma first_error_None: "first_error es = None \<longleftrightarrow> (\<forall>e \<in> set es. e = None)"
  by (induction es rule: first_error.induct) auto

lemma exec_seq_spec:
  assumes "length slots = i + k"
  shows "fst (exec_seq fn i k slots) = first_error (map (task_error fn) [i..<i + k])
    \<and> (fst (exec_seq fn i k slots) = None \<longrightarrow>
        snd (exec_seq fn i k slots) = take i slots @ map (task_result fn) [i..<i + k])"
  using assms
proof (induction k arbitrary: i slots)
  case (Suc k)
  have u: "[i..<i + Suc k] = i # [Suc i..<Suc i + k]" by (simp add: upt_conv_Cons)
  show ?case
  proof (cases "fn i")
    case (Inr r)
    have "take (Suc i) (slots[i := Some r]) = take i slots @ [Some r]"
      using Suc.prems by (simp add: take_Suc_conv_app_nth)
    then show ?thesis using Suc.IH[of "slots[i := Some r]" "Suc i"] Suc.prems Inr
      unfolding u by (simp add: task_error_def task_result_def)
  next
    case (Inl e)
    then show ?thesis unfolding u by (simp add: task_error_def)
  qed
qed simp

lemma Execute_slots_spec:
  assumes "is_schedule sched n"
  shows "fst (Execute_slots limit None (\<lambda>_. None) sched n fn) = first_error (map (task_error fn) [0..<n])
    \<and> (fst (Execute_slots limit None (\<lambda>_. None) sched n fn) = None \<longrightarrow>
        snd (Execute_slots limit None (\<lambda>_. None) sched n fn) = map (task_result fn) [0..<n])"
proof (cases "n = 0 \<or> limit = 1 \<or> n = 1")
  case True
  then show ?thesis using exec_seq_spec[of "replicate n None" 0 n fn]
    by (auto simp: Execute_slots_def Let_def)
next
  case False
  have s: "fst (fold (run_task (\<lambda>_. None) fn) sched (replicate n None, replicate n None)) = map (task_error fn) [0..<n]"
    "snd (fold (run_task (\<lambda>_. None) fn) sched (replicate n None, replicate n None)) = map (task_result fn) [0..<n]"
    using run_tasks_slots[of "replicate n None" n "replicate n None" sched fn] assms
    by (auto simp: is_schedule_def)
  then show ?thesis using False by (simp add: Execute_slots_def Let_def)
qed

text \<open>C20: without cancellation the outcome does not depend on the order in which the tasks complete,
  nor on the limit: the error is that of the first failing task in index order, and without an error
  every slot holds the result of its task.\<close>

theorem slots_deterministic:
  assumes "is_schedule sched n"
  shows "case Execute_slots limit None (\<lambda>_. None) sched n fn of
      (None, slots) \<Rightarrow> map Inr (map the slots) = map fn [0..<n] \<and> length slots = n
    | (Some e, slots) \<Rightarrow> (\<exists>i < n. fn i = Inl e \<and> list_all (\<lambda>j. \<not> isl (fn j)) [0..<i])"
proof -
  have find: "\<exists>i < n. fn i = Inl e \<and> list_all (\<lambda>j. \<not> isl (fn j)) [0..<i]"
    if "first_error (map (task_error fn) [0..<n]) = Some e" for e
  proof -
    from that obtain i where i: "i < n" "task_error fn ([0..<n] ! i) = Some e"
        "\<forall>j < i. task_error fn ([0..<n] ! j) = None"
      by (auto simp: first_error_map find_Some_iff split: option.splits)
    then have "fn i = Inl e" "\<forall>j < i. \<not> isl (fn j)"
      by (auto simp: task_error_def isl_def split: sum.splits)
    then show ?thesis using i(1) by (auto simp: list_all_iff)
  qed
  have all: "map Inr (map the (map (task_result fn) [0..<n])) = map fn [0..<n]"
    if "first_error (map (task_error fn) [0..<n]) = None"
    using that by (auto simp: first_error_None task_error_def task_result_def split: sum.splits)
  obtain eo slots where e: "Execute_slots limit None (\<lambda>_. None) sched n fn = (eo, slots)" by force
  have s: "eo = first_error (map (task_error fn) [0..<n])" "eo = None \<Longrightarrow> slots = map (task_result fn) [0..<n]"
    using Execute_slots_spec[OF assms, of limit fn] unfolding e by auto
  show ?thesis
  proof (cases eo)
    case None
    then show ?thesis using s all unfolding e by simp
  next
    case (Some x)
    then show ?thesis using find[of x] s(1) unfolding e by simp
  qed
qed

theorem slots_deterministic_witness:
  "\<exists>i < (3::nat). (\<lambda>i. if i = 0 then Inr (10::nat) else Inl i) i = Inl (1::nat)
     \<and> fst (Execute_slots 4 None (\<lambda>_. None) [2, 0, 1] 3 (\<lambda>i. if i = 0 then Inr (10::nat) else Inl i)) = Some i"
proof -
  have s: "is_schedule [2, 0, 1] 3" by (auto simp: is_schedule_def)
  show ?thesis
    using slots_deterministic[OF s, where limit = 4 and fn = "\<lambda>i. if i = 0 then Inr (10::nat) else Inl i"]
    by (auto simp: Execute_slots_def run_task_def numeral_eq_Suc)
qed

end
