(* ===== verification/Mfg_Nest.thy ===== *)
theory Mfg_Nest
  imports Mfg_Catalog Slots
begin

text \<open>
  \<open>internal/engine/manufacturing/nest.go\<close>: shelf packing of a cut list on stock sheets. The built-in
  catalogue, the choice of a sheet, the packing of one group and \<open>Nest\<close>. The groups of a cut list
  are a Go map keyed by material and thickness (an association list here, keys compared as values:
  thicknesses are never NaN once they come from \<open>NewLength\<close>).
\<close>

record cutRect =
  cr_partNumber :: string
  cr_length :: f64
  cr_width :: f64

record shelf =
  sh_y :: f64
  sh_usedX :: f64
  sh_height :: f64

datatype nest_error =
    CutListEmpty | RegistryRequired | KerfNegative | Feasibility f64 f64 f64 | SheetCatalog cat_error
  | SheetUnit nat unit_error

definition DefaultKerf :: f64 where "DefaultKerf = Fin 3"

definition defaultStockSheetsMM :: "(f64 \<times> f64) list" where
  "defaultStockSheetsMM = [
     (Fin 6000, Fin 3000), (Fin 2500, Fin 1250), (Fin 8000, Fin 4600), (Fin 10400, Fin 6200),
     (Fin 3000, Fin 1500), (Fin 6000, Fin 3000), (Fin 9000, Fin 4600),
     (Fin 2500, Fin 600), (Fin 2500, Fin 1250), (Fin 6000, Fin 3000), (Fin 9000, Fin 4600)]"

definition materialsByIndex :: "nat \<Rightarrow> string" where
  "materialsByIndex i = (if i \<le> 3 then ''STEEL-S235'' else if i \<le> 6 then ''ALUM-5083'' else ''WOOD-OAK'')"

fun buildSheets :: "nat \<Rightarrow> (f64 \<times> f64) list \<Rightarrow> (nest_error, StockSheet option list) result" where
  "buildSheets i [] = Inr []"
| "buildSheets i ((x, y) # ds) =
     (case NewLength x of Inl e \<Rightarrow> Inl (SheetUnit i e) | Inr l \<Rightarrow>
      (case NewLength y of Inl e \<Rightarrow> Inl (SheetUnit i e) | Inr w \<Rightarrow>
       bindR (buildSheets (Suc i) ds) (\<lambda>ss.
         Inr (Some \<lparr>st_MaterialCode = materialsByIndex i, st_Length = l, st_Width = w\<rparr> # ss))))"

definition buildDefaultStockSheets :: "(nest_error, StockSheet option list) result" where
  "buildDefaultStockSheets = buildSheets 0 defaultStockSheetsMM"

definition DefaultStockSheetRegistry :: "(nest_error, StockSheetRegistry) result" where
  "DefaultStockSheetRegistry = bindR buildDefaultStockSheets (\<lambda>ss.
     case NewStockSheetRegistry ss of Inl e \<Rightarrow> Inl (SheetCatalog e) | Inr r \<Rightarrow> Inr r)"

subsection \<open>Choosing a sheet\<close>

definition max_dim :: "(cutRect \<Rightarrow> f64) \<Rightarrow> cutRect list \<Rightarrow> f64" where
  "max_dim f rects = fold (\<lambda>r m. if m < f r then f r else m) rects (Fin 0)"

fun pick_loop :: "f64 \<Rightarrow> f64 \<Rightarrow> StockSheet list \<Rightarrow> StockSheet option \<Rightarrow> f64 \<Rightarrow> StockSheet option" where
  "pick_loop ml mw [] best area = best"
| "pick_loop ml mw (s # ss) best area =
     (if st_Length s < ml \<or> st_Width s < mw then pick_loop ml mw ss best area
      else if st_Length s * st_Width s < area then pick_loop ml mw ss (Some s) (st_Length s * st_Width s)
      else pick_loop ml mw ss best area)"

definition pickSheetFit :: "StockSheetRegistry option \<Rightarrow> string \<Rightarrow> cutRect list \<Rightarrow> f64 \<Rightarrow> StockSheet option" where
  "pickSheetFit registry material rects kerf =
     pick_loop (max_dim cr_length rects + kerf) (max_dim cr_width rects + kerf)
       (SheetsFor registry material) None (Inf False)"

definition pickSheet :: "StockSheetRegistry option \<Rightarrow> string \<Rightarrow> cutRect list \<Rightarrow> f64 \<Rightarrow> (nest_error, StockSheet) result" where
  "pickSheet registry material rects kerf =
     (case pickSheetFit registry material rects kerf of
        Some s \<Rightarrow> Inr s
      | None \<Rightarrow> Inl (Feasibility (max_dim cr_length rects) (max_dim cr_width rects) kerf))"

definition SheetFeasible :: "StockSheetRegistry option \<Rightarrow> string \<Rightarrow> f64 \<Rightarrow> (f64 \<times> f64) list \<Rightarrow> bool" where
  "SheetFeasible registry material kerf rects =
     (pickSheetFit registry material
        (map (\<lambda>(l, w). if l < w then \<lparr>cr_partNumber = '''', cr_length = w, cr_width = l\<rparr>
                       else \<lparr>cr_partNumber = '''', cr_length = l, cr_width = w\<rparr>) rects) kerf \<noteq> None)"

definition LargestStockSheet :: "StockSheetRegistry option \<Rightarrow> string \<Rightarrow> f64 \<times> f64 \<times> bool" where
  "LargestStockSheet registry material =
     (case registry of None \<Rightarrow> (Fin 0, Fin 0, False)
      | Some r \<Rightarrow> fold (\<lambda>s (l, w, ok). (if l < st_Length s then st_Length s else l,
                                  if w < st_Width s then st_Width s else w, True))
          (SheetsFor registry material) (Fin 0, Fin 0, False))"

subsection \<open>Packing one group\<close>

text \<open>\<open>sort.SliceStable\<close> with the comparison of the code: longest first, then widest, then by number.\<close>

definition rect_less :: "cutRect \<Rightarrow> cutRect \<Rightarrow> bool" where
  "rect_less a b =
     (if \<not> feq (cr_length a) (cr_length b) then cr_length a > cr_length b
      else if \<not> feq (cr_width a) (cr_width b) then cr_width a > cr_width b
      else cr_partNumber a < cr_partNumber b)"

fun insert_stable :: "('a \<Rightarrow> 'a \<Rightarrow> bool) \<Rightarrow> 'a \<Rightarrow> 'a list \<Rightarrow> 'a list" where
  "insert_stable lt x [] = [x]"
| "insert_stable lt x (y # ys) = (if lt y x then y # insert_stable lt x ys else x # y # ys)"

definition sort_stable :: "('a \<Rightarrow> 'a \<Rightarrow> bool) \<Rightarrow> 'a list \<Rightarrow> 'a list" where
  "sort_stable lt xs = foldr (insert_stable lt) xs []"

text \<open>The loop over the open shelves: the position and the shelves with the chosen one extended.\<close>

fun place_open :: "f64 \<Rightarrow> f64 \<Rightarrow> f64 \<Rightarrow> shelf list \<Rightarrow> (f64 \<times> f64 \<times> shelf list) option" where
  "place_open sheetLen ew eh [] = None"
| "place_open sheetLen ew eh (s # ss) =
     (if sh_usedX s + ew \<le> sheetLen \<and> eh \<le> sh_height s
      then Some (sh_usedX s, sh_y s, s\<lparr>sh_usedX := sh_usedX s + ew\<rparr> # ss)
      else (case place_open sheetLen ew eh ss of
              None \<Rightarrow> None
            | Some (x, y, ss') \<Rightarrow> Some (x, y, s # ss')))"

definition newSheet :: "StockSheet \<Rightarrow> f64 \<Rightarrow> SheetLayout" where
  "newSheet sheet thickness = \<lparr>ly_MaterialCode = st_MaterialCode sheet, ly_Thickness = thickness,
     ly_Length = st_Length sheet, ly_Width = st_Width sheet, ly_Placed = []\<rparr>"

record nest_state =
  nt_layouts :: "SheetLayout list"
  nt_current :: SheetLayout
  nt_open :: "shelf list"
  nt_curY :: f64

definition placed_at :: "cutRect \<Rightarrow> f64 \<Rightarrow> f64 \<Rightarrow> PlacedPart" where
  "placed_at r x y = \<lparr>pl_PartNumber = cr_partNumber r, pl_Length = cr_length r, pl_Width = cr_width r,
     pl_X = x, pl_Y = y\<rparr>"

definition put_part :: "PlacedPart \<Rightarrow> SheetLayout \<Rightarrow> SheetLayout" where
  "put_part p l = l\<lparr>ly_Placed := ly_Placed l @ [p]\<rparr>"

definition nest_step :: "StockSheet \<Rightarrow> f64 \<Rightarrow> f64 \<Rightarrow> cutRect \<Rightarrow> nest_state \<Rightarrow> nest_state" where
  "nest_step sheet thickness kerf r st =
     (let ew = cr_length r + kerf; eh = cr_width r + kerf in
      case place_open (st_Length sheet) ew eh (nt_open st) of
        Some (x, y, open') \<Rightarrow> st\<lparr>nt_current := put_part (placed_at r x y) (nt_current st), nt_open := open'\<rparr>
      | None \<Rightarrow>
          (let st1 = (if nt_curY st + eh > st_Width sheet
                 then \<lparr>nt_layouts = nt_layouts st @ [nt_current st], nt_current = newSheet sheet thickness,
                       nt_open = [], nt_curY = Fin 0\<rparr>
                 else st) in
           \<lparr>nt_layouts = nt_layouts st1,
            nt_current = put_part (placed_at r (Fin 0) (nt_curY st1)) (nt_current st1),
            nt_open = nt_open st1 @ [\<lparr>sh_y = nt_curY st1, sh_usedX = ew, sh_height = eh\<rparr>],
            nt_curY = nt_curY st1 + eh\<rparr>))"

definition nestGroup :: "cutRect list \<Rightarrow> StockSheet \<Rightarrow> f64 \<Rightarrow> f64 \<Rightarrow> SheetLayout list" where
  "nestGroup rects sheet thickness kerf =
     (let st = fold (nest_step sheet thickness kerf) (sort_stable rect_less rects)
           \<lparr>nt_layouts = [], nt_current = newSheet sheet thickness, nt_open = [], nt_curY = Fin 0\<rparr>
      in nt_layouts st @ [nt_current st])"

subsection \<open>\<open>Nest\<close>\<close>

type_synonym group_key = "string \<times> f64"
type_synonym groups = "(group_key \<times> cutRect list) list"

definition group_of :: "groups \<Rightarrow> group_key \<Rightarrow> cutRect list" where
  "group_of gs k = (case map_of gs k of None \<Rightarrow> [] | Some rs \<Rightarrow> rs)"

definition item_rect :: "CutItem \<Rightarrow> cutRect" where
  "item_rect it = \<lparr>cr_partNumber = ci_PartNumber it, cr_length = ci_Length it, cr_width = ci_Width it\<rparr>"

definition item_key :: "CutItem \<Rightarrow> group_key" where
  "item_key it = (ci_MaterialCode it, ci_Thickness it)"

definition group_step :: "CutItem \<Rightarrow> group_key list \<times> groups \<Rightarrow> group_key list \<times> groups" where
  "group_step it st = (case st of (order, gs) \<Rightarrow>
     let k = item_key it in
     (if map_of gs k = None then order @ [k] else order,
      fold (\<lambda>r g. mput k (group_of g k @ [r]) g) (replicate (nat (ci_Quantity it)) (item_rect it)) gs))"

definition group_items :: "CutItem list \<Rightarrow> group_key list \<times> groups" where
  "group_items items = fold group_step items ([], [])"

definition add_layout :: "SheetLayout \<Rightarrow> NestingResult \<Rightarrow> NestingResult" where
  "add_layout l r = r\<lparr>ns_Sheets := ns_Sheets r @ [l],
     ns_PartCount := ns_PartCount r + int (length (ly_Placed l)),
     ns_SheetArea := ns_SheetArea r + ly_Length l * ly_Width l,
     ns_PartArea := fold (\<lambda>p a. a + pl_Length p * pl_Width p) (ly_Placed l) (ns_PartArea r)\<rparr>"

definition empty_nesting :: NestingResult where
  "empty_nesting = \<lparr>ns_Sheets = [], ns_PartCount = 0, ns_PartArea = Fin 0, ns_SheetArea = Fin 0,
     ns_WasteArea = Fin 0, ns_Utilization = Fin 0\<rparr>"

definition Nest :: "int \<Rightarrow> nat list \<Rightarrow> CutItem list \<Rightarrow> StockSheetRegistry option \<Rightarrow> f64
    \<Rightarrow> (nest_error, NestingResult) result" where
  "Nest gomaxprocs sched items registry kerf =
     guard_with (items = []) CutListEmpty
     (guard_with (registry = None) RegistryRequired
     (guard_with (isNaN kerf \<or> isInf kerf \<or> kerf < 0) KerfNegative
     (case group_items items of (order, gs) \<Rightarrow>
      if order = [] then Inr empty_nesting
      else
       (let task = (\<lambda>i. let k = order ! i; rects = group_of gs k in
              bindR (pickSheet registry (fst k) rects kerf) (\<lambda>sheet. Inr (nestGroup rects sheet (snd k) kerf)))
        in case Execute_slots (New_limit gomaxprocs 0) None (\<lambda>_. None) sched (length order) task of
             (Some e, slots) \<Rightarrow> Inl e
           | (None, slots) \<Rightarrow>
               (let r = fold (\<lambda>ls r. fold add_layout (case ls of None \<Rightarrow> [] | Some l \<Rightarrow> l) r) slots empty_nesting;
                    r1 = r\<lparr>ns_WasteArea := ns_SheetArea r - ns_PartArea r\<rparr>
                in Inr (if ns_SheetArea r1 > 0 then r1\<lparr>ns_Utilization := ns_PartArea r1 / ns_SheetArea r1\<rparr> else r1))))))"

subsection \<open>Sorting and choosing\<close>

lemma mset_insert_stable: "mset (insert_stable lt x ys) = add_mset x (mset ys)"
  by (induction ys) auto

lemma mset_sort_stable [simp]: "mset (sort_stable lt xs) = mset xs"
  by (induction xs) (auto simp: sort_stable_def mset_insert_stable)

lemma set_sort_stable [simp]: "set (sort_stable lt xs) = set xs"
  by (metis mset_sort_stable set_mset_mset)

definition rect_ok :: "cutRect \<Rightarrow> bool" where
  "rect_ok r \<longleftrightarrow> len_ok (cr_length r) \<and> len_ok (cr_width r)"

definition sheet_ok :: "StockSheet \<Rightarrow> bool" where
  "sheet_ok s \<longleftrightarrow> len_ok (st_Length s) \<and> len_ok (st_Width s)"

text \<open>A rectangle fits a sheet when its sides, each with the kerf, do.\<close>

definition fits :: "f64 \<Rightarrow> StockSheet \<Rightarrow> cutRect \<Rightarrow> bool" where
  "fits kerf s r \<longleftrightarrow> cr_length r + kerf \<le> st_Length s \<and> cr_width r + kerf \<le> st_Width s"

lemma max_dim_spec:
  assumes "list_all rect_ok rects" "f = cr_length \<or> f = cr_width"
  shows "len_ok (max_dim f rects) \<and> (\<forall>r \<in> set rects. f r \<le> max_dim f rects)"
  using flen.fold_max[of "Fin 0" rects f] assms
  by (auto simp: max_dim_def list_all_iff rect_ok_def flen.ok_nil)

lemma pick_loop_Some:
  assumes "pick_loop ml mw ss best area = Some s"
  shows "best = Some s \<or> s \<in> set ss \<and> \<not> st_Length s < ml \<and> \<not> st_Width s < mw"
  using assms by (induction ml mw ss best area rule: pick_loop.induct) (auto split: if_splits)

lemma pickSheetFit_fits:
  assumes s: "pickSheetFit registry material rects kerf = Some s" "list_all rect_ok rects" "len_ok kerf"
    and so: "list_all sheet_ok (SheetsFor registry material)"
  shows "s \<in> set (SheetsFor registry material) \<and> list_all (fits kerf s) rects"
proof -
  note p = pick_loop_Some[OF s(1)[unfolded pickSheetFit_def], simplified]
  then have ok: "sheet_ok s" using so by (auto simp: list_all_iff)
  have "f r + kerf \<le> d"
    if f: "f = cr_length \<or> f = cr_width" and r: "r \<in> set rects" and d: "len_ok d" "\<not> d < max_dim f rects + kerf" for f r d
  proof -
    have m: "len_ok (max_dim f rects)" "f r \<le> max_dim f rects" "len_ok (f r)"
      using max_dim_spec[OF s(2) f] r f s(2) by (auto simp: list_all_iff rect_ok_def)
    have "max_dim f rects + kerf \<le> d"
      using d flen.lt_iff[OF d(1), of "max_dim f rects + kerf"] flen.ok_add[OF m(1) s(3)] by simp
    then show ?thesis using flen.add_left[OF m(3,1) s(3) m(2)] f64_trans by blast
  qed
  then show ?thesis using p ok by (auto simp: list_all_iff fits_def sheet_ok_def)
qed

subsection \<open>What a packed sheet is\<close>

text \<open>Two placed parts are apart when one ends, kerf included, before the other begins along one axis.\<close>

definition apart :: "f64 \<Rightarrow> PlacedPart \<Rightarrow> PlacedPart \<Rightarrow> bool" where
  "apart kerf p q \<longleftrightarrow>
     pl_X p + (pl_Length p + kerf) \<le> pl_X q \<or> pl_X q + (pl_Length q + kerf) \<le> pl_X p
     \<or> pl_Y p + (pl_Width p + kerf) \<le> pl_Y q \<or> pl_Y q + (pl_Width q + kerf) \<le> pl_Y p"

definition inside :: "f64 \<Rightarrow> SheetLayout \<Rightarrow> PlacedPart \<Rightarrow> bool" where
  "inside kerf l p \<longleftrightarrow> 0 \<le> pl_X p \<and> 0 \<le> pl_Y p
     \<and> pl_X p + (pl_Length p + kerf) \<le> ly_Length l \<and> pl_Y p + (pl_Width p + kerf) \<le> ly_Width l"

definition layout_ok :: "f64 \<Rightarrow> SheetLayout \<Rightarrow> bool" where
  "layout_ok kerf l \<longleftrightarrow> list_all (inside kerf l) (ly_Placed l) \<and> sorted_wrt (apart kerf) (ly_Placed l)"

definition rect_of :: "PlacedPart \<Rightarrow> cutRect" where
  "rect_of p = \<lparr>cr_partNumber = pl_PartNumber p, cr_length = pl_Length p, cr_width = pl_Width p\<rparr>"

definition layout_rects :: "SheetLayout \<Rightarrow> cutRect list" where
  "layout_rects l = map rect_of (ly_Placed l)"

text \<open>A part lies on an open shelf: at its height, left of what is used.\<close>

definition on_shelf :: "f64 \<Rightarrow> PlacedPart \<Rightarrow> shelf \<Rightarrow> bool" where
  "on_shelf kerf p s \<longleftrightarrow> pl_Y p = sh_y s \<and> pl_Width p + kerf \<le> sh_height s
     \<and> pl_X p + (pl_Length p + kerf) \<le> sh_usedX s"

definition part_ok :: "PlacedPart \<Rightarrow> bool" where
  "part_ok p \<longleftrightarrow> len_ok (pl_X p) \<and> len_ok (pl_Y p) \<and> len_ok (pl_Length p) \<and> len_ok (pl_Width p)"

definition shelf_ok :: "f64 \<Rightarrow> f64 \<Rightarrow> shelf \<Rightarrow> bool" where
  "shelf_ok sl cy s \<longleftrightarrow> len_ok (sh_y s) \<and> len_ok (sh_usedX s) \<and> len_ok (sh_height s)
     \<and> sh_usedX s \<le> sl \<and> sh_y s + sh_height s \<le> cy"

definition below :: "shelf \<Rightarrow> shelf \<Rightarrow> bool" where
  "below s t \<longleftrightarrow> sh_y s + sh_height s \<le> sh_y t"

definition shelves_inv :: "f64 \<Rightarrow> StockSheet \<Rightarrow> nest_state \<Rightarrow> bool" where
  "shelves_inv kerf sheet st \<longleftrightarrow>
     len_ok (nt_curY st) \<and> nt_curY st \<le> st_Width sheet
     \<and> list_all (shelf_ok (st_Length sheet) (nt_curY st)) (nt_open st) \<and> sorted_wrt below (nt_open st)
     \<and> list_all (\<lambda>p. part_ok p \<and> list_ex (on_shelf kerf p) (nt_open st)) (ly_Placed (nt_current st))
     \<and> ly_Length (nt_current st) = st_Length sheet \<and> ly_Width (nt_current st) = st_Width sheet
     \<and> layout_ok kerf (nt_current st) \<and> list_all (layout_ok kerf) (nt_layouts st)"

lemma place_open_Some:
  assumes "place_open sl ew eh ss = Some (x, y, ss')"
  shows "\<exists>as s bs. ss = as @ s # bs \<and> ss' = as @ s\<lparr>sh_usedX := sh_usedX s + ew\<rparr> # bs \<and> x = sh_usedX s
    \<and> y = sh_y s \<and> sh_usedX s + ew \<le> sl \<and> eh \<le> sh_height s"
  using assms
proof (induction ss arbitrary: ss')
  case (Cons s ss)
  show ?case
  proof (cases "sh_usedX s + ew \<le> sl \<and> eh \<le> sh_height s")
    case True
    then show ?thesis using Cons.prems by (intro exI[of _ "[]"] exI[of _ s] exI[of _ ss]) auto
  next
    case False
    then obtain t where t: "place_open sl ew eh ss = Some (x, y, t)" "ss' = s # t"
      using Cons.prems by (auto split: option.splits)
    from Cons.IH[OF t(1)] obtain as u bs where "ss = as @ u # bs" "t = as @ u\<lparr>sh_usedX := sh_usedX u + ew\<rparr> # bs"
      "x = sh_usedX u" "y = sh_y u" "sh_usedX u + ew \<le> sl" "eh \<le> sh_height u" by blast
    then show ?thesis using t(2) by (intro exI[of _ "s # as"] exI[of _ u] exI[of _ bs]) simp
  qed
qed simp

lemma fits_okD:
  assumes "rect_ok r" "len_ok kerf"
  shows "len_ok (cr_length r)" "len_ok (cr_width r)" "len_ok (cr_length r + kerf)" "len_ok (cr_width r + kerf)"
  using assms by (auto simp: rect_ok_def flen.ok_add)

lemma stacked_apart:
  assumes q: "on_shelf kerf q t" "part_ok q" and t: "len_ok (sh_y t)" "len_ok (sh_height t)" and k: "len_ok kerf"
    and "sh_y t + sh_height t \<le> y"
  shows "pl_Y q + (pl_Width q + kerf) \<le> y"
proof -
  have "sh_y t + (pl_Width q + kerf) \<le> sh_y t + sh_height t"
    using q t k by (intro flen.add_right) (auto simp: on_shelf_def part_ok_def flen.ok_add)
  then show ?thesis using q(1) assms(6) f64_trans by (auto simp: on_shelf_def)
qed

lemma layout_ok_put:
  assumes "layout_ok kerf l" "inside kerf l p" "\<And>q. q \<in> set (ly_Placed l) \<Longrightarrow> apart kerf q p"
  shows "layout_ok kerf (put_part p l)"
  using assms by (auto simp: layout_ok_def put_part_def inside_def sorted_wrt_append list_all_iff)

lemma put_part_fields [simp]:
  "ly_Placed (put_part p l) = ly_Placed l @ [p]" "ly_Length (put_part p l) = ly_Length l"
  "ly_Width (put_part p l) = ly_Width l" "ly_MaterialCode (put_part p l) = ly_MaterialCode l"
  "ly_Thickness (put_part p l) = ly_Thickness l"
  by (simp_all add: put_part_def)

lemma on_existing_shelf:
  assumes I: "shelves_inv kerf sheet st" and k: "len_ok kerf" and r: "rect_ok r"
    and po: "place_open (st_Length sheet) (cr_length r + kerf) (cr_width r + kerf) (nt_open st) = Some (x, y, op')"
  shows "shelves_inv kerf sheet (st\<lparr>nt_current := put_part (placed_at r x y) (nt_current st), nt_open := op'\<rparr>)"
proof -
  let ?ew = "cr_length r + kerf" and ?eh = "cr_width r + kerf" and ?p = "placed_at r x y"
  obtain as s bs where o: "nt_open st = as @ s # bs" "op' = as @ s\<lparr>sh_usedX := sh_usedX s + ?ew\<rparr> # bs"
    "x = sh_usedX s" "y = sh_y s" "sh_usedX s + ?ew \<le> st_Length sheet" "?eh \<le> sh_height s"
    using place_open_Some[OF po] by blast
  note ok = fits_okD[OF r k]
  have sh: "len_ok (sh_y t) \<and> len_ok (sh_usedX t) \<and> len_ok (sh_height t) \<and> sh_usedX t \<le> st_Length sheet
      \<and> sh_y t + sh_height t \<le> nt_curY st" if "t \<in> set (nt_open st)" for t
    using I that by (auto simp: shelves_inv_def list_all_iff shelf_ok_def)
  have s: "s \<in> set (nt_open st)" using o(1) by simp
  have srt: "sorted_wrt below (as @ s # bs)" using I o(1) by (simp add: shelves_inv_def)
  have grow: "sh_usedX s \<le> sh_usedX s + ?ew" using sh[OF s] ok by (intro flen.le_add) auto
  have used: "len_ok (sh_usedX s + ?ew)" using sh[OF s] ok k by (intro flen.ok_add) auto
  have pok: "part_ok ?p" using sh[OF s] ok by (simp add: part_ok_def placed_at_def o)
  have pon: "on_shelf kerf ?p s'" if "s' = s\<lparr>sh_usedX := sh_usedX s + ?ew\<rparr>" for s'
    using that used by (simp add: on_shelf_def placed_at_def o flen.le_refl)
  have up: "sh_y s + ?eh \<le> sh_y s + sh_height s" using sh[OF s] ok o(6) by (intro flen.add_right) auto
  have top: "sh_y s + ?eh \<le> st_Width sheet"
    using up sh[OF s] I f64_trans by (metis shelves_inv_def)
  have "inside kerf (nt_current st) ?p"
    using pok top o(5) I by (auto simp: inside_def placed_at_def o part_ok_def shelves_inv_def zero_f64_def flen.nil_le)
  moreover have "apart kerf q ?p" if q: "q \<in> set (ly_Placed (nt_current st))" for q
  proof -
    obtain t where t: "t \<in> set (nt_open st)" "on_shelf kerf q t" and qok: "part_ok q"
      using I q by (auto simp: shelves_inv_def list_all_iff list_ex_iff)
    consider "t = s" | "below t s" | "below s t" using t(1) srt o(1) by (auto simp: sorted_wrt_append)
    then show ?thesis
    proof cases
      case 1 then show ?thesis using t(2) by (simp add: apart_def on_shelf_def placed_at_def o)
    next
      case 2
      then show ?thesis using stacked_apart[OF t(2) qok, of "sh_y s"] sh[OF t(1)] k
        by (simp add: apart_def below_def placed_at_def o)
    next
      case 3
      then have "sh_y s + ?eh \<le> pl_Y q" using up t(2) f64_trans by (metis below_def on_shelf_def)
      then show ?thesis by (simp add: apart_def placed_at_def o)
    qed
  qed
  ultimately have L: "layout_ok kerf (put_part ?p (nt_current st))"
    using I by (intro layout_ok_put) (auto simp: shelves_inv_def)
  have keep: "list_ex (on_shelf kerf q) op'" if "list_ex (on_shelf kerf q) (nt_open st)" for q
    using that grow f64_trans by (force simp: o on_shelf_def)
  have new: "list_ex (on_shelf kerf ?p) op'" using pon by (simp add: o)
  have shs: "list_all (shelf_ok (st_Length sheet) (nt_curY st)) op'"
    using I o(5) used by (auto simp: shelves_inv_def o shelf_ok_def)
  have srt': "sorted_wrt below op'" using srt by (auto simp: o sorted_wrt_append below_def)
  show ?thesis using I L shs srt' keep new pok by (simp add: shelves_inv_def list_all_iff)
qed

lemma on_new_shelf:
  assumes I: "shelves_inv kerf sheet st" and k: "len_ok kerf" and r: "rect_ok r" and f: "fits kerf sheet r"
    and room: "nt_curY st + (cr_width r + kerf) \<le> st_Width sheet"
  shows "shelves_inv kerf sheet \<lparr>nt_layouts = nt_layouts st,
      nt_current = put_part (placed_at r (Fin 0) (nt_curY st)) (nt_current st),
      nt_open = nt_open st @ [\<lparr>sh_y = nt_curY st, sh_usedX = cr_length r + kerf, sh_height = cr_width r + kerf\<rparr>],
      nt_curY = nt_curY st + (cr_width r + kerf)\<rparr>"
proof -
  let ?ew = "cr_length r + kerf" and ?eh = "cr_width r + kerf"
  let ?p = "placed_at r (Fin 0) (nt_curY st)" and ?s = "\<lparr>sh_y = nt_curY st, sh_usedX = ?ew, sh_height = ?eh\<rparr>"
  note ok = fits_okD[OF r k]
  have cy: "len_ok (nt_curY st)" "len_ok (nt_curY st + ?eh)" using I ok by (auto simp: shelves_inv_def flen.ok_add)
  have rise: "nt_curY st \<le> nt_curY st + ?eh" using cy(1) ok(4) by (rule flen.le_add)
  have sh: "len_ok (sh_y t) \<and> len_ok (sh_usedX t) \<and> len_ok (sh_height t) \<and> sh_usedX t \<le> st_Length sheet
      \<and> sh_y t + sh_height t \<le> nt_curY st" if "t \<in> set (nt_open st)" for t
    using I that by (auto simp: shelves_inv_def list_all_iff shelf_ok_def)
  have z: "Fin 0 + ?ew = ?ew" using ok(3) by (rule flen.nil_add)
  have fl: "?ew \<le> st_Length sheet" using f by (simp add: fits_def)
  have pok: "part_ok ?p" using cy ok by (simp add: part_ok_def placed_at_def flen.ok_nil)
  have pon: "on_shelf kerf ?p ?s" using ok z by (simp add: on_shelf_def placed_at_def flen.le_refl)
  have "inside kerf (nt_current st) ?p"
    using pok room fl z I by (auto simp: inside_def placed_at_def part_ok_def shelves_inv_def zero_f64_def flen.nil_le)
  moreover have "apart kerf q ?p" if q: "q \<in> set (ly_Placed (nt_current st))" for q
  proof -
    obtain t where t: "t \<in> set (nt_open st)" "on_shelf kerf q t" and qok: "part_ok q"
      using I q by (auto simp: shelves_inv_def list_all_iff list_ex_iff)
    show ?thesis using stacked_apart[OF t(2) qok, of "nt_curY st"] sh[OF t(1)] k
      by (simp add: apart_def placed_at_def)
  qed
  ultimately have L: "layout_ok kerf (put_part ?p (nt_current st))"
    using I by (intro layout_ok_put) (auto simp: shelves_inv_def)
  have shs: "list_all (shelf_ok (st_Length sheet) (nt_curY st + ?eh)) (nt_open st @ [?s])"
    using sh cy ok fl rise f64_trans flen.le_refl[OF cy(2)] by (auto simp: list_all_iff shelf_ok_def)
  have srt: "sorted_wrt below (nt_open st @ [?s])"
    using I sh by (auto simp: sorted_wrt_append below_def shelves_inv_def)
  show ?thesis using I L shs srt pon pok cy room by (auto simp: shelves_inv_def list_all_iff)
qed

lemma nest_step_inv:
  assumes I: "shelves_inv kerf sheet st" and k: "len_ok kerf" and r: "rect_ok r" and f: "fits kerf sheet r"
    and so: "sheet_ok sheet"
  shows "shelves_inv kerf sheet (nest_step sheet thickness kerf r st)"
proof (cases "place_open (st_Length sheet) (cr_length r + kerf) (cr_width r + kerf) (nt_open st)")
  case (Some z)
  obtain x y op' where z: "z = (x, y, op')" by (cases z)
  show ?thesis using on_existing_shelf[OF I k r Some[unfolded z]] Some
    by (simp add: nest_step_def Let_def z)
next
  case None
  note ok = fits_okD[OF r k]
  define st1 where "st1 = (if nt_curY st + (cr_width r + kerf) > st_Width sheet
      then \<lparr>nt_layouts = nt_layouts st @ [nt_current st], nt_current = newSheet sheet thickness,
            nt_open = [], nt_curY = Fin 0\<rparr> else st)"
  have z: "Fin 0 + (cr_width r + kerf) = cr_width r + kerf" using ok(4) by (rule flen.nil_add)
  have "shelves_inv kerf sheet st1 \<and> nt_curY st1 + (cr_width r + kerf) \<le> st_Width sheet"
  proof (cases "nt_curY st + (cr_width r + kerf) > st_Width sheet")
    case True
    have "Fin 0 \<le> st_Width sheet" using so by (simp add: sheet_ok_def flen.nil_le)
    then show ?thesis using True I f z
      by (auto simp: st1_def shelves_inv_def newSheet_def layout_ok_def fits_def flen.ok_nil)
  next
    case False
    have "len_ok (nt_curY st + (cr_width r + kerf))" using I ok k by (intro flen.ok_add) (auto simp: shelves_inv_def)
    then have "nt_curY st + (cr_width r + kerf) \<le> st_Width sheet"
      using False so flen.lt_iff by (auto simp: sheet_ok_def)
    then show ?thesis using False I by (simp add: st1_def)
  qed
  then have "shelves_inv kerf sheet \<lparr>nt_layouts = nt_layouts st1,
      nt_current = put_part (placed_at r (Fin 0) (nt_curY st1)) (nt_current st1),
      nt_open = nt_open st1 @ [\<lparr>sh_y = nt_curY st1, sh_usedX = cr_length r + kerf, sh_height = cr_width r + kerf\<rparr>],
      nt_curY = nt_curY st1 + (cr_width r + kerf)\<rparr>"
    using on_new_shelf[OF _ k r f] by blast
  then show ?thesis using None by (simp add: nest_step_def Let_def st1_def)
qed

definition all_rects :: "nest_state \<Rightarrow> cutRect list" where
  "all_rects st = concat (map layout_rects (nt_layouts st)) @ layout_rects (nt_current st)"

lemma nest_step_rects: "all_rects (nest_step sheet thickness kerf r st) = all_rects st @ [r]"
proof -
  have "rect_of (placed_at r x y) = r" for x y by (simp add: rect_of_def placed_at_def)
  then show ?thesis
    by (auto simp: nest_step_def Let_def all_rects_def layout_rects_def newSheet_def split: option.splits)
qed

definition of_sheet :: "StockSheet \<Rightarrow> f64 \<Rightarrow> SheetLayout \<Rightarrow> bool" where
  "of_sheet sheet thickness l \<longleftrightarrow> ly_MaterialCode l = st_MaterialCode sheet \<and> ly_Thickness l = thickness
     \<and> ly_Length l = st_Length sheet \<and> ly_Width l = st_Width sheet"

lemma nest_step_sheets:
  "of_sheet sheet thickness (nt_current st) \<and> list_all (of_sheet sheet thickness) (nt_layouts st) \<Longrightarrow>
   of_sheet sheet thickness (nt_current (nest_step sheet thickness kerf r st))
   \<and> list_all (of_sheet sheet thickness) (nt_layouts (nest_step sheet thickness kerf r st))"
  by (auto simp: nest_step_def Let_def of_sheet_def newSheet_def split: option.splits)

lemma nest_fold:
  assumes "list_all rect_ok rs" "list_all (fits kerf sheet) rs" "len_ok kerf" "sheet_ok sheet" "shelves_inv kerf sheet st"
    and "of_sheet sheet thickness (nt_current st)" "list_all (of_sheet sheet thickness) (nt_layouts st)"
  shows "shelves_inv kerf sheet (fold (nest_step sheet thickness kerf) rs st)
    \<and> all_rects (fold (nest_step sheet thickness kerf) rs st) = all_rects st @ rs
    \<and> of_sheet sheet thickness (nt_current (fold (nest_step sheet thickness kerf) rs st))
    \<and> list_all (of_sheet sheet thickness) (nt_layouts (fold (nest_step sheet thickness kerf) rs st))"
  using assms
proof (induction rs arbitrary: st)
  case (Cons r rs)
  then show ?case
    using nest_step_inv[of kerf sheet st r thickness] nest_step_sheets[of sheet thickness st kerf r]
    by (simp add: nest_step_rects)
qed simp

lemma nestGroup_ok:
  assumes "list_all rect_ok rects" "list_all (fits kerf sheet) rects" "len_ok kerf" "sheet_ok sheet"
  shows "list_all (layout_ok kerf) (nestGroup rects sheet thickness kerf)
    \<and> list_all (of_sheet sheet thickness) (nestGroup rects sheet thickness kerf)
    \<and> mset (concat (map layout_rects (nestGroup rects sheet thickness kerf))) = mset rects"
proof -
  let ?st0 = "\<lparr>nt_layouts = [], nt_current = newSheet sheet thickness, nt_open = [], nt_curY = Fin 0\<rparr>"
  have s: "list_all rect_ok (sort_stable rect_less rects)" "list_all (fits kerf sheet) (sort_stable rect_less rects)"
    using assms by (simp_all add: list_all_iff)
  have "shelves_inv kerf sheet ?st0"
    using assms(4) by (auto simp: shelves_inv_def newSheet_def layout_ok_def sheet_ok_def flen.ok_nil flen.nil_le)
  moreover have "of_sheet sheet thickness (nt_current ?st0)" by (simp add: of_sheet_def newSheet_def)
  ultimately have F: "shelves_inv kerf sheet (fold (nest_step sheet thickness kerf) (sort_stable rect_less rects) ?st0)
    \<and> all_rects (fold (nest_step sheet thickness kerf) (sort_stable rect_less rects) ?st0)
        = all_rects ?st0 @ sort_stable rect_less rects
    \<and> of_sheet sheet thickness (nt_current (fold (nest_step sheet thickness kerf) (sort_stable rect_less rects) ?st0))
    \<and> list_all (of_sheet sheet thickness) (nt_layouts (fold (nest_step sheet thickness kerf) (sort_stable rect_less rects) ?st0))"
    using nest_fold[OF s assms(3,4)] by simp
  have "all_rects ?st0 = []" by (simp add: all_rects_def layout_rects_def newSheet_def)
  then show ?thesis using F by (simp add: nestGroup_def Let_def shelves_inv_def all_rects_def)
qed

subsection \<open>Grouping\<close>

definition item_rects :: "CutItem \<Rightarrow> cutRect list" where
  "item_rects it = replicate (nat (ci_Quantity it)) (item_rect it)"

lemma group_of_mput [simp]: "group_of (mput k v gs) j = (if j = k then v else group_of gs j)"
  by (simp add: group_of_def)

lemma group_fold:
  "group_of (fold (\<lambda>r g. mput k (group_of g k @ [r]) g) rs gs) j = (if j = k then group_of gs k @ rs else group_of gs j)
   \<and> (map_of (fold (\<lambda>r g. mput k (group_of g k @ [r]) g) rs gs) j = None \<longleftrightarrow>
       map_of gs j = None \<and> (j = k \<longrightarrow> rs = []))"
  by (induction rs arbitrary: gs) auto

definition groups_inv :: "CutItem list \<Rightarrow> group_key list \<times> groups \<Rightarrow> bool" where
  "groups_inv items st \<longleftrightarrow> distinct (fst st) \<and> set (fst st) = {k. map_of (snd st) k \<noteq> None}
     \<and> set (fst st) = item_key ` set items
     \<and> mset (concat (map (group_of (snd st)) (fst st))) = mset (concat (map item_rects items))"

lemma group_step_inv:
  assumes "groups_inv done st" "0 < ci_Quantity it"
  shows "groups_inv (done @ [it]) (group_step it st)"
proof -
  obtain order gs where st: "st = (order, gs)" by (cases st)
  let ?k = "item_key it" and ?rs = "item_rects it"
  define gs' where "gs' = fold (\<lambda>r g. mput ?k (group_of g ?k @ [r]) g) ?rs gs"
  define order' where "order' = (if map_of gs ?k = None then order @ [?k] else order)"
  have e: "group_step it st = (order', gs')"
    by (simp add: group_step_def st Let_def gs'_def order'_def item_rects_def)
  have I: "distinct order" "set order = {k. map_of gs k \<noteq> None}" "set order = item_key ` set done"
    "mset (concat (map (group_of gs) order)) = mset (concat (map item_rects done))"
    using assms(1) unfolding groups_inv_def st by auto
  have g: "group_of gs' j = (if j = ?k then group_of gs ?k @ ?rs else group_of gs j)" for j
    by (simp add: gs'_def group_fold)
  have d: "map_of gs' j = None \<longleftrightarrow> map_of gs j = None \<and> j \<noteq> ?k" for j
  proof -
    have "?rs \<noteq> []" using assms(2) by (simp add: item_rects_def)
    then show ?thesis unfolding gs'_def group_fold[THEN conjunct2] by auto
  qed
  have "mset (concat (map (group_of gs') order')) = mset (concat (map (group_of gs) order)) + mset ?rs"
  proof (cases "map_of gs ?k")
    case None
    then have "?k \<notin> set order" using I(2) by auto
    then have m: "map (group_of gs') order = map (group_of gs) order" using g by (intro map_cong) auto
    have z: "group_of gs ?k = []" using None by (simp add: group_of_def)
    show ?thesis using None g[of ?k] by (simp add: order'_def m z)
  next
    case (Some v)
    then have "?k \<in> set order" using I(2) by auto
    then obtain as bs where o: "order = as @ ?k # bs" by (meson split_list)
    then have m: "map (group_of gs') as = map (group_of gs) as" "map (group_of gs') bs = map (group_of gs) bs"
      using I(1) g by (auto intro!: map_cong)
    show ?thesis using Some g[of ?k] by (simp add: order'_def o m)
  qed
  moreover have "distinct order'" "set order' = {k. map_of gs' k \<noteq> None}"
    using I(1,2) d by (auto simp: order'_def)
  moreover have "set order' = item_key ` set (done @ [it])"
    using I(2,3) by (auto simp: order'_def)
  ultimately show ?thesis unfolding e groups_inv_def using I(4) by simp
qed

lemma group_items_inv:
  assumes "list_all (\<lambda>it. 0 < ci_Quantity it) items"
  shows "groups_inv items (group_items items)"
proof -
  have "groups_inv (done @ items) (fold group_step items st)"
    if "groups_inv done st" "list_all (\<lambda>it. 0 < ci_Quantity it) items" for "done" st
    using that
  proof (induction items arbitrary: "done" st)
    case (Cons it items)
    then have "groups_inv (done @ [it]) (group_step it st)" by (intro group_step_inv) simp_all
    then show ?case using Cons.IH[of "done @ [it]" "group_step it st"] Cons.prems(2) by simp
  qed simp
  moreover have "groups_inv [] ([], [])" by (simp add: groups_inv_def)
  ultimately show ?thesis using assms unfolding group_items_def by (metis append_Nil)
qed

lemma group_rects_ok:
  assumes "groups_inv items (order, gs)" "k \<in> set order" "list_all (\<lambda>it. rect_ok (item_rect it)) items"
  shows "list_all rect_ok (group_of gs k)"
proof -
  have "set (group_of gs k) \<subseteq> set (concat (map (group_of gs) order))" using assms(2) by auto
  also have "\<dots> = set (concat (map item_rects items))"
    using assms(1) by (metis groups_inv_def prod.sel set_mset_mset)
  finally show ?thesis using assms(3) by (auto simp: list_all_iff item_rects_def)
qed

subsection \<open>The result\<close>

lemma add_layouts:
  "ns_Sheets (fold add_layout ls r) = ns_Sheets r @ ls"
  "ns_PartCount (fold add_layout ls r) = ns_PartCount r + int (length (concat (map ly_Placed ls)))"
  by (induction ls arbitrary: r) (auto simp: add_layout_def)

lemma add_slots:
  "ns_Sheets (fold (\<lambda>ls r. fold add_layout (case ls of None \<Rightarrow> [] | Some l \<Rightarrow> l) r) (map Some lss) r)
     = ns_Sheets r @ concat lss
   \<and> ns_PartCount (fold (\<lambda>ls r. fold add_layout (case ls of None \<Rightarrow> [] | Some l \<Rightarrow> l) r) (map Some lss) r)
     = ns_PartCount r + int (length (concat (map ly_Placed (concat lss))))"
  by (induction lss arbitrary: r) (auto simp: add_layouts)

lemma find_upt_error:
  assumes "first_error (map f [0..<n]) = Some e"
  shows "\<exists>i < n. f i = Some e \<and> list_all (\<lambda>j. f j = None) [0..<i]"
proof -
  from assms obtain i where "i < n" "f ([0..<n] ! i) = Some e" "\<forall>j < i. f ([0..<n] ! j) = None"
    by (auto simp: first_error_map find_Some_iff split: option.splits)
  then show ?thesis by (auto simp: list_all_iff)
qed

lemma mset_concat_groups:
  assumes "\<And>k. k \<in> set ks \<Longrightarrow> mset (concat (map f (g k))) = mset (h k)"
  shows "mset (concat (map f (concat (map g ks)))) = mset (concat (map h ks))"
  using assms by (induction ks) simp_all

lemma groups_invD:
  assumes "groups_inv items (order, gs)"
  shows "distinct order" "set order = item_key ` set items"
    "mset (concat (map (group_of gs) order)) = mset (concat (map item_rects items))"
  using assms unfolding groups_inv_def by auto

text \<open>What the packing relies on: a usable kerf, cut items with representable sides and positive
  quantities, and a catalogue whose sheets have representable sides.\<close>

definition nest_input :: "CutItem list \<Rightarrow> StockSheetRegistry \<Rightarrow> f64 \<Rightarrow> bool" where
  "nest_input items reg kerf \<longleftrightarrow> items \<noteq> [] \<and> len_ok kerf \<and> \<not> isInf kerf
     \<and> list_all (\<lambda>it. len_ok (ci_Length it) \<and> len_ok (ci_Width it) \<and> 0 < ci_Quantity it) items
     \<and> list_all (\<lambda>it. list_all sheet_ok (sheets_of reg (ci_MaterialCode it))) items"

definition demo_items :: "CutItem list" where
  "demo_items = [\<lparr>ci_PartNumber = ''TRD-01'', ci_MaterialCode = ''STEEL-S235'', ci_Thickness = Fin 40,
     ci_Length = Fin 1000, ci_Width = Fin 500, ci_Quantity = 2\<rparr>]"

definition demo_sheets :: StockSheetRegistry where
  "demo_sheets = \<lparr>sr_byMaterial = [(''STEEL-S235'',
     [\<lparr>st_MaterialCode = ''STEEL-S235'', st_Length = Fin 2500, st_Width = Fin 1250\<rparr>])],
     sr_order = [''STEEL-S235'']\<rparr>"

lemma demo_nest_input: "nest_input demo_items demo_sheets DefaultKerf"
  by (simp add: nest_input_def demo_items_def demo_sheets_def DefaultKerf_def len_ok_numeral sheets_of_def sheet_ok_def)

lemma demo_fit:
  "pickSheetFit (Some demo_sheets) ''STEEL-S235''
     (group_of (snd (group_items demo_items)) (''STEEL-S235'', Fin 40)) DefaultKerf \<noteq> None"
  by code_simp

lemma nest_core:
  assumes inp: "nest_input items reg kerf"
    and sched: "is_schedule sched (length (fst (group_items items)))"
  shows "case Nest gomaxprocs sched items (Some reg) kerf of
      Inr res \<Rightarrow> list_all (layout_ok kerf) (ns_Sheets res)
        \<and> mset (concat (map layout_rects (ns_Sheets res))) = mset (concat (map item_rects items))
        \<and> ns_PartCount res = sum_list (map ci_Quantity items)
    | Inl e \<Rightarrow> (\<exists>k \<in> item_key ` set items.
        pickSheetFit (Some reg) (fst k) (group_of (snd (group_items items)) k) kerf = None
        \<and> e = Feasibility (max_dim cr_length (group_of (snd (group_items items)) k))
             (max_dim cr_width (group_of (snd (group_items items)) k)) kerf)"
proof -
  obtain order gs where og: "group_items items = (order, gs)" by (cases "group_items items")
  have pos: "list_all (\<lambda>it. 0 < ci_Quantity it) items" and rok: "list_all (\<lambda>it. rect_ok (item_rect it)) items"
    using inp by (auto simp: nest_input_def list_all_iff rect_ok_def item_rect_def)
  have G: "groups_inv items (order, gs)" using group_items_inv[OF pos] og by simp
  note GD = groups_invD[OF G]
  have ne: "order \<noteq> []" using GD(2) inp by (auto simp: nest_input_def)
  have kf: "len_ok kerf" "\<not> (isNaN kerf \<or> isInf kerf \<or> kerf < 0)"
    using inp len_ok_cases[of kerf] by (auto simp: nest_input_def zero_f64_def)
  define task where "task = (\<lambda>i. bindR (pickSheet (Some reg) (fst (order ! i)) (group_of gs (order ! i)) kerf)
      (\<lambda>sheet. Inr (nestGroup (group_of gs (order ! i)) sheet (snd (order ! i)) kerf)))"
  let ?n = "length order"
  let ?ex = "Execute_slots (New_limit gomaxprocs 0) None (\<lambda>_. None) sched ?n task"
  have sc: "is_schedule sched ?n" using sched og by simp
  have N: "Nest gomaxprocs sched items (Some reg) kerf =
     (case ?ex of (Some e, slots) \<Rightarrow> Inl e
        | (None, slots) \<Rightarrow>
           (let r = fold (\<lambda>ls r. fold add_layout (case ls of None \<Rightarrow> [] | Some l \<Rightarrow> l) r) slots empty_nesting;
                r1 = r\<lparr>ns_WasteArea := ns_SheetArea r - ns_PartArea r\<rparr>
            in Inr (if ns_SheetArea r1 > 0 then r1\<lparr>ns_Utilization := ns_PartArea r1 / ns_SheetArea r1\<rparr> else r1)))"
    using inp kf(2) ne by (simp add: Nest_def og nest_input_def task_def Let_def)
  have grp: "list_all rect_ok (group_of gs k)" "list_all sheet_ok (SheetsFor (Some reg) (fst k))" if "k \<in> set order" for k
    using group_rects_ok[OF G that rok] that GD(2) inp
    by (auto simp: nest_input_def SheetsFor_def item_key_def list_all_iff)
  have spec: "fst ?ex = first_error (map (task_error task) [0..<?n])"
    "fst ?ex = None \<Longrightarrow> snd ?ex = map (task_result task) [0..<?n]"
    using Execute_slots_spec[OF sc, of "New_limit gomaxprocs 0" task] by auto
  show ?thesis
  proof (cases "fst ?ex")
    case (Some e)
    then obtain i where i: "i < ?n" "task_error task i = Some e"
      using find_upt_error[of "task_error task" ?n e] spec(1) by auto
    then have "pickSheetFit (Some reg) (fst (order ! i)) (group_of gs (order ! i)) kerf = None
        \<and> e = Feasibility (max_dim cr_length (group_of gs (order ! i))) (max_dim cr_width (group_of gs (order ! i))) kerf"
      by (auto simp: task_error_def task_def pickSheet_def bindR_def split: sum.splits option.splits)
    moreover have "order ! i \<in> item_key ` set items" using i(1) GD(2) by (metis nth_mem)
    moreover have "Nest gomaxprocs sched items (Some reg) kerf = Inl e" unfolding N using Some by (cases ?ex) auto
    ultimately show ?thesis by (auto simp: og)
  next
    case None
    define lays where "lays = (\<lambda>k. case pickSheetFit (Some reg) (fst k) (group_of gs k) kerf of
        None \<Rightarrow> [] | Some s \<Rightarrow> nestGroup (group_of gs k) s (snd k) kerf)"
    have fit: "\<exists>s. pickSheetFit (Some reg) (fst k) (group_of gs k) kerf = Some s" if k: "k \<in> set order" for k
    proof -
      obtain i where "i < ?n" "order ! i = k" using k unfolding in_set_conv_nth by blast
      moreover have "\<forall>i < ?n. task_error task i = None" using None spec(1) by (auto simp: first_error_None)
      ultimately show ?thesis
        by (auto simp: task_error_def task_def pickSheet_def split: option.splits)
    qed
    have "map (task_result task) [0..<?n] = map (\<lambda>i. Some (lays (order ! i))) [0..<?n]"
      using fit by (auto simp: task_result_def task_def lays_def pickSheet_def split: option.splits)
    also have "\<dots> = map Some (map lays order)" by (rule nth_equalityI) simp_all
    finally have slots: "snd ?ex = map Some (map lays order)" using spec(2)[OF None] by simp
    obtain res where res: "Nest gomaxprocs sched items (Some reg) kerf = Inr res"
      "ns_Sheets res = concat (map lays order)"
      "ns_PartCount res = int (length (concat (map ly_Placed (concat (map lays order)))))"
      using None slots add_slots[of "map lays order" empty_nesting] unfolding N
      by (cases ?ex) (auto simp: Let_def empty_nesting_def)
    have lok: "list_all (layout_ok kerf) (lays k) \<and> mset (concat (map layout_rects (lays k))) = mset (group_of gs k)"
      if k: "k \<in> set order" for k
    proof -
      obtain s where s: "pickSheetFit (Some reg) (fst k) (group_of gs k) kerf = Some s" using fit[OF k] by blast
      have "s \<in> set (SheetsFor (Some reg) (fst k))" "list_all (fits kerf s) (group_of gs k)"
        using pickSheetFit_fits[OF s grp(1)[OF k] kf(1) grp(2)[OF k]] by auto
      moreover from this have "sheet_ok s" using grp(2)[OF k] by (auto simp: list_all_iff)
      ultimately show ?thesis using nestGroup_ok[OF grp(1)[OF k] _ kf(1), of s "snd k"] s by (simp add: lays_def)
    qed
    have M: "mset (concat (map layout_rects (concat (map lays order)))) = mset (concat (map item_rects items))"
      using mset_concat_groups[of order layout_rects lays "group_of gs"] lok GD(3) by simp
    have "length (concat (map ly_Placed ls)) = length (concat (map layout_rects ls))" for ls
      by (induction ls) (auto simp: layout_rects_def)
    then have "length (concat (map ly_Placed (concat (map lays order)))) = length (concat (map item_rects items))"
      using mset_eq_length[OF M] by simp
    also have "int \<dots> = sum_list (map ci_Quantity items)"
      using pos by (induction items) (auto simp: item_rects_def)
    finally have c: "ns_PartCount res = sum_list (map ci_Quantity items)" using res(3) by simp
    show ?thesis using res(1,2) M lok c by (auto simp: list_all_iff)
  qed
qed

text \<open>C17: the nesting of a cut list either reports the first group whose largest part fits no stock
  sheet of its material, or places every part of the list exactly once: no two parts of a sheet
  overlap, each keeps the kerf to its neighbours and to the far edges, and all lie inside the
  sheet. The outcome does not depend on the order in which the parallel tasks complete.\<close>

theorem nest_correct:
  assumes inp: "nest_input items reg kerf"
    and sched: "is_schedule sched (length (fst (group_items items)))"
  shows "case Nest gomaxprocs sched items (Some reg) kerf of
      Inr res \<Rightarrow> list_all (layout_ok kerf) (ns_Sheets res)
        \<and> mset (concat (map layout_rects (ns_Sheets res))) = mset (concat (map item_rects items))
        \<and> ns_PartCount res = sum_list (map ci_Quantity items)
    | Inl e \<Rightarrow> (\<exists>k \<in> item_key ` set items.
        pickSheetFit (Some reg) (fst k) (group_of (snd (group_items items)) k) kerf = None
        \<and> e = Feasibility (max_dim cr_length (group_of (snd (group_items items)) k))
             (max_dim cr_width (group_of (snd (group_items items)) k)) kerf)"
  using assms by (rule nest_core)

theorem nest_correct_witness:
  "\<exists>res. Nest 4 [0] demo_items (Some demo_sheets) DefaultKerf = Inr res \<and> ns_PartCount res = 2
     \<and> list_all (layout_ok DefaultKerf) (ns_Sheets res)"
proof -
  have "fst (group_items demo_items) = [(''STEEL-S235'', Fin 40)]" by code_simp
  then have "is_schedule [0] (length (fst (group_items demo_items)))" by (auto simp: is_schedule_def)
  note c = nest_correct[OF demo_nest_input this, of 4]
  have "item_key ` set demo_items = {(''STEEL-S235'', Fin 40)}" by (simp add: demo_items_def item_key_def)
  then show ?thesis using c demo_fit
    by (cases "Nest 4 [0] demo_items (Some demo_sheets) DefaultKerf") (auto simp: demo_items_def)
qed

end
