(* ===== verification/Geo_BBox.thy ===== *)
theory Geo_BBox
  imports Units
begin

text \<open>
  The part of the geometry kernel (\<open>internal/geometry\<close>) the manufacturing decomposition measures
  with: points and bounding boxes (\<open>vec.go\<close>), the faces of a solid (\<open>topology.go\<close>), their contour
  points (\<open>validate.go\<close>) and \<open>SolidBoundingBox\<close> (\<open>measure.go\<close>). An edge is its two end points.
\<close>

record Point3 =
  p_X :: f64
  p_Y :: f64
  p_Z :: f64

record BBox =
  bb_Min :: Point3
  bb_Max :: Point3

definition origin :: Point3 where
  "origin = \<lparr>p_X = Fin 0, p_Y = Fin 0, p_Z = Fin 0\<rparr>"

definition emptyBBox :: BBox where
  "emptyBBox = \<lparr>bb_Min = origin, bb_Max = origin\<rparr>"

definition lower_to :: "Point3 \<Rightarrow> Point3 \<Rightarrow> Point3" where
  "lower_to p m = \<lparr>p_X = (if p_X p < p_X m then p_X p else p_X m),
     p_Y = (if p_Y p < p_Y m then p_Y p else p_Y m), p_Z = (if p_Z p < p_Z m then p_Z p else p_Z m)\<rparr>"

definition raise_to :: "Point3 \<Rightarrow> Point3 \<Rightarrow> Point3" where
  "raise_to p m = \<lparr>p_X = (if p_X p > p_X m then p_X p else p_X m),
     p_Y = (if p_Y p > p_Y m then p_Y p else p_Y m), p_Z = (if p_Z p > p_Z m then p_Z p else p_Z m)\<rparr>"

fun NewBBox :: "Point3 list \<Rightarrow> BBox" where
  "NewBBox [] = emptyBBox"
| "NewBBox (p # ps) = \<lparr>bb_Min = fold lower_to ps p, bb_Max = fold raise_to ps p\<rparr>"

definition point_eq :: "Point3 \<Rightarrow> Point3 \<Rightarrow> bool" where
  "point_eq p q \<longleftrightarrow> feq (p_X p) (p_X q) \<and> feq (p_Y p) (p_Y q) \<and> feq (p_Z p) (p_Z q)"

definition bbox_IsEmpty :: "BBox \<Rightarrow> bool" where
  "bbox_IsEmpty b \<longleftrightarrow> point_eq (bb_Min b) (bb_Max b)
     \<and> point_eq (bb_Min b) origin \<and> point_eq (bb_Max b) origin"

definition bbox_Contains :: "BBox \<Rightarrow> Point3 \<Rightarrow> bool" where
  "bbox_Contains b p \<longleftrightarrow> \<not> bbox_IsEmpty b
     \<and> p_X p \<ge> p_X (bb_Min b) \<and> p_X p \<le> p_X (bb_Max b)
     \<and> p_Y p \<ge> p_Y (bb_Min b) \<and> p_Y p \<le> p_Y (bb_Max b)
     \<and> p_Z p \<ge> p_Z (bb_Min b) \<and> p_Z p \<le> p_Z (bb_Max b)"

definition bbox_Union :: "BBox \<Rightarrow> BBox \<Rightarrow> BBox" where
  "bbox_Union b c = (if bbox_IsEmpty b then c else if bbox_IsEmpty c then b
     else NewBBox [bb_Min b, bb_Max b, bb_Min c, bb_Max c])"

subsection \<open>Solids\<close>

type_synonym Wire = "(Point3 \<times> Point3) list"

record Face =
  fa_outer :: Wire
  fa_inner :: "Wire list"

record Solid =
  so_shells :: "Face list list"
  so_role :: string

definition contourPoints :: "Wire \<Rightarrow> Point3 list \<times> bool" where
  "contourPoints w =
     (if length w < 3 then ([], False)
      else let pts = fst (hd w) # map snd w in (butlast pts, point_eq (last pts) (hd pts)))"

definition solidPoints :: "Solid \<Rightarrow> Point3 list" where
  "solidPoints s = concat (map (\<lambda>shell. concat (map (\<lambda>f. fst (contourPoints (fa_outer f))) shell)) (so_shells s))"

definition box_step :: "Point3 \<Rightarrow> BBox \<times> bool \<Rightarrow> BBox \<times> bool" where
  "box_step v st = (if snd st then (NewBBox [v], False) else (bbox_Union (fst st) (NewBBox [v]), False))"

definition SolidBoundingBox :: "Solid option \<Rightarrow> BBox" where
  "SolidBoundingBox so = (case so of None \<Rightarrow> emptyBBox
     | Some s \<Rightarrow> fst (fold box_step (solidPoints s) (emptyBBox, True)))"

definition BoundingBox :: "Solid list option \<Rightarrow> BBox" where
  "BoundingBox model = (case model of None \<Rightarrow> emptyBBox
     | Some ss \<Rightarrow> fst (fold box_step (concat (map solidPoints ss)) (emptyBBox, True)))"

subsection \<open>What the box is\<close>

definition point_finite :: "Point3 \<Rightarrow> bool" where
  "point_finite p \<longleftrightarrow> (\<exists>x y z. p = \<lparr>p_X = Fin x, p_Y = Fin y, p_Z = Fin z\<rparr>)"

lemma point_eq_finite: "point_finite p \<Longrightarrow> point_finite q \<Longrightarrow> point_eq p q \<longleftrightarrow> p = q"
  by (auto simp: point_finite_def point_eq_def)

lemma origin_finite [simp]: "point_finite origin"
  by (simp add: point_finite_def origin_def)

lemma lower_finite: "point_finite p \<Longrightarrow> point_finite m \<Longrightarrow> point_finite (lower_to p m)"
  by (auto simp: point_finite_def lower_to_def)

lemma raise_finite: "point_finite p \<Longrightarrow> point_finite m \<Longrightarrow> point_finite (raise_to p m)"
  by (auto simp: point_finite_def raise_to_def)

lemma fold_finite:
  assumes "point_finite m" "list_all point_finite ps"
  shows "point_finite (fold lower_to ps m) \<and> point_finite (fold raise_to ps m)"
  using assms by (induction ps arbitrary: m) (auto simp: lower_finite raise_finite)

text \<open>The box of a non-empty list of points: its corners bound every point.\<close>

definition pt_le :: "Point3 \<Rightarrow> Point3 \<Rightarrow> bool" where
  "pt_le p q \<longleftrightarrow> p_X p \<le> p_X q \<and> p_Y p \<le> p_Y q \<and> p_Z p \<le> p_Z q"

lemma pt_le_trans: "pt_le p q \<Longrightarrow> pt_le q r \<Longrightarrow> pt_le p r"
proof -
  have t: "a \<le> b \<Longrightarrow> b \<le> c \<Longrightarrow> a \<le> c" for a b c :: f64 by (cases a; cases b; cases c) auto
  show "pt_le p q \<Longrightarrow> pt_le q r \<Longrightarrow> pt_le p r" by (auto simp: pt_le_def intro: t)
qed

lemma pt_le_refl: "point_finite p \<Longrightarrow> pt_le p p"
  by (auto simp: pt_le_def point_finite_def)

lemma pt_le_antisym: "point_finite p \<Longrightarrow> point_finite q \<Longrightarrow> pt_le p q \<Longrightarrow> pt_le q p \<Longrightarrow> p = q"
  by (auto simp: pt_le_def point_finite_def)

lemma lower_le: "point_finite p \<Longrightarrow> point_finite m \<Longrightarrow> pt_le (lower_to p m) p \<and> pt_le (lower_to p m) m"
  by (auto simp: pt_le_def point_finite_def lower_to_def)

lemma raise_ge: "point_finite p \<Longrightarrow> point_finite m \<Longrightarrow> pt_le p (raise_to p m) \<and> pt_le m (raise_to p m)"
  by (auto simp: pt_le_def point_finite_def raise_to_def)

lemma fold_bounds:
  assumes "point_finite m" "list_all point_finite ps"
  shows "pt_le (fold lower_to ps m) m \<and> pt_le m (fold raise_to ps m)
    \<and> (\<forall>p \<in> set ps. pt_le (fold lower_to ps m) p \<and> pt_le p (fold raise_to ps m))"
  using assms
proof (induction ps arbitrary: m)
  case (Cons p ps)
  then have "point_finite (lower_to p m)" "point_finite (raise_to p m)"
    by (auto simp: lower_finite raise_finite)
  then show ?case
    using Cons.IH[of "lower_to p m"] Cons.IH[of "raise_to p m"] Cons.prems lower_le[of p m] raise_ge[of p m]
    by (auto intro: pt_le_trans)
qed (simp add: pt_le_refl)

lemma fold_lower_merge:
  assumes "point_finite a" "point_finite b" "point_finite c"
  shows "fold lower_to [b, c, c] a = lower_to c (lower_to b a)" "fold raise_to [b, c, c] a = raise_to c (raise_to b a)"
    "pt_le a b \<Longrightarrow> lower_to b a = a" "pt_le a b \<Longrightarrow> raise_to b a = b"
  using assms by (auto simp: lower_to_def raise_to_def point_finite_def pt_le_def)

lemma NewBBox_snoc:
  assumes "ps \<noteq> []" "list_all point_finite ps" "point_finite v" "\<not> bbox_IsEmpty (NewBBox ps)" "\<not> bbox_IsEmpty (NewBBox [v])"
  shows "bbox_Union (NewBBox ps) (NewBBox [v]) = NewBBox (ps @ [v])"
proof -
  obtain p qs where ps: "ps = p # qs" using assms(1) by (cases ps) auto
  have f: "point_finite (fold lower_to qs p)" "point_finite (fold raise_to qs p)"
    using fold_finite[of p qs] assms(2) by (auto simp: ps)
  have le: "pt_le (fold lower_to qs p) (fold raise_to qs p)"
    using fold_bounds[of p qs] assms(2) by (auto simp: ps intro: pt_le_trans)
  show ?thesis using assms(4,5) fold_lower_merge[OF f assms(3)] le
    by (simp add: bbox_Union_def ps fold_lower_merge)
qed

lemma box_empty_iff:
  assumes "ps \<noteq> []" "list_all point_finite ps"
  shows "bbox_IsEmpty (NewBBox ps) \<longleftrightarrow> (\<forall>p \<in> set ps. p = origin)"
proof -
  obtain p qs where ps: "ps = p # qs" using assms(1) by (cases ps) auto
  have f: "point_finite (fold lower_to qs p)" "point_finite (fold raise_to qs p)"
    using fold_finite[of p qs] assms(2) by (auto simp: ps)
  note b = fold_bounds[of p qs]
  have e: "bbox_IsEmpty (NewBBox ps) \<longleftrightarrow> fold lower_to qs p = origin \<and> fold raise_to qs p = origin"
    using f by (auto simp: bbox_IsEmpty_def ps point_eq_finite)
  have "\<forall>q \<in> set ps. q = origin" if "fold lower_to qs p = origin" "fold raise_to qs p = origin"
    using b that assms(2) by (auto simp: ps list_all_iff intro: pt_le_antisym)
  moreover have "fold lower_to qs origin = origin \<and> fold raise_to qs origin = origin" if "\<forall>q \<in> set qs. q = origin"
    using that by (induction qs) (auto simp: lower_to_def raise_to_def origin_def)
  ultimately show ?thesis unfolding e using ps by auto
qed

lemma box_nonempty:
  "ps \<noteq> [] \<Longrightarrow> list_all point_finite ps \<Longrightarrow> \<forall>p \<in> set ps. p \<noteq> origin \<Longrightarrow> \<not> bbox_IsEmpty (NewBBox ps)"
  by (cases ps) (auto simp: box_empty_iff simp del: NewBBox.simps)

text \<open>The loop: the box of the points met so far that are not the origin.\<close>

lemma box_loop:
  assumes "list_all point_finite vs" "list_all point_finite ws" "ws \<noteq> []"
    and "b = NewBBox (filter (\<lambda>p. p \<noteq> origin) ws)"
  shows "fst (fold box_step vs (b, False)) = NewBBox (filter (\<lambda>p. p \<noteq> origin) (ws @ vs))"
  using assms
proof (induction vs arbitrary: ws b)
  case (Cons v vs)
  let ?ws = "filter (\<lambda>p. p \<noteq> origin) ws"
  have fin: "list_all point_finite ?ws" using Cons.prems(2) by (auto simp: list_all_iff)
  have single: "bbox_IsEmpty (NewBBox [v]) \<longleftrightarrow> v = origin" using box_empty_iff[of "[v]"] Cons.prems(1) by simp
  have e0: "bbox_IsEmpty (NewBBox ?ws) \<longleftrightarrow> ?ws = []"
  proof (cases "?ws = []")
    case True
    have "bbox_IsEmpty emptyBBox" by (simp add: bbox_IsEmpty_def emptyBBox_def point_eq_finite)
    then show ?thesis using True by simp
  next
    case False
    have "\<forall>p \<in> set ?ws. p \<noteq> origin" by simp
    then show ?thesis using box_nonempty[OF False fin] False by blast
  qed
  have f: "filter (\<lambda>p. p \<noteq> origin) (ws @ [v]) = (if v = origin then ?ws else ?ws @ [v])" by simp
  have "bbox_Union b (NewBBox [v]) = NewBBox (filter (\<lambda>p. p \<noteq> origin) (ws @ [v]))"
  proof (cases "?ws = []")
    case True
    have "bbox_Union b (NewBBox [v]) = NewBBox [v]" using e0 True Cons.prems(4) by (simp only: bbox_Union_def simp_thms if_True)
    moreover have "NewBBox [origin] = NewBBox []" by (simp add: emptyBBox_def)
    ultimately show ?thesis unfolding f True by (cases "v = origin") simp_all
  next
    case False
    then have n: "\<not> bbox_IsEmpty b" using e0 Cons.prems(4) by simp
    show ?thesis
    proof (cases "v = origin")
      case True
      then show ?thesis using n single Cons.prems(4) unfolding f by (simp add: bbox_Union_def)
    next
      case v: False
      then have "bbox_Union b (NewBBox [v]) = NewBBox (?ws @ [v])"
        using NewBBox_snoc[OF False fin, of v] n single Cons.prems(1) unfolding Cons.prems(4) by simp
      then show ?thesis using v unfolding f by simp
    qed
  qed
  then show ?case using Cons.IH[of "ws @ [v]" "bbox_Union b (NewBBox [v])"] Cons.prems
    by (simp add: box_step_def)
qed simp

text \<open>The bounding box of a solid with finite vertices is the box of its vertices other than the
  origin: a vertex at the origin makes a box that counts as empty, and \<open>Union\<close> drops it.\<close>

theorem solid_box:
  assumes "list_all point_finite (solidPoints s)"
  shows "SolidBoundingBox (Some s) = NewBBox (filter (\<lambda>p. p \<noteq> origin) (solidPoints s))"
proof (cases "solidPoints s")
  case Nil then show ?thesis by (simp add: SolidBoundingBox_def)
next
  case (Cons v vs)
  have "NewBBox [v] = NewBBox (filter (\<lambda>p. p \<noteq> origin) [v])" by (simp add: emptyBBox_def)
  from box_loop[OF _ _ _ this, of vs] assms
  have "fst (fold box_step vs (NewBBox [v], False)) = NewBBox (filter (\<lambda>p. p \<noteq> origin) (v # vs))"
    by (simp add: Cons del: NewBBox.simps filter.simps)
  then show ?thesis unfolding Cons SolidBoundingBox_def by (simp only: option.case fold_simps box_step_def snd_conv if_True) (simp only: Cons fold_simps box_step_def snd_conv if_True)
qed

definition pt :: "rat \<Rightarrow> rat \<Rightarrow> rat \<Rightarrow> Point3" where
  "pt x y z = \<lparr>p_X = Fin x, p_Y = Fin y, p_Z = Fin z\<rparr>"

definition tri :: "Point3 \<Rightarrow> Point3 \<Rightarrow> Point3 \<Rightarrow> Face" where
  "tri a b c = \<lparr>fa_outer = [(a, b), (b, c), (c, a)], fa_inner = []\<rparr>"

text \<open>A pyramid whose apex is the origin and whose base lies in the plane x = 100.\<close>

definition apex_solid :: Solid where
  "apex_solid = (let o' = pt 0 0 0; a = pt 100 10 10; b = pt 100 20 10; c = pt 100 10 20 in
     \<lparr>so_shells = [[tri o' a b, tri o' b c, tri o' c a, tri a c b]], so_role = ''''\<rparr>)"

theorem solid_box_witness:
  "SolidBoundingBox (Some apex_solid) = \<lparr>bb_Min = pt 100 10 10, bb_Max = pt 100 20 20\<rparr>"
proof -
  have "solidPoints apex_solid = [pt 0 0 0, pt 100 10 10, pt 100 20 10, pt 0 0 0, pt 100 20 10, pt 100 10 20,
      pt 0 0 0, pt 100 10 20, pt 100 10 10, pt 100 10 10, pt 100 10 20, pt 100 20 10]"
    by (simp add: apex_solid_def solidPoints_def tri_def contourPoints_def Let_def)
  then show ?thesis using solid_box[of apex_solid]
    by (simp add: point_finite_def pt_def origin_def lower_to_def raise_to_def)
qed

end
