(* ===== verification/Mfg_Engine.thy ===== *)
theory Mfg_Engine
  imports Mfg_Nest Geo_BBox Stair_Config Go_Fmt Mfg_Data
begin

text \<open>
  \<open>internal/engine/manufacturing\<close>: decomposition of a model into parts (\<open>decompose.go\<close>), materials
  (\<open>material.go\<close>), bill of materials and cut list (\<open>bom.go\<close>), the package (\<open>engine.go\<close>), operations
  (\<open>operations.go\<close>) and the production dataset (\<open>cost.go\<close>). The classification of solids runs in
  goroutines that write one slot each; it cannot fail, so it is a map here.
\<close>

datatype engine_error =
    ModelRequired | NoSolids | PartLength nat unit_error
  | NoMaterialFor f64 | CatalogError cat_error | NestFailed nest_error | PackageInvalid cat_error
  | ConfigRequired | GeometryRequired | ConfigInvalid stair_error | InvalidGeometry string
  | PartMaterial string engine_error
  | PackageRequired | NoCutSpeeds | BadCutSpeed | BadTimeConstants | NoCutSpeedFor string
  | PlanInvalid mfg_error | MaterialsRequired | MaterialUnknown string | NestingArea string | DatasetInvalid mfg_error

subsection \<open>\<open>decompose.go\<close>\<close>

record part_spec =
  ps_kind :: string
  ps_thickness :: f64
  ps_length :: f64
  ps_width :: f64

definition extents :: "BBox \<Rightarrow> f64 \<times> f64 \<times> f64" where
  "extents bb = (p_X (bb_Max bb) - p_X (bb_Min bb), p_Y (bb_Max bb) - p_Y (bb_Min bb), p_Z (bb_Max bb) - p_Z (bb_Min bb))"

text \<open>\<open>2 * math.Pi\<close>, a constant expression.\<close>

definition TwoPi :: f64 where
  "TwoPi = Fin (884279719003555 / 140737488355328)"

definition columnPart :: "StairConfiguration \<Rightarrow> f64 \<times> f64 \<times> f64 \<Rightarrow> part_spec" where
  "columnPart cfg ext =
     (let t0 = cf_StringerThickness cfg; t = (if t0 \<le> 0 then Fin 30 else t0);
          h = snd (snd ext);
          r = cf_OuterRadius cfg - cf_Width cfg;
          circ = TwoPi * r in
      if circ > h then \<lparr>ps_kind = PartColumn, ps_thickness = t, ps_length = circ, ps_width = h\<rparr>
      else \<lparr>ps_kind = PartColumn, ps_thickness = t, ps_length = h, ps_width = circ\<rparr>)"

definition roleKind :: "string \<Rightarrow> string option" where
  "roleKind role =
     (if role = ''stringer'' then Some PartStringer
      else if role \<in> {''tread'', ''landing'', ''winder''} then Some PartTread
      else if role = ''riser'' then Some PartRiser
      else if role = ''column'' then Some PartColumn
      else None)"

definition classify :: "f64 \<times> f64 \<times> f64 \<Rightarrow> string \<Rightarrow> part_spec" where
  "classify dims role = (case dims of (dx, dy, dz) \<Rightarrow>
     let (thin1, axis1) = (if dy < dx then (dy, 1 :: nat) else (dx, 0));
         (thin, axis) = (if dz < thin1 then (dz, 2) else (thin1, axis1));
         (a0, b0) = (if axis = 0 then (dy, dz) else if axis = 1 then (dx, dz) else (dx, dy));
         (a, b) = (if a0 < b0 then (b0, a0) else (a0, b0));
         kind = (case roleKind role of Some k \<Rightarrow> k
                 | None \<Rightarrow> if axis = 0 then PartRiser else if axis = 1 then PartStringer else PartTread)
     in \<lparr>ps_kind = kind, ps_thickness = thin, ps_length = a, ps_width = b\<rparr>)"

definition spec_of :: "StairConfiguration \<Rightarrow> Solid \<Rightarrow> part_spec" where
  "spec_of cfg s =
     (let ext = extents (SolidBoundingBox (Some s)) in
      if so_role s = ''column'' then columnPart cfg ext else classify ext (so_role s))"

text \<open>\<open>fmt.Sprintf("%s-%02d", prefix, seq)\<close>\<close>

definition partPrefix :: "string \<Rightarrow> string" where
  "partPrefix kind =
     (if kind = PartStringer then ''STR'' else if kind = PartTread then ''TRD''
      else if kind = PartRiser then ''RSR'' else if kind = PartColumn then ''CLM'' else ''STR'')"

definition partNumber :: "string \<Rightarrow> nat \<Rightarrow> string" where
  "partNumber kind n = partPrefix kind @ ''-'' @ pad_left 2 (CHR ''0'') (show_nat n)"

fun make_parts :: "nat \<Rightarrow> (string \<times> nat) list \<Rightarrow> part_spec list \<Rightarrow> (engine_error, Part list) result" where
  "make_parts i seq [] = Inr []"
| "make_parts i seq (s # ss) =
     (let n = Suc (case map_of seq (ps_kind s) of None \<Rightarrow> 0 | Some k \<Rightarrow> k);
          lift = (\<lambda>r. case r of Inl e \<Rightarrow> Inl (PartLength i e) | Inr l \<Rightarrow> Inr l) in
      bindR (lift (NewLength (ps_thickness s))) (\<lambda>thick.
      bindR (lift (NewLength (ps_length s))) (\<lambda>lng.
      bindR (lift (NewLength (ps_width s))) (\<lambda>wid.
      bindR (make_parts (Suc i) (mput (ps_kind s) n seq) ss) (\<lambda>parts.
        Inr (\<lparr>pt_Number = partNumber (ps_kind s) n, pt_Kind = ps_kind s, pt_Material = '''',
              pt_Thickness = thick, pt_Length = lng, pt_Width = wid, pt_SolidIndex = int i\<rparr> # parts))))))"

definition decompose :: "StairConfiguration \<Rightarrow> Solid list option \<Rightarrow> (engine_error, Part list) result" where
  "decompose cfg model = (case model of None \<Rightarrow> Inl ModelRequired | Some solids \<Rightarrow>
     guard_with (solids = []) NoSolids (make_parts 0 [] (map (spec_of cfg) solids)))"

subsection \<open>\<open>material.go\<close>\<close>

definition default_materials :: "Material option list" where
  "default_materials = [
     Some \<lparr>ml_Code = ''STEEL-S235'', ml_Name = ''Structural Steel S235'', ml_Category = ''Steel'',
       ml_Density = Fin 7850, ml_MinThickness = Fin 2, ml_MaxThickness = Fin 60,
       ml_MaxWidthMm = Fin 3000, ml_MaxHeightMm = Fin 6000\<rparr>,
     Some \<lparr>ml_Code = ''ALUM-5083'', ml_Name = ''Aluminum 5083'', ml_Category = ''Aluminum'',
       ml_Density = Fin 2700, ml_MinThickness = Fin 2, ml_MaxThickness = Fin 60,
       ml_MaxWidthMm = Fin 3000, ml_MaxHeightMm = Fin 4550\<rparr>,
     Some \<lparr>ml_Code = ''WOOD-OAK'', ml_Name = ''Oak Wood'', ml_Category = ''Wood'',
       ml_Density = Fin 700, ml_MinThickness = Fin 20, ml_MaxThickness = Fin 60,
       ml_MaxWidthMm = Fin 3000, ml_MaxHeightMm = Fin 4550\<rparr>]"

definition DefaultMaterialRegistry :: "(cat_error, MaterialRegistry) result" where
  "DefaultMaterialRegistry = NewMaterialRegistry default_materials"

text \<open>A nil material does not support any thickness.\<close>

fun first_supporting :: "f64 \<Rightarrow> Material option list \<Rightarrow> string option" where
  "first_supporting t [] = None"
| "first_supporting t (None # ms) = first_supporting t ms"
| "first_supporting t (Some m # ms) = (if SupportsThickness m t then Some (ml_Code m) else first_supporting t ms)"

definition assignMaterial :: "MaterialRegistry \<Rightarrow> f64 \<Rightarrow> (engine_error, string) result" where
  "assignMaterial registry t =
     (case first_supporting t (Materials (Some registry)) of Some c \<Rightarrow> Inr c | None \<Rightarrow> Inl (NoMaterialFor t))"

definition DefaultMaterialForThickness :: "f64 \<Rightarrow> (engine_error, string) result" where
  "DefaultMaterialForThickness t =
     (case DefaultMaterialRegistry of Inl e \<Rightarrow> Inl (CatalogError e) | Inr registry \<Rightarrow> assignMaterial registry t)"

subsection \<open>\<open>bom.go\<close>\<close>

type_synonym part_key = "string \<times> string \<times> Length \<times> Length \<times> Length"

definition part_key :: "Part \<Rightarrow> part_key" where
  "part_key p = (pt_Kind p, pt_Material p, pt_Thickness p, pt_Length p, pt_Width p)"

definition kindDescription :: "string \<Rightarrow> string" where
  "kindDescription kind =
     (if kind = PartStringer then ''Stringer'' else if kind = PartTread then ''Tread''
      else if kind = PartRiser then ''Riser'' else if kind = PartColumn then ''Column'' else kind)"

definition numbers_of :: "(part_key \<times> string list) list \<Rightarrow> part_key \<Rightarrow> string list" where
  "numbers_of gs k = (case map_of gs k of None \<Rightarrow> [] | Some ns \<Rightarrow> ns)"

definition bom_step :: "Part \<Rightarrow> part_key list \<times> (part_key \<times> string list) list
    \<Rightarrow> part_key list \<times> (part_key \<times> string list) list" where
  "bom_step p st = (case st of (order, gs) \<Rightarrow>
     let k = part_key p in
     (if map_of gs k = None then order @ [k] else order, mput k (numbers_of gs k @ [pt_Number p]) gs))"

definition bom_line :: "nat \<Rightarrow> part_key \<Rightarrow> string list \<Rightarrow> BOMLine" where
  "bom_line i k nums = (case k of (kind, mat, t, l, w) \<Rightarrow>
     \<lparr>bl_Number = int i + 1, bl_PartNumber = hd nums, bl_Description = kindDescription kind,
      bl_MaterialCode = mat, bl_Thickness = t, bl_Quantity = int (length nums), bl_Length = l, bl_Width = w\<rparr>)"

definition cut_item :: "part_key \<Rightarrow> string list \<Rightarrow> CutItem" where
  "cut_item k nums = (case k of (kind, mat, t, l, w) \<Rightarrow>
     \<lparr>ci_PartNumber = hd nums, ci_MaterialCode = mat, ci_Thickness = t, ci_Length = l, ci_Width = w,
      ci_Quantity = int (length nums)\<rparr>)"

definition buildBOM :: "Part list \<Rightarrow> BOMLine list \<times> CutItem list" where
  "buildBOM parts = (case fold bom_step parts ([], []) of (order, gs) \<Rightarrow>
     (map (\<lambda>(i, k). bom_line i k (numbers_of gs k)) (enumerate 0 order),
      map (\<lambda>k. cut_item k (numbers_of gs k)) order))"

subsection \<open>\<open>engine.go\<close>\<close>

definition pick_material :: "StairConfiguration \<Rightarrow> MaterialRegistry \<Rightarrow> Part \<Rightarrow> (engine_error, string) result" where
  "pick_material cfg registry p =
     (let auto_pick = (case assignMaterial registry (pt_Thickness p) of
            Inl e \<Rightarrow> Inl (PartMaterial (pt_Number p) e) | Inr c \<Rightarrow> Inr c) in
      if cf_Material cfg \<noteq> '''' then
        (case reg_Find (Some registry) (cf_Material cfg) of
           Some m \<Rightarrow> if SupportsThickness m (pt_Thickness p) then Inr (ml_Code m) else auto_pick
         | None \<Rightarrow> auto_pick)
      else auto_pick)"

fun assign_all :: "StairConfiguration \<Rightarrow> MaterialRegistry \<Rightarrow> Part list \<Rightarrow> (engine_error, Part list) result" where
  "assign_all cfg registry [] = Inr []"
| "assign_all cfg registry (p # ps) =
     bindR (pick_material cfg registry p) (\<lambda>code.
     bindR (assign_all cfg registry ps) (\<lambda>qs. Inr (p\<lparr>pt_Material := code\<rparr> # qs)))"

text \<open>The geometry result: the model and the severities and codes of its validation issues.\<close>

record GenerationResult =
  gn_Model :: "Solid list option"
  gn_Issues :: "(string \<times> string) list"

definition liftE :: "('e \<Rightarrow> engine_error) \<Rightarrow> ('e, 'a) result \<Rightarrow> (engine_error, 'a) result" where
  "liftE f r = (case r of Inl e \<Rightarrow> Inl (f e) | Inr a \<Rightarrow> Inr a)"

definition Manufacture :: "int \<Rightarrow> nat list \<Rightarrow> StairConfiguration option \<Rightarrow> GenerationResult option
    \<Rightarrow> (engine_error, ManufacturingPackage) result" where
  "Manufacture gomaxprocs sched cfgo gen = (case cfgo of None \<Rightarrow> Inl ConfigRequired | Some cfg \<Rightarrow>
     (case gen of None \<Rightarrow> Inl GeometryRequired | Some g \<Rightarrow>
      guard_with (gn_Model g = None) GeometryRequired
      (bindR (liftE ConfigInvalid (stair_Validate cfg)) (\<lambda>_.
       case find (\<lambda>(sev, code). sev = ''error'') (gn_Issues g) of
         Some (sev, code) \<Rightarrow> Inl (InvalidGeometry code)
       | None \<Rightarrow>
         bindR (decompose cfg (gn_Model g)) (\<lambda>parts0.
         bindR (liftE CatalogError DefaultMaterialRegistry) (\<lambda>registry.
         bindR (assign_all cfg registry parts0) (\<lambda>parts.
         case buildBOM parts of (bom, cutl) \<Rightarrow>
         bindR (liftE NestFailed DefaultStockSheetRegistry) (\<lambda>sheets.
         bindR (liftE NestFailed (Nest gomaxprocs sched cutl (Some sheets) DefaultKerf)) (\<lambda>nesting.
         let pkg = \<lparr>pk_Parts = parts, pk_BOM = bom, pk_CutList = cutl, pk_Nesting = Some nesting\<rparr> in
         bindR (liftE PackageInvalid (package_Validate pkg)) (\<lambda>_. Inr pkg))))))))))"

subsection \<open>\<open>operations.go\<close>\<close>

record MachineRates =
  ra_CutSpeed :: "(string \<times> f64) list"
  ra_SetupCutMin :: f64
  ra_FinishMin :: f64

definition DefaultMachineRates :: MachineRates where
  "DefaultMachineRates = \<lparr>ra_CutSpeed = [(''STEEL-S235'', Fin 2000), (''ALUM-5083'', Fin 4000), (''WOOD-OAK'', Fin 10000)],
     ra_SetupCutMin = Fin 2, ra_FinishMin = Fin 3\<rparr>"

definition machine_rates_Validate :: "MachineRates \<Rightarrow> (engine_error, unit) result" where
  "machine_rates_Validate r =
     guard_with (ra_CutSpeed r = []) NoCutSpeeds
     (guard_with (list_ex (\<lambda>(c, v). isNaN v \<or> isInf v \<or> v \<le> 0) (ra_CutSpeed r)) BadCutSpeed
     (guard_with (list_ex bad_metric [ra_SetupCutMin r, ra_FinishMin r]) BadTimeConstants
     (Inr ())))"

definition cut_time :: "MachineRates \<Rightarrow> f64 \<Rightarrow> Part \<Rightarrow> f64" where
  "cut_time rates speed p = ra_SetupCutMin rates + Fin 2 * (pt_Length p + pt_Width p) / speed"

definition part_route :: "MachineRates \<Rightarrow> f64 \<Rightarrow> int \<Rightarrow> Part \<Rightarrow> PartOperationPlan" where
  "part_route rates speed opID p = \<lparr>pp_PartNumber = pt_Number p, pp_Operations = [
     \<lparr>op_ID = opID + 1, op_PartNumber = pt_Number p, op_Type = ''cutting'', op_Sequence = 1,
      op_Machine = ''laser-cutter'', op_EstimatedTime = cut_time rates speed p, op_OperatorRequired = True\<rparr>,
     \<lparr>op_ID = opID + 2, op_PartNumber = pt_Number p, op_Type = ''finishing'', op_Sequence = 2,
      op_Machine = ''manual-workstation'', op_EstimatedTime = ra_FinishMin rates, op_OperatorRequired = True\<rparr>]\<rparr>"

fun plan_parts :: "MachineRates \<Rightarrow> int \<Rightarrow> Part list \<Rightarrow> (engine_error, OperationPlan) result" where
  "plan_parts rates opID [] = Inr []"
| "plan_parts rates opID (p # ps) =
     (case map_of (ra_CutSpeed rates) (pt_Material p) of
        None \<Rightarrow> Inl (NoCutSpeedFor (pt_Material p))
      | Some speed \<Rightarrow> bindR (plan_parts rates (opID + 2) ps) (\<lambda>plan. Inr (part_route rates speed opID p # plan)))"

definition PlanOperations :: "ManufacturingPackage option \<Rightarrow> MachineRates \<Rightarrow> (engine_error, OperationPlan) result" where
  "PlanOperations pkg rates = (case pkg of None \<Rightarrow> Inl PackageRequired | Some p \<Rightarrow>
     bindR (machine_rates_Validate rates) (\<lambda>_.
     bindR (plan_parts rates 0 (pk_Parts p)) (\<lambda>plan.
     bindR (liftE PlanInvalid (plan_Validate plan)) (\<lambda>_. Inr plan))))"

subsection \<open>\<open>cost.go\<close>\<close>

definition plateSurfaceArea :: "f64 \<Rightarrow> f64 \<Rightarrow> f64 \<Rightarrow> f64" where
  "plateSurfaceArea l w t = Fin 2 * (l * w + l * t + w * t)"

record matAgg =
  ma_partArea :: f64
  ma_volume :: f64
  ma_surfaceArea :: f64

definition agg_of :: "(string \<times> matAgg) list \<Rightarrow> string \<Rightarrow> matAgg" where
  "agg_of agg c = (case map_of agg c of
     None \<Rightarrow> \<lparr>ma_partArea = Fin 0, ma_volume = Fin 0, ma_surfaceArea = Fin 0\<rparr> | Some a \<Rightarrow> a)"

fun aggregate :: "MaterialRegistry option \<Rightarrow> CutItem list \<Rightarrow> string list \<Rightarrow> (string \<times> matAgg) list
    \<Rightarrow> (engine_error, string list \<times> (string \<times> matAgg) list) result" where
  "aggregate mr [] order agg = Inr (order, agg)"
| "aggregate mr (it # its) order agg =
     (let c = ci_MaterialCode it in
      guard_with (reg_Find mr c = None) (MaterialUnknown c)
      (let a = agg_of agg c; q = of_int64 (ci_Quantity it);
           l = ci_Length it; w = ci_Width it; t = ci_Thickness it in
       aggregate mr its (if map_of agg c = None then order @ [c] else order)
         (mput c \<lparr>ma_partArea = ma_partArea a + q * l * w, ma_volume = ma_volume a + q * t * l * w,
                  ma_surfaceArea = ma_surfaceArea a + q * plateSurfaceArea l w t\<rparr> agg)))"

definition area_of :: "(string \<times> f64) list \<Rightarrow> string \<Rightarrow> f64" where
  "area_of m c = (case map_of m c of None \<Rightarrow> Fin 0 | Some a \<Rightarrow> a)"

definition sheet_areas :: "SheetLayout list \<Rightarrow> (string \<times> f64) list" where
  "sheet_areas ss = fold (\<lambda>s m. mput (ly_MaterialCode s) (area_of m (ly_MaterialCode s) + ly_Length s * ly_Width s) m) ss []"

definition empty_dataset :: ManufacturingCostDataset where
  "empty_dataset = \<lparr>ds_MaterialConsumption = [], ds_PartCount = 0, ds_OperationCount = 0, ds_FastenerCount = 0,
     ds_PartArea = Fin 0, ds_WasteArea = Fin 0, ds_SheetArea = Fin 0, ds_WastePercent = Fin 0, ds_Utilization = Fin 0,
     ds_Volume = Fin 0, ds_SurfaceArea = Fin 0, ds_Mass = Fin 0, ds_OperationPlan = None,
     ds_EstimatedMachineTime = Fin 0, ds_EstimatedLaborTime = Fin 0, ds_EstimatedProductionTime = Fin 0\<rparr>"

definition mass_of :: "MaterialRegistry option \<Rightarrow> string \<Rightarrow> matAgg \<Rightarrow> f64" where
  "mass_of mr c a = ma_volume a * fl (1 / 1000000000) * ml_Density (the (reg_Find mr c))"

definition add_consumption :: "MaterialRegistry option \<Rightarrow> (string \<times> matAgg) list \<Rightarrow> (string \<times> f64) list
    \<Rightarrow> string \<Rightarrow> ManufacturingCostDataset \<Rightarrow> ManufacturingCostDataset" where
  "add_consumption mr agg areas c d =
     (let a = agg_of agg c; sa = area_of areas c; waste = sa - ma_partArea a in
      d\<lparr>ds_MaterialConsumption := ds_MaterialConsumption d @ [\<lparr>mc_MaterialCode = c, mc_PartArea = ma_partArea a,
           mc_WasteArea = waste, mc_SheetArea = sa, mc_Volume = ma_volume a, mc_Mass = mass_of mr c a\<rparr>],
        ds_PartArea := ds_PartArea d + ma_partArea a, ds_WasteArea := ds_WasteArea d + waste,
        ds_SheetArea := ds_SheetArea d + sa, ds_Volume := ds_Volume d + ma_volume a,
        ds_SurfaceArea := ds_SurfaceArea d + ma_surfaceArea a, ds_Mass := ds_Mass d + mass_of mr c a\<rparr>)"

fun consume :: "MaterialRegistry option \<Rightarrow> (string \<times> matAgg) list \<Rightarrow> (string \<times> f64) list \<Rightarrow> string list
    \<Rightarrow> ManufacturingCostDataset \<Rightarrow> (engine_error, ManufacturingCostDataset) result" where
  "consume mr agg areas [] d = Inr d"
| "consume mr agg areas (c # cs) d =
     guard_with (area_of areas c - ma_partArea (agg_of agg c) < 0) (NestingArea c)
     (consume mr agg areas cs (add_consumption mr agg areas c d))"

definition count_op :: "Operation \<Rightarrow> ManufacturingCostDataset \<Rightarrow> ManufacturingCostDataset" where
  "count_op op d =
     (let d1 = d\<lparr>ds_OperationCount := ds_OperationCount d + 1\<rparr> in
      if op_Machine op = ''manual-workstation''
      then d1\<lparr>ds_EstimatedLaborTime := ds_EstimatedLaborTime d + op_EstimatedTime op\<rparr>
      else d1\<lparr>ds_EstimatedMachineTime := ds_EstimatedMachineTime d + op_EstimatedTime op\<rparr>)"

definition PrepareCost :: "ManufacturingPackage option \<Rightarrow> MaterialRegistry option \<Rightarrow> MachineRates
    \<Rightarrow> (engine_error, ManufacturingCostDataset) result" where
  "PrepareCost pkgo mr rates = (case pkgo of None \<Rightarrow> Inl PackageRequired | Some pkg \<Rightarrow>
     bindR (liftE PackageInvalid (package_Validate pkg)) (\<lambda>_.
     guard_with (mr = None) MaterialsRequired
     (bindR (aggregate mr (pk_CutList pkg) [] []) (\<lambda>(order, agg).
      let areas = sheet_areas (ns_Sheets (the (pk_Nesting pkg))) in
      bindR (consume mr agg areas order empty_dataset) (\<lambda>d0.
      let d1 = d0\<lparr>ds_PartCount := int (length (pk_Parts pkg)), ds_FastenerCount := 0\<rparr> in
      bindR (PlanOperations (Some pkg) rates) (\<lambda>plan.
      let d2 = fold count_op (plan_ops plan) (d1\<lparr>ds_OperationPlan := Some plan\<rparr>);
          d3 = d2\<lparr>ds_EstimatedProductionTime := ds_EstimatedMachineTime d2 + ds_EstimatedLaborTime d2\<rparr>;
          d4 = (if ds_SheetArea d3 > 0
                then d3\<lparr>ds_WastePercent := ds_WasteArea d3 / ds_SheetArea d3,
                        ds_Utilization := ds_PartArea d3 / ds_SheetArea d3\<rparr> else d3) in
      bindR (liftE DatasetInvalid (dataset_Validate d4)) (\<lambda>_. Inr d4)))))))"

subsection \<open>Part numbers\<close>

lemma partNumber_inject:
  assumes "partNumber k m = partNumber k' n" "k \<in> {PartStringer, PartTread, PartRiser, PartColumn}"
    "k' \<in> {PartStringer, PartTread, PartRiser, PartColumn}"
  shows "k = k' \<and> m = n"
proof -
  have l: "length (partPrefix k) = 3" "length (partPrefix k') = 3" by (auto simp: partPrefix_def)
  have "partPrefix k = partPrefix k'" "pad_left 2 (CHR ''0'') (show_nat m) = pad_left 2 (CHR ''0'') (show_nat n)"
    using assms(1) l by (auto simp: partNumber_def)
  moreover have "read_nat (pad_left 2 (CHR ''0'') (show_nat j)) = j" for j
  proof -
    have "read_nat (replicate i (CHR ''0'') @ s) = read_nat s" for i s
      by (induction i) (auto simp: read_nat_def)
    then show ?thesis by (simp add: pad_left_def)
  qed
  ultimately show ?thesis using assms(2,3) by (auto simp: partPrefix_def part_kinds split: if_splits) metis+
qed

lemma classify_kind: "ps_kind (spec_of cfg s) \<in> {PartStringer, PartTread, PartRiser, PartColumn}"
  by (cases "extents (SolidBoundingBox (Some s))")
    (auto simp: spec_of_def columnPart_def classify_def roleKind_def Let_def split: if_splits option.splits prod.splits)

definition seq_of :: "(string \<times> nat) list \<Rightarrow> string \<Rightarrow> nat" where
  "seq_of seq k = (case map_of seq k of None \<Rightarrow> 0 | Some n \<Rightarrow> n)"

lemma seq_of_mput [simp]: "seq_of (mput k n seq) j = (if j = k then n else seq_of seq j)"
  by (simp add: seq_of_def)

definition part_shape :: "part_spec \<Rightarrow> Part \<Rightarrow> bool" where
  "part_shape s p \<longleftrightarrow> pt_Kind p = ps_kind s \<and> NewLength (ps_thickness s) = Inr (pt_Thickness p)
     \<and> NewLength (ps_length s) = Inr (pt_Length p) \<and> NewLength (ps_width s) = Inr (pt_Width p)"

lemma make_parts_Inr:
  assumes "make_parts i seq ss = Inr ps" "list_all (\<lambda>s. PartKind_IsValid (ps_kind s)) ss"
  shows "list_all2 part_shape ss ps \<and> map pt_SolidIndex ps = map int [i..<i + length ss]
    \<and> distinct (map pt_Number ps)
    \<and> (\<forall>p \<in> set ps. \<exists>n > seq_of seq (pt_Kind p). pt_Number p = partNumber (pt_Kind p) n \<and> PartKind_IsValid (pt_Kind p))"
  using assms
proof (induction i seq ss arbitrary: ps rule: make_parts.induct)
  case (2 i seq s ss)
  let ?n = "Suc (seq_of seq (ps_kind s))"
  from 2(2) obtain t l w qs where q: "NewLength (ps_thickness s) = Inr t" "NewLength (ps_length s) = Inr l"
      "NewLength (ps_width s) = Inr w" "make_parts (Suc i) (mput (ps_kind s) ?n seq) ss = Inr qs"
    and ps: "ps = \<lparr>pt_Number = partNumber (ps_kind s) ?n, pt_Kind = ps_kind s, pt_Material = '''',
              pt_Thickness = t, pt_Length = l, pt_Width = w, pt_SolidIndex = int i\<rparr> # qs"
    by (auto simp: Let_def bindR_Inr_iff seq_of_def split: sum.splits)
  have IH: "list_all2 part_shape ss qs" "map pt_SolidIndex qs = map int [Suc i..<Suc i + length ss]"
    "distinct (map pt_Number qs)"
    "\<forall>p \<in> set qs. \<exists>n > seq_of (mput (ps_kind s) ?n seq) (pt_Kind p). pt_Number p = partNumber (pt_Kind p) n
       \<and> PartKind_IsValid (pt_Kind p)"
    using 2(1)[OF _ refl] q(4) 2(3) by (simp_all add: seq_of_def)
  have up: "[i..<i + length (s # ss)] = i # [Suc i..<Suc i + length ss]" by (simp add: upt_conv_Cons del: upt_Suc)
  have "pt_Number p \<noteq> partNumber (ps_kind s) ?n" if "p \<in> set qs" for p
  proof
    assume e: "pt_Number p = partNumber (ps_kind s) ?n"
    from IH(4) that obtain n where n: "n > seq_of (mput (ps_kind s) ?n seq) (pt_Kind p)"
      "pt_Number p = partNumber (pt_Kind p) n" "PartKind_IsValid (pt_Kind p)" by blast
    have "pt_Kind p = ps_kind s \<and> n = ?n"
      using partNumber_inject[of "pt_Kind p" n "ps_kind s" ?n] e n 2(3) by (simp add: PartKind_IsValid_def)
    then show False using n(1) by simp
  qed
  then have "partNumber (ps_kind s) ?n \<notin> set (map pt_Number qs)" by force
  then have "distinct (map pt_Number ps)" using IH(3) by (simp add: ps)
  moreover have "\<exists>n > seq_of seq (pt_Kind p). pt_Number p = partNumber (pt_Kind p) n \<and> PartKind_IsValid (pt_Kind p)"
    if "p \<in> set ps" for p
  proof (cases "p \<in> set qs")
    case True
    then obtain n where "n > seq_of (mput (ps_kind s) ?n seq) (pt_Kind p)"
      "pt_Number p = partNumber (pt_Kind p) n" "PartKind_IsValid (pt_Kind p)" using IH(4) by blast
    then show ?thesis by (intro exI[of _ n]) (auto split: if_splits)
  next
    case False
    then have "p = hd ps" using that by (auto simp: ps)
    then show ?thesis using 2(3) by (intro exI[of _ ?n]) (simp add: ps)
  qed
  moreover have "list_all2 part_shape (s # ss) ps" using IH(1) q(1-3) by (simp add: ps part_shape_def)
  moreover have "map pt_SolidIndex ps = map int [i..<i + length (s # ss)]" using IH(2) unfolding up by (simp add: ps)
  ultimately show ?case by blast
qed auto

lemma classify_order: "\<not> ps_length (spec_of cfg s) < ps_width (spec_of cfg s)"
proof -
  have t: "x < y \<Longrightarrow> y < x \<Longrightarrow> False" for x y :: f64 by (cases x; cases y) auto
  have c: "\<not> ps_length (classify d r) < ps_width (classify d r)" for d r
    by (cases d) (auto simp: classify_def Let_def split: if_splits dest: t)
  show ?thesis using c by (auto simp: spec_of_def columnPart_def Let_def dest: t)
qed

lemma decompose_parts_core:
  assumes "decompose cfg (Some solids) = Inr parts"
  shows "length parts = length solids \<and> map pt_SolidIndex parts = map int [0..<length solids]
    \<and> distinct (map pt_Number parts)
    \<and> list_all (\<lambda>p. PartKind_IsValid (pt_Kind p) \<and> \<not> pt_Length p < pt_Width p) parts"
proof -
  have m: "make_parts 0 [] (map (spec_of cfg) solids) = Inr parts"
    using assms by (simp add: decompose_def guard_with_Inr_iff)
  have k: "list_all (\<lambda>s. PartKind_IsValid (ps_kind s)) (map (spec_of cfg) solids)"
    using classify_kind by (auto simp: list_all_iff PartKind_IsValid_def)
  note M = make_parts_Inr[OF m k]
  have "\<not> pt_Length p < pt_Width p" if p: "p \<in> set parts" for p
  proof -
    obtain s where "part_shape (spec_of cfg s) p"
      using M p by (auto simp: list_all2_conv_all_nth in_set_conv_nth)
    then show ?thesis using classify_order[of cfg s] by (auto simp: part_shape_def NewLength_Inr_iff)
  qed
  then show ?thesis using M by (auto simp: list_all_iff dest: list_all2_lengthD)
qed

subsection \<open>The bill of materials\<close>

lemma mset_partition:
  assumes "distinct ks" "f ` set xs \<subseteq> set ks"
  shows "mset (concat (map (\<lambda>k. filter (\<lambda>x. f x = k) xs) ks)) = mset xs"
  using assms
proof (induction ks arbitrary: xs)
  case (Cons k ks)
  let ?ys = "filter (\<lambda>x. f x \<noteq> k) xs"
  have "filter (\<lambda>x. f x = j) xs = filter (\<lambda>x. f x = j) ?ys" if "j \<in> set ks" for j
    using that Cons.prems(1) by (auto intro!: filter_cong)
  then have "concat (map (\<lambda>j. filter (\<lambda>x. f x = j) xs) ks) = concat (map (\<lambda>j. filter (\<lambda>x. f x = j) ?ys) ks)"
    by (metis (mono_tags, lifting) map_eq_conv)
  moreover have "mset (concat (map (\<lambda>j. filter (\<lambda>x. f x = j) ?ys) ks)) = mset ?ys"
    using Cons.prems by (intro Cons.IH) auto
  ultimately show ?case using multiset_partition[of "mset xs" "\<lambda>x. f x = k"] by simp
qed simp

definition bom_inv :: "Part list \<Rightarrow> part_key list \<times> (part_key \<times> string list) list \<Rightarrow> bool" where
  "bom_inv done st \<longleftrightarrow> distinct (fst st) \<and> set (fst st) = part_key ` set done
     \<and> (\<forall>k. map_of (snd st) k = None \<longleftrightarrow> k \<notin> set (fst st))
     \<and> (\<forall>k. numbers_of (snd st) k = map pt_Number (filter (\<lambda>p. part_key p = k) done))"

lemma bom_step_inv: assumes "bom_inv done st" shows "bom_inv (done @ [p]) (bom_step p st)"
proof -
  obtain order gs where st: "st = (order, gs)" by (cases st)
  have n: "numbers_of (mput k v gs) j = (if j = k then v else numbers_of gs j)" for k v j
    by (simp add: numbers_of_def)
  have I: "distinct order" "set order = part_key ` set done" "\<And>k. map_of gs k = None \<longleftrightarrow> k \<notin> set order"
    "\<And>k. numbers_of gs k = map pt_Number (filter (\<lambda>p. part_key p = k) done)"
    using assms unfolding bom_inv_def st fst_conv snd_conv by blast+
  let ?k = "part_key p"
  define order' where "order' = (if map_of gs ?k = None then order @ [?k] else order)"
  define gs' where "gs' = mput ?k (numbers_of gs ?k @ [pt_Number p]) gs"
  have e: "bom_step p st = (order', gs')" by (simp add: bom_step_def st Let_def order'_def gs'_def)
  have o: "distinct order'" "set order' = insert ?k (set order)" using I(1) I(3)[of ?k] by (auto simp: order'_def)
  have "numbers_of gs' k = map pt_Number (filter (\<lambda>p. part_key p = k) (done @ [p]))" for k
    by (simp add: gs'_def n I(4))
  moreover have "map_of gs' k = None \<longleftrightarrow> k \<notin> set order'" for k by (simp add: gs'_def o(2) I(3))
  ultimately show ?thesis using o I(2) unfolding bom_inv_def e by simp
qed

lemma bom_fold_inv: "bom_inv done st \<Longrightarrow> bom_inv (done @ parts) (fold bom_step parts st)"
proof (induction parts arbitrary: "done" st)
  case (Cons p parts)
  then show ?case using bom_step_inv[OF Cons.prems, of p] Cons.IH[of "done @ [p]" "bom_step p st"] by simp
qed simp

lemma bom_groups:
  obtains order gs where "fold bom_step parts ([], []) = (order, gs)" "distinct order" "set order = part_key ` set parts"
    "\<And>k. numbers_of gs k = map pt_Number (filter (\<lambda>p. part_key p = k) parts)"
proof -
  obtain order gs where e: "fold bom_step parts ([], []) = (order, gs)" by force
  have "bom_inv ([] @ parts) (order, gs)"
    using bom_fold_inv[of "[]" "([], [])" parts] unfolding e by (simp add: bom_inv_def numbers_of_def)
  then show thesis using that[OF e] by (auto simp: bom_inv_def)
qed

definition part_dims :: "Part \<Rightarrow> string \<times> Length \<times> Length \<times> Length" where
  "part_dims p = (pt_Material p, pt_Thickness p, pt_Length p, pt_Width p)"

definition item_dims :: "CutItem \<Rightarrow> string \<times> Length \<times> Length \<times> Length" where
  "item_dims it = (ci_MaterialCode it, ci_Thickness it, ci_Length it, ci_Width it)"

definition items_dims :: "CutItem list \<Rightarrow> (string \<times> Length \<times> Length \<times> Length) list" where
  "items_dims its = concat (map (\<lambda>it. replicate (nat (ci_Quantity it)) (item_dims it)) its)"

lemma bom_core:
  assumes "buildBOM parts = (bom, its)"
  shows "mset (items_dims its) = mset (map part_dims parts)
    \<and> list_all (\<lambda>it. 0 < ci_Quantity it \<and> (ci_PartNumber it, item_dims it) \<in> set (map (\<lambda>p. (pt_Number p, part_dims p)) parts)) its
    \<and> map bl_Number bom = map int [1..<Suc (length its)]
    \<and> map (\<lambda>l. (bl_PartNumber l, bl_Quantity l)) bom = map (\<lambda>it. (ci_PartNumber it, ci_Quantity it)) its"
proof -
  obtain order gs where e: "fold bom_step parts ([], []) = (order, gs)" "distinct order" "set order = part_key ` set parts"
    "\<And>k. numbers_of gs k = map pt_Number (filter (\<lambda>p. part_key p = k) parts)"
    using bom_groups[of parts] by blast
  have bom: "bom = map (\<lambda>(i, k). bom_line i k (numbers_of gs k)) (enumerate 0 order)"
    and its: "its = map (\<lambda>k. cut_item k (numbers_of gs k)) order"
    using assms e(1) by (simp_all add: buildBOM_def)
  have dims: "item_dims (cut_item k ns) = snd k" "nat (ci_Quantity (cut_item k ns)) = length ns"
    "ci_Quantity (cut_item k ns) = int (length ns)" "ci_PartNumber (cut_item k ns) = hd ns" for k ns
    by (auto simp: cut_item_def item_dims_def split: prod.splits)
  have pk: "snd (part_key p) = part_dims p" for p by (simp add: part_key_def part_dims_def)
  have "replicate (length (numbers_of gs k)) (snd k) = map part_dims (filter (\<lambda>p. part_key p = k) parts)" for k
    by (rule replicate_eqI[symmetric]) (auto simp: e(4) pk[symmetric])
  then have "items_dims its = map part_dims (concat (map (\<lambda>k. filter (\<lambda>p. part_key p = k) parts) order))"
    by (simp add: items_dims_def its dims comp_def map_concat)
  moreover have "mset (concat (map (\<lambda>k. filter (\<lambda>p. part_key p = k) parts) order)) = mset parts"
    using e(3) by (intro mset_partition[OF e(2)]) simp
  ultimately have 1: "mset (items_dims its) = mset (map part_dims parts)" by simp
  have 2: "0 < ci_Quantity it \<and> (ci_PartNumber it, item_dims it) \<in> set (map (\<lambda>p. (pt_Number p, part_dims p)) parts)"
    if it: "it \<in> set its" for it
  proof -
    from it obtain k where k: "k \<in> set order" "it = cut_item k (numbers_of gs k)" by (auto simp: its)
    then obtain p where p: "p \<in> set parts" "part_key p = k" using e(3) by auto
    then obtain q qs where q: "filter (\<lambda>p. part_key p = k) parts = q # qs" by (cases "filter (\<lambda>p. part_key p = k) parts") (auto simp: filter_empty_conv)
    then have "q \<in> set parts" "part_key q = k" by (auto simp: filter_eq_Cons_iff)
    then show ?thesis using q pk[of q] by (auto simp: k(2) dims e(4))
  qed
  have ln: "bl_Number (bom_line i k ns) = int i + 1" "bl_PartNumber (bom_line i k ns) = hd ns"
    "bl_Quantity (bom_line i k ns) = int (length ns)" for i k ns
    by (auto simp: bom_line_def split: prod.splits)
  have 3: "map bl_Number bom = map int [1..<Suc (length its)]"
    by (rule nth_equalityI) (auto simp: bom its ln nth_enumerate_eq simp del: upt_Suc)
  have 4: "map (\<lambda>l. (bl_PartNumber l, bl_Quantity l)) bom = map (\<lambda>it. (ci_PartNumber it, ci_Quantity it)) its"
    by (rule nth_equalityI) (auto simp: bom its ln dims nth_enumerate_eq)
  show ?thesis using 1 2 3 4 by (auto simp: list_all_iff)
qed

text \<open>C19: the cut list accounts for every part: its items with their quantities are the material and
  the dimensions of the parts, each part once; quantities are positive, an item is named after one
  of its parts, and the lines of the bill are numbered from 1 and agree with the items.\<close>

theorem bom_conserves:
  assumes "buildBOM parts = (bom, its)"
  shows "mset (items_dims its) = mset (map part_dims parts)
    \<and> list_all (\<lambda>it. 0 < ci_Quantity it \<and> (ci_PartNumber it, item_dims it) \<in> set (map (\<lambda>p. (pt_Number p, part_dims p)) parts)) its
    \<and> map bl_Number bom = map int [1..<Suc (length its)]
    \<and> map (\<lambda>l. (bl_PartNumber l, bl_Quantity l)) bom = map (\<lambda>it. (ci_PartNumber it, ci_Quantity it)) its"
  using assms by (rule bom_core)

subsection \<open>The package\<close>

lemma is_rep_special [simp]: "is_rep (Inf s)" "is_rep NaN" "is_rep (Fin 0)"
  by (simp_all add: is_rep_def)

lemma is_rep_ops [simp]: "is_rep (a + b)" "is_rep (a - b)" "is_rep (a * b)"
proof -
  have s: "is_rep (x + y)" for x y by (cases x; cases y) auto
  show "is_rep (a + b)" "is_rep (a - b)" by (simp_all add: minus_f64_def s)
  show "is_rep (a * b)" by (cases a; cases b) auto
qed

lemma spec_rep: "is_rep (ps_length (spec_of cfg s)) \<and> is_rep (ps_width (spec_of cfg s))"
proof -
  have "is_rep x \<and> is_rep y \<and> is_rep z \<Longrightarrow> is_rep (ps_length (classify (x, y, z) r)) \<and> is_rep (ps_width (classify (x, y, z) r))"
    for x y z r by (auto simp: classify_def Let_def)
  then show ?thesis by (auto simp: spec_of_def columnPart_def Let_def extents_def)
qed

lemma NewLength_len_ok: "NewLength x = Inr l \<Longrightarrow> is_rep x \<Longrightarrow> len_ok l \<and> l = x"
  by (auto simp: NewLength_Inr_iff len_ok_def)

lemma decompose_lengths:
  assumes "decompose cfg (Some solids) = Inr parts" "p \<in> set parts"
  shows "len_ok (pt_Length p) \<and> len_ok (pt_Width p)"
proof -
  have m: "make_parts 0 [] (map (spec_of cfg) solids) = Inr parts"
    using assms(1) by (simp add: decompose_def guard_with_Inr_iff)
  have k: "list_all (\<lambda>s. PartKind_IsValid (ps_kind s)) (map (spec_of cfg) solids)"
    using classify_kind by (auto simp: list_all_iff PartKind_IsValid_def)
  obtain s where "part_shape (spec_of cfg s) p"
    using make_parts_Inr[OF m k] assms(2) by (auto simp: list_all2_conv_all_nth in_set_conv_nth)
  then show ?thesis using spec_rep[of cfg s] NewLength_len_ok by (auto simp: part_shape_def)
qed

lemma assign_all_Inr:
  "assign_all cfg reg ps = Inr qs \<Longrightarrow>
    map (\<lambda>p. (pt_Number p, pt_Kind p, pt_Thickness p, pt_Length p, pt_Width p)) qs =
    map (\<lambda>p. (pt_Number p, pt_Kind p, pt_Thickness p, pt_Length p, pt_Width p)) ps"
  by (induction ps arbitrary: qs) (auto simp: bindR_Inr_iff)

lemma buildSheets_ok:
  "buildSheets i ds = Inr ss \<Longrightarrow> list_all (\<lambda>(x, y). is_rep x \<and> is_rep y) ds \<Longrightarrow>
    list_all (\<lambda>so. \<exists>s. so = Some s \<and> sheet_ok s) ss"
proof (induction i ds arbitrary: ss rule: buildSheets.induct)
  case (2 i x y ds)
  then show ?case by (auto simp: bindR_Inr_iff sheet_ok_def dest: NewLength_len_ok split: sum.splits)
qed simp

lemma add_sheets_ok:
  "add_sheets ss r = Inr r' \<Longrightarrow> list_all (\<lambda>so. \<exists>s. so = Some s \<and> sheet_ok s) ss \<Longrightarrow>
    (\<And>c. list_all sheet_ok (sheets_of r c)) \<Longrightarrow> list_all sheet_ok (sheets_of r' c)"
proof (induction ss r arbitrary: c rule: add_sheets.induct)
  case (2 so ss r)
  then obtain s where so: "so = Some s" "sheet_ok s" by auto
  let ?r = "\<lparr>sr_byMaterial = mput (st_MaterialCode s) (sheets_of r (st_MaterialCode s) @ [s]) (sr_byMaterial r),
        sr_order = (if map_of (sr_byMaterial r) (st_MaterialCode s) = None then sr_order r @ [st_MaterialCode s] else sr_order r)\<rparr>"
  have a: "add_sheets ss ?r = Inr r'" using 2(2) by (simp add: so bindR_Inr_iff guard_with_Inr_iff Let_def)
  have "list_all sheet_ok (sheets_of ?r c)" for c
  proof -
    have "sheets_of ?r c = (if c = st_MaterialCode s then sheets_of r c @ [s] else sheets_of r c)"
      by (simp add: sheets_of_def)
    then show ?thesis using 2(4)[of c] 2(4)[of "st_MaterialCode s"] so(2) by simp
  qed
  then show ?case using 2(1)[where c = c] a 2(3) by (simp add: so)
qed simp

lemma is_rep_numeral_int: "numeral k \<le> (2::int) ^ 53 \<Longrightarrow> is_rep (Fin (numeral k))"
  using len_ok_numeral[of k] by (simp add: len_ok_def)

lemma default_sheets_ok:
  assumes "DefaultStockSheetRegistry = Inr r" shows "list_all sheet_ok (sheets_of r c)"
proof -
  from assms obtain ss where ss: "buildSheets 0 defaultStockSheetsMM = Inr ss" "NewStockSheetRegistry ss = Inr r"
    unfolding DefaultStockSheetRegistry_def buildDefaultStockSheets_def
    by (cases "buildSheets 0 defaultStockSheetsMM"; cases "NewStockSheetRegistry (projr (buildSheets 0 defaultStockSheetsMM))") auto
  have "list_all (\<lambda>(x, y). is_rep x \<and> is_rep y) defaultStockSheetsMM"
    by (simp add: defaultStockSheetsMM_def is_rep_numeral_int)
  then show ?thesis using add_sheets_ok[OF ss(2)[unfolded NewStockSheetRegistry_def]] buildSheets_ok[OF ss(1)]
    by (simp add: sheets_of_def)
qed

definition placed_dims :: "NestingResult \<Rightarrow> (Length \<times> Length) list" where
  "placed_dims n = map (\<lambda>r. (cr_length r, cr_width r)) (concat (map layout_rects (ns_Sheets n)))"

lemma items_count:
  "list_all (\<lambda>it. 0 < ci_Quantity it) its \<Longrightarrow> int (length (items_dims its)) = sum_list (map ci_Quantity its)"
  by (induction its) (simp_all add: items_dims_def)

lemma liftE_Inr_iff [simp]: "(liftE f r = Inr a) = (r = Inr a)"
  by (cases r) (auto simp: liftE_def)

lemma Manufacture_Inr:
  assumes "Manufacture gomaxprocs sched (Some cfg) (Some g) = Inr pkg"
  shows "\<exists>solids parts0 registry parts bom its sheets n. gn_Model g = Some solids
    \<and> decompose cfg (Some solids) = Inr parts0 \<and> assign_all cfg registry parts0 = Inr parts
    \<and> buildBOM parts = (bom, its) \<and> DefaultStockSheetRegistry = Inr sheets
    \<and> Nest gomaxprocs sched its (Some sheets) DefaultKerf = Inr n
    \<and> pkg = \<lparr>pk_Parts = parts, pk_BOM = bom, pk_CutList = its, pk_Nesting = Some n\<rparr>"
proof -
  obtain solids where g: "gn_Model g = Some solids"
    using assms by (auto simp: Manufacture_def guard_with_Inr_iff)
  have f: "find (\<lambda>(sev, code). sev = ''error'') (gn_Issues g) = None"
    using assms by (auto simp: Manufacture_def guard_with_Inr_iff bindR_Inr_iff split: option.splits)
  obtain parts0 registry parts where p: "decompose cfg (Some solids) = Inr parts0"
      "assign_all cfg registry parts0 = Inr parts"
      and r: "(case buildBOM parts of (bom, cutl) \<Rightarrow>
         bindR (liftE NestFailed DefaultStockSheetRegistry) (\<lambda>sheets.
         bindR (liftE NestFailed (Nest gomaxprocs sched cutl (Some sheets) DefaultKerf)) (\<lambda>nesting.
         let pkg = \<lparr>pk_Parts = parts, pk_BOM = bom, pk_CutList = cutl, pk_Nesting = Some nesting\<rparr> in
         bindR (liftE PackageInvalid (package_Validate pkg)) (\<lambda>_. Inr pkg)))) = Inr pkg"
    using assms by (auto simp only: Manufacture_def g f guard_with_Inr_iff bindR_Inr_iff option.case)
  obtain bom its where b: "buildBOM parts = (bom, its)" by (cases "buildBOM parts")
  then obtain sheets n where "DefaultStockSheetRegistry = Inr sheets"
      "Nest gomaxprocs sched its (Some sheets) DefaultKerf = Inr n"
      "pkg = \<lparr>pk_Parts = parts, pk_BOM = bom, pk_CutList = its, pk_Nesting = Some n\<rparr>"
    using r by (auto simp: bindR_Inr_iff Let_def)
  then show ?thesis using g p b by blast
qed

text \<open>C18: a manufactured package has every part of the decomposition on a sheet: the placed
  rectangles are exactly the parts' lengths and widths, nothing overlaps, everything lies inside its
  sheet with the kerf around it, and the counts agree.\<close>

theorem manufacture_packs:
  assumes M: "Manufacture gomaxprocs sched (Some cfg) (Some g) = Inr pkg"
    and sched: "is_schedule sched (length (fst (group_items (pk_CutList pkg))))"
  shows "\<exists>n. pk_Nesting pkg = Some n \<and> list_all (layout_ok DefaultKerf) (ns_Sheets n)
    \<and> mset (placed_dims n) = mset (map (\<lambda>p. (pt_Length p, pt_Width p)) (pk_Parts pkg))
    \<and> ns_PartCount n = int (length (pk_Parts pkg))
    \<and> Some (length (pk_Parts pkg)) = map_option length (gn_Model g)
    \<and> distinct (map pt_Number (pk_Parts pkg))"
proof -
  obtain solids parts0 registry parts bom its sheets n where
    d: "gn_Model g = Some solids" "decompose cfg (Some solids) = Inr parts0" "assign_all cfg registry parts0 = Inr parts"
    and b: "buildBOM parts = (bom, its)" and s: "DefaultStockSheetRegistry = Inr sheets"
    and n: "Nest gomaxprocs sched its (Some sheets) DefaultKerf = Inr n"
    and pkg: "pkg = \<lparr>pk_Parts = parts, pk_BOM = bom, pk_CutList = its, pk_Nesting = Some n\<rparr>"
    using Manufacture_Inr[OF M] by blast
  note A = assign_all_Inr[OF d(3)]
  have nums: "map pt_Number parts = map pt_Number parts0"
    using arg_cong[OF A, of "map fst"] by (simp add: comp_def)
  have lens: "map (\<lambda>p. (pt_Length p, pt_Width p)) parts = map (\<lambda>p. (pt_Length p, pt_Width p)) parts0"
    using arg_cong[OF A, of "map (\<lambda>(_, _, _, l, w). (l, w))"] by (simp add: comp_def)
  have P: "length parts0 = length solids" "distinct (map pt_Number parts0)"
    using decompose_parts_core[OF d(2)] by auto
  have ok: "len_ok (pt_Length p) \<and> len_ok (pt_Width p)" if "p \<in> set parts" for p
  proof -
    have "(pt_Length p, pt_Width p) \<in> set (map (\<lambda>p. (pt_Length p, pt_Width p)) parts)" using that by simp
    then have "(pt_Length p, pt_Width p) \<in> set (map (\<lambda>p. (pt_Length p, pt_Width p)) parts0)" by (simp only: lens)
    then show ?thesis using decompose_lengths[OF d(2)] by auto
  qed
  have B: "mset (items_dims its) = mset (map part_dims parts)"
    "list_all (\<lambda>it. 0 < ci_Quantity it \<and> (ci_PartNumber it, item_dims it) \<in> set (map (\<lambda>p. (pt_Number p, part_dims p)) parts)) its"
    using bom_core[OF b] by auto
  have ne: "parts \<noteq> []" using P(1) d(2) nums by (auto simp: decompose_def guard_with_Inr_iff)
  have it: "0 < ci_Quantity it \<and> len_ok (ci_Length it) \<and> len_ok (ci_Width it)" if itm: "it \<in> set its" for it
  proof -
    obtain p where "p \<in> set parts" "item_dims it = part_dims p" using B(2) itm by (auto simp: list_all_iff)
    then show ?thesis using B(2) itm ok by (auto simp: list_all_iff item_dims_def part_dims_def)
  qed
  have "its \<noteq> []" using B(1) ne by (auto simp: items_dims_def)
  then have inp: "nest_input its sheets DefaultKerf"
    using it default_sheets_ok[OF s] by (auto simp: nest_input_def list_all_iff DefaultKerf_def len_ok_numeral)
  have N: "list_all (layout_ok DefaultKerf) (ns_Sheets n)"
    "mset (concat (map layout_rects (ns_Sheets n))) = mset (concat (map item_rects its))"
    "ns_PartCount n = sum_list (map ci_Quantity its)"
    using nest_core[OF inp sched[unfolded pkg, simplified], of gomaxprocs] n by auto
  have "map (\<lambda>r. (cr_length r, cr_width r)) (concat (map item_rects its)) = map (\<lambda>(m, t, l, w). (l, w)) (items_dims its)"
    by (induction its) (auto simp: items_dims_def item_rects_def item_rect_def item_dims_def)
  then have "mset (placed_dims n) = mset (map (\<lambda>(m, t, l, w). (l, w)) (items_dims its))"
    using N(2) unfolding placed_dims_def by (metis mset_map)
  also have "\<dots> = mset (map (\<lambda>(m, t, l, w). (l, w)) (map part_dims parts))" using B(1) by (metis mset_map)
  finally have D: "mset (placed_dims n) = mset (map (\<lambda>p. (pt_Length p, pt_Width p)) parts)"
    by (simp add: comp_def part_dims_def)
  have "int (length (items_dims its)) = sum_list (map ci_Quantity its)"
    by (rule items_count) (use it in \<open>simp add: list_all_iff\<close>)
  then have "ns_PartCount n = int (length parts)" using N(3) mset_eq_length[OF B(1)] by simp
  then show ?thesis using N(1) D P nums d(1) by (simp add: pkg) (metis length_map)
qed

subsection \<open>Examples\<close>

definition demo_tread :: Solid where
  "demo_tread = \<lparr>so_shells = [[\<lparr>fa_outer =
     [(\<lparr>p_X = Fin 1, p_Y = Fin 1, p_Z = Fin 1\<rparr>, \<lparr>p_X = Fin 1001, p_Y = Fin 1, p_Z = Fin 1\<rparr>),
      (\<lparr>p_X = Fin 1001, p_Y = Fin 1, p_Z = Fin 1\<rparr>, \<lparr>p_X = Fin 1001, p_Y = Fin 301, p_Z = Fin 41\<rparr>),
      (\<lparr>p_X = Fin 1001, p_Y = Fin 301, p_Z = Fin 41\<rparr>, \<lparr>p_X = Fin 1, p_Y = Fin 1, p_Z = Fin 1\<rparr>)],
     fa_inner = []\<rparr>]], so_role = ''tread''\<rparr>"

definition demo_flight :: StairConfiguration where
  "demo_flight = zero_config\<lparr>cf_Width := Fin 900, cf_Height := Fin 3000, cf_Flight := FlightStraight, cf_StepCount := 17\<rparr>"

definition demo_geometry :: GenerationResult where
  "demo_geometry = \<lparr>gn_Model = Some [demo_tread, demo_tread], gn_Issues = []\<rparr>"

definition demo_part :: "string \<Rightarrow> string \<Rightarrow> int \<Rightarrow> Part" where
  "demo_part n m i = \<lparr>pt_Number = n, pt_Kind = PartTread, pt_Material = m,
     pt_Thickness = Fin 40, pt_Length = Fin 1000, pt_Width = Fin 300, pt_SolidIndex = i\<rparr>"

definition demo_parts :: "string \<Rightarrow> Part list" where
  "demo_parts m = [demo_part ''TRD-01'' m 0, demo_part ''TRD-02'' m 1]"

definition demo_key :: part_key where
  "demo_key = (PartTread, ''STEEL-S235'', Fin 40, Fin 1000, Fin 300)"

definition demo_layout :: SheetLayout where
  "demo_layout = \<lparr>ly_MaterialCode = ''STEEL-S235'', ly_Thickness = Fin 40, ly_Length = Fin 2500, ly_Width = Fin 1250,
     ly_Placed = [\<lparr>pl_PartNumber = ''TRD-01'', pl_Length = Fin 1000, pl_Width = Fin 300, pl_X = Fin 0, pl_Y = Fin 0\<rparr>,
       \<lparr>pl_PartNumber = ''TRD-01'', pl_Length = Fin 1000, pl_Width = Fin 300, pl_X = Fin 1003, pl_Y = Fin 0\<rparr>]\<rparr>"

definition demo_result :: NestingResult where
  "demo_result = \<lparr>ns_Sheets = [demo_layout], ns_PartCount = 2, ns_PartArea = Fin 600000,
     ns_SheetArea = Fin 3125000, ns_WasteArea = Fin 2525000, ns_Utilization = Fin (3458764513820541 / 18014398509481984)\<rparr>"

definition demo_package :: ManufacturingPackage where
  "demo_package = \<lparr>pk_Parts = demo_parts ''STEEL-S235'', pk_BOM = [bom_line 0 demo_key [''TRD-01'', ''TRD-02'']],
     pk_CutList = [cut_item demo_key [''TRD-01'', ''TRD-02'']], pk_Nesting = Some demo_result\<rparr>"

definition demo_rects :: "cutRect list" where
  "demo_rects = replicate 2 \<lparr>cr_partNumber = ''TRD-01'', cr_length = Fin 1000, cr_width = Fin 300\<rparr>"

definition demo_sheet :: StockSheet where
  "demo_sheet = \<lparr>st_MaterialCode = ''STEEL-S235'', st_Length = Fin 2500, st_Width = Fin 1250\<rparr>"

definition ok_and :: "('e, 'a) result \<Rightarrow> ('a \<Rightarrow> bool) \<Rightarrow> bool" where
  "ok_and r P = (case r of Inl e \<Rightarrow> False | Inr a \<Rightarrow> P a)"

lemma demo_decompose: "decompose demo_flight (Some [demo_tread, demo_tread]) = Inr (demo_parts '''')"
  by code_simp

lemma demo_assign:
  "bindR (liftE CatalogError DefaultMaterialRegistry) (\<lambda>r. assign_all demo_flight r (demo_parts ''''))
   = Inr (demo_parts ''STEEL-S235'')"
  by code_simp

lemma demo_bom: "buildBOM (demo_parts ''STEEL-S235'') = (pk_BOM demo_package, pk_CutList demo_package)"
  by code_simp

lemma demo_pick:
  "ok_and DefaultStockSheetRegistry (\<lambda>r. pickSheet (Some r) ''STEEL-S235'' demo_rects DefaultKerf = Inr demo_sheet)"
  by code_simp

lemma demo_pack: "nestGroup demo_rects demo_sheet (Fin 40) DefaultKerf = [demo_layout]"
  by code_simp

lemma demo_areas:
  "add_layout demo_layout empty_nesting = demo_result\<lparr>ns_WasteArea := Fin 0, ns_Utilization := Fin 0\<rparr>"
  "Fin 3125000 - Fin 600000 = Fin 2525000" "fl (24 / 125) = Fin (3458764513820541 / 18014398509481984)"
  by code_simp+

lemma demo_groups:
  "group_items (pk_CutList demo_package) = ([(''STEEL-S235'', Fin 40)], [((''STEEL-S235'', Fin 40), demo_rects)])"
  by code_simp

lemma demo_slots: "Execute_slots (New_limit 4 0) None (\<lambda>_. None) [0] (Suc 0) task
    = (case task 0 of Inl e \<Rightarrow> (Some e, [None]) | Inr r \<Rightarrow> (None, [Some r]))"
  by (simp add: Execute_slots_def split: sum.splits)

lemma demo_bounds:
  "\<not> Fin 2500 + Precision < fl 2003" "\<not> Fin 2500 + Precision < fl 1000" "\<not> Fin 1250 + Precision < fl 300"
  "\<not> fl (1000001 / 1000000) < Fin (3458764513820541 / 18014398509481984)"
  "\<not> Precision < \<bar>Fin 2525000 - (Fin 3125000 - Fin 600000)\<bar>" "\<not> Fin 3125000 + Precision < Fin 600000"
  by code_simp+

lemma demo_valid: "package_Validate demo_package = Inr ()"
  by (simp add: demo_package_def demo_parts_def demo_key_def package_Validate_def demo_part_def bom_line_def
    demo_result_def check_part_def guard_with_def PartKind_IsValid_def zero_f64_def check_bom_line_def
    nesting_Validate_def finite_f_def demo_layout_def check_layout_def check_placed_def seen_parts_def demo_bounds)

lemma demo_manufacture: "Manufacture 4 [0] (Some demo_flight) (Some demo_geometry) = Inr demo_package"
proof -
  obtain mr where mr: "DefaultMaterialRegistry = Inr mr" "assign_all demo_flight mr (demo_parts '''') = Inr (demo_parts ''STEEL-S235'')"
    using demo_assign by (auto simp: bindR_Inr_iff)
  obtain sr where sr: "DefaultStockSheetRegistry = Inr sr"
      "pickSheet (Some sr) ''STEEL-S235'' demo_rects DefaultKerf = Inr demo_sheet"
    using demo_pick by (auto simp: ok_and_def split: sum.splits)
  have k: "\<not> isNaN DefaultKerf" "\<not> isInf DefaultKerf" "\<not> DefaultKerf < 0" "pk_CutList demo_package \<noteq> []" "\<not> Fin 3125000 \<le> 0" "0 < Fin 3125000"
    by (simp_all add: DefaultKerf_def zero_f64_def demo_package_def)
  have n: "Nest 4 [0] (pk_CutList demo_package) (Some sr) DefaultKerf = Inr demo_result"
    using sr k by (simp add: Nest_def demo_groups demo_slots group_of_def demo_pack demo_areas guard_with_def demo_result_def)
  have v: "stair_Validate demo_flight = Inr ()" by code_simp
  show ?thesis using demo_valid
    by (simp add: Manufacture_def demo_geometry_def guard_with_def v liftE_def mr sr demo_decompose demo_bom n)
       (simp add: demo_package_def)
qed

theorem bom_conserves_witness: "ci_Quantity (hd (pk_CutList demo_package)) = 2
   \<and> mset (items_dims (pk_CutList demo_package)) = mset (map part_dims (demo_parts ''STEEL-S235''))"
  using bom_conserves[OF demo_bom] by (simp add: demo_package_def cut_item_def demo_key_def)

theorem manufacture_packs_witness:
  "\<exists>pkg. Manufacture 4 [0] (Some demo_flight) (Some demo_geometry) = Inr pkg
     \<and> mset (placed_dims (the (pk_Nesting pkg))) = {#(Fin 1000, Fin 300), (Fin 1000, Fin 300)#}"
proof -
  have "is_schedule [0] (length (fst (group_items (pk_CutList demo_package))))"
    by (auto simp: demo_groups is_schedule_def)
  from manufacture_packs[OF demo_manufacture this]
  show ?thesis using demo_manufacture by (auto simp: demo_package_def demo_parts_def demo_part_def)
qed

end
