(* ===== verification/Breaker.thy ===== *)
theory Breaker
  imports Prelude
begin

text \<open>
  \<open>internal/infrastructure/circuitbreaker/breaker.go\<close>: the circuit breaker in front of the external
  services. The methods run under the breaker's mutex, so each is one step on its state; a call of
  \<open>Execute\<close> is two steps, \<open>allowRequest\<close> and \<open>recordResult\<close>, with the protected function in between,
  and steps of other goroutines interleave there (the step relation \<open>bstep\<close>). Times are nanoseconds;
  \<open>cb_log\<close> lists the pairs passed to the transition counter and the \<open>onStateChange\<close> callback.
\<close>

datatype State = StateClosed | StateOpen | StateHalfOpen

definition State_String :: "State \<Rightarrow> string" where
  "State_String s = (case s of StateClosed \<Rightarrow> ''closed'' | StateOpen \<Rightarrow> ''open'' | StateHalfOpen \<Rightarrow> ''half_open'')"

datatype breaker_error = ErrCircuitOpen | ErrTooManyRequests

text \<open>What \<open>Execute\<close> returns: an error of the breaker, its own or one the function passes on, or another.\<close>

datatype 'e berror = Refused breaker_error | FnError 'e

record Settings =
  se_FailureThreshold :: int
  se_SuccessThreshold :: int
  se_Timeout :: int
  se_MaxRequests :: int

definition DefaultSettings :: Settings where
  "DefaultSettings = \<lparr>se_FailureThreshold = 5, se_SuccessThreshold = 3, se_Timeout = 30 * 1000000000, se_MaxRequests = 3\<rparr>"

record CircuitBreaker =
  cb_settings :: Settings
  cb_state :: State
  cb_failureCount :: int
  cb_successCount :: int
  cb_lastFailureTime :: int
  cb_halfOpenRequests :: int
  cb_log :: "(State \<times> State) list"

definition New_breaker :: "Settings \<Rightarrow> CircuitBreaker" where
  "New_breaker s = \<lparr>cb_settings = s, cb_state = StateClosed, cb_failureCount = 0, cb_successCount = 0,
     cb_lastFailureTime = 0, cb_halfOpenRequests = 0, cb_log = []\<rparr>"

definition setState :: "State \<Rightarrow> CircuitBreaker \<Rightarrow> CircuitBreaker" where
  "setState new cb =
     (if cb_state cb = new then cb
      else let cb1 = cb\<lparr>cb_state := new, cb_successCount := 0, cb_halfOpenRequests := 0,
                        cb_log := cb_log cb @ [(cb_state cb, new)]\<rparr> in
        case new of StateClosed \<Rightarrow> cb1\<lparr>cb_failureCount := 0\<rparr> | StateOpen \<Rightarrow> cb1 | StateHalfOpen \<Rightarrow> cb1)"

definition checkStateTransition :: "int \<Rightarrow> CircuitBreaker \<Rightarrow> CircuitBreaker" where
  "checkStateTransition now cb =
     (if cb_state cb = StateOpen \<and> now - cb_lastFailureTime cb > se_Timeout (cb_settings cb)
      then setState StateHalfOpen cb else cb)"

definition allowRequest :: "int \<Rightarrow> CircuitBreaker \<Rightarrow> breaker_error option \<times> CircuitBreaker" where
  "allowRequest now cb0 =
     (let cb = checkStateTransition now cb0 in
      case cb_state cb of
        StateClosed \<Rightarrow> (None, cb)
      | StateOpen \<Rightarrow> (Some ErrCircuitOpen, cb)
      | StateHalfOpen \<Rightarrow>
          if cb_halfOpenRequests cb < se_MaxRequests (cb_settings cb)
          then (None, cb\<lparr>cb_halfOpenRequests := cb_halfOpenRequests cb + 1\<rparr>)
          else (Some ErrTooManyRequests, cb))"

definition recordResult :: "int \<Rightarrow> bool \<Rightarrow> CircuitBreaker \<Rightarrow> CircuitBreaker" where
  "recordResult now failed cb =
     (if failed
      then let cb1 = cb\<lparr>cb_failureCount := cb_failureCount cb + 1, cb_lastFailureTime := now\<rparr> in
        (case cb_state cb of
           StateClosed \<Rightarrow> if cb_failureCount cb1 \<ge> se_FailureThreshold (cb_settings cb) then setState StateOpen cb1 else cb1
         | StateHalfOpen \<Rightarrow> setState StateOpen cb1
         | StateOpen \<Rightarrow> cb1)
      else
        (case cb_state cb of
           StateHalfOpen \<Rightarrow>
             let cb1 = cb\<lparr>cb_successCount := cb_successCount cb + 1\<rparr> in
             if cb_successCount cb1 \<ge> se_SuccessThreshold (cb_settings cb) then setState StateClosed cb1 else cb1
         | StateClosed \<Rightarrow>
             let cb1 = cb\<lparr>cb_successCount := cb_successCount cb + 1\<rparr> in
             if cb_successCount cb1 > se_SuccessThreshold (cb_settings cb) then cb1\<lparr>cb_failureCount := 0\<rparr> else cb1
         | StateOpen \<Rightarrow> cb))"

definition breaker_State :: "int \<Rightarrow> CircuitBreaker \<Rightarrow> State \<times> CircuitBreaker" where
  "breaker_State now cb = (let cb1 = checkStateTransition now cb in (cb_state cb1, cb1))"

definition Counts :: "CircuitBreaker \<Rightarrow> int \<times> int" where
  "Counts cb = (cb_failureCount cb, cb_successCount cb)"

text \<open>
  \<open>Execute\<close> and \<open>ExecuteWithRetry\<close> in one goroutine: \<open>'w\<close> is the world the function acts on, \<open>clock\<close>
  reads its time and \<open>sleep\<close> lets time pass; the function may return one of the breaker's own errors
  (a breaker around a breaker).
\<close>

definition Execute :: "('w \<Rightarrow> int) \<Rightarrow> ('w \<Rightarrow> 'e berror option \<times> 'w) \<Rightarrow> 'w \<Rightarrow> CircuitBreaker
    \<Rightarrow> 'e berror option \<times> 'w \<times> CircuitBreaker" where
  "Execute clock fn w cb =
     (case allowRequest (clock w) cb of
        (Some e, cb1) \<Rightarrow> (Some (Refused e), w, cb1)
      | (None, cb1) \<Rightarrow> (case fn w of (err, w1) \<Rightarrow> (err, w1, recordResult (clock w1) (err \<noteq> None) cb1)))"

text \<open>The loop \<open>for i := 0; i <= maxRetries; i++\<close>, counted by the iterations left.\<close>

fun retry_loop :: "('w \<Rightarrow> int) \<Rightarrow> (int \<Rightarrow> 'w \<Rightarrow> 'w) \<Rightarrow> ('w \<Rightarrow> 'e berror option \<times> 'w) \<Rightarrow> nat \<Rightarrow> 'e berror option
    \<Rightarrow> 'w \<Rightarrow> CircuitBreaker \<Rightarrow> 'e berror option \<times> 'w \<times> CircuitBreaker" where
  "retry_loop clock sleep fn 0 lastErr w cb = (lastErr, w, cb)"
| "retry_loop clock sleep fn (Suc left) lastErr w cb =
     (case Execute clock fn w cb of
        (None, w1, cb1) \<Rightarrow> (None, w1, cb1)
      | (Some err, w1, cb1) \<Rightarrow>
          if err = Refused ErrCircuitOpen \<and> left > 0
          then retry_loop clock sleep fn left (Some err) (sleep (se_Timeout (cb_settings cb1)) w1) cb1
          else if err = Refused ErrTooManyRequests \<and> left > 0
          then retry_loop clock sleep fn left (Some err) (sleep 100000000 w1) cb1
          else if err \<noteq> Refused ErrCircuitOpen \<and> err \<noteq> Refused ErrTooManyRequests then (Some err, w1, cb1)
          else retry_loop clock sleep fn left (Some err) w1 cb1)"

definition ExecuteWithRetry :: "('w \<Rightarrow> int) \<Rightarrow> (int \<Rightarrow> 'w \<Rightarrow> 'w) \<Rightarrow> ('w \<Rightarrow> 'e berror option \<times> 'w) \<Rightarrow> int
    \<Rightarrow> 'w \<Rightarrow> CircuitBreaker \<Rightarrow> 'e berror option \<times> 'w \<times> CircuitBreaker" where
  "ExecuteWithRetry clock sleep fn maxRetries w cb = retry_loop clock sleep fn (nat (maxRetries + 1)) None w cb"

subsection \<open>Interleaved calls\<close>

text \<open>The breaker, the clock and the number of admitted calls whose function has not returned.\<close>

record bsys =
  sy_cb :: CircuitBreaker
  sy_now :: int
  sy_inflight :: nat

inductive bstep :: "bsys \<Rightarrow> bsys \<Rightarrow> bool" where
  b_time: "now \<le> now' \<Longrightarrow> bstep \<lparr>sy_cb = cb, sy_now = now, sy_inflight = n\<rparr> \<lparr>sy_cb = cb, sy_now = now', sy_inflight = n\<rparr>"
| b_admit: "allowRequest now cb = (None, cb') \<Longrightarrow>
    bstep \<lparr>sy_cb = cb, sy_now = now, sy_inflight = n\<rparr> \<lparr>sy_cb = cb', sy_now = now, sy_inflight = Suc n\<rparr>"
| b_refuse: "allowRequest now cb = (Some e, cb') \<Longrightarrow>
    bstep \<lparr>sy_cb = cb, sy_now = now, sy_inflight = n\<rparr> \<lparr>sy_cb = cb', sy_now = now, sy_inflight = n\<rparr>"
| b_finish: "bstep \<lparr>sy_cb = cb, sy_now = now, sy_inflight = Suc n\<rparr>
    \<lparr>sy_cb = recordResult now failed cb, sy_now = now, sy_inflight = n\<rparr>"
| b_state: "breaker_State now cb = (s, cb') \<Longrightarrow>
    bstep \<lparr>sy_cb = cb, sy_now = now, sy_inflight = n\<rparr> \<lparr>sy_cb = cb', sy_now = now, sy_inflight = n\<rparr>"

inductive_cases bstepE: "bstep s s'"

definition start :: "Settings \<Rightarrow> int \<Rightarrow> bsys" where
  "start st now = \<lparr>sy_cb = New_breaker st, sy_now = now, sy_inflight = 0\<rparr>"

subsection \<open>Invariants\<close>

text \<open>The moves of the state machine, and a log that is a walk of them from \<open>closed\<close> to the present state.\<close>

definition move_ok :: "State \<times> State \<Rightarrow> bool" where
  "move_ok m \<longleftrightarrow> m \<in> {(StateClosed, StateOpen), (StateOpen, StateHalfOpen), (StateHalfOpen, StateClosed), (StateHalfOpen, StateOpen)}"

fun walk :: "State \<Rightarrow> (State \<times> State) list \<Rightarrow> State \<Rightarrow> bool" where
  "walk a [] b \<longleftrightarrow> a = b"
| "walk a ((x, y) # ms) b \<longleftrightarrow> x = a \<and> move_ok (x, y) \<and> walk y ms b"

lemma walk_snoc [simp]: "walk a (ms @ [(x, y)]) b \<longleftrightarrow> walk a ms x \<and> move_ok (x, y) \<and> b = y"
  by (induction a ms x rule: walk.induct) auto

definition breaker_inv :: "Settings \<Rightarrow> CircuitBreaker \<Rightarrow> bool" where
  "breaker_inv st cb \<longleftrightarrow> cb_settings cb = st \<and> walk StateClosed (cb_log cb) (cb_state cb)
     \<and> 0 \<le> cb_failureCount cb \<and> 0 \<le> cb_successCount cb \<and> 0 \<le> cb_halfOpenRequests cb
     \<and> (case cb_state cb of
          StateClosed \<Rightarrow> cb_failureCount cb < se_FailureThreshold st \<and> cb_halfOpenRequests cb = 0
        | StateOpen \<Rightarrow> cb_successCount cb = 0 \<and> cb_halfOpenRequests cb = 0
        | StateHalfOpen \<Rightarrow> cb_successCount cb < se_SuccessThreshold st \<and> cb_halfOpenRequests cb \<le> se_MaxRequests st)"

definition settings_ok :: "Settings \<Rightarrow> bool" where
  "settings_ok st \<longleftrightarrow> 1 \<le> se_FailureThreshold st \<and> 1 \<le> se_SuccessThreshold st \<and> 0 \<le> se_MaxRequests st"

lemmas breaker_defs = breaker_inv_def settings_ok_def setState_def move_ok_def Let_def

lemma checkStateTransition_inv [inv_intros]:
  "settings_ok st \<Longrightarrow> breaker_inv st cb \<Longrightarrow> breaker_inv st (checkStateTransition now cb)"
  by (auto simp: checkStateTransition_def breaker_defs)

lemma allowRequest_inv [inv_intros]:
  assumes "settings_ok st" "breaker_inv st cb" "allowRequest now cb = (r, cb')"
  shows "breaker_inv st cb'"
  using checkStateTransition_inv[OF assms(1,2), of now] assms(3)
  by (auto simp: allowRequest_def breaker_inv_def Let_def split: State.splits if_splits)

lemma recordResult_inv [inv_intros]:
  "settings_ok st \<Longrightarrow> breaker_inv st cb \<Longrightarrow> breaker_inv st (recordResult now failed cb)"
  by (cases "cb_state cb") (auto simp: recordResult_def breaker_defs)

lemma bstep_inv:
  assumes "bstep s s'" "settings_ok st" "breaker_inv st (sy_cb s)"
  shows "breaker_inv st (sy_cb s')"
  using assms
  by (cases rule: bstep.cases)
     (auto simp: breaker_State_def Let_def intro: allowRequest_inv recordResult_inv checkStateTransition_inv)

lemma reach_inv:
  assumes "settings_ok st" "bstep\<^sup>*\<^sup>* (start st now) s"
  shows "breaker_inv st (sy_cb s)"
  using assms(2)
proof (induction rule: rtranclp_induct)
  case base then show ?case using assms(1) by (auto simp: start_def New_breaker_def breaker_defs)
next
  case (step y z) then show ?case using bstep_inv assms(1) by blast
qed

text \<open>C28: however calls interleave, the breaker only moves closed to open, open to half-open and half-open
  to closed or open, and its counters stay in range: below the failure threshold while closed, zero
  while open, and in half-open fewer successes than the threshold and at most the allowed requests.\<close>

theorem breaker_walks:
  assumes "settings_ok st" "bstep\<^sup>*\<^sup>* (start st now) s"
  shows "walk StateClosed (cb_log (sy_cb s)) (cb_state (sy_cb s))
    \<and> 0 \<le> cb_failureCount (sy_cb s) \<and> 0 \<le> cb_successCount (sy_cb s)
    \<and> (case cb_state (sy_cb s) of
         StateClosed \<Rightarrow> cb_failureCount (sy_cb s) < se_FailureThreshold st \<and> cb_halfOpenRequests (sy_cb s) = 0
       | StateOpen \<Rightarrow> cb_successCount (sy_cb s) = 0 \<and> cb_halfOpenRequests (sy_cb s) = 0
       | StateHalfOpen \<Rightarrow> cb_successCount (sy_cb s) < se_SuccessThreshold st
           \<and> cb_halfOpenRequests (sy_cb s) \<in> {0..se_MaxRequests st})"
  using reach_inv[OF assms] by (auto simp: breaker_inv_def split: State.splits)

theorem breaker_walks_witness:
  "walk StateClosed (cb_log (recordResult 7 True (New_breaker (DefaultSettings\<lparr>se_FailureThreshold := 1\<rparr>)))) StateOpen"
proof -
  let ?st = "DefaultSettings\<lparr>se_FailureThreshold := 1\<rparr>"
  have "bstep (start ?st 7) \<lparr>sy_cb = New_breaker ?st, sy_now = 7, sy_inflight = 1\<rparr>"
    unfolding start_def One_nat_def
    by (rule b_admit) (simp add: allowRequest_def checkStateTransition_def New_breaker_def)
  moreover have "bstep \<lparr>sy_cb = New_breaker ?st, sy_now = 7, sy_inflight = 1\<rparr>
      \<lparr>sy_cb = recordResult 7 True (New_breaker ?st), sy_now = 7, sy_inflight = 0\<rparr>"
    unfolding One_nat_def by (rule b_finish)
  ultimately have "bstep\<^sup>*\<^sup>* (start ?st 7) \<lparr>sy_cb = recordResult 7 True (New_breaker ?st), sy_now = 7, sy_inflight = 0\<rparr>"
    by (meson converse_rtranclp_into_rtranclp rtranclp.rtrancl_refl)
  from breaker_walks[OF _ this] show ?thesis
    by (simp add: settings_ok_def DefaultSettings_def New_breaker_def recordResult_def setState_def Let_def)
qed

subsection \<open>Recovery\<close>

text \<open>\<open>n\<close> calls one after the other; the number of times the function ran is counted.\<close>

fun exec_times :: "('w \<Rightarrow> int) \<Rightarrow> ('w \<Rightarrow> 'e berror option \<times> 'w) \<Rightarrow> nat \<Rightarrow> 'w \<Rightarrow> CircuitBreaker \<Rightarrow> 'w \<times> CircuitBreaker" where
  "exec_times clock fn 0 w cb = (w, cb)"
| "exec_times clock fn (Suc n) w cb = (case Execute clock fn w cb of (r, w1, cb1) \<Rightarrow> exec_times clock fn n w1 cb1)"

definition closed_clean :: "CircuitBreaker \<Rightarrow> bool" where
  "closed_clean cb \<longleftrightarrow> cb_state cb = StateClosed \<and> cb_failureCount cb = 0"

lemma Execute_closed:
  assumes "closed_clean cb" "fst (fn w) = None"
  shows "closed_clean (snd (snd (Execute clock fn w cb)))"
  using assms by (cases "fn w")
    (auto simp: closed_clean_def Execute_def allowRequest_def checkStateTransition_def recordResult_def Let_def)

lemma exec_times_closed:
  assumes "\<And>w. fst (fn w) = None"
  shows "closed_clean cb \<Longrightarrow> closed_clean (snd (exec_times clock fn n w cb))"
proof (induction n arbitrary: w cb)
  case (Suc n)
  obtain r w1 cb1 where e: "Execute clock fn w cb = (r, w1, cb1)" by (cases "Execute clock fn w cb") auto
  then show ?case using Suc.IH[of cb1 w1] Execute_closed[where cb = cb and fn = fn and w = w and clock = clock] Suc.prems assms by simp
qed simp

text \<open>In half-open with \<open>k\<close> admitted and successful requests, \<open>left\<close> short of the threshold.\<close>

definition probing :: "CircuitBreaker \<Rightarrow> int \<Rightarrow> bool" where
  "probing cb k \<longleftrightarrow> cb_state cb = StateHalfOpen \<and> cb_successCount cb = k \<and> cb_halfOpenRequests cb = k
     \<and> 0 \<le> k \<and> k < se_SuccessThreshold (cb_settings cb)"

lemma Execute_probing:
  assumes "probing cb k" "fst (fn w) = None"
  shows "snd (snd (Execute clock fn w cb)) = (if k < se_MaxRequests (cb_settings cb)
     then recordResult (clock (snd (fn w))) False (cb\<lparr>cb_halfOpenRequests := k + 1\<rparr>) else cb)"
  using assms by (cases "fn w") (auto simp: probing_def Execute_def allowRequest_def checkStateTransition_def Let_def)

lemma probing_step:
  assumes "probing cb k" "k < se_MaxRequests (cb_settings cb)"
    "cb' = recordResult t False (cb\<lparr>cb_halfOpenRequests := k + 1\<rparr>)"
  shows "if k + 1 = se_SuccessThreshold (cb_settings cb) then closed_clean cb'
    else probing cb' (k + 1) \<and> cb_settings cb' = cb_settings cb"
  using assms by (auto simp: probing_def closed_clean_def recordResult_def setState_def Let_def)

lemma exec_times_stuck:
  assumes "\<And>w. fst (fn w) = None" "probing cb k" "\<not> k < se_MaxRequests (cb_settings cb)"
  shows "snd (exec_times clock fn n w cb) = cb"
proof (induction n arbitrary: w)
  case (Suc n)
  obtain r w1 cb1 where e: "Execute clock fn w cb = (r, w1, cb1)" by (cases "Execute clock fn w cb") auto
  then have "cb1 = cb" using Execute_probing[where cb = cb and fn = fn and w = w and clock = clock and k = k] assms by simp
  then show ?case using Suc.IH e by simp
qed simp

lemma exec_times_probing:
  assumes fn: "\<And>w. fst (fn w) = None"
  shows "probing cb k \<Longrightarrow> se_SuccessThreshold (cb_settings cb) \<le> k + int n \<Longrightarrow>
    (if se_SuccessThreshold (cb_settings cb) \<le> se_MaxRequests (cb_settings cb)
     then closed_clean (snd (exec_times clock fn n w cb))
     else cb_state (snd (exec_times clock fn n w cb)) = StateHalfOpen)"
proof (induction n arbitrary: k w cb)
  case 0 then show ?case by (simp add: probing_def)
next
  case (Suc n)
  obtain r w1 cb1 where e: "Execute clock fn w cb = (r, w1, cb1)" by (cases "Execute clock fn w cb") auto
  show ?case
  proof (cases "k < se_MaxRequests (cb_settings cb)")
    case True
    have "cb1 = recordResult (clock (snd (fn w))) False (cb\<lparr>cb_halfOpenRequests := k + 1\<rparr>)"
      using Execute_probing[where cb = cb and fn = fn and w = w and clock = clock and k = k] Suc.prems fn True e by simp
    from probing_step[OF Suc.prems(1) True this]
    have s: "if k + 1 = se_SuccessThreshold (cb_settings cb) then closed_clean cb1
      else probing cb1 (k + 1) \<and> cb_settings cb1 = cb_settings cb" by simp
    show ?thesis
    proof (cases "k + 1 = se_SuccessThreshold (cb_settings cb)")
      case closing: True
      then show ?thesis using s exec_times_closed[of fn cb1 clock n w1] fn True e by simp
    next
      case False
      then show ?thesis using s Suc.IH[of cb1 "k + 1" w1] Suc.prems e by simp
    qed
  next
    case False
    have "snd (exec_times clock fn (Suc n) w cb) = cb"
      using exec_times_stuck[of fn cb k clock "Suc n" w] fn Suc.prems False by simp
    then show ?thesis using Suc.prems False by (auto simp: probing_def)
  qed
qed

text \<open>C29: once half-open, calls that all succeed bring the breaker back to closed with a clean failure
  count exactly when the success threshold does not exceed the number of probes allowed; otherwise it
  stays half-open whatever the number of calls.\<close>

theorem half_open_recovery:
  assumes "\<And>w. fst (fn w) = None"
    and "cb_state cb = StateHalfOpen" "cb_successCount cb = 0" "cb_halfOpenRequests cb = 0"
    and "1 \<le> se_SuccessThreshold (cb_settings cb)" "se_SuccessThreshold (cb_settings cb) \<le> int n"
  shows "if se_SuccessThreshold (cb_settings cb) \<le> se_MaxRequests (cb_settings cb)
     then cb_state (snd (exec_times clock fn n w cb)) = StateClosed \<and> cb_failureCount (snd (exec_times clock fn n w cb)) = 0
     else cb_state (snd (exec_times clock fn n w cb)) = StateHalfOpen"
  using exec_times_probing[of fn cb 0 n clock w] assms by (auto simp: probing_def closed_clean_def)

definition demo_fn :: "int \<Rightarrow> unit berror option \<times> int" where
  "demo_fn w = (None, w + 1)"

definition demo_half_open :: "int \<Rightarrow> CircuitBreaker" where
  "demo_half_open m = checkStateTransition 50000000000
     (recordResult 1 True (New_breaker (DefaultSettings\<lparr>se_FailureThreshold := 1, se_MaxRequests := m\<rparr>)))"

lemma demo_half_open_eq: "demo_half_open m = \<lparr>cb_settings = DefaultSettings\<lparr>se_FailureThreshold := 1, se_MaxRequests := m\<rparr>,
    cb_state = StateHalfOpen, cb_failureCount = 1, cb_successCount = 0, cb_lastFailureTime = 1, cb_halfOpenRequests = 0,
    cb_log = [(StateClosed, StateOpen), (StateOpen, StateHalfOpen)]\<rparr>"
  by (simp add: demo_half_open_def checkStateTransition_def recordResult_def New_breaker_def setState_def DefaultSettings_def Let_def)

theorem half_open_recovery_witness:
  "cb_state (snd (exec_times id demo_fn 3 60000000000 (demo_half_open 3))) = StateClosed
   \<and> cb_state (snd (exec_times id demo_fn 9 60000000000 (demo_half_open 2))) = StateHalfOpen"
  using half_open_recovery[where fn = demo_fn and cb = "demo_half_open 3" and n = 3 and clock = id and w = 60000000000]
    half_open_recovery[where fn = demo_fn and cb = "demo_half_open 2" and n = 9 and clock = id and w = 60000000000]
  by (simp add: demo_half_open_eq DefaultSettings_def demo_fn_def)

text \<open>A half-open breaker whose probes are used up while none is running is dead: every later call
  is refused, and neither time nor calls ever change it again.\<close>

theorem half_open_dead_end:
  assumes "bstep\<^sup>*\<^sup>* s s'" "cb_state (sy_cb s) = StateHalfOpen"
    "se_MaxRequests (cb_settings (sy_cb s)) \<le> cb_halfOpenRequests (sy_cb s)" "sy_inflight s = 0"
  shows "sy_cb s' = sy_cb s \<and> sy_inflight s' = 0
    \<and> allowRequest (sy_now s') (sy_cb s') = (Some ErrTooManyRequests, sy_cb s)"
proof -
  have "sy_cb s' = sy_cb s \<and> sy_inflight s' = 0"
    using assms(1)
  proof (induction rule: rtranclp_induct)
    case (step y z)
    from step(2) show ?case
      by (rule bstepE) (use step(3) assms(2,3) in
        \<open>auto simp: allowRequest_def breaker_State_def checkStateTransition_def Let_def\<close>)
  qed (simp add: assms)
  then show ?thesis using assms by (simp add: allowRequest_def checkStateTransition_def Let_def)
qed

theorem half_open_dead_end_witness:
  "allowRequest 90000000000 (snd (exec_times id demo_fn 2 60000000000 (demo_half_open 2)))
   = (Some ErrTooManyRequests, snd (exec_times id demo_fn 2 60000000000 (demo_half_open 2)))"
proof -
  let ?cb = "snd (exec_times id demo_fn 2 60000000000 (demo_half_open 2))"
  have cb: "?cb = (demo_half_open 2)\<lparr>cb_successCount := 2, cb_halfOpenRequests := 2\<rparr>"
    by (simp add: demo_fn_def demo_half_open_eq DefaultSettings_def numeral_2_eq_2 Execute_def allowRequest_def
        checkStateTransition_def recordResult_def Let_def)
  have "bstep\<^sup>*\<^sup>* \<lparr>sy_cb = ?cb, sy_now = 60000000002, sy_inflight = 0\<rparr> \<lparr>sy_cb = ?cb, sy_now = 90000000000, sy_inflight = 0\<rparr>"
    by (rule r_into_rtranclp, rule b_time) simp
  note dead = half_open_dead_end[OF this]
  show ?thesis using dead unfolding cb by (simp add: demo_half_open_eq DefaultSettings_def)
qed

text \<open>Successes do not reset the failure count until there were more of them than the success
  threshold: failures with successes between them add up.\<close>

theorem failures_accumulate:
  "cb_state (fold (recordResult 0) [True, False, True, False, True, False, True, True] (New_breaker DefaultSettings)) = StateOpen"
  by code_simp

end
