(* ===== verification/Eng_Object.thy ===== *)
theory Eng_Object
  imports Stair_Config
begin

text \<open>
  \<open>internal/domain/engineering\<close> besides units and stairs: revisions (\<open>revision.go\<close>), parameters
  (\<open>parameter.go\<close>), the engineering object with its lifecycle, events and history (\<open>object.go\<close>), the
  project aggregate (\<open>project.go\<close>) and the factory (\<open>factory.go\<close>). Revisions and parameters are shared
  by pointer and changed in place, so they live in a store and a pointer is an index of it. The
  revision identifier (time, counter and a hash) and the SHA-256 checksum are arguments.
\<close>

subsection \<open>\<open>revision.go\<close>\<close>

type_synonym RevisionState = string

definition RevisionDraft :: RevisionState where "RevisionDraft = ''draft''"
definition RevisionWorking :: RevisionState where "RevisionWorking = ''working''"
definition RevisionCalculated :: RevisionState where "RevisionCalculated = ''calculated''"
definition RevisionValidated :: RevisionState where "RevisionValidated = ''validated''"
definition RevisionApproved :: RevisionState where "RevisionApproved = ''approved''"
definition RevisionReleased :: RevisionState where "RevisionReleased = ''released''"
definition RevisionArchived :: RevisionState where "RevisionArchived = ''archived''"

lemmas revision_states = RevisionDraft_def RevisionWorking_def RevisionCalculated_def RevisionValidated_def
  RevisionApproved_def RevisionReleased_def RevisionArchived_def

record Revision =
  rv_ID :: string
  rv_Parent :: "nat option"
  rv_Timestamp :: int
  rv_Author :: string
  rv_Reason :: string
  rv_Checksum :: string
  rv_State :: RevisionState

datatype obj_error =
    RevAuthorRequired | RevReasonRequired | RevImmutable string | RevCannotAdvance string string
  | ObjIDRequired | ObjOwnerRequired | ParamExists string string | BadTransition string string string
  | ParamIDName | ParamUnit string | ParamValue string | ParamNotFormula string | ParamIsArchived string
  | ProjectName | FactoryIDRequired | FactoryOwnerRequired

text \<open>The outside of a revision: its fresh identifier and the time, and the checksum function.\<close>

record rev_env =
  en_ID :: string
  en_Now :: int
  en_sha :: "string \<Rightarrow> string"

definition NewRevision :: "rev_env \<Rightarrow> string \<Rightarrow> string \<Rightarrow> string \<Rightarrow> (obj_error, Revision) result" where
  "NewRevision env author reason snapshot =
     guard_with (author = []) RevAuthorRequired
     (guard_with (reason = []) RevReasonRequired
     (Inr \<lparr>rv_ID = en_ID env, rv_Parent = None, rv_Timestamp = en_Now env, rv_Author = author, rv_Reason = reason,
           rv_Checksum = en_sha env snapshot, rv_State = RevisionDraft\<rparr>))"

definition Child :: "rev_env \<Rightarrow> Revision list \<Rightarrow> nat \<Rightarrow> string \<Rightarrow> string \<Rightarrow> string \<Rightarrow> (obj_error, Revision) result" where
  "Child env revs r author reason snapshot =
     guard_with (rv_State (revs ! r) = RevisionReleased) (RevImmutable (rv_ID (revs ! r)))
     (bindR (NewRevision env author reason snapshot) (\<lambda>child. Inr (child\<lparr>rv_Parent := Some r\<rparr>)))"

definition next_state :: "(RevisionState \<times> RevisionState) list" where
  "next_state = [(RevisionDraft, RevisionWorking), (RevisionWorking, RevisionCalculated),
     (RevisionCalculated, RevisionValidated), (RevisionValidated, RevisionApproved), (RevisionApproved, RevisionReleased)]"

definition Advance :: "Revision \<Rightarrow> (obj_error, Revision) result" where
  "Advance r = (case map_of next_state (rv_State r) of
     None \<Rightarrow> Inl (RevCannotAdvance (rv_ID r) (rv_State r))
   | Some target \<Rightarrow> Inr (r\<lparr>rv_State := target\<rparr>))"

text \<open>How many steps a state is from the released one.\<close>

definition to_release :: "RevisionState \<Rightarrow> nat" where
  "to_release s = (case map_of [(RevisionDraft, 5), (RevisionWorking, 4), (RevisionCalculated, 3),
     (RevisionValidated, 2), (RevisionApproved, 1 :: nat)] s of None \<Rightarrow> 0 | Some n \<Rightarrow> n)"

lemma Advance_closer: "Advance r = Inr r' \<Longrightarrow> to_release (rv_State r) = Suc (to_release (rv_State r'))"
  by (auto simp: Advance_def next_state_def to_release_def revision_states split: if_splits)

text \<open>The loop of \<open>Release\<close>: the error, if any, and the revision it leaves behind.\<close>

function Release :: "Revision \<Rightarrow> obj_error option \<times> Revision" where
  "Release r = (if rv_State r = RevisionReleased then (None, r)
     else (case Advance r of Inl e \<Rightarrow> (Some e, r) | Inr r' \<Rightarrow> Release r'))"
  by pat_completeness auto

termination
  by (relation "measure (\<lambda>r. to_release (rv_State r))") (auto dest: Advance_closer)

declare Release.simps [simp del]

subsection \<open>\<open>parameter.go\<close>\<close>

definition ParameterCreated :: string where "ParameterCreated = ''created''"
definition ParameterValidated :: string where "ParameterValidated = ''validated''"
definition ParameterCalculated :: string where "ParameterCalculated = ''calculated''"
definition ParameterApplied :: string where "ParameterApplied = ''applied''"
definition ParameterModified :: string where "ParameterModified = ''modified''"
definition ParameterRecalculated :: string where "ParameterRecalculated = ''recalculated''"
definition ParameterArchived :: string where "ParameterArchived = ''archived''"
definition SourceFormula :: string where "SourceFormula = ''formula''"

lemmas parameter_states = ParameterCreated_def ParameterValidated_def ParameterCalculated_def ParameterApplied_def
  ParameterModified_def ParameterRecalculated_def ParameterArchived_def

text \<open>The \<open>any\<close> value is a type of the model; nil is \<open>None\<close>.\<close>

record 'v Parameter =
  pm_ID :: string
  pm_Name :: string
  pm_Unit :: string
  pm_Value :: "'v option"
  pm_Source :: string
  pm_State :: string
  pm_Formula :: string
  pm_DependsOn :: "string list"
  pm_Revision :: "nat option"

definition NewParameter :: "string \<Rightarrow> string \<Rightarrow> string \<Rightarrow> 'v option \<Rightarrow> string \<Rightarrow> 'v Parameter" where
  "NewParameter i name unit v source = \<lparr>pm_ID = i, pm_Name = name, pm_Unit = unit, pm_Value = v,
     pm_Source = source, pm_State = ParameterCreated, pm_Formula = [], pm_DependsOn = [], pm_Revision = None\<rparr>"

definition param_Validate :: "'v Parameter \<Rightarrow> (obj_error, 'v Parameter) result" where
  "param_Validate p =
     guard_with (pm_ID p = [] \<or> pm_Name p = []) ParamIDName
     (guard_with (pm_Unit p = []) (ParamUnit (pm_ID p))
     (guard_with (pm_Value p = None) (ParamValue (pm_ID p))
     (Inr (p\<lparr>pm_State := ParameterValidated\<rparr>))))"

definition Calculate :: "'v option \<Rightarrow> 'v Parameter \<Rightarrow> (obj_error, 'v Parameter) result" where
  "Calculate v p = guard_with (pm_Source p \<noteq> SourceFormula) (ParamNotFormula (pm_ID p))
     (Inr (p\<lparr>pm_Value := v, pm_State := ParameterCalculated\<rparr>))"

definition param_Apply :: "'v Parameter \<Rightarrow> (obj_error, 'v Parameter) result" where
  "param_Apply p =
     bindR (if pm_State p = ParameterCreated then param_Validate p else Inr p) (\<lambda>q. Inr (q\<lparr>pm_State := ParameterApplied\<rparr>))"

definition Modify :: "'v option \<Rightarrow> 'v Parameter \<Rightarrow> (obj_error, 'v Parameter) result" where
  "Modify v p = guard_with (pm_State p = ParameterArchived) (ParamIsArchived (pm_ID p))
     (Inr (p\<lparr>pm_Value := v, pm_State := ParameterModified\<rparr>))"

definition Recalculate :: "'v option \<Rightarrow> 'v Parameter \<Rightarrow> 'v Parameter" where
  "Recalculate v p = p\<lparr>pm_Value := v, pm_State := ParameterRecalculated\<rparr>"

definition Archive :: "'v Parameter \<Rightarrow> 'v Parameter" where
  "Archive p = p\<lparr>pm_State := ParameterArchived\<rparr>"

subsection \<open>\<open>object.go\<close>\<close>

type_synonym EngineeringState = string

definition StateCreated :: EngineeringState where "StateCreated = ''created''"
definition StateDraft :: EngineeringState where "StateDraft = ''draft''"
definition StateEditing :: EngineeringState where "StateEditing = ''editing''"
definition StateCalculated :: EngineeringState where "StateCalculated = ''calculated''"
definition StateValidated :: EngineeringState where "StateValidated = ''validated''"
definition StateApproved :: EngineeringState where "StateApproved = ''approved''"
definition StateReleased :: EngineeringState where "StateReleased = ''released''"
definition StateArchived :: EngineeringState where "StateArchived = ''archived''"

definition KindProject :: string where "KindProject = ''project''"

lemmas object_states = StateCreated_def StateDraft_def StateEditing_def StateCalculated_def StateValidated_def
  StateApproved_def StateReleased_def StateArchived_def

record DomainEvent =
  de_Type :: string
  de_ObjectID :: string
  de_Revision :: string
  de_Timestamp :: string
  de_CorrelationID :: string
  de_Source :: string
  de_Actor :: string

record EngineeringObject =
  eo_ID :: string
  eo_Kind :: string
  eo_State :: EngineeringState
  eo_Owner :: string
  eo_Current :: nat
  eo_Params :: "(string \<times> nat) list"
  eo_Metadata :: "(string \<times> string) list"
  eo_events :: "DomainEvent list"
  eo_history :: "nat list"
  eo_correlationID :: string

text \<open>The revisions so far are the store; a new one gets the next address.\<close>

definition NewObject :: "rev_env \<Rightarrow> Revision list \<Rightarrow> string \<Rightarrow> string \<Rightarrow> string \<Rightarrow> string
    \<Rightarrow> (obj_error, Revision list \<times> EngineeringObject) result" where
  "NewObject env revs i kind owner reason =
     guard_with (i = []) ObjIDRequired
     (guard_with (owner = []) ObjOwnerRequired
     (bindR (NewRevision env owner reason i) (\<lambda>rev.
      Inr (revs @ [rev],
        \<lparr>eo_ID = i, eo_Kind = kind, eo_State = StateCreated, eo_Owner = owner, eo_Current = length revs,
         eo_Params = [], eo_Metadata = [], eo_events = [], eo_history = [length revs], eo_correlationID = []\<rparr>))))"

definition record_event :: "Revision list \<Rightarrow> string \<Rightarrow> string \<Rightarrow> EngineeringObject \<Rightarrow> EngineeringObject" where
  "record_event revs typ objectID o1 = o1\<lparr>eo_events := eo_events o1 @ [
     \<lparr>de_Type = typ, de_ObjectID = objectID, de_Revision = rv_ID (revs ! eo_Current o1), de_Timestamp = [],
      de_CorrelationID = eo_correlationID o1, de_Source = ''engineering'', de_Actor = eo_Owner o1\<rparr>]\<rparr>"

text \<open>\<open>pid\<close> is the identifier of the parameter at address \<open>a\<close>.\<close>

definition obj_AddParameter :: "Revision list \<Rightarrow> string \<Rightarrow> nat \<Rightarrow> EngineeringObject \<Rightarrow> (obj_error, EngineeringObject) result" where
  "obj_AddParameter revs pid a o1 =
     guard_with (map_of (eo_Params o1) pid \<noteq> None) (ParamExists (eo_ID o1) pid)
     (Inr (record_event revs ''parameter.added'' pid (o1\<lparr>eo_Params := mput pid a (eo_Params o1)\<rparr>)))"

definition snapshotForChecksum :: "Revision list \<Rightarrow> EngineeringObject \<Rightarrow> string" where
  "snapshotForChecksum revs o1 = eo_ID o1 @ ''|'' @ eo_Kind o1 @ ''|'' @ rv_ID (revs ! eo_Current o1)"

definition Commit :: "rev_env \<Rightarrow> string \<Rightarrow> string \<Rightarrow> Revision list \<times> EngineeringObject
    \<Rightarrow> (obj_error, Revision list \<times> EngineeringObject) result" where
  "Commit env author reason st = (case st of (revs, o1) \<Rightarrow>
     bindR (Child env revs (eo_Current o1) author reason (snapshotForChecksum revs o1)) (\<lambda>rev.
     let revs' = revs @ [rev]; a = length revs in
     Inr (revs', record_event revs' ''revision.created'' (rv_ID rev)
       (o1\<lparr>eo_Current := a, eo_history := eo_history o1 @ [a], eo_State := StateEditing\<rparr>))))"

definition allowed :: "(EngineeringState \<times> EngineeringState) list" where
  "allowed = [(StateCreated, StateDraft), (StateDraft, StateEditing), (StateEditing, StateCalculated),
     (StateCalculated, StateValidated), (StateValidated, StateApproved), (StateApproved, StateReleased),
     (StateReleased, StateArchived)]"

definition Transition :: "Revision list \<Rightarrow> EngineeringState \<Rightarrow> EngineeringObject \<Rightarrow> (obj_error, EngineeringObject) result" where
  "Transition revs target o1 =
     guard_with ((eo_State o1, target) \<notin> set allowed) (BadTransition (eo_ID o1) (eo_State o1) target)
     (Inr (record_event revs ''object.state_changed'' target (o1\<lparr>eo_State := target\<rparr>)))"

definition SetCorrelationID :: "string \<Rightarrow> EngineeringObject \<Rightarrow> EngineeringObject" where
  "SetCorrelationID i o1 = o1\<lparr>eo_correlationID := i\<rparr>"

subsection \<open>\<open>project.go\<close>, \<open>factory.go\<close>\<close>

record Project =
  pr_object :: EngineeringObject
  pr_name :: string

definition NewProject :: "rev_env \<Rightarrow> Revision list \<Rightarrow> string \<Rightarrow> string \<Rightarrow> string \<Rightarrow> string
    \<Rightarrow> (obj_error, Revision list \<times> Project) result" where
  "NewProject env revs i owner name reason =
     guard_with (name = []) ProjectName
     (bindR (NewObject env revs i KindProject owner reason) (\<lambda>(revs', o1). Inr (revs', \<lparr>pr_object = o1, pr_name = name\<rparr>)))"

definition Rename :: "string \<Rightarrow> Project \<Rightarrow> (obj_error, Project) result" where
  "Rename name p = guard_with (name = []) ProjectName (Inr (p\<lparr>pr_name := name\<rparr>))"

definition project_AddParameter :: "Revision list \<Rightarrow> string \<Rightarrow> nat \<Rightarrow> Project \<Rightarrow> (obj_error, Project) result" where
  "project_AddParameter revs pid a p = bindR (obj_AddParameter revs pid a (pr_object p)) (\<lambda>o1. Inr (p\<lparr>pr_object := o1\<rparr>))"

definition project_Commit :: "rev_env \<Rightarrow> string \<Rightarrow> string \<Rightarrow> Revision list \<times> Project
    \<Rightarrow> (obj_error, Revision list \<times> Project) result" where
  "project_Commit env author reason st = (case st of (revs, p) \<Rightarrow>
     bindR (Commit env author reason (revs, pr_object p)) (\<lambda>(revs', o1). Inr (revs', p\<lparr>pr_object := o1\<rparr>)))"

definition CreateProject :: "rev_env \<Rightarrow> Revision list \<Rightarrow> string \<Rightarrow> string \<Rightarrow> string \<Rightarrow> string
    \<Rightarrow> (obj_error, Revision list \<times> Project) result" where
  "CreateProject env revs i owner name reason =
     guard_with (i = []) FactoryIDRequired
     (guard_with (owner = []) FactoryOwnerRequired
     (NewProject env revs i owner name reason))"

definition CreateStairConfiguration :: "Length \<Rightarrow> Length \<Rightarrow> FlightType \<Rightarrow> StairConfiguration \<times> (stair_error, unit) result" where
  "CreateStairConfiguration width height flight = NewStairConfiguration width height flight"

subsection \<open>Releasing a revision\<close>

text \<open>C31: the loop of \<open>Release\<close> returns for every revision. From the six states of the chain it ends in
  the released state and changes nothing else; from any other it reports the state and changes nothing.\<close>

theorem release_terminates:
  "Release r =
     (if rv_State r \<in> {RevisionDraft, RevisionWorking, RevisionCalculated, RevisionValidated, RevisionApproved, RevisionReleased}
      then (None, r\<lparr>rv_State := RevisionReleased\<rparr>)
      else (Some (RevCannotAdvance (rv_ID r) (rv_State r)), r))"
proof (induction r rule: Release.induct)
  case (1 r)
  show ?case
  proof (cases "Advance r")
    case (Inl e)
    then show ?thesis by (subst Release.simps) (auto simp: Advance_def next_state_def revision_states split: if_splits)
  next
    case (Inr r')
    have r': "rv_State r \<noteq> RevisionReleased" "r'\<lparr>rv_State := RevisionReleased\<rparr> = r\<lparr>rv_State := RevisionReleased\<rparr>"
      "rv_State r' \<in> {RevisionWorking, RevisionCalculated, RevisionValidated, RevisionApproved, RevisionReleased}"
      "rv_State r \<in> {RevisionDraft, RevisionWorking, RevisionCalculated, RevisionValidated, RevisionApproved}"
      using Inr by (auto simp: Advance_def next_state_def revision_states split: if_splits)
    then show ?thesis using 1[OF r'(1) Inr] Inr by (subst Release.simps) auto
  qed
qed

definition rv_fixed :: "Revision \<Rightarrow> string \<times> nat option \<times> int \<times> string \<times> string \<times> string" where
  "rv_fixed r = (rv_ID r, rv_Parent r, rv_Timestamp r, rv_Author r, rv_Reason r, rv_Checksum r)"

lemma Advance_fixed [keep]: "Advance r = Inr r' \<Longrightarrow> rv_fixed r' = rv_fixed r \<and> rv_State r \<noteq> RevisionReleased"
  by (auto simp: Advance_def next_state_def rv_fixed_def revision_states split: option.splits if_splits)

lemma Release_fixed [keep]: "rv_fixed (snd (Release r)) = rv_fixed r
    \<and> (rv_State r = RevisionReleased \<longrightarrow> snd (Release r) = r)"
proof (induction r rule: Release.induct)
  case (1 r)
  then show ?case using Advance_fixed[of r] by (subst (1 2) Release.simps) (auto split: sum.splits)
qed

subsection \<open>The life of an object\<close>

inductive ostep :: "Revision list \<times> EngineeringObject \<Rightarrow> Revision list \<times> EngineeringObject \<Rightarrow> bool" where
  os_add: "obj_AddParameter revs pid a o1 = Inr o2 \<Longrightarrow> ostep (revs, o1) (revs, o2)"
| os_commit: "Commit env author reason (revs, o1) = Inr s \<Longrightarrow> ostep (revs, o1) s"
| os_transition: "Transition revs target o1 = Inr o2 \<Longrightarrow> ostep (revs, o1) (revs, o2)"
| os_correlation: "ostep (revs, o1) (revs, SetCorrelationID i o1)"
| os_advance: "r < length revs \<Longrightarrow> Advance (revs ! r) = Inr v \<Longrightarrow> ostep (revs, o1) (revs[r := v], o1)"
| os_release: "r < length revs \<Longrightarrow> ostep (revs, o1) (revs[r := snd (Release (revs ! r))], o1)"
| os_other: "ostep (revs, o1) (revs @ [v], o1)"

inductive_cases ostepE: "ostep (revs, o1) s"

definition chain :: "Revision list \<Rightarrow> nat list \<Rightarrow> bool" where
  "chain revs h \<longleftrightarrow> h \<noteq> [] \<and> (\<forall>k < length h. h ! k < length revs
     \<and> rv_Parent (revs ! (h ! k)) = (if k = 0 then None else Some (h ! (k - 1))))"

definition known_state :: "EngineeringState \<Rightarrow> bool" where
  "known_state s \<longleftrightarrow> s = StateCreated \<or> list_ex (\<lambda>(a, b). s = b) allowed"

lemma known_target: "(a, b) \<in> set allowed \<Longrightarrow> known_state b"
  by (auto simp: known_state_def list_ex_iff)

lemma known_states [simp]: "known_state StateCreated" "known_state StateEditing"
  by (simp_all add: known_state_def allowed_def)

definition obj_ok :: "Revision list \<times> EngineeringObject \<Rightarrow> bool" where
  "obj_ok s \<longleftrightarrow> chain (fst s) (eo_history (snd s)) \<and> eo_Current (snd s) = last (eo_history (snd s))
     \<and> sorted_wrt (<) (eo_history (snd s))
     \<and> known_state (eo_State (snd s))"

text \<open>What a step leaves alone: the past of the object, and of a revision all but its state.\<close>

definition grows :: "Revision list \<times> EngineeringObject \<Rightarrow> Revision list \<times> EngineeringObject \<Rightarrow> bool" where
  "grows s t \<longleftrightarrow> (\<exists>h. eo_history (snd t) = eo_history (snd s) @ h) \<and> (\<exists>e. eo_events (snd t) = eo_events (snd s) @ e)
     \<and> length (fst s) \<le> length (fst t) \<and> (\<forall>r < length (fst s). rv_fixed (fst t ! r) = rv_fixed (fst s ! r)
         \<and> (rv_State (fst s ! r) = RevisionReleased \<longrightarrow> fst t ! r = fst s ! r))"

lemma grows_refl: "grows s s"
  by (simp add: grows_def)

lemma grows_trans: "grows s t \<Longrightarrow> grows t u \<Longrightarrow> grows s u"
  unfolding grows_def by (elim conjE exE, intro conjI) (force, force, simp, metis le_trans less_le_trans)

lemma Commit_Inr: "Commit env author reason (revs, o1) = Inr s \<longleftrightarrow>
    rv_State (revs ! eo_Current o1) \<noteq> RevisionReleased \<and> author \<noteq> [] \<and> reason \<noteq> [] \<and>
    s = (let rev = \<lparr>rv_ID = en_ID env, rv_Parent = Some (eo_Current o1), rv_Timestamp = en_Now env, rv_Author = author,
              rv_Reason = reason, rv_Checksum = en_sha env (snapshotForChecksum revs o1), rv_State = RevisionDraft\<rparr> in
         (revs @ [rev], record_event (revs @ [rev]) ''revision.created'' (rv_ID rev)
            (o1\<lparr>eo_Current := length revs, eo_history := eo_history o1 @ [length revs], eo_State := StateEditing\<rparr>)))"
  by (auto simp: Commit_def Child_def NewRevision_def result_iffs Let_def)

lemma record_event_keeps [simp]: "eo_history (record_event revs t i o1) = eo_history o1"
  "eo_Current (record_event revs t i o1) = eo_Current o1" "eo_State (record_event revs t i o1) = eo_State o1"
  "\<exists>e. eo_events (record_event revs t i o1) = eo_events o1 @ e"
  by (simp_all add: record_event_def)

lemma chain_mono:
  assumes "chain revs h" "length revs \<le> length revs'" "\<forall>r < length revs. rv_fixed (revs' ! r) = rv_fixed (revs ! r)"
  shows "chain revs' h"
  using assms by (auto simp: chain_def rv_fixed_def less_le_trans)

lemma chain_snoc: "chain revs h \<Longrightarrow> r = length revs \<Longrightarrow> rv_Parent v = Some (last h) \<Longrightarrow> chain (revs @ [v]) (h @ [r])"
  by (auto simp: chain_def nth_append last_conv_nth less_Suc_eq split: if_splits)

lemma ostep_grows: "ostep s t \<Longrightarrow> grows s t"
  by (induction rule: ostep.induct)
     (auto simp: grows_def obj_AddParameter_def Transition_def SetCorrelationID_def record_event_def Commit_Inr
        Let_def result_iffs nth_append nth_list_update keep dest: Advance_fixed)

lemma ostep_ok:
  assumes "ostep s t" "obj_ok s"
  shows "obj_ok t"
proof -
  have g: "grows s t" using assms(1) by (rule ostep_grows)
  have c: "chain (fst t) (eo_history (snd s))"
    using assms(2) g by (auto simp: obj_ok_def grows_def intro: chain_mono)
  from assms(1) show ?thesis
  proof (cases rule: ostep.cases)
    case (os_commit env author reason revs o1)
    have "\<forall>k \<in> set (eo_history o1). k < length revs" using assms(2) os_commit
      by (auto simp: obj_ok_def chain_def in_set_conv_nth)
    then show ?thesis using assms(2) os_commit
      by (auto simp: obj_ok_def Commit_Inr Let_def sorted_wrt_append intro!: chain_snoc)
  qed (use assms(2) c in \<open>auto simp: obj_ok_def obj_AddParameter_def Transition_def SetCorrelationID_def result_iffs
         split: if_splits dest: known_target\<close>)
qed

lemma reach_grows:
  assumes "ostep\<^sup>*\<^sup>* s t" "obj_ok s" shows "grows s t \<and> obj_ok t"
  using assms(1)
proof (induction rule: rtranclp_induct)
  case base then show ?case using assms(2) grows_refl by blast
next
  case (step t u) then show ?case using ostep_grows ostep_ok grows_trans by blast
qed

lemma NewObject_ok: "NewObject env revs i kind owner reason = Inr s \<Longrightarrow> obj_ok s"
  by (auto simp: NewObject_def NewRevision_def result_iffs obj_ok_def chain_def)

text \<open>C30: whatever is done to an object and to the revisions around it, its history is a chain of
  parents from a root, in the order of creation, that ends in the current revision; between two
  moments history and events only grow at the end, and of an existing revision nothing but the state
  changes, a released one not at all.\<close>

theorem object_history:
  assumes "NewObject env revs0 i kind owner reason = Inr s0" "ostep\<^sup>*\<^sup>* s0 (revs, o1)" "ostep\<^sup>*\<^sup>* (revs, o1) (revs', o2)"
  shows "chain revs' (eo_history o2) \<and> eo_Current o2 = last (eo_history o2) \<and> sorted_wrt (<) (eo_history o2)
    \<and> take (length (eo_history o1)) (eo_history o2) = eo_history o1
    \<and> take (length (eo_events o1)) (eo_events o2) = eo_events o1
    \<and> map rv_fixed (take (length revs) revs') = map rv_fixed revs
    \<and> list_all (\<lambda>r. rv_State (revs ! r) = RevisionReleased \<longrightarrow> revs' ! r = revs ! r) [0..<length revs]"
proof -
  have ok: "obj_ok (revs, o1)" using reach_grows[OF assms(2) NewObject_ok[OF assms(1)]] by blast
  have g: "grows (revs, o1) (revs', o2)" "obj_ok (revs', o2)" using reach_grows[OF assms(3) ok] by auto
  have "map rv_fixed (take (length revs) revs') = map rv_fixed revs"
    using g(1) by (intro nth_equalityI) (auto simp: grows_def)
  then show ?thesis using g by (auto simp: obj_ok_def grows_def list_all_iff)
qed

definition demo_env :: "string \<Rightarrow> rev_env" where
  "demo_env i = \<lparr>en_ID = i, en_Now = 0, en_sha = id\<rparr>"

definition demo_root :: Revision where
  "demo_root = \<lparr>rv_ID = ''R1'', rv_Parent = None, rv_Timestamp = 0, rv_Author = ''eve'', rv_Reason = ''start'',
     rv_Checksum = ''P'', rv_State = RevisionDraft\<rparr>"

definition demo_object :: EngineeringObject where
  "demo_object = \<lparr>eo_ID = ''P'', eo_Kind = KindProject, eo_State = StateCreated, eo_Owner = ''eve'', eo_Current = 0,
     eo_Params = [], eo_Metadata = [], eo_events = [], eo_history = [0], eo_correlationID = []\<rparr>"

lemma demo_new: "NewObject (demo_env ''R1'') [] ''P'' KindProject ''eve'' ''start'' = Inr ([demo_root], demo_object)"
  by (simp add: NewObject_def NewRevision_def demo_env_def demo_root_def demo_object_def)

lemma demo_commit: "\<exists>revs o2. Commit (demo_env ''R2'') ''bob'' ''edit'' ([demo_root], demo_object) = Inr (revs, o2) \<and> eo_history o2 = [0, 1]"
  by (simp add: Commit_Inr demo_root_def demo_object_def revision_states Let_def)

theorem object_history_witness:
  "\<exists>revs o2. Commit (demo_env ''R2'') ''bob'' ''edit'' ([demo_root], demo_object) = Inr (revs, o2)
     \<and> eo_history o2 = [0, 1] \<and> rv_Parent (revs ! 1) = Some 0"
proof -
  obtain revs o2 where c: "Commit (demo_env ''R2'') ''bob'' ''edit'' ([demo_root], demo_object) = Inr (revs, o2)"
    "eo_history o2 = [0, 1]" using demo_commit by blast
  have "ostep\<^sup>*\<^sup>* ([demo_root], demo_object) (revs, o2)" using os_commit[OF c(1)] by blast
  with object_history[OF demo_new rtranclp.rtrancl_refl this] have "chain revs (eo_history o2)" by blast
  then show ?thesis using c by (auto simp: chain_def)
qed

text \<open>Once the current revision of an object is released, the object never gets another revision:
  the commit is refused and no later step changes its history or its current revision.\<close>

theorem released_is_final:
  assumes "ostep\<^sup>*\<^sup>* (revs, o1) (revs', o2)" "eo_Current o1 < length revs" "rv_State (revs ! eo_Current o1) = RevisionReleased"
  shows "eo_history o2 = eo_history o1 \<and> eo_Current o2 = eo_Current o1
    \<and> Commit env author reason (revs', o2) = Inl (RevImmutable (rv_ID (revs ! eo_Current o1)))"
proof -
  have "eo_history o2 = eo_history o1 \<and> eo_Current o2 = eo_Current o1 \<and> length revs \<le> length revs'
      \<and> revs' ! eo_Current o1 = revs ! eo_Current o1"
    using assms(1)
  proof (induction revs' o2 rule: rtranclp_induct2)
    case (step r1 p1 r2 p2)
    have g: "grows (r1, p1) (r2, p2)" using step(2) by (rule ostep_grows)
    from step(2) have "eo_history p2 = eo_history p1 \<and> eo_Current p2 = eo_Current p1"
      by (rule ostepE) (use step(3) assms(3) in
        \<open>auto simp: Commit_Inr obj_AddParameter_def Transition_def SetCorrelationID_def result_iffs\<close>)
    then show ?case using step(3) g assms(2,3) by (auto simp: grows_def)
  qed simp
  then show ?thesis using assms(3) by (simp add: Commit_def Child_def)
qed

theorem released_is_final_witness:
  "Commit (demo_env ''R2'') ''bob'' ''edit'' ([snd (Release demo_root)], SetCorrelationID ''x'' demo_object) = Inl (RevImmutable ''R1'')"
proof -
  have r: "snd (Release demo_root) = demo_root\<lparr>rv_State := RevisionReleased\<rparr>" by code_simp
  have "ostep\<^sup>*\<^sup>* ([snd (Release demo_root)], demo_object) ([snd (Release demo_root)], SetCorrelationID ''x'' demo_object)"
    using os_correlation by blast
  from released_is_final[OF this] show ?thesis by (simp add: r demo_object_def) (simp add: demo_root_def)
qed

text \<open>\<open>Transition\<close> has no way back from the last states, \<open>Commit\<close> takes one: it makes any object an
  edited one, an archived one too.\<close>

theorem commit_reopens:
  "\<exists>revs o2. Commit (demo_env ''R2'') ''bob'' ''edit'' ([demo_root], demo_object\<lparr>eo_State := StateArchived\<rparr>) = Inr (revs, o2)
     \<and> eo_State o2 = StateEditing \<and> (\<forall>target. \<not> (StateArchived, target) \<in> set allowed)"
  by (auto simp: Commit_Inr demo_root_def demo_object_def revision_states Let_def allowed_def object_states)

end
