(* ===== verification/Bounded_Log.thy ===== *)
theory Bounded_Log
  imports Prelude
begin

text \<open>
  A log that appends at the end and, when it is full, first drops its oldest entry: the shape shared
  by the dead letter queue and the event store. The locale states what one append does to the
  sequence of entries; the client fact is what a whole sequence of appends leaves.
\<close>

text \<open>The last \<open>c\<close> elements; \<open>None\<close> is no bound.\<close>

definition last_n :: "nat option \<Rightarrow> 'a list \<Rightarrow> 'a list" where
  "last_n c xs = (case c of None \<Rightarrow> xs | Some k \<Rightarrow> drop (length xs - k) xs)"

definition push_bounded :: "nat option \<Rightarrow> 'a list \<Rightarrow> 'a \<Rightarrow> 'a list" where
  "push_bounded c xs x = (case c of None \<Rightarrow> xs @ [x] | Some k \<Rightarrow> (if k \<le> length xs then tl xs else xs) @ [x])"

lemma last_n_push:
  assumes "c \<noteq> Some 0"
  shows "push_bounded c (last_n c xs) x = last_n c (xs @ [x])"
proof (cases c)
  case (Some k)
  with assms have "0 < k" by simp
  show ?thesis
  proof (cases "k \<le> length xs")
    case True
    then have "drop (length (xs @ [x]) - k) (xs @ [x]) = tl (drop (length xs - k) xs) @ [x]"
      using \<open>0 < k\<close> by (simp add: Suc_diff_le drop_Suc tl_drop)
    then show ?thesis using Some True by (simp add: push_bounded_def last_n_def)
  next
    case False
    then show ?thesis using Some by (simp add: push_bounded_def last_n_def)
  qed
qed (simp add: push_bounded_def last_n_def)

lemma last_n_Nil [simp]: "last_n c [] = []"
  by (simp add: last_n_def split: option.splits)

lemma length_last_n: "length (last_n (Some k) xs) \<le> k"
  by (simp add: last_n_def)

lemma map_last_n: "map f (last_n c xs) = last_n c (map f xs)"
  by (simp add: last_n_def drop_map split: option.splits)

locale bounded_log =
  fixes push :: "'s \<Rightarrow> 'e \<Rightarrow> 's" and entries :: "'s \<Rightarrow> 'e list" and cap :: "'s \<Rightarrow> nat option" and ok :: "'s \<Rightarrow> bool"
  assumes push_entries: "ok s \<Longrightarrow> entries (push s x) = push_bounded (cap s) (entries s) x"
    and push_cap: "ok s \<Longrightarrow> cap (push s x) = cap s"
    and push_ok: "ok s \<Longrightarrow> ok (push s x)"
    and cap_pos: "ok s \<Longrightarrow> cap s \<noteq> Some 0"
begin

lemma push_all:
  assumes "ok s" "entries s = last_n (cap s) ys"
  shows "ok (foldl push s xs) \<and> cap (foldl push s xs) = cap s \<and> entries (foldl push s xs) = last_n (cap s) (ys @ xs)"
  using assms
proof (induction xs arbitrary: s ys)
  case (Cons x xs)
  have "entries (push s x) = last_n (cap (push s x)) (ys @ [x])"
    using Cons.prems by (simp add: push_entries push_cap last_n_push cap_pos)
  from Cons.IH[OF push_ok[OF Cons.prems(1)] this] show ?case using Cons.prems(1) by (simp add: push_cap)
qed simp

lemma push_all_empty:
  "ok s \<Longrightarrow> entries s = [] \<Longrightarrow> entries (foldl push s xs) = last_n (cap s) xs"
  using push_all[of s "[]" xs] by simp

end

end
