(* ===== verification/Event_Bus.thy ===== *)
theory Event_Bus
  imports Bounded_Log Float64 "HOL-Library.Sublist"
begin

text \<open>
  \<open>internal/infrastructure/events\<close>: the in-process event bus (\<open>bus.go\<close>), its retry policy (\<open>retry.go\<close>),
  the dead letter queue (\<open>dlq.go\<close>) and the event store (\<open>store.go\<close>). A handler is a function on the world
  \<open>'w\<close> that returns its error or panics; \<open>Subscribe\<close> takes it as an option, where \<open>None\<close> is the nil
  function, which the code accepts too and whose call panics. What the bus reads from outside (the clock,
  \<open>ctx.Err\<close> and the wait of a retry, which ends with the timer or with the context) is the record
  \<open>bus_env\<close>. Subscription identifiers are arguments of \<open>Subscribe\<close>. The world does not hold the bus: a
  handler that subscribes or publishes while it runs is not covered. Logging is left out, and
  \<open>PublishAsync\<close>, which is \<open>Publish\<close> in a goroutine.
\<close>

record 'd Event =
  ev_Type :: string
  ev_ID :: string
  ev_CorrelationID :: string
  ev_Data :: 'd

subsection \<open>\<open>retry.go\<close>\<close>

record RetryPolicy =
  rp_MaxAttempts :: int
  rp_MinDelay :: int
  rp_MaxDelay :: int
  rp_Multiplier :: f64

definition DefaultRetryPolicy :: RetryPolicy where
  "DefaultRetryPolicy = \<lparr>rp_MaxAttempts = 3, rp_MinDelay = 50000000, rp_MaxDelay = 5000000000, rp_Multiplier = Fin 2\<rparr>"

definition Backoff :: "RetryPolicy \<Rightarrow> int \<Rightarrow> int" where
  "Backoff p attempt =
     (if attempt \<le> 0 then 0
      else let delay = fold (\<lambda>_ d. d * rp_Multiplier p) [1..<nat attempt] (of_int64 (rp_MinDelay p)) in
        if to_int64 delay > rp_MaxDelay p then rp_MaxDelay p else to_int64 delay)"

subsection \<open>\<open>dlq.go\<close>\<close>

datatype bus_error = ContextError string | HandlerFailed string int "string option" | BusClosed

record 'd DLQEntry =
  qe_Event :: "'d Event"
  qe_HandlerID :: string
  qe_Error :: bus_error
  qe_CorrelationID :: string
  qe_Timestamp :: int
  qe_RetryCount :: int

record 'd DLQ =
  dq_entries :: "'d DLQEntry list"
  dq_capacity :: int

definition NewDLQ :: "int \<Rightarrow> 'd DLQ" where
  "NewDLQ capacity = \<lparr>dq_entries = [], dq_capacity = (if capacity \<le> 0 then 1000 else capacity)\<rparr>"

definition DLQ_Push :: "'d DLQ \<Rightarrow> 'd DLQEntry \<Rightarrow> 'd DLQ" where
  "DLQ_Push q e = q\<lparr>dq_entries := (if int (length (dq_entries q)) \<ge> dq_capacity q then tl (dq_entries q) else dq_entries q) @ [e]\<rparr>"

definition DLQ_Pop :: "'d DLQ \<Rightarrow> 'd DLQEntry option \<times> 'd DLQ" where
  "DLQ_Pop q = (if dq_entries q = [] then (None, q)
     else (Some (last (dq_entries q)), q\<lparr>dq_entries := butlast (dq_entries q)\<rparr>))"

definition DLQ_Len :: "'d DLQ \<Rightarrow> int" where
  "DLQ_Len q = int (length (dq_entries q))"

definition DLQ_Clear :: "'d DLQ \<Rightarrow> 'd DLQ" where
  "DLQ_Clear q = q\<lparr>dq_entries := []\<rparr>"

subsection \<open>\<open>bus.go\<close>\<close>

record 'w bus_env =
  be_err :: "'w \<Rightarrow> string option"
  be_wait :: "int \<Rightarrow> 'w \<Rightarrow> bool \<times> 'w"
  be_now :: "'w \<Rightarrow> int"

type_synonym ('d, 'w) Handler = "'d Event \<Rightarrow> 'w \<Rightarrow> (string option \<times> 'w) go"

record ('d, 'w) handlerEntry =
  he_id :: string
  he_handler :: "('d, 'w) Handler option"
  he_priority :: int

record ('d, 'w) Bus =
  bu_handlers :: "(string \<times> ('d, 'w) handlerEntry list) list"
  bu_dlq :: "'d DLQ option"
  bu_retry :: RetryPolicy
  bu_closed :: bool

definition NewBus :: "RetryPolicy option \<Rightarrow> int option \<Rightarrow> ('d, 'w) Bus" where
  "NewBus policy dlq = \<lparr>bu_handlers = [], bu_dlq = map_option NewDLQ dlq,
     bu_retry = (case policy of None \<Rightarrow> DefaultRetryPolicy | Some p \<Rightarrow> p), bu_closed = False\<rparr>"

definition handlers_of :: "('d, 'w) Bus \<Rightarrow> string \<Rightarrow> ('d, 'w) handlerEntry list" where
  "handlers_of b typ = (case map_of (bu_handlers b) typ of None \<Rightarrow> [] | Some es \<Rightarrow> es)"

text \<open>The loop of \<open>Subscribe\<close> swaps the new entry towards the front while its priority is smaller: on the
  reversed list it moves past the entries of larger priority.\<close>

fun sift :: "('d, 'w) handlerEntry \<Rightarrow> ('d, 'w) handlerEntry list \<Rightarrow> ('d, 'w) handlerEntry list" where
  "sift e [] = [e]"
| "sift e (x # xs) = (if he_priority e < he_priority x then x # sift e xs else e # x # xs)"

definition Subscribe :: "string \<Rightarrow> ('d, 'w) Handler option \<Rightarrow> int option \<Rightarrow> string \<Rightarrow> ('d, 'w) Bus \<Rightarrow> ('d, 'w) Bus" where
  "Subscribe typ handler priority i b =
     (let e = \<lparr>he_id = i, he_handler = handler, he_priority = (case priority of None \<Rightarrow> 0 | Some p \<Rightarrow> p)\<rparr> in
      b\<lparr>bu_handlers := mput typ (rev (sift e (rev (handlers_of b typ)))) (bu_handlers b)\<rparr>)"

fun remove_id :: "string \<Rightarrow> ('d, 'w) handlerEntry list \<Rightarrow> ('d, 'w) handlerEntry list option" where
  "remove_id i [] = None"
| "remove_id i (e # es) = (if he_id e = i then Some es else map_option ((#) e) (remove_id i es))"

definition Unsubscribe :: "string \<Rightarrow> string \<Rightarrow> ('d, 'w) Bus \<Rightarrow> bool \<times> ('d, 'w) Bus" where
  "Unsubscribe typ i b = (case remove_id i (handlers_of b typ) of
     None \<Rightarrow> (False, b) | Some es \<Rightarrow> (True, b\<lparr>bu_handlers := mput typ es (bu_handlers b)\<rparr>))"

text \<open>The loop over the attempts, \<open>left\<close> of them to go, \<open>k\<close> done.\<close>

fun attempts :: "'w bus_env \<Rightarrow> RetryPolicy \<Rightarrow> ('d, 'w) handlerEntry \<Rightarrow> 'd Event \<Rightarrow> nat \<Rightarrow> nat \<Rightarrow> string option \<Rightarrow> 'w
    \<Rightarrow> (bus_error option \<times> 'w) go" where
  "attempts env policy entry ev k 0 lastErr w =
     Ret (Some (HandlerFailed (he_id entry) (rp_MaxAttempts policy) lastErr), w)"
| "attempts env policy entry ev k (Suc left) lastErr w =
     (case (if k > 0 then be_wait env (Backoff policy (int k)) w else (True, w)) of
        (False, w1) \<Rightarrow> Ret (map_option ContextError (be_err env w1), w1)
      | (True, w1) \<Rightarrow>
         (case he_handler entry of
            None \<Rightarrow> Panic
          | Some h \<Rightarrow>
             (case h ev w1 of
                Panic \<Rightarrow> Panic
              | Ret (None, w2) \<Rightarrow> Ret (None, w2)
              | Ret (Some e, w2) \<Rightarrow>
                 (case be_err env w2 of
                    Some c \<Rightarrow> Ret (Some (ContextError c), w2)
                  | None \<Rightarrow> attempts env policy entry ev (Suc k) left (Some e) w2))))"

definition invokeWithRetry :: "'w bus_env \<Rightarrow> RetryPolicy \<Rightarrow> ('d, 'w) handlerEntry \<Rightarrow> 'd Event \<Rightarrow> 'w \<Rightarrow> (bus_error option \<times> 'w) go" where
  "invokeWithRetry env policy entry ev w = attempts env policy entry ev 0 (nat (rp_MaxAttempts policy)) None w"

fun deliver :: "'w bus_env \<Rightarrow> RetryPolicy \<Rightarrow> string \<Rightarrow> 'd Event \<Rightarrow> ('d, 'w) handlerEntry list \<Rightarrow> 'd DLQ option \<Rightarrow> 'w
    \<Rightarrow> ('d DLQ option \<times> 'w) go" where
  "deliver env policy corr ev [] dlq w = Ret (dlq, w)"
| "deliver env policy corr ev (entry # es) dlq w =
     (case invokeWithRetry env policy entry ev w of
        Panic \<Rightarrow> Panic
      | Ret (None, w1) \<Rightarrow> deliver env policy corr ev es dlq w1
      | Ret (Some err, w1) \<Rightarrow> deliver env policy corr ev es
          (map_option (\<lambda>q. DLQ_Push q \<lparr>qe_Event = ev, qe_HandlerID = he_id entry, qe_Error = err, qe_CorrelationID = corr,
             qe_Timestamp = be_now env w1, qe_RetryCount = 0\<rparr>) dlq) w1)"

definition Publish :: "'w bus_env \<Rightarrow> 'd Event \<Rightarrow> ('d, 'w) Bus \<Rightarrow> 'w \<Rightarrow> (bus_error option \<times> ('d, 'w) Bus \<times> 'w) go" where
  "Publish env ev b w =
     (if bu_closed b then Ret (Some BusClosed, b, w)
      else let corr = (if ev_CorrelationID ev = [] then ev_ID ev else ev_CorrelationID ev) in
        (case deliver env (bu_retry b) corr ev (handlers_of b (ev_Type ev) @ handlers_of b ''*'') (bu_dlq b) w of
           Panic \<Rightarrow> Panic
         | Ret (dlq, w1) \<Rightarrow> Ret (None, b\<lparr>bu_dlq := dlq\<rparr>, w1)))"

definition bus_Close :: "('d, 'w) Bus \<Rightarrow> ('d, 'w) Bus" where
  "bus_Close b = b\<lparr>bu_closed := True\<rparr>"

definition HandlerCount :: "('d, 'w) Bus \<Rightarrow> string \<Rightarrow> int" where
  "HandlerCount b typ = int (length (handlers_of b typ))"

definition DLQCount :: "('d, 'w) Bus \<Rightarrow> int" where
  "DLQCount b = (case bu_dlq b of None \<Rightarrow> 0 | Some q \<Rightarrow> DLQ_Len q)"

text \<open>\<open>RetryAll\<close> (\<open>dlq.go\<close>): the entry it passes on has the identifier of the handler and no function.\<close>

fun retry_entries :: "'w bus_env \<Rightarrow> RetryPolicy \<Rightarrow> 'd DLQEntry list \<Rightarrow> int \<Rightarrow> 'd DLQEntry list \<Rightarrow> 'w
    \<Rightarrow> (int \<times> 'd DLQEntry list \<times> 'w) go" where
  "retry_entries env policy [] n remaining w = Ret (n, remaining, w)"
| "retry_entries env policy (e # es) n remaining w =
     (if be_err env w \<noteq> None then retry_entries env policy es n (remaining @ [e]) w
      else (case invokeWithRetry env policy \<lparr>he_id = qe_HandlerID e, he_handler = None, he_priority = 0\<rparr> (qe_Event e) w of
          Panic \<Rightarrow> Panic
        | Ret (Some err, w1) \<Rightarrow> retry_entries env policy es n (remaining @ [e\<lparr>qe_RetryCount := qe_RetryCount e + 1\<rparr>]) w1
        | Ret (None, w1) \<Rightarrow> retry_entries env policy es (n + 1) remaining w1))"

definition RetryAll :: "'w bus_env \<Rightarrow> RetryPolicy \<Rightarrow> 'd DLQ \<Rightarrow> 'w \<Rightarrow> (int \<times> 'd DLQ \<times> 'w) go" where
  "RetryAll env policy q w = (case retry_entries env policy (dq_entries q) 0 [] w of
     Panic \<Rightarrow> Panic | Ret (n, remaining, w1) \<Rightarrow> Ret (n, q\<lparr>dq_entries := remaining\<rparr>, w1))"

definition DLQRetry :: "'w bus_env \<Rightarrow> ('d, 'w) Bus \<Rightarrow> 'w \<Rightarrow> (int \<times> ('d, 'w) Bus \<times> 'w) go" where
  "DLQRetry env b w = (case bu_dlq b of None \<Rightarrow> Ret (0, b, w)
     | Some q \<Rightarrow> (case RetryAll env (bu_retry b) q w of
         Panic \<Rightarrow> Panic | Ret (n, q', w1) \<Rightarrow> Ret (n, b\<lparr>bu_dlq := Some q'\<rparr>, w1)))"

subsection \<open>\<open>store.go\<close>\<close>

record 'd StoreEntry =
  se_Event :: "'d Event"
  se_StoredAt :: int
  se_ReplayID :: nat

record 'd Store =
  st_entries :: "'d StoreEntry list"
  st_counter :: nat
  st_capacity :: int

text \<open>\<open>make\<close> panics on a negative capacity.\<close>

definition NewStore :: "int \<Rightarrow> 'd Store go" where
  "NewStore capacity = (if capacity < 0 then Panic else Ret \<lparr>st_entries = [], st_counter = 0, st_capacity = capacity\<rparr>)"

definition Append :: "int \<Rightarrow> 'd Event \<Rightarrow> 'd Store \<Rightarrow> 'd Store" where
  "Append now ev s =
     (let es = (if st_capacity s > 0 \<and> int (length (st_entries s)) \<ge> st_capacity s then tl (st_entries s) else st_entries s) in
      s\<lparr>st_counter := st_counter s + 1,
        st_entries := es @ [\<lparr>se_Event = ev, se_StoredAt = now, se_ReplayID = st_counter s + 1\<rparr>]\<rparr>)"

definition store_Len :: "'d Store \<Rightarrow> int" where
  "store_Len s = int (length (st_entries s))"

definition Events_of :: "'d Store \<Rightarrow> string \<Rightarrow> 'd StoreEntry list" where
  "Events_of s typ = filter (\<lambda>e. ev_Type (se_Event e) = typ) (st_entries s)"

definition All :: "'d Store \<Rightarrow> 'd StoreEntry list" where
  "All s = st_entries s"

text \<open>The callback acts on a state and says whether to go on.\<close>

fun replay :: "nat \<Rightarrow> ('d StoreEntry \<Rightarrow> 'a \<Rightarrow> bool \<times> 'a) \<Rightarrow> 'd StoreEntry list \<Rightarrow> 'a \<Rightarrow> 'a" where
  "replay since fn [] a = a"
| "replay since fn (e # es) a =
     (if se_ReplayID e \<le> since then replay since fn es a
      else case fn e a of (True, a1) \<Rightarrow> replay since fn es a1 | (False, a1) \<Rightarrow> a1)"

definition ReplaySince :: "nat \<Rightarrow> ('d StoreEntry \<Rightarrow> 'a \<Rightarrow> bool \<times> 'a) \<Rightarrow> 'd Store \<Rightarrow> 'a \<Rightarrow> 'a" where
  "ReplaySince since fn s a = replay since fn (st_entries s) a"

definition ReplayAll :: "('d StoreEntry \<Rightarrow> 'a \<Rightarrow> bool \<times> 'a) \<Rightarrow> 'd Store \<Rightarrow> 'a \<Rightarrow> 'a" where
  "ReplayAll fn s a = ReplaySince 0 fn s a"

definition store_Clear :: "'d Store \<Rightarrow> 'd Store" where
  "store_Clear s = s\<lparr>st_entries := [], st_counter := 0\<rparr>"

subsection \<open>The two logs\<close>

definition dlq_ok :: "'d DLQ \<Rightarrow> bool" where
  "dlq_ok q \<longleftrightarrow> 0 < dq_capacity q"

interpretation dlq: bounded_log DLQ_Push dq_entries "\<lambda>q. Some (nat (dq_capacity q))" dlq_ok
  by unfold_locales (auto simp: DLQ_Push_def push_bounded_def dlq_ok_def nat_le_iff)

definition append_pair :: "'d Store \<Rightarrow> int \<times> 'd Event \<Rightarrow> 'd Store" where
  "append_pair s p = Append (fst p) (snd p) s"

definition store_cap :: "'d Store \<Rightarrow> nat option" where
  "store_cap s = (if st_capacity s > 0 then Some (nat (st_capacity s)) else None)"

definition stored :: "'d Store \<Rightarrow> (int \<times> 'd Event) list" where
  "stored s = map (\<lambda>e. (se_StoredAt e, se_Event e)) (st_entries s)"

definition numbers :: "'d Store \<Rightarrow> nat list" where
  "numbers s = map se_ReplayID (st_entries s)"

interpretation store: bounded_log append_pair stored store_cap "\<lambda>s. True"
  by unfold_locales
     (auto simp: append_pair_def Append_def stored_def push_bounded_def store_cap_def Let_def map_tl nat_le_iff)

lemma numbers_append: "numbers (append_pair s p) = push_bounded (store_cap s) (numbers s) (Suc (st_counter s))
    \<and> st_counter (append_pair s p) = Suc (st_counter s)"
  by (auto simp: append_pair_def Append_def numbers_def push_bounded_def store_cap_def Let_def map_tl nat_le_iff)

lemma numbers_all:
  assumes "st_counter s = n" "numbers s = last_n (store_cap s) [1..<Suc n]"
  shows "st_counter (foldl append_pair s xs) = n + length xs
    \<and> numbers (foldl append_pair s xs) = last_n (store_cap s) [1..<Suc (n + length xs)]"
  using assms
proof (induction xs arbitrary: s n)
  case (Cons x xs)
  have "numbers (append_pair s x) = last_n (store_cap s) ([1..<Suc n] @ [Suc n])"
    using Cons.prems numbers_append[of s x] last_n_push[OF store.cap_pos[of s], of "[1..<Suc n]" "Suc n"] by simp
  then show ?case using Cons.IH[of "append_pair s x" "Suc n"] Cons.prems numbers_append[of s x]
    by (simp add: store.push_cap)
qed simp

lemma replay_all: "replay k (\<lambda>e xs. (True, xs @ [e])) es acc = acc @ filter (\<lambda>e. k < se_ReplayID e) es"
  by (induction es arbitrary: acc) auto

text \<open>A store of capacity \<open>c\<close> (0 is no bound) that was appended to holds the last \<open>c\<close> events in order,
  numbered by their position in the whole sequence from 1; a replay from \<open>k\<close> delivers exactly those
  of them with a larger number.\<close>

theorem store_refines:
  "\<exists>s0. NewStore (int c) = Ret s0 \<and>
     stored (foldl append_pair s0 tes) = last_n (if c = 0 then None else Some c) tes
   \<and> numbers (foldl append_pair s0 tes) = last_n (if c = 0 then None else Some c) [1..<Suc (length tes)]
   \<and> ReplaySince k (\<lambda>e xs. (True, xs @ [e])) (foldl append_pair s0 tes) []
     = filter (\<lambda>e. k < se_ReplayID e) (All (foldl append_pair s0 tes))"
proof -
  let ?s0 = "\<lparr>st_entries = [], st_counter = 0, st_capacity = int c\<rparr> :: 'a Store"
  have "store_cap ?s0 = (if c = 0 then None else Some c)" by (simp add: store_cap_def)
  moreover have "stored (foldl append_pair ?s0 tes) = last_n (store_cap ?s0) tes"
    by (rule store.push_all_empty) (simp_all add: stored_def)
  moreover have "numbers (foldl append_pair ?s0 tes) = last_n (store_cap ?s0) [1..<Suc (length tes)]"
    using numbers_all[of ?s0 0 tes] by (simp add: numbers_def)
  ultimately show ?thesis by (simp add: NewStore_def ReplaySince_def All_def replay_all)
qed

subsection \<open>Subscriptions\<close>

inductive bus_built :: "('d, 'w) Bus \<Rightarrow> bool" where
  bb_new: "bus_built (NewBus policy dlq)"
| bb_subscribe: "bus_built b \<Longrightarrow> bus_built (Subscribe typ h p i b)"
| bb_unsubscribe: "bus_built b \<Longrightarrow> bus_built (snd (Unsubscribe typ i b))"
| bb_publish: "bus_built b \<Longrightarrow> Publish env ev b w = Ret (e, b', w') \<Longrightarrow> bus_built b'"
| bb_retry: "bus_built b \<Longrightarrow> DLQRetry env b w = Ret (n, b', w') \<Longrightarrow> bus_built b'"
| bb_close: "bus_built b \<Longrightarrow> bus_built (bus_Close b)"

abbreviation by_priority :: "('d, 'w) handlerEntry list \<Rightarrow> bool" where
  "by_priority \<equiv> sorted_wrt (\<lambda>x y. he_priority x \<le> he_priority y)"

definition queue_ok :: "'d DLQ option \<Rightarrow> bool" where
  "queue_ok d \<longleftrightarrow> (case d of None \<Rightarrow> True | Some q \<Rightarrow> dlq_ok q \<and> int (length (dq_entries q)) \<le> dq_capacity q)"

lemma set_sift [simp]: "set (sift e xs) = insert e (set xs)"
  by (induction xs) auto

lemma sift_sorted: "sorted_wrt (\<lambda>x y. he_priority y \<le> he_priority x) xs \<Longrightarrow>
    sorted_wrt (\<lambda>x y. he_priority y \<le> he_priority x) (sift e xs)"
  by (induction xs) force+

lemma sift_filter: "sorted_wrt (\<lambda>x y. he_priority y \<le> he_priority x) xs \<Longrightarrow>
    filter (\<lambda>x. he_priority x = p) (sift e xs) = (if he_priority e = p then [e] else []) @ filter (\<lambda>x. he_priority x = p) xs"
  by (induction xs) (auto simp: filter_empty_conv)

lemma sorted_wrt_rev_priority: "sorted_wrt (\<lambda>x y. he_priority y \<le> he_priority x) (rev es) \<longleftrightarrow> by_priority es"
  by (simp add: sorted_wrt_rev)

lemma handlers_of_put: "handlers_of (b\<lparr>bu_handlers := mput typ es (bu_handlers b)\<rparr>) t = (if t = typ then es else handlers_of b t)"
  by (simp add: handlers_of_def)

lemma remove_id_sub: "remove_id i es = Some es' \<Longrightarrow> by_priority es \<Longrightarrow> by_priority es' \<and> set es' \<subseteq> set es"
proof (induction es arbitrary: es')
  case (Cons e es)
  then show ?case by (fastforce split: if_splits)
qed simp

lemma push_queue_ok: "queue_ok (Some q) \<Longrightarrow> queue_ok (Some (DLQ_Push q e))"
  by (auto simp: queue_ok_def dlq_ok_def DLQ_Push_def)

lemma deliver_queue_ok: "deliver env policy corr ev es d w = Ret (d', w') \<Longrightarrow> queue_ok d \<Longrightarrow> queue_ok d'"
proof (induction es arbitrary: d w)
  case (Cons entry es)
  obtain e w1 where i: "invokeWithRetry env policy entry ev w = Ret (e, w1)"
    using Cons.prems(1) by (auto split: go.splits)
  show ?case
  proof (cases e)
    case None
    then show ?thesis using Cons i by simp
  next
    case (Some err)
    let ?d = "map_option (\<lambda>q. DLQ_Push q \<lparr>qe_Event = ev, qe_HandlerID = he_id entry, qe_Error = err, qe_CorrelationID = corr,
             qe_Timestamp = be_now env w1, qe_RetryCount = 0\<rparr>) d"
    have "queue_ok ?d" using Cons.prems(2) by (cases d) (auto simp: push_queue_ok)
    then show ?thesis using Cons.IH[of ?d w1] Cons.prems(1) i Some by simp
  qed
qed simp

lemma retry_entries_length: "retry_entries env policy es n r w = Ret (m, r', w') \<Longrightarrow> length r' \<le> length r + length es"
  by (induction env policy es n r w rule: retry_entries.induct)
     (fastforce split: go.splits prod.splits option.splits if_splits)+

lemma built_ok: "bus_built b \<Longrightarrow> (\<forall>typ. by_priority (handlers_of b typ)) \<and> queue_ok (bu_dlq b)"
proof (induction rule: bus_built.induct)
  case (bb_new policy d)
  then show ?case by (cases d) (auto simp: NewBus_def handlers_of_def queue_ok_def dlq_ok_def NewDLQ_def)
next
  case (bb_subscribe b ty h p i)
  have "by_priority (rev (sift e (rev (handlers_of b ty))))" for e
    using bb_subscribe.IH sift_sorted[of "rev (handlers_of b ty)" e] by (auto simp: sorted_wrt_rev)
  then show ?case using bb_subscribe by (simp add: Subscribe_def Let_def handlers_of_put)
next
  case (bb_unsubscribe b ty i)
  then show ?case by (auto simp: Unsubscribe_def handlers_of_put dest: remove_id_sub split: option.splits)
next
  case (bb_publish b env ev w e b' w')
  then show ?case
    by (auto simp: Publish_def Let_def handlers_of_def split: if_splits go.splits intro: deliver_queue_ok)
next
  case (bb_retry b env w n b' w')
  then show ?case
    by (auto simp: DLQRetry_def RetryAll_def handlers_of_def queue_ok_def dlq_ok_def split: option.splits go.splits
        dest!: retry_entries_length)
next
  case (bb_close b)
  then show ?case by (simp add: bus_Close_def handlers_of_def)
qed

text \<open>C33: on a bus built with its operations the handlers of every type are in the order of their
  priorities and the dead letter queue stays within its capacity; a new subscription comes after the
  present ones of its priority and leaves the others in their order.\<close>

theorem bus_order:
  assumes "bus_built b"
  shows "by_priority (handlers_of b typ) \<and> queue_ok (bu_dlq b)
    \<and> filter (\<lambda>e. he_priority e = p) (handlers_of (Subscribe typ h q i b) typ)
      = filter (\<lambda>e. he_priority e = p) (handlers_of b typ)
        @ (if p = (case q of None \<Rightarrow> 0 | Some n \<Rightarrow> n)
           then [\<lparr>he_id = i, he_handler = h, he_priority = p\<rparr>] else [])"
proof -
  have s: "by_priority (handlers_of b typ)" "queue_ok (bu_dlq b)" using built_ok[OF assms] by auto
  then have "sorted_wrt (\<lambda>x y. he_priority y \<le> he_priority x) (rev (handlers_of b typ))" by (simp add: sorted_wrt_rev)
  from sift_filter[OF this, of p] s show ?thesis
    by (auto simp: Subscribe_def Let_def handlers_of_put rev_filter[symmetric])
qed

definition quiet :: "(unit, nat) Handler" where
  "quiet ev n = Ret (None, n)"

theorem bus_order_witness:
  "map he_id (filter (\<lambda>e. he_priority e = 0) (handlers_of (Subscribe ''t'' (Some quiet) None ''b'' (Subscribe ''t'' (Some quiet) (Some 0) ''a''
     (Subscribe ''t'' (Some quiet) (Some 5) ''z'' (NewBus None None)))) ''t'')) = [''a'', ''b'']"
proof -
  have "bus_built (Subscribe ''t'' (Some quiet) (Some 0) ''a'' (Subscribe ''t'' (Some quiet) (Some 5) ''z'' (NewBus None None)))"
    by (intro bus_built.intros)
  from bus_order[OF this, of "''t''" 0 "Some quiet" None "''b''"] show ?thesis
    by (simp add: Subscribe_def NewBus_def handlers_of_def)
qed

subsection \<open>Delivery\<close>

text \<open>A context that is never cancelled, and a handler that fails the first \<open>k\<close> calls made to it.\<close>

definition live :: "'w bus_env \<Rightarrow> ('w \<Rightarrow> nat) \<Rightarrow> bool" where
  "live env calls \<longleftrightarrow> (\<forall>w. be_err env w = None) \<and> (\<forall>d w. fst (be_wait env d w) \<and> calls (snd (be_wait env d w)) = calls w)"

definition fails_first :: "nat \<Rightarrow> 'd Event \<Rightarrow> ('d, 'w) Handler \<Rightarrow> ('w \<Rightarrow> nat) \<Rightarrow> bool" where
  "fails_first k ev h calls \<longleftrightarrow>
     (\<forall>w. \<exists>r w'. h ev w = Ret (r, w') \<and> calls w' = Suc (calls w) \<and> (r = None \<longleftrightarrow> k \<le> calls w))"

lemma attempts_exact:
  assumes l: "live env calls" and f: "fails_first k ev h calls" and e: "he_handler entry = Some h"
  shows "calls w = j \<Longrightarrow> j \<le> k \<Longrightarrow>
    \<exists>r w'. attempts env policy entry ev j left le w = Ret (r, w') \<and> (r = None \<longleftrightarrow> k < j + left)
      \<and> calls w' = min (Suc k) (j + left)
      \<and> (r \<noteq> None \<longrightarrow> (\<exists>x. r = Some (HandlerFailed (he_id entry) (rp_MaxAttempts policy) x)))"
proof (induction left arbitrary: j le w)
  case 0
  then show ?case by simp
next
  case (Suc left)
  define w1 where "w1 = snd (if j > 0 then be_wait env (Backoff policy (int j)) w else (True, w))"
  have wt: "(if j > 0 then be_wait env (Backoff policy (int j)) w else (True, w)) = (True, w1)"
    using l by (auto simp: w1_def live_def prod_eq_iff)
  have c1: "calls w1 = j" using l Suc.prems(1) by (auto simp: w1_def live_def)
  obtain r w2 where h: "h ev w1 = Ret (r, w2)" and c2: "calls w2 = Suc j" and r: "r = None \<longleftrightarrow> k \<le> j"
    using f c1 unfolding fails_first_def by metis
  have step: "attempts env policy entry ev j (Suc left) le w = (case r of None \<Rightarrow> Ret (None, w2)
      | Some x \<Rightarrow> attempts env policy entry ev (Suc j) left (Some x) w2)"
    unfolding attempts.simps(2) wt using l by (simp add: e h live_def split: option.splits)
  show ?case
  proof (cases r)
    case None
    then have "j = k" using r Suc.prems(2) by simp
    then show ?thesis using None step c2 by simp
  next
    case (Some x)
    then have "Suc j \<le> k" using r by simp
    then show ?thesis using Suc.IH[OF c2, of "Some x"] Some step by (simp add: min_def)
  qed
qed

text \<open>In a live context a handler that fails its first \<open>k\<close> calls is called \<open>k + 1\<close> times and succeeds
  when that is within the attempts of the policy; otherwise it is called as often as the policy says
  and the failure names the handler.\<close>

theorem retry_exact:
  assumes "live env calls" "fails_first k ev h calls" "he_handler entry = Some h" "calls w = 0"
  shows "\<exists>r w'. invokeWithRetry env policy entry ev w = Ret (r, w')
    \<and> (r = None \<longleftrightarrow> int k < rp_MaxAttempts policy)
    \<and> (r \<noteq> None \<longrightarrow> (\<exists>x. r = Some (HandlerFailed (he_id entry) (rp_MaxAttempts policy) x)))
    \<and> calls w' = min (Suc k) (nat (rp_MaxAttempts policy))"
  using attempts_exact[OF assms(1-3), of w 0 policy "nat (rp_MaxAttempts policy)" None] assms(4)
  by (auto simp: invokeWithRetry_def zless_nat_eq_int_zless)

definition demo_bus_env :: "nat bus_env" where
  "demo_bus_env = \<lparr>be_err = \<lambda>_. None, be_wait = \<lambda>_ w. (True, w), be_now = \<lambda>_. 0\<rparr>"

definition demo_event :: "unit Event" where
  "demo_event = \<lparr>ev_Type = ''t'', ev_ID = ''e1'', ev_CorrelationID = [], ev_Data = ()\<rparr>"

definition flaky :: "nat \<Rightarrow> (unit, nat) Handler" where
  "flaky k ev n = Ret (if n < k then Some ''busy'' else None, Suc n)"

theorem retry_exact_witness:
  "\<exists>w'. invokeWithRetry demo_bus_env DefaultRetryPolicy \<lparr>he_id = ''a'', he_handler = Some (flaky 2), he_priority = 0\<rparr> demo_event 0 = Ret (None, w')
     \<and> w' = 3"
proof -
  have "live demo_bus_env id" "fails_first 2 demo_event (flaky 2) id"
    by (auto simp: live_def demo_bus_env_def fails_first_def flaky_def)
  from retry_exact[OF this, of "\<lparr>he_id = ''a'', he_handler = Some (flaky 2), he_priority = 0\<rparr>" 0 DefaultRetryPolicy]
  show ?thesis by (auto simp: DefaultRetryPolicy_def)
qed

subsection \<open>What a publication does\<close>
























subsection \<open>The dead letter retry\<close>

lemma retry_entries_live:
  assumes "be_err env w = None" "\<not> 1 \<le> rp_MaxAttempts policy"
  shows "retry_entries env policy es n r w = Ret (n, r @ map (\<lambda>e. e\<lparr>qe_RetryCount := qe_RetryCount e + 1\<rparr>) es, w)"
  using assms by (induction es arbitrary: r) (simp_all add: invokeWithRetry_def)

text \<open>The retry of the dead letters never handles one: with a live context and a letter in the queue
  it panics on the nil handler it passes on, under every policy with at least one attempt, and under
  the others it only counts up.\<close>

theorem dlq_retry_broken:
  assumes "dq_entries q \<noteq> []" "be_err env w = None"
  shows "RetryAll env policy q w = (if 1 \<le> rp_MaxAttempts policy then Panic
    else Ret (0, q\<lparr>dq_entries := map (\<lambda>e. e\<lparr>qe_RetryCount := qe_RetryCount e + 1\<rparr>) (dq_entries q)\<rparr>, w))"
proof (cases "1 \<le> rp_MaxAttempts policy")
  case True
  then obtain k where "nat (rp_MaxAttempts policy) = Suc k" by (cases "nat (rp_MaxAttempts policy)") auto
  then show ?thesis using assms True by (cases "dq_entries q") (simp_all add: RetryAll_def invokeWithRetry_def)
qed (simp add: RetryAll_def retry_entries_live assms(2))

theorem dlq_retry_broken_witness:
  "RetryAll demo_bus_env DefaultRetryPolicy (DLQ_Push (NewDLQ 4) \<lparr>qe_Event = demo_event, qe_HandlerID = ''bad'',
     qe_Error = BusClosed, qe_CorrelationID = [], qe_Timestamp = 0, qe_RetryCount = 0\<rparr>) 0 = Panic"
  using dlq_retry_broken[of "DLQ_Push (NewDLQ 4) \<lparr>qe_Event = demo_event, qe_HandlerID = ''bad'',
     qe_Error = BusClosed, qe_CorrelationID = [], qe_Timestamp = 0, qe_RetryCount = 0\<rparr>" demo_bus_env 0 DefaultRetryPolicy]
  by (simp add: DLQ_Push_def demo_bus_env_def DefaultRetryPolicy_def)

text \<open>The delay of a late attempt leaves the range of \<open>time.Duration\<close> and comes out negative, so the cap is
  not applied.\<close>

theorem backoff_overflow: "Backoff DefaultRetryPolicy 40 < 0"
  by code_simp

end
