(* ===== verification/Search_Engine.thy ===== *)
theory Search_Engine
  imports Float_Order "HOL-Library.Word"
begin

text \<open>
  \<open>internal/engine/search/search.go\<close>: the search over configurations and projects. The repository is an
  interface the package does not implement: its two queries are arguments, as is \<open>strings.ToLower\<close>.
  The elapsed time of the answer is left out.
\<close>

record SearchParams =
  sp_ProjectID :: "string option"
  sp_MinWidth :: "f64 option"
  sp_MaxWidth :: "f64 option"
  sp_MinHeight :: "f64 option"
  sp_MaxHeight :: "f64 option"
  sp_FlightType :: "string option"
  sp_Query :: "string option"
  sp_SortBy :: "string option"
  sp_SortOrder :: "string option"
  sp_Limit :: "int option"
  sp_Offset :: "int option"

text \<open>A value of type \<open>interface{}\<close>: a string, a number, or something else.\<close>

datatype filter_value = FString string | FNumber f64 | FOther

record SearchItem =
  si_ID :: string
  si_Type :: string
  si_Title :: string
  si_Description :: string
  si_ProjectID :: string
  si_TenantID :: string
  si_CreatedAt :: int
  si_UpdatedAt :: int
  si_Score :: f64
  si_Metadata :: "(string \<times> filter_value) list"

record SearchResult =
  sr_Items :: "SearchItem list"
  sr_Total :: int
  sr_Limit :: int
  sr_Offset :: int
  sr_HasMore :: bool

datatype 'e search_error = LimitRange | OffsetNegative | WidthRange | HeightRange | ConfigsFailed 'e | ProjectsFailed 'e

definition empty_params :: SearchParams where
  "empty_params = \<lparr>sp_ProjectID = None, sp_MinWidth = None, sp_MaxWidth = None, sp_MinHeight = None, sp_MaxHeight = None,
     sp_FlightType = None, sp_Query = None, sp_SortBy = None, sp_SortOrder = None, sp_Limit = None, sp_Offset = None\<rparr>"

definition above :: "f64 option \<Rightarrow> f64 option \<Rightarrow> bool" where
  "above a b = (case (a, b) of (Some x, Some y) \<Rightarrow> x > y | _ \<Rightarrow> False)"

definition validateParams :: "SearchParams \<Rightarrow> ('e search_error, unit) result" where
  "validateParams p =
     guard_with (case sp_Limit p of None \<Rightarrow> False | Some l \<Rightarrow> l < 0 \<or> l > 1000) LimitRange
     (guard_with (case sp_Offset p of None \<Rightarrow> False | Some o1 \<Rightarrow> o1 < 0) OffsetNegative
     (guard_with (above (sp_MinWidth p) (sp_MaxWidth p)) WidthRange
     (guard_with (above (sp_MinHeight p) (sp_MaxHeight p)) HeightRange
     (Inr ()))))"

definition applyDefaults :: "SearchParams \<Rightarrow> SearchParams" where
  "applyDefaults p =
     p\<lparr>sp_Limit := Some (case sp_Limit p of None \<Rightarrow> 20 | Some l \<Rightarrow> l),
       sp_Offset := Some (case sp_Offset p of None \<Rightarrow> 0 | Some o1 \<Rightarrow> o1),
       sp_SortOrder := Some (case sp_SortOrder p of None \<Rightarrow> ''desc'' | Some s \<Rightarrow> s)\<rparr>"

text \<open>The addition of two \<open>int\<close>s.\<close>

definition add_int :: "int \<Rightarrow> int \<Rightarrow> int" where
  "add_int a b = sint (word_of_int (a + b) :: 64 word)"

text \<open>The slice expression: \<open>start\<close> is below the length here, so \<open>start + limit\<close> does not overflow.\<close>

definition applyPagination :: "'i list \<Rightarrow> SearchParams \<Rightarrow> 'i list" where
  "applyPagination items p =
     (let start = the (sp_Offset p) in
      if start \<ge> int (length items) then []
      else let end1 = start + the (sp_Limit p); e = (if end1 > int (length items) then int (length items) else end1) in
        drop (nat start) (take (nat e) items))"

text \<open>The two nested loops of \<open>sortByScore\<close>.\<close>

definition swap_if :: "nat \<Rightarrow> nat \<Rightarrow> SearchItem list \<Rightarrow> SearchItem list" where
  "swap_if i j xs = (if si_Score (xs ! j) > si_Score (xs ! i) then xs[i := xs ! j, j := xs ! i] else xs)"

definition inner_pass :: "nat \<Rightarrow> SearchItem list \<Rightarrow> SearchItem list" where
  "inner_pass i xs = fold (swap_if i) [Suc i..<length xs] xs"

definition sortByScore :: "SearchItem list \<Rightarrow> SearchItem list" where
  "sortByScore xs = fold inner_pass [0..<length xs - 1] xs"

type_synonym 'e query = "string \<Rightarrow> SearchParams \<Rightarrow> 'e + SearchItem list \<times> int"

definition Search :: "'e query \<Rightarrow> 'e query \<Rightarrow> string \<Rightarrow> SearchParams \<Rightarrow> ('e search_error, SearchResult) result" where
  "Search configs projects tenant p0 =
     bindR (validateParams p0) (\<lambda>_.
     let p = applyDefaults p0 in
     (case configs tenant p of Inl e \<Rightarrow> Inl (ConfigsFailed e) | Inr (cs, ct) \<Rightarrow>
     (case projects tenant p of Inl e \<Rightarrow> Inl (ProjectsFailed e) | Inr (ps, pt) \<Rightarrow>
       let items = cs @ ps; n = add_int ct pt;
           sorted_items = (if sp_SortBy p = Some ''relevance'' then sortByScore items else items) in
       Inr \<lparr>sr_Items = applyPagination sorted_items p, sr_Total = n, sr_Limit = the (sp_Limit p),
            sr_Offset = the (sp_Offset p), sr_HasMore = add_int (the (sp_Offset p)) (the (sp_Limit p)) < n\<rparr>)))"

definition SearchByQuery :: "'e query \<Rightarrow> 'e query \<Rightarrow> string \<Rightarrow> string \<Rightarrow> ('e search_error, SearchResult) result" where
  "SearchByQuery configs projects tenant q = Search configs projects tenant (empty_params\<lparr>sp_Query := Some q\<rparr>)"

text \<open>The type assertions on the values of the filter map.\<close>

definition f_string :: "(string \<times> filter_value) list \<Rightarrow> string \<Rightarrow> string option" where
  "f_string m k = (case map_of m k of Some (FString s) \<Rightarrow> Some s | _ \<Rightarrow> None)"

definition f_number :: "(string \<times> filter_value) list \<Rightarrow> string \<Rightarrow> f64 option" where
  "f_number m k = (case map_of m k of Some (FNumber x) \<Rightarrow> Some x | _ \<Rightarrow> None)"

definition SearchByFilters :: "'e query \<Rightarrow> 'e query \<Rightarrow> string \<Rightarrow> (string \<times> filter_value) list
    \<Rightarrow> ('e search_error, SearchResult) result" where
  "SearchByFilters configs projects tenant m = Search configs projects tenant
     (empty_params\<lparr>sp_ProjectID := f_string m ''projectId'', sp_MinWidth := f_number m ''minWidth'',
        sp_MaxWidth := f_number m ''maxWidth'', sp_MinHeight := f_number m ''minHeight'',
        sp_MaxHeight := f_number m ''maxHeight'', sp_FlightType := f_string m ''flightType''\<rparr>)"

text \<open>\<open>strings.Index\<close>, and a slice of a string with its bounds check.\<close>

fun str_index :: "nat \<Rightarrow> string \<Rightarrow> string \<Rightarrow> nat option" where
  "str_index i [] sub = (if sub = [] then Some i else None)"
| "str_index i (c # cs) sub = (if take (length sub) (c # cs) = sub then Some i else str_index (Suc i) cs sub)"

definition slice :: "string \<Rightarrow> nat \<Rightarrow> nat \<Rightarrow> string go" where
  "slice s lo hi = (if lo \<le> hi \<and> hi \<le> length s then Ret (drop lo (take hi s)) else Panic)"

definition HighlightQuery :: "(string \<Rightarrow> string) \<Rightarrow> string \<Rightarrow> string \<Rightarrow> string go" where
  "HighlightQuery lower s query =
     (if query = [] then Ret s
      else case str_index 0 (lower s) (lower query) of
        None \<Rightarrow> Ret s
      | Some idx \<Rightarrow>
         (case (slice s 0 idx, slice s idx (idx + length query), slice s (idx + length query) (length s)) of
            (Ret a, Ret b, Ret c) \<Rightarrow> Ret (a @ ''**'' @ b @ ''**'' @ c)
          | _ \<Rightarrow> Panic))"

subsection \<open>The sort\<close>

lemma length_swap [simp]: "length (swap_if i j xs) = length xs"
  by (simp add: swap_if_def)

lemma mset_swap: "i < length xs \<Longrightarrow> j < length xs \<Longrightarrow> mset (swap_if i j xs) = mset xs"
  by (simp add: swap_if_def mset_swap)

text \<open>Scores that are comparable.\<close>

definition no_nan :: "SearchItem list \<Rightarrow> bool" where
  "no_nan xs \<longleftrightarrow> list_all (\<lambda>x. si_Score x \<noteq> NaN) xs"

lemma no_nan_mset: "mset xs = mset ys \<Longrightarrow> no_nan xs \<longleftrightarrow> no_nan ys"
  by (metis no_nan_def list_all_iff set_mset_mset)

lemma not_less_f64: "x \<noteq> NaN \<Longrightarrow> y \<noteq> NaN \<Longrightarrow> \<not> x < y \<Longrightarrow> y \<le> (x :: f64)"
  by (cases x; cases y) auto

lemma less_imp_le_f64: "x < y \<Longrightarrow> x \<le> (y :: f64)"
  by (cases x; cases y) auto

lemma f64_refl: "x \<noteq> NaN \<Longrightarrow> x \<le> (x :: f64)"
  by (cases x) auto

text \<open>One inner loop up to \<open>k\<close>: position \<open>i\<close> dominates \<open>i..<k\<close>, the rest before \<open>i\<close> is untouched.\<close>

definition dominates :: "nat \<Rightarrow> nat \<Rightarrow> SearchItem list \<Rightarrow> bool" where
  "dominates i k xs \<longleftrightarrow> (\<forall>m. i < m \<and> m < k \<longrightarrow> si_Score (xs ! m) \<le> si_Score (xs ! i))"

lemma swap_dominates:
  assumes "dominates i k xs" "i < k" "k < length xs" "no_nan xs"
  shows "dominates i (Suc k) (swap_if i k xs)"
proof -
  have n: "si_Score (xs ! m) \<noteq> NaN" if "m < length xs" for m
    using assms(4) that by (auto simp: no_nan_def list_all_length)
  show ?thesis unfolding dominates_def
  proof (intro allI impI)
    fix m assume m: "i < m \<and> m < Suc k"
    show "si_Score (swap_if i k xs ! m) \<le> si_Score (swap_if i k xs ! i)"
    proof (cases "m = k")
      case True
      then show ?thesis using assms n[of i] n[of k] m
        by (auto simp: swap_if_def nth_list_update less_imp_le_f64 intro: not_less_f64)
    next
      case False
      then have le: "si_Score (xs ! m) \<le> si_Score (xs ! i)" using assms(1) m by (auto simp: dominates_def)
      then show ?thesis using assms False m f64_trans[OF le less_imp_le_f64]
        by (auto simp: swap_if_def nth_list_update)
    qed
  qed
qed

lemma inner_loop:
  assumes "i < length xs" "no_nan xs" "k \<le> length xs" "i < k"
  shows "let ys = fold (swap_if i) [Suc i..<k] xs in
    length ys = length xs \<and> mset ys = mset xs \<and> dominates i k ys \<and> take i ys = take i xs \<and> mset (drop i ys) = mset (drop i xs)"
  using assms(3,4)
proof (induction k)
  case (Suc k)
  show ?case
  proof (cases "i = k")
    case True
    then show ?thesis by (auto simp: dominates_def)
  next
    case False
    let ?ys = "fold (swap_if i) [Suc i..<k] xs"
    have ik: "i < k" using False Suc.prems by simp
    note IH = Suc.IH[unfolded Let_def]
    have ys: "length ?ys = length xs" "mset ?ys = mset xs" "dominates i k ?ys" "take i ?ys = take i xs"
      using IH ik Suc.prems by auto
    have "fold (swap_if i) [Suc i..<Suc k] xs = swap_if i k ?ys" using ik by simp
    moreover have "take i (swap_if i k ?ys) = take i ?ys" using ik by (simp add: swap_if_def)
    moreover have m: "mset (swap_if i k ?ys) = mset ?ys" using ys(1) ik Suc.prems by (intro mset_swap) auto
    moreover have "dominates i (Suc k) (swap_if i k ?ys)"
      using ys ik Suc.prems assms(2) no_nan_mset[OF ys(2)] by (intro swap_dominates) auto
    ultimately have r: "length (fold (swap_if i) [Suc i..<Suc k] xs) = length xs"
      "mset (fold (swap_if i) [Suc i..<Suc k] xs) = mset xs" "dominates i (Suc k) (fold (swap_if i) [Suc i..<Suc k] xs)"
      "take i (fold (swap_if i) [Suc i..<Suc k] xs) = take i xs" using ys by simp_all
    have "mset (take i (fold (swap_if i) [Suc i..<Suc k] xs)) + mset (drop i (fold (swap_if i) [Suc i..<Suc k] xs))
        = mset (take i xs) + mset (drop i xs)"
      using r(2) by (metis append_take_drop_id mset_append)
    then show ?thesis using r by (simp only: Let_def) simp
  qed
qed simp

definition sorted_prefix :: "nat \<Rightarrow> SearchItem list \<Rightarrow> bool" where
  "sorted_prefix k xs \<longleftrightarrow> (\<forall>m m'. m < k \<and> m < m' \<and> m' < length xs \<longrightarrow> si_Score (xs ! m') \<le> si_Score (xs ! m))"

lemma inner_pass_prefix:
  assumes "sorted_prefix i xs" "i < length xs" "no_nan xs"
  shows "sorted_prefix (Suc i) (inner_pass i xs) \<and> mset (inner_pass i xs) = mset xs"
proof -
  let ?ys = "inner_pass i xs"
  have y: "length ?ys = length xs" "mset ?ys = mset xs" "dominates i (length xs) ?ys" "take i ?ys = take i xs"
    "mset (drop i ?ys) = mset (drop i xs)"
    using inner_loop[OF assms(2,3), of "length xs"] assms(2) by (auto simp: inner_pass_def Let_def)
  have "si_Score (?ys ! m') \<le> si_Score (?ys ! m)" if m: "m < Suc i" "m < m'" "m' < length ?ys" for m m'
  proof (cases "m = i")
    case True
    then show ?thesis using y(1,3) m by (simp add: dominates_def)
  next
    case False
    have same: "?ys ! k = xs ! k" if "k < i" for k using y(4) that by (metis nth_take)
    show ?thesis
    proof (cases "m' < i")
      case True
      then show ?thesis using assms(1,2) m same[of m] same[of m'] False by (simp add: sorted_prefix_def)
    next
      case ge: False
      then have "drop i ?ys ! (m' - i) = ?ys ! m'" "m' - i < length (drop i ?ys)" using m by auto
      then have "?ys ! m' \<in> set (drop i ?ys)" by (metis nth_mem)
      then have "?ys ! m' \<in> set (drop i xs)" using y(5) by (metis set_mset_mset)
      then obtain k where "k < length xs - i" "xs ! (i + k) = ?ys ! m'" using assms(2) by (auto simp: in_set_conv_nth)
      then have "i + k < length xs" "?ys ! m' = xs ! (i + k)" by simp_all
      then show ?thesis using assms(1) m same[of m] False by (simp add: sorted_prefix_def)
    qed
  qed
  then show ?thesis using y(2) by (simp add: sorted_prefix_def)
qed

lemma sort_loop:
  assumes "k \<le> length xs - 1" "no_nan xs"
  shows "sorted_prefix k (fold inner_pass [0..<k] xs) \<and> mset (fold inner_pass [0..<k] xs) = mset xs"
  using assms(1)
proof (induction k)
  case 0 then show ?case by (simp add: sorted_prefix_def)
next
  case (Suc k)
  let ?ys = "fold inner_pass [0..<k] xs"
  have y: "sorted_prefix k ?ys" "mset ?ys = mset xs" using Suc by auto
  then have "length ?ys = length xs" "no_nan ?ys" using assms(2) by (metis size_mset, metis no_nan_mset)
  with inner_pass_prefix[OF y(1)] y(2) Suc.prems show ?case by simp
qed

lemma sortByScore_sorted:
  assumes "no_nan xs"
  shows "sorted_wrt (\<lambda>a b. si_Score b \<le> si_Score a) (sortByScore xs) \<and> mset (sortByScore xs) = mset xs"
proof -
  have s: "sorted_prefix (length xs - 1) (sortByScore xs)" "mset (sortByScore xs) = mset xs"
    using sort_loop[OF le_refl assms] by (auto simp: sortByScore_def)
  then have "length (sortByScore xs) = length xs" by (metis size_mset)
  then show ?thesis using s by (auto simp: sorted_wrt_iff_nth_less sorted_prefix_def)
qed

lemma page: "0 \<le> off \<Longrightarrow> 0 \<le> lmt \<Longrightarrow> sp_Offset p = Some off \<Longrightarrow> sp_Limit p = Some lmt \<Longrightarrow>
    applyPagination xs p = take (nat lmt) (drop (nat off) xs)"
  by (auto simp: applyPagination_def Let_def take_drop nat_add_distrib ac_simps split: if_splits)

text \<open>C34: a search by relevance answers the page that was asked for: the limit and the offset of the
  request (20 and 0 when it has none), which are in their ranges, and the limit many items from the offset
  on of the results of the two queries, all of them, in descending order of the score.\<close>

theorem relevance_page:
  fixes configs :: "'e query"
  assumes "Search configs projects tenant p = Inr r" "sp_SortBy p = Some ''relevance''"
    and "configs tenant (applyDefaults p) = Inr (cs, ct)" "projects tenant (applyDefaults p) = Inr (ps, pt)"
    and "no_nan (cs @ ps)"
  shows "\<exists>ys. sorted_wrt (\<lambda>a b. si_Score b \<le> si_Score a) ys \<and> mset ys = mset (cs @ ps)
    \<and> sr_Items r = take (nat (sr_Limit r)) (drop (nat (sr_Offset r)) ys)
    \<and> sr_Limit r = (case sp_Limit p of None \<Rightarrow> 20 | Some l \<Rightarrow> l)
    \<and> sr_Offset r = (case sp_Offset p of None \<Rightarrow> 0 | Some o1 \<Rightarrow> o1)
    \<and> 0 \<le> sr_Offset r \<and> sr_Limit r \<in> {0..1000} \<and> length (sr_Items r) \<le> nat (sr_Limit r)"
proof -
  have v: "(validateParams p :: ('e search_error, unit) result) = Inr ()" using assms(1) by (auto simp: Search_def bindR_Inr_iff)
  let ?d = "applyDefaults p" and ?ys = "sortByScore (cs @ ps)"
  obtain lmt off where d: "sp_Limit ?d = Some lmt" "sp_Offset ?d = Some off" "sp_SortBy ?d = sp_SortBy p"
    by (simp add: applyDefaults_def)
  have b: "0 \<le> lmt" "lmt \<le> 1000" "0 \<le> off"
    using v d by (auto simp: validateParams_def guard_with_Inr_iff applyDefaults_def split: option.splits)
  have r: "sr_Items r = applyPagination ?ys ?d" "sr_Limit r = lmt" "sr_Offset r = off"
    using assms d by (auto simp: Search_def v Let_def)
  have q: "lmt = (case sp_Limit p of None \<Rightarrow> 20 | Some l \<Rightarrow> l)" "off = (case sp_Offset p of None \<Rightarrow> 0 | Some o1 \<Rightarrow> o1)"
    using d(1,2) by (simp_all add: applyDefaults_def)
  from r show ?thesis using sortByScore_sorted[OF assms(5)] page[OF b(3,1) d(2,1), of ?ys] b
    unfolding q[symmetric] by (intro exI[of _ ?ys]) auto
qed

definition demo_item :: "string \<Rightarrow> f64 \<Rightarrow> SearchItem" where
  "demo_item i s = \<lparr>si_ID = i, si_Type = ''project'', si_Title = i, si_Description = [], si_ProjectID = i,
     si_TenantID = ''t1'', si_CreatedAt = 0, si_UpdatedAt = 0, si_Score = s, si_Metadata = []\<rparr>"

theorem relevance_page_witness:
  "\<exists>r. Search (\<lambda>t p. Inr ([demo_item ''a'' (Fin 1), demo_item ''b'' (Fin 3)], 2)) (\<lambda>t p. (Inr ([demo_item ''c'' (Fin 2)], 1) :: string + _))
      ''t'' (empty_params\<lparr>sp_SortBy := Some ''relevance'', sp_Limit := Some 1\<rparr>) = Inr r
    \<and> sr_Limit r = 1 \<and> sr_Offset r = 0 \<and> length (sr_Items r) \<le> 1"
proof -
  let ?c = "\<lambda>(t::string) (p::SearchParams). Inr ([demo_item ''a'' (Fin 1), demo_item ''b'' (Fin 3)], 2) :: string + SearchItem list \<times> int"
  let ?p = "\<lambda>(t::string) (p::SearchParams). Inr ([demo_item ''c'' (Fin 2)], 1) :: string + SearchItem list \<times> int"
  let ?q = "empty_params\<lparr>sp_SortBy := Some ''relevance'', sp_Limit := Some 1\<rparr>"
  obtain r where r: "Search ?c ?p ''t'' ?q = Inr r" "sr_Limit r = 1"
    by (simp add: Search_def validateParams_def guard_with_def empty_params_def above_def applyDefaults_def Let_def)
  have e: "sp_Limit ?q = Some 1" "sp_Offset ?q = None" by (simp_all add: empty_params_def)
  from relevance_page[OF r(1) _ refl refl] r(1) show ?thesis unfolding e by (auto simp: no_nan_def demo_item_def)
qed

subsection \<open>Highlighting\<close>

lemma str_index_bounds: "str_index k s sub = Some i \<Longrightarrow> k \<le> i \<and> i + length sub \<le> k + length s
    \<and> take (length sub) (drop (i - k) s) = sub"
proof (induction k s sub rule: str_index.induct)
  case (2 k c cs sub)
  show ?case
  proof (cases "take (length sub) (c # cs) = sub")
    case True
    then have "length sub \<le> length (c # cs)" by (metis length_take min.absorb_iff2 min_def)
    then show ?thesis using True 2(2) by auto
  next
    case False
    then have "str_index (Suc k) cs sub = Some i" using 2(2) by simp
    with 2(1)[OF False this] show ?thesis by (auto simp: drop_Cons' Suc_diff_le)
  qed
qed (auto split: if_splits)

text \<open>When lowering keeps the number of bytes, highlighting never panics: it marks the first place whose
  lowered text is the lowered query, and gives the text back when there is none.\<close>

theorem highlight_marks:
  assumes "\<And>s. length (lower s) = length s"
  shows "HighlightQuery lower s query = Ret s \<or>
    (\<exists>a b c. s = a @ b @ c \<and> length b = length query \<and> take (length query) (drop (length a) (lower s)) = lower query
      \<and> HighlightQuery lower s query = Ret (a @ ''**'' @ b @ ''**'' @ c))"
proof (cases "query = [] \<or> str_index 0 (lower s) (lower query) = None")
  case False
  then obtain i where i: "str_index 0 (lower s) (lower query) = Some i" and q: "query \<noteq> []" by auto
  note B = str_index_bounds[OF i, unfolded assms]
  let ?a = "take i s" and ?b = "take (length query) (drop i s)" and ?c = "drop (i + length query) s"
  have "HighlightQuery lower s query = Ret (?a @ ''**'' @ ?b @ ''**'' @ ?c)"
    using B q i by (auto simp: HighlightQuery_def slice_def take_drop ac_simps)
  moreover have "s = ?a @ ?b @ ?c" by (metis append_take_drop_id drop_drop add.commute)
  ultimately show ?thesis using B by (intro disjI2 exI[of _ ?a] exI[of _ ?b] exI[of _ ?c]) auto
qed (auto simp: HighlightQuery_def)

text \<open>Lowering can change the number of bytes: U+023A is two bytes, its lower case U+2C65 three.\<close>

definition lower_023A :: "string \<Rightarrow> string" where
  "lower_023A s = (if take 2 s = [char_of (0xC8 :: nat), char_of (0xBA :: nat)]
     then [char_of (0xE2 :: nat), char_of (0xB1 :: nat), char_of (0xA5 :: nat)] @ drop 2 s else s)"

theorem highlight_panics:
  "HighlightQuery lower_023A [char_of (0xC8 :: nat), char_of (0xBA :: nat), CHR ''x''] ''x'' = Panic"
  by code_simp

end
