(* ===== verification/Optimization.thy ===== *)
theory Optimization
  imports Float64
begin

text \<open>
  \<open>internal/engine/optimization/optimization.go\<close>: the exhaustive search of the best candidate over the grid
  of step counts, lower step counts and comfort steps. The evaluator is an argument and has no effects;
  \<open>cancelled k\<close> says whether the context is cancelled when \<open>k\<close> candidates have been evaluated.
\<close>

record Candidate =
  ca_StepCount :: int
  ca_LowerStepCount :: int
  ca_ComfortStep :: f64

record Options =
  op_StepCountMin :: int
  op_StepCountMax :: int
  op_LowerStepMin :: int
  op_LowerStepMax :: int
  op_ComfortMin :: f64
  op_ComfortMax :: f64
  op_ComfortStep :: f64
  op_Maximize :: bool

record OptResult =
  or_Best :: Candidate
  or_Value :: f64
  or_Valid :: bool
  or_Evaluated :: nat
  or_Cancelled :: bool

definition zero_result :: OptResult where
  "zero_result = \<lparr>or_Best = \<lparr>ca_StepCount = 0, ca_LowerStepCount = 0, ca_ComfortStep = Fin 0\<rparr>, or_Value = Fin 0,
     or_Valid = False, or_Evaluated = 0, or_Cancelled = False\<rparr>"

text \<open>The points of the comfort grid; \<open>make\<close> panics on a negative capacity.\<close>

definition comfortPoints :: "f64 \<Rightarrow> f64 \<Rightarrow> f64 \<Rightarrow> f64 list go" where
  "comfortPoints mn mx grid =
     (if mx \<le> mn then Ret [mn]
      else let npts = to_int64 ((mx - mn) / grid) + 1 in
        if npts < 0 then Panic else Ret (map (\<lambda>i. mn + of_int64 i * grid) [0..npts - 1]))"

definition better :: "bool \<Rightarrow> f64 \<Rightarrow> f64 \<Rightarrow> bool" where
  "better maximize v best \<longleftrightarrow> maximize \<and> v > best \<or> \<not> maximize \<and> v < best"

type_synonym evaluator = "Candidate \<Rightarrow> bool \<times> f64"

definition consider_candidate :: "evaluator \<Rightarrow> bool \<Rightarrow> Candidate \<Rightarrow> OptResult \<Rightarrow> OptResult" where
  "consider_candidate eval maximize c out =
     (case eval c of (valid, v) \<Rightarrow>
       let out1 = out\<lparr>or_Evaluated := or_Evaluated out + 1\<rparr> in
       if \<not> valid then out1
       else if \<not> or_Valid out1 \<or> better maximize v (or_Value out1)
       then out1\<lparr>or_Best := c, or_Value := v, or_Valid := True\<rparr> else out1)"

fun opt_loop :: "evaluator \<Rightarrow> bool \<Rightarrow> (nat \<Rightarrow> bool) \<Rightarrow> Candidate list \<Rightarrow> OptResult \<Rightarrow> OptResult" where
  "opt_loop eval maximize cancelled [] out = out"
| "opt_loop eval maximize cancelled (c # cs) out =
     (if cancelled (or_Evaluated out) then out\<lparr>or_Cancelled := True\<rparr>
      else opt_loop eval maximize cancelled cs (consider_candidate eval maximize c out))"

text \<open>The candidates in the order of the three nested loops.\<close>

definition grid_candidates :: "Options \<Rightarrow> f64 list \<Rightarrow> Candidate list" where
  "grid_candidates opt pts =
     (let n1Max = (if op_LowerStepMax opt < op_LowerStepMin opt then op_LowerStepMin opt else op_LowerStepMax opt) in
      concat (map (\<lambda>n. concat (map (\<lambda>n1. map (\<lambda>s. \<lparr>ca_StepCount = n, ca_LowerStepCount = n1, ca_ComfortStep = s\<rparr>) pts)
        [op_LowerStepMin opt..n1Max])) [op_StepCountMin opt..op_StepCountMax opt]))"

definition opt_Search :: "(nat \<Rightarrow> bool) \<Rightarrow> evaluator option \<Rightarrow> Options \<Rightarrow> OptResult go" where
  "opt_Search cancelled evalo opt = (case evalo of None \<Rightarrow> Ret zero_result | Some eval \<Rightarrow>
     if op_StepCountMax opt < op_StepCountMin opt then Ret zero_result
     else let grid = (if op_ComfortStep opt \<le> 0 then Fin 1 else op_ComfortStep opt) in
       (case comfortPoints (op_ComfortMin opt) (op_ComfortMax opt) grid of
          Panic \<Rightarrow> Panic
        | Ret pts \<Rightarrow> Ret (opt_loop eval (op_Maximize opt) cancelled (grid_candidates opt pts) zero_result)))"

subsection \<open>The search finds the first best candidate\<close>

text \<open>Orders without NaN.\<close>

lemma better_trans: "better m a b \<Longrightarrow> better m b c \<Longrightarrow> better m a c"
  by (cases a; cases b; cases c) (auto simp: better_def)

lemma better_mix: "b \<noteq> NaN \<Longrightarrow> c \<noteq> NaN \<Longrightarrow> better m a b \<Longrightarrow> \<not> better m c b \<Longrightarrow> better m a c"
  by (cases a; cases b; cases c) (auto simp: better_def)

lemma better_irrefl [simp]: "\<not> better m a a"
  by (cases a) (auto simp: better_def)

text \<open>The state of the search after the candidates \<open>cs\<close>.\<close>

definition best_of :: "evaluator \<Rightarrow> bool \<Rightarrow> Candidate list \<Rightarrow> OptResult \<Rightarrow> bool" where
  "best_of eval m cs out \<longleftrightarrow> \<not> or_Cancelled out \<and> or_Evaluated out = length cs
     \<and> (or_Valid out \<longleftrightarrow> (\<exists>c \<in> set cs. fst (eval c)))
     \<and> (or_Valid out \<longrightarrow> eval (or_Best out) = (True, or_Value out)
         \<and> (\<forall>c \<in> set cs. fst (eval c) \<longrightarrow> \<not> better m (snd (eval c)) (or_Value out))
         \<and> (\<exists>pre post. cs = pre @ or_Best out # post
              \<and> (\<forall>c \<in> set pre. fst (eval c) \<longrightarrow> better m (or_Value out) (snd (eval c)))))"

lemma consider_best:
  assumes "best_of eval m cs out" and nn: "\<forall>d \<in> set (cs @ [c]). fst (eval d) \<longrightarrow> snd (eval d) \<noteq> NaN"
  shows "best_of eval m (cs @ [c]) (consider_candidate eval m c out)"
proof -
  obtain valid v where e: "eval c = (valid, v)" by (cases "eval c")
  show ?thesis
  proof (cases "valid \<and> (\<not> or_Valid out \<or> better m v (or_Value out))")
    case True
    have w: "better m v (snd (eval d))" if "d \<in> set cs" "fst (eval d)" for d
    proof -
      have o: "or_Valid out" "better m v (or_Value out)" "\<not> better m (snd (eval d)) (or_Value out)"
        using assms(1) True that by (auto simp: best_of_def)
      have b: "eval (or_Best out) = (True, or_Value out)" "or_Best out \<in> set cs"
        using assms(1) o(1) by (auto simp: best_of_def)
      have "or_Value out \<noteq> NaN" using nn b by (metis UnCI fst_conv set_append snd_conv)
      then show ?thesis using better_mix[of "or_Value out" "snd (eval d)" m v] o nn that by auto
    qed
    have "\<not> better m (snd (eval d)) v" if "d \<in> set cs" "fst (eval d)" for d
      using w[OF that] better_trans[of m v "snd (eval d)" v] by auto
    note nb = this
    have ex: "\<exists>pre post. cs @ [c] = pre @ c # post \<and> (\<forall>d \<in> set pre. fst (eval d) \<longrightarrow> better m v (snd (eval d)))"
      by (rule exI[of _ cs], rule exI[of _ "[]"]) (use w in auto)
    have r: "consider_candidate eval m c out =
        out\<lparr>or_Evaluated := or_Evaluated out + 1, or_Best := c, or_Value := v, or_Valid := True\<rparr>"
      using True e by (auto simp: consider_candidate_def Let_def)
    show ?thesis using assms(1) e nb ex True unfolding best_of_def r by simp
  next
    case False
    have r: "consider_candidate eval m c out = out\<lparr>or_Evaluated := or_Evaluated out + 1\<rparr>"
      using False e by (auto simp: consider_candidate_def Let_def)
    have ex: "\<exists>pre post. cs @ [c] = pre @ or_Best out # post \<and> (\<forall>d \<in> set pre. fst (eval d) \<longrightarrow> better m (or_Value out) (snd (eval d)))"
      if "or_Valid out"
    proof -
      obtain pre post where "cs = pre @ or_Best out # post" "\<forall>d \<in> set pre. fst (eval d) \<longrightarrow> better m (or_Value out) (snd (eval d))"
        using assms(1) \<open>or_Valid out\<close> by (auto simp: best_of_def)
      then show ?thesis by (intro exI[of _ pre] exI[of _ "post @ [c]"]) simp
    qed
    show ?thesis using assms(1) e ex False unfolding best_of_def r by auto
  qed
qed

lemma opt_loop_best:
  assumes "best_of eval m done1 out" "\<And>k. \<not> cancelled k"
    "\<forall>d \<in> set (done1 @ cs). fst (eval d) \<longrightarrow> snd (eval d) \<noteq> NaN"
  shows "best_of eval m (done1 @ cs) (opt_loop eval m cancelled cs out)"
  using assms(1,3)
proof (induction cs arbitrary: done1 out)
  case (Cons c cs)
  have "best_of eval m (done1 @ [c]) (consider_candidate eval m c out)"
    using Cons.prems by (intro consider_best) auto
  from Cons.IH[OF this] Cons.prems assms(2) show ?case by simp
qed simp

text \<open>C35: an uncancelled search evaluates every point of the grid once and, when the values of the valid
  candidates are numbers, answers the first of the best valid candidates in the order of the loops: no
  valid candidate is better and every earlier one is worse; it answers invalid exactly when no
  candidate is valid.\<close>

theorem search_optimal:
  assumes "opt_Search cancelled (Some eval) opt = Ret out" "\<And>k. \<not> cancelled k"
    and "op_StepCountMin opt \<le> op_StepCountMax opt"
    and "comfortPoints (op_ComfortMin opt) (op_ComfortMax opt)
      (if op_ComfortStep opt \<le> 0 then Fin 1 else op_ComfortStep opt) = Ret pts"
    and "\<forall>c \<in> set (grid_candidates opt pts). fst (eval c) \<longrightarrow> snd (eval c) \<noteq> NaN"
  shows "\<not> or_Cancelled out \<and> or_Evaluated out = length (grid_candidates opt pts)
    \<and> (or_Valid out \<longleftrightarrow> (\<exists>c \<in> set (grid_candidates opt pts). fst (eval c)))
    \<and> (or_Valid out \<longrightarrow> eval (or_Best out) = (True, or_Value out)
        \<and> (\<forall>c \<in> set (grid_candidates opt pts). fst (eval c) \<longrightarrow> \<not> better (op_Maximize opt) (snd (eval c)) (or_Value out))
        \<and> (\<exists>pre post. grid_candidates opt pts = pre @ or_Best out # post
             \<and> (\<forall>c \<in> set pre. fst (eval c) \<longrightarrow> better (op_Maximize opt) (or_Value out) (snd (eval c)))))"
proof -
  have "out = opt_loop eval (op_Maximize opt) cancelled (grid_candidates opt pts) zero_result"
    using assms(1,3,4) by (auto simp: opt_Search_def Let_def split: if_splits)
  moreover have "best_of eval (op_Maximize opt) [] zero_result" by (simp add: best_of_def zero_result_def)
  ultimately have "best_of eval (op_Maximize opt) (grid_candidates opt pts) out"
    using opt_loop_best[of eval "op_Maximize opt" "[]" zero_result cancelled "grid_candidates opt pts"] assms(2,5) by simp
  then show ?thesis by (simp add: best_of_def)
qed

definition demo_opt :: Options where
  "demo_opt = \<lparr>op_StepCountMin = 14, op_StepCountMax = 16, op_LowerStepMin = 0, op_LowerStepMax = 0,
     op_ComfortMin = Fin 630, op_ComfortMax = Fin 630, op_ComfortStep = Fin 1, op_Maximize = False\<rparr>"

definition demo_eval :: evaluator where
  "demo_eval c = (ca_StepCount c \<noteq> 14, Fin (of_int (ca_StepCount c)))"

theorem search_optimal_witness:
  "\<exists>out. opt_Search (\<lambda>_. False) (Some demo_eval) demo_opt = Ret out \<and> or_Valid out \<and> or_Evaluated out = 3
     \<and> \<not> better False (Fin 15) (or_Value out)"
proof -
  have p: "comfortPoints (op_ComfortMin demo_opt) (op_ComfortMax demo_opt)
      (if op_ComfortStep demo_opt \<le> 0 then Fin 1 else op_ComfortStep demo_opt) = Ret [Fin 630]"
    by (simp add: comfortPoints_def demo_opt_def)
  then obtain out where o: "opt_Search (\<lambda>_. False) (Some demo_eval) demo_opt = Ret out"
    by (auto simp: opt_Search_def Let_def) (simp add: demo_opt_def)
  have g: "grid_candidates demo_opt [Fin 630] = map (\<lambda>n. \<lparr>ca_StepCount = n, ca_LowerStepCount = 0, ca_ComfortStep = Fin 630\<rparr>) [14, 15, 16]"
    by (simp add: grid_candidates_def demo_opt_def upto.simps)
  show ?thesis using search_optimal[OF o _ _ p] o by (auto simp: g demo_eval_def) (auto simp: demo_opt_def)
qed

text \<open>The grid is said to include its upper end; it does so only when the step divides the range.\<close>

theorem comfort_end_missing: "comfortPoints (Fin 600) (Fin 601) (Fin (3/4)) = Ret [Fin 600, Fin (2403/4)]"
  by code_simp

end
