(* ===== verification/TTL_Cache.thy ===== *)
theory TTL_Cache
  imports Prelude
begin

text \<open>
  \<open>internal/infrastructure/cache/cache.go\<close>: the in-memory cache with a time to live. The map is an
  association list in the order in which Go would range over it, which the theorems leave open; the
  time is an argument of the operations that read the clock.
\<close>

record 'v Entry =
  en_Value :: 'v
  en_ExpiresAt :: int

record 'v Cache =
  ch_items :: "(string \<times> 'v Entry) list"
  ch_maxSize :: int
  ch_defaultTTL :: int

definition New_cache :: "int \<Rightarrow> int \<Rightarrow> 'v Cache" where
  "New_cache maxSize ttl = \<lparr>ch_items = [], ch_maxSize = maxSize, ch_defaultTTL = ttl\<rparr>"

definition cache_Get :: "int \<Rightarrow> string \<Rightarrow> 'v Cache \<Rightarrow> 'v option" where
  "cache_Get now key c = (case map_of (ch_items c) key of
     None \<Rightarrow> None | Some e \<Rightarrow> if now > en_ExpiresAt e then None else Some (en_Value e))"

text \<open>The loop keeps the oldest key so far, the empty string when there is none.\<close>

fun find_oldest :: "(string \<times> 'v Entry) list \<Rightarrow> string \<Rightarrow> int \<Rightarrow> string" where
  "find_oldest [] oldestKey oldestTime = oldestKey"
| "find_oldest ((k, e) # es) oldestKey oldestTime =
     (if oldestKey = '''' \<or> en_ExpiresAt e < oldestTime then find_oldest es k (en_ExpiresAt e)
      else find_oldest es oldestKey oldestTime)"

definition evictOldest :: "'v Cache \<Rightarrow> 'v Cache" where
  "evictOldest c = (let k = find_oldest (ch_items c) '''' 0 in
     if k \<noteq> '''' then c\<lparr>ch_items := mdel k (ch_items c)\<rparr> else c)"

definition SetWithTTL :: "int \<Rightarrow> string \<Rightarrow> 'v \<Rightarrow> int \<Rightarrow> 'v Cache \<Rightarrow> 'v Cache" where
  "SetWithTTL now key v ttl c =
     (let c1 = (if int (length (ch_items c)) \<ge> ch_maxSize c \<and> map_of (ch_items c) key = None then evictOldest c else c) in
      c1\<lparr>ch_items := mput key \<lparr>en_Value = v, en_ExpiresAt = now + ttl\<rparr> (ch_items c1)\<rparr>)"

definition cache_Set :: "int \<Rightarrow> string \<Rightarrow> 'v \<Rightarrow> 'v Cache \<Rightarrow> 'v Cache" where
  "cache_Set now key v c = SetWithTTL now key v (ch_defaultTTL c) c"

definition cache_Delete :: "string \<Rightarrow> 'v Cache \<Rightarrow> 'v Cache" where
  "cache_Delete key c = c\<lparr>ch_items := mdel key (ch_items c)\<rparr>"

definition InvalidatePrefix :: "string \<Rightarrow> 'v Cache \<Rightarrow> 'v Cache" where
  "InvalidatePrefix prefix c = c\<lparr>ch_items := filter (\<lambda>(k, e). take (length prefix) k \<noteq> prefix) (ch_items c)\<rparr>"

definition cache_Clear :: "'v Cache \<Rightarrow> 'v Cache" where
  "cache_Clear c = c\<lparr>ch_items := []\<rparr>"

definition cache_Size :: "'v Cache \<Rightarrow> int" where
  "cache_Size c = int (length (ch_items c))"

definition Stats :: "'v Cache \<Rightarrow> int \<times> int \<times> rat" where
  "Stats c = (int (length (ch_items c)), ch_maxSize c, 0)"

subsection \<open>The bound and the eviction\<close>

text \<open>Keys are not empty, a Go map has each key once.\<close>

definition items_ok :: "(string \<times> 'v Entry) list \<Rightarrow> bool" where
  "items_ok m \<longleftrightarrow> is_map m \<and> '''' \<notin> set (keys m)"

lemma find_oldest_kept:
  assumes "k \<noteq> ''''" "'''' \<notin> fst ` set es"
  shows "\<exists>t'. (find_oldest es k t, t') \<in> insert (k, t) ((\<lambda>(j, e). (j, en_ExpiresAt e)) ` set es)
    \<and> t' \<le> t \<and> (\<forall>(j, e) \<in> set es. t' \<le> en_ExpiresAt e)"
  using assms
proof (induction es arbitrary: k t)
  case (Cons p es)
  obtain j e where p: "p = (j, e)" by (cases p)
  have j: "j \<noteq> ''''" and es: "'''' \<notin> fst ` set es" using Cons.prems p by auto
  show ?case
  proof (cases "en_ExpiresAt e < t")
    case True
    obtain t' where "(find_oldest es j (en_ExpiresAt e), t') \<in> insert (j, en_ExpiresAt e) ((\<lambda>(j, e). (j, en_ExpiresAt e)) ` set es)"
      "t' \<le> en_ExpiresAt e" "\<forall>(j, e) \<in> set es. t' \<le> en_ExpiresAt e" using Cons.IH[OF j es] by blast
    with True show ?thesis by (intro exI[of _ t']) (simp add: p)
  next
    case False
    obtain t' where "(find_oldest es k t, t') \<in> insert (k, t) ((\<lambda>(j, e). (j, en_ExpiresAt e)) ` set es)"
      "t' \<le> t" "\<forall>(j, e) \<in> set es. t' \<le> en_ExpiresAt e" using Cons.IH[OF Cons.prems(1) es] by blast
    with False Cons.prems(1) show ?thesis by (intro exI[of _ t']) (auto simp: p)
  qed
qed simp

lemma find_oldest_min:
  assumes "items_ok m" "m \<noteq> []"
  shows "\<exists>e. map_of m (find_oldest m '''' 0) = Some e \<and> find_oldest m '''' 0 \<noteq> ''''
    \<and> (\<forall>k e'. map_of m k = Some e' \<longrightarrow> en_ExpiresAt e \<le> en_ExpiresAt e')"
proof -
  obtain j f es where m: "m = (j, f) # es" using assms(2) by (cases m) auto
  have "j \<noteq> ''''" "'''' \<notin> fst ` set es" using assms(1) m by (auto simp: items_ok_def keys_def)
  from find_oldest_kept[OF this, of "en_ExpiresAt f"] obtain t' where
    t: "(find_oldest es j (en_ExpiresAt f), t') \<in> insert (j, en_ExpiresAt f) ((\<lambda>(j, e). (j, en_ExpiresAt e)) ` set es)"
    "t' \<le> en_ExpiresAt f" "\<forall>(j, e) \<in> set es. t' \<le> en_ExpiresAt e" by blast
  have r: "find_oldest m '''' 0 = find_oldest es j (en_ExpiresAt f)" by (simp add: m)
  obtain e where e: "(find_oldest m '''' 0, e) \<in> set m" "en_ExpiresAt e = t'"
    using t(1) unfolding r by (auto simp: m)
  have "map_of m (find_oldest m '''' 0) = Some e" using e(1) assms(1) by (simp add: items_ok_def is_map_in_set)
  moreover have "find_oldest m '''' 0 \<noteq> ''''" using e(1) assms(1) by (force simp: items_ok_def keys_def)
  moreover have "en_ExpiresAt e \<le> en_ExpiresAt e'" if "map_of m k = Some e'" for k e'
    using map_of_SomeD[OF that] t(2,3) e(2) by (auto simp: m)
  ultimately show ?thesis by blast
qed

lemma evictOldest_ok:
  assumes "items_ok (ch_items c)" "ch_items c \<noteq> []"
  shows "items_ok (ch_items (evictOldest c)) \<and> length (ch_items (evictOldest c)) = length (ch_items c) - 1
    \<and> ch_maxSize (evictOldest c) = ch_maxSize c"
proof -
  from find_oldest_min[OF assms] have "find_oldest (ch_items c) '''' 0 \<noteq> ''''"
    "map_of (ch_items c) (find_oldest (ch_items c) '''' 0) \<noteq> None" by auto
  then show ?thesis using assms(1)
    by (auto simp: evictOldest_def Let_def items_ok_def mdel_length in_keys_iff)
qed

text \<open>Any sequence of operations, with the map ranged over in any order.\<close>

inductive cache_built :: "int \<Rightarrow> 'v Cache \<Rightarrow> bool" for n where
  "cache_built n (New_cache n ttl)"
| "cache_built n c \<Longrightarrow> key \<noteq> '''' \<Longrightarrow> cache_built n (SetWithTTL now key v ttl c)"
| "cache_built n c \<Longrightarrow> cache_built n (cache_Delete key c)"
| "cache_built n c \<Longrightarrow> cache_built n (InvalidatePrefix p c)"
| "cache_built n c \<Longrightarrow> cache_built n (cache_Clear c)"
| "cache_built n c \<Longrightarrow> mset m = mset (ch_items c) \<Longrightarrow> cache_built n (c\<lparr>ch_items := m\<rparr>)"

definition cache_ok :: "int \<Rightarrow> 'v Cache \<Rightarrow> bool" where
  "cache_ok n c \<longleftrightarrow> items_ok (ch_items c) \<and> ch_maxSize c = n \<and> int (length (ch_items c)) \<le> max 1 n"

lemma items_ok_mset: "mset m = mset m' \<Longrightarrow> items_ok m \<Longrightarrow> items_ok m'"
  by (auto simp: items_ok_def is_map_def keys_def mset_eq_imp_distinct_iff[of "map fst m" "map fst m'"]
      mset_map dest: mset_eq_setD)

lemma SetWithTTL_ok:
  assumes "cache_ok n c" "key \<noteq> ''''"
  shows "cache_ok n (SetWithTTL now key v ttl c)"
proof (cases "int (length (ch_items c)) \<ge> ch_maxSize c \<and> map_of (ch_items c) key = None")
  case full: True
  show ?thesis
  proof (cases "ch_items c = []")
    case True
    then show ?thesis using assms
      by (auto simp: cache_ok_def SetWithTTL_def evictOldest_def items_ok_def in_keys_iff Let_def)
  next
    case False
    then have e: "items_ok (ch_items (evictOldest c))" "length (ch_items (evictOldest c)) = length (ch_items c) - 1"
      "ch_maxSize (evictOldest c) = n" using evictOldest_ok[of c] assms(1) by (auto simp: cache_ok_def)
    have "length (ch_items c) > 0" using False by simp
    have "map_of (ch_items (evictOldest c)) key = None"
      using full by (auto simp: evictOldest_def Let_def)
    moreover have "SetWithTTL now key v ttl c = (evictOldest c)\<lparr>ch_items :=
      mput key \<lparr>en_Value = v, en_ExpiresAt = now + ttl\<rparr> (ch_items (evictOldest c))\<rparr>"
      using full by (simp add: SetWithTTL_def Let_def)
    ultimately show ?thesis using e \<open>length (ch_items c) > 0\<close> assms
      by (simp add: cache_ok_def items_ok_def mput_length in_keys_iff)
  qed
next
  case False
  then have "SetWithTTL now key v ttl c = c\<lparr>ch_items :=
      mput key \<lparr>en_Value = v, en_ExpiresAt = now + ttl\<rparr> (ch_items c)\<rparr>" by (auto simp: SetWithTTL_def Let_def)
  with False show ?thesis using assms
    by (auto simp: cache_ok_def items_ok_def mput_length in_keys_iff)
qed

lemma built_cache_ok: "cache_built n c \<Longrightarrow> cache_ok n c"
proof (induction rule: cache_built.induct)
  case (2 c key now v ttl)
  then show ?case by (simp add: SetWithTTL_ok)
next
  case (3 c key)
  then show ?case using length_delete_le[of key "ch_items c"]
    by (auto simp: cache_ok_def cache_Delete_def items_ok_def in_keys_iff)
next
  case (4 c p)
  let ?f = "filter (\<lambda>(k, e). take (length p) k \<noteq> p) (ch_items c)"
  have "int (length ?f) \<le> int (length (ch_items c))" by simp
  moreover have "int (length (ch_items c)) \<le> max 1 n" using 4 by (simp add: cache_ok_def)
  ultimately have "int (length ?f) \<le> max 1 n" by (rule order_trans)
  moreover have "items_ok ?f" using 4
    by (auto simp: cache_ok_def items_ok_def is_map_def keys_def distinct_map_filter)
  ultimately show ?case using 4 by (simp add: cache_ok_def InvalidatePrefix_def)
next
  case (6 c m)
  then show ?case by (auto simp: cache_ok_def dest: mset_eq_length intro: items_ok_mset[of "ch_items c" m])
qed (auto simp: cache_ok_def New_cache_def cache_Clear_def items_ok_def keys_def)

text \<open>C36: a cache used with non-empty keys never holds more than its maximal size (one entry when that is
  not positive); what was set is found until it expires; a new key in a full cache evicts exactly one
  other entry, and otherwise, as for a key already there, all the other entries stay as they were.\<close>

theorem cache_evicts:
  assumes "cache_built n c" "key \<noteq> ''''" "ch_items c \<noteq> []"
  shows "int (length (ch_items (SetWithTTL now key v ttl c))) \<le> max 1 n
    \<and> (t \<le> now + ttl \<longrightarrow> cache_Get t key (SetWithTTL now key v ttl c) = Some v)
    \<and> (if n \<le> int (length (ch_items c)) \<and> map_of (ch_items c) key = None
       then \<exists>old. map_of (ch_items c) old \<noteq> None
         \<and> (\<forall>k. k \<noteq> key \<longrightarrow> map_of (ch_items (SetWithTTL now key v ttl c)) k = (if k = old then None else map_of (ch_items c) k))
       else \<forall>k. k \<noteq> key \<longrightarrow> map_of (ch_items (SetWithTTL now key v ttl c)) k = map_of (ch_items c) k)"
proof -
  have ok: "cache_ok n c" using built_cache_ok[OF assms(1)] .
  have b: "int (length (ch_items (SetWithTTL now key v ttl c))) \<le> max 1 n"
    using SetWithTTL_ok[OF ok assms(2), of now v ttl] by (simp add: cache_ok_def)
  have g: "t \<le> now + ttl \<Longrightarrow> cache_Get t key (SetWithTTL now key v ttl c) = Some v"
    by (simp add: cache_Get_def SetWithTTL_def Let_def)
  from ok have n: "ch_maxSize c = n" and io: "items_ok (ch_items c)" by (auto simp: cache_ok_def)
  obtain e where e: "map_of (ch_items c) (find_oldest (ch_items c) '''' 0) = Some e" "find_oldest (ch_items c) '''' 0 \<noteq> ''''"
    using find_oldest_min[OF io assms(3)] by blast
  show ?thesis
  proof (cases "n \<le> int (length (ch_items c)) \<and> map_of (ch_items c) key = None")
    case True
    then have "map_of (ch_items (SetWithTTL now key v ttl c)) k
      = (if k = find_oldest (ch_items c) '''' 0 then None else map_of (ch_items c) k)" if "k \<noteq> key" for k
      using that e(2) by (simp add: SetWithTTL_def evictOldest_def Let_def n)
    then show ?thesis using True b g e(1) by auto
  next
    case False
    then have "map_of (ch_items (SetWithTTL now key v ttl c)) k = map_of (ch_items c) k" if "k \<noteq> key" for k
      using that by (auto simp: SetWithTTL_def Let_def n)
    then show ?thesis using False b g by auto
  qed
qed

theorem cache_evicts_witness:
  "map_of (ch_items (SetWithTTL 5 ''b'' (2::int) 10 (SetWithTTL 0 ''a'' 1 10 (New_cache 1 10)))) ''a'' = None"
proof -
  have b: "cache_built 1 (SetWithTTL 0 ''a'' (1::int) 10 (New_cache 1 10))" by (intro cache_built.intros) simp_all
  have c: "ch_items (SetWithTTL 0 ''a'' (1::int) 10 (New_cache 1 10)) = [(''a'', \<lparr>en_Value = 1, en_ExpiresAt = 10\<rparr>)]"
    by code_simp
  from cache_evicts[OF b, of "''b''" 5 2 10 0] show ?thesis unfolding c by (auto split: if_splits)
qed

text \<open>The entry that is evicted is one of those that expire first, read or not: the cache is documented as
  an LRU cache.\<close>

theorem evicts_first_to_expire:
  assumes "cache_built n c" "map_of (ch_items c) k = Some e" "map_of (ch_items (evictOldest c)) k = None"
  shows "list_all (\<lambda>(j, e'). en_ExpiresAt e \<le> en_ExpiresAt e') (ch_items c)"
proof -
  have io: "items_ok (ch_items c)" using built_cache_ok[OF assms(1)] by (simp add: cache_ok_def)
  have "ch_items c \<noteq> []" using assms(2) by auto
  from find_oldest_min[OF io this] obtain e0 where e0: "map_of (ch_items c) (find_oldest (ch_items c) '''' 0) = Some e0"
    "\<And>j e'. map_of (ch_items c) j = Some e' \<Longrightarrow> en_ExpiresAt e0 \<le> en_ExpiresAt e'" by blast
  have "k = find_oldest (ch_items c) '''' 0" using assms(2,3) by (auto simp: evictOldest_def Let_def split: if_splits)
  then have "e0 = e" using e0(1) assms(2) by simp
  then show ?thesis using e0(2) io by (auto simp: list_all_iff items_ok_def is_map_in_set)
qed

theorem evicts_first_to_expire_witness:
  "list_all (\<lambda>(j, e'). 10 \<le> en_ExpiresAt e') (ch_items (SetWithTTL 5 ''b'' 2 10 (SetWithTTL 0 ''a'' (1::int) 10 (New_cache 2 10))))"
proof -
  let ?c = "SetWithTTL 5 ''b'' 2 10 (SetWithTTL 0 ''a'' (1::int) 10 (New_cache 2 10))"
  have "cache_built 2 ?c" by (intro cache_built.intros) simp_all
  moreover have "map_of (ch_items ?c) ''a'' = Some \<lparr>en_Value = 1, en_ExpiresAt = 10\<rparr>" "map_of (ch_items (evictOldest ?c)) ''a'' = None"
    by code_simp+
  ultimately show ?thesis using evicts_first_to_expire[of 2 ?c "''a''"] by fastforce
qed

text \<open>The empty key is the marker of the loop for no key yet: an entry under it is never evicted alone.\<close>

theorem empty_key_overflows:
  "length (ch_items (SetWithTTL 1 ''a'' (2::int) 10 (SetWithTTL 0 '''' 1 10 (New_cache 1 10)))) = 2"
  by code_simp

end
