(* ===== verification/Advisor.thy ===== *)
theory Advisor
  imports Solver Mfg_Engine "HOL-Library.Word"
begin

text \<open>
  \<open>internal/engine/advisor/advisor.go\<close>: the advisor looks for configurations near a blocked one that
  pass the norms and fit a stock sheet, and writes them, with the guides of the rules, into the issues of
  a validation result. \<open>math.Atan\<close> and \<open>math.Tan\<close> are parameters, and so are the natural language texts
  (\<open>advice_texts\<close>). The set of the identifiers already offered is a list of strings.
\<close>

definition MFG_SHEET :: RuleCode where "MFG_SHEET = ''MFG-SHEET''"

definition MaxSuggestions :: nat where "MaxSuggestions = 4"

record Input =
  in_Flight :: string
  in_HeightMm :: f64
  in_TargetStepMm :: f64
  in_ComfortMm :: f64
  in_LowerStepCount :: int
  in_TurnKind :: string
  in_WinderCount :: int
  in_LandingMm :: f64
  in_WidthMm :: f64
  in_OuterRadiusMm :: f64
  in_ClearanceMm :: f64
  in_RailingMm :: f64
  in_StringerThickMm :: f64
  in_StepThicknessMm :: f64
  in_Material :: string

record advice_texts =
  av_SheetMessage :: string
  av_SheetParam :: string
  av_SheetGuide :: "f64 \<times> f64 \<Rightarrow> int \<Rightarrow> f64 \<Rightarrow> f64 \<Rightarrow> f64 \<Rightarrow> string"
  av_SpiralMessage :: string
  av_SpiralParam :: string
  av_SpiralGuide :: "f64 \<Rightarrow> string"

subsection \<open>Arithmetic of the package\<close>

text \<open>\<open>int\<close> arithmetic wraps; \<open>math.Max\<close> and \<open>math.Min\<close> on values without a signed zero.\<close>

definition wrap_int :: "int \<Rightarrow> int" where
  "wrap_int n = sint (word_of_int n :: 64 word)"

definition fmax :: "f64 \<Rightarrow> f64 \<Rightarrow> f64" where
  "fmax x y = (if x = Inf False \<or> y = Inf False then Inf False
     else if isNaN x \<or> isNaN y then NaN else if x > y then x else y)"

definition fmin :: "f64 \<Rightarrow> f64 \<Rightarrow> f64" where
  "fmin x y = (if x = Inf True \<or> y = Inf True then Inf True
     else if isNaN x \<or> isNaN y then NaN else if x < y then x else y)"

definition fceil :: "f64 \<Rightarrow> f64" where
  "fceil x = - ffloor (- x)"

definition mathMax :: "int \<Rightarrow> int \<Rightarrow> int" where
  "mathMax a b = (if a > b then a else b)"

definition mathMax3f :: "f64 \<Rightarrow> f64 \<Rightarrow> f64 \<Rightarrow> f64" where
  "mathMax3f a b c = fmax a (fmax b c)"

definition mathMin3f :: "f64 \<Rightarrow> f64 \<Rightarrow> f64 \<Rightarrow> f64" where
  "mathMin3f a b c = fmin a (fmin b c)"

definition clampF :: "f64 \<Rightarrow> f64 \<Rightarrow> f64 \<Rightarrow> f64" where
  "clampF v lo hi = (if v < lo then lo else if v > hi then hi else v)"

definition spreadInts :: "int \<Rightarrow> int \<Rightarrow> int \<Rightarrow> int list" where
  "spreadInts start end1 k =
     (if end1 < start then []
      else let n = wrap_int (end1 - start + 1) in
        if n \<le> k then [start..end1]
        else let step = of_int64 (n - 1) / of_int64 (k - 1) in
          map (\<lambda>i. wrap_int (start + to_int64 (fround (of_int64 i * step)))) [0..k - 1])"

definition push_candidate :: "(int \<Rightarrow> bool) \<Rightarrow> int \<Rightarrow> int list \<Rightarrow> int list" where
  "push_candidate bad v xs = (if bad v \<or> v \<in> set xs then xs else xs @ [v])"

definition lowerCandidates :: "Input \<Rightarrow> int \<Rightarrow> int list" where
  "lowerCandidates inp n =
     (let orig = (if in_LowerStepCount inp < 1 \<or> in_LowerStepCount inp > n - 1
          then let o1 = to_int64 (fround (of_int64 n / Fin 2)) in if o1 < 1 then 1 else o1
          else in_LowerStepCount inp) in
      fold (push_candidate (\<lambda>v. v < 1 \<or> v > n - 1)) [orig, orig - 1, orig + 1, orig - 2, orig + 2] [])"

definition winderCandidates :: "Input \<Rightarrow> int \<Rightarrow> int \<Rightarrow> int list" where
  "winderCandidates inp n n1 =
     (let orig = (if in_WinderCount inp < 3 then 3 else in_WinderCount inp) in
      fold (push_candidate (\<lambda>v. v < 3 \<or> wrap_int (n - n1 - v) < 1))
        (map wrap_int [orig, orig + 1, orig - 1, orig + 2, orig - 2]) [])"

definition add_width :: "f64 \<Rightarrow> f64 \<Rightarrow> f64 \<Rightarrow> f64 list \<Rightarrow> f64 list" where
  "add_width wMin wMax v0 xs =
     (let v = fround (v0 / Fin 50) * Fin 50 in
      if v < wMin \<or> v > wMax \<or> list_ex (feq v) xs then xs else xs @ [v])"

definition spiralWidthCandidates :: "f64 \<Rightarrow> f64 \<Rightarrow> f64 \<Rightarrow> f64 list" where
  "spiralWidthCandidates cur wMin wMax =
     fold (add_width wMin wMax)
       [cur, (wMin + wMax) / Fin 2, Fin 1200, Fin 1100, Fin 1000, Fin 900, Fin 800, Fin 700] []"

subsection \<open>The tests on a candidate\<close>

definition StringerExtent :: "f64 \<Rightarrow> f64 \<Rightarrow> f64" where
  "StringerExtent heightMm stepThMm = heightMm - stepThMm"

definition advisorMaterial :: "Input \<Rightarrow> (engine_error, string) result" where
  "advisorMaterial inp =
     (if in_Material inp \<noteq> [] then
        (case DefaultMaterialRegistry of
           Inl e \<Rightarrow> Inl (CatalogError e)
         | Inr reg \<Rightarrow>
             (case reg_Find (Some reg) (in_Material inp) of
                Some _ \<Rightarrow> Inr (in_Material inp)
              | None \<Rightarrow> DefaultMaterialForThickness (in_StringerThickMm inp)))
      else DefaultMaterialForThickness (in_StringerThickMm inp))"

definition manufactureFeasible :: "Input \<Rightarrow> (f64 \<times> f64) list \<Rightarrow> bool" where
  "manufactureFeasible inp rects =
     (if in_Flight inp = FlightSpiral then True
      else case advisorMaterial inp of
          Inl _ \<Rightarrow> True
        | Inr material \<Rightarrow>
            (case DefaultStockSheetRegistry of
               Inl _ \<Rightarrow> False
             | Inr sheets \<Rightarrow> SheetFeasible (Some sheets) material DefaultKerf rects))"

definition passes :: "Input \<Rightarrow> ConstraintSet \<Rightarrow> int \<Rightarrow> Length \<Rightarrow> Length \<Rightarrow> Angle \<Rightarrow> bool" where
  "passes inp cset stepCount sh b angle =
     (\<not> rs_Blocking (Validate (zero_config\<lparr>cf_StepCount := stepCount, cf_StepHeight := sh, cf_TreadDepth := b,
        cf_Angle := angle, cf_Clearance := in_ClearanceMm inp, cf_StringerThickness := in_StringerThickMm inp,
        cf_RailingHeight := in_RailingMm inp\<rparr>) cset))"

fun largestRect :: "(f64 \<times> f64) list \<Rightarrow> f64 \<times> f64" where
  "largestRect (r # rs) = fold (\<lambda>x best. if fst x * snd x > fst best * snd best then x else best) rs r"

subsection \<open>The search\<close>

record search_state =
  ss_out :: "Suggestion list"
  ss_seen :: "string list"
  ss_anyPass :: bool
  ss_firstPass :: bool
  ss_worst :: "f64 \<times> f64"

definition start_state :: search_state where
  "start_state = \<lparr>ss_out = [], ss_seen = [], ss_anyPass = False, ss_firstPass = False, ss_worst = (0, 0)\<rparr>"

definition offer :: "string \<Rightarrow> Suggestion \<Rightarrow> search_state \<Rightarrow> search_state" where
  "offer i it st = (if i \<in> set (ss_seen st) then st
     else st\<lparr>ss_seen := ss_seen st @ [i], ss_out := ss_out st @ [it]\<rparr>)"

text \<open>What the three loop bodies do with a candidate that passes the norms.\<close>

definition note_passing :: "Input \<Rightarrow> (f64 \<times> f64) list \<Rightarrow> string \<Rightarrow> Suggestion \<Rightarrow> search_state \<Rightarrow> search_state" where
  "note_passing inp rects i it st =
     (let st1 = st\<lparr>ss_anyPass := True\<rparr>;
          st2 = (if \<not> ss_firstPass st1 then st1\<lparr>ss_worst := largestRect rects, ss_firstPass := True\<rparr> else st1) in
      if \<not> manufactureFeasible inp rects then st2 else offer i it st2)"

definition suggestion_id :: "Input \<Rightarrow> Suggestion \<Rightarrow> string" where
  "suggestion_id inp s =
     (if in_Flight inp = FlightStraight \<or> in_Flight inp = FlightSpiral then ''s'' @ Itoa (sg_StepCount s)
      else ''s'' @ Itoa (sg_StepCount s) @ ''-'' @ Itoa (sg_LowerStepCount s))"

text \<open>The composite literals of the code, and the rectangles of the stringers.\<close>

definition straight_suggestion :: "FlightResult \<Rightarrow> Suggestion" where
  "straight_suggestion res = \<lparr>sg_StepCount = fr_StepCount res, sg_LowerStepCount = 0, sg_WinderCount = 0,
     sg_StepHeightMm = fr_StepHeight res, sg_TreadDepthMm = fr_TreadDepth res, sg_AngleDeg = Degrees (fr_Angle res),
     sg_OuterRadiusMm = 0, sg_WidthMm = 0\<rparr>"

definition straight_rects :: "Input \<Rightarrow> FlightResult \<Rightarrow> (f64 \<times> f64) list" where
  "straight_rects inp res = [(fr_Run res, StringerExtent (in_HeightMm inp) (in_StepThicknessMm inp))]"

definition two_flight_suggestion :: "LShapeResult \<Rightarrow> Suggestion" where
  "two_flight_suggestion res = \<lparr>sg_StepCount = ls_StepCount res, sg_LowerStepCount = ls_LowerStepCount res,
     sg_WinderCount = 0, sg_StepHeightMm = ls_StepHeight res, sg_TreadDepthMm = ls_TreadDepth res,
     sg_AngleDeg = Degrees (ls_Angle res), sg_OuterRadiusMm = 0, sg_WidthMm = 0\<rparr>"

definition two_flight_rects :: "Input \<Rightarrow> LShapeResult \<Rightarrow> (f64 \<times> f64) list" where
  "two_flight_rects inp res =
     [(ls_LowerRun res, StringerExtent (ls_LowerHeight res) (in_StepThicknessMm inp)),
      (ls_UpperRun res, StringerExtent (ls_UpperHeight res) (in_StepThicknessMm inp))]"

definition winder_suggestion :: "UShapeResult \<Rightarrow> Suggestion" where
  "winder_suggestion res = \<lparr>sg_StepCount = us_StepCount res, sg_LowerStepCount = us_LowerStepCount res,
     sg_WinderCount = us_WinderCount res, sg_StepHeightMm = us_StepHeight res,
     sg_TreadDepthMm = us_TreadDepth res, sg_AngleDeg = Degrees (us_Angle res), sg_OuterRadiusMm = 0, sg_WidthMm = 0\<rparr>"

definition winder_rects :: "Input \<Rightarrow> UShapeResult \<Rightarrow> (f64 \<times> f64) list" where
  "winder_rects inp res =
     [(us_LowerRun res, StringerExtent (us_LowerHeight res) (in_StepThicknessMm inp)),
      (us_UpperRun res, StringerExtent (us_UpperHeight res) (in_StepThicknessMm inp))]"

definition winder_id :: "Suggestion \<Rightarrow> string" where
  "winder_id s = ''s'' @ Itoa (sg_StepCount s) @ ''-'' @ Itoa (sg_LowerStepCount s) @ ''-w'' @ Itoa (sg_WinderCount s)"

definition try_winder :: "(f64 \<Rightarrow> f64) \<Rightarrow> Input \<Rightarrow> ConstraintSet \<Rightarrow> Length \<Rightarrow> int \<Rightarrow> int \<Rightarrow> search_state \<Rightarrow> search_state" where
  "try_winder atn inp cset target n1 nw st =
     (case SolveUShapeWinder atn (in_HeightMm inp) target n1 nw (in_LandingMm inp) (Some (in_ComfortMm inp)) of
        Inl _ \<Rightarrow> st
      | Inr res \<Rightarrow>
          if \<not> passes inp cset (us_StepCount res) (us_StepHeight res) (us_TreadDepth res) (us_Angle res) then st
          else note_passing inp (winder_rects inp res) (winder_id (winder_suggestion res)) (winder_suggestion res) st)"

definition try_two_flight :: "(f64 \<Rightarrow> f64) \<Rightarrow> Input \<Rightarrow> ConstraintSet \<Rightarrow> Length \<Rightarrow> int \<Rightarrow> search_state \<Rightarrow> search_state" where
  "try_two_flight atn inp cset target n1 st =
     (case SolveLShape atn (in_HeightMm inp) target n1 (in_LandingMm inp) (Some (in_ComfortMm inp)) of
        Inl _ \<Rightarrow> st
      | Inr res \<Rightarrow>
          if \<not> passes inp cset (ls_StepCount res) (ls_StepHeight res) (ls_TreadDepth res) (ls_Angle res) then st
          else note_passing inp (two_flight_rects inp res)
            (suggestion_id inp (two_flight_suggestion res)) (two_flight_suggestion res) st)"

definition try_straight :: "(f64 \<Rightarrow> f64) \<Rightarrow> Input \<Rightarrow> ConstraintSet \<Rightarrow> Length \<Rightarrow> search_state \<Rightarrow> search_state" where
  "try_straight atn inp cset target st =
     (case Solve atn (in_HeightMm inp) target (Some (in_ComfortMm inp)) of
        Inl _ \<Rightarrow> st
      | Inr res \<Rightarrow>
          if \<not> passes inp cset (fr_StepCount res) (fr_StepHeight res) (fr_TreadDepth res) (fr_Angle res) then st
          else note_passing inp (straight_rects inp res)
            (suggestion_id inp (straight_suggestion res)) (straight_suggestion res) st)"

text \<open>The loop of \<open>geometry\<close> over the step counts; the inner loops have no break.\<close>

fun step_loop :: "(f64 \<Rightarrow> f64) \<Rightarrow> Input \<Rightarrow> ConstraintSet \<Rightarrow> int list \<Rightarrow> search_state \<Rightarrow> search_state" where
  "step_loop atn inp cset [] st = st"
| "step_loop atn inp cset (n # ns) st =
     (if length (ss_out st) \<ge> MaxSuggestions then st
      else let target = in_HeightMm inp / of_int64 n in
        if in_Flight inp = FlightUShape \<and> in_TurnKind inp = TurnWinder then
          (if in_LandingMm inp \<le> 0 then st
           else step_loop atn inp cset ns
             (fold (\<lambda>n1. fold (try_winder atn inp cset target n1) (winderCandidates inp n n1)) (lowerCandidates inp n) st))
        else if in_Flight inp = FlightLShape \<or> in_Flight inp = FlightUShape then
          (if in_LandingMm inp \<le> 0 then st
           else step_loop atn inp cset ns (fold (try_two_flight atn inp cset target) (lowerCandidates inp n) st))
        else step_loop atn inp cset ns (try_straight atn inp cset target st))"

subsection \<open>Spirals\<close>

text \<open>\<open>math.Pi/3\<close> is a constant, rounded once.\<close>

definition ThirdOfPi :: f64 where
  "ThirdOfPi = Fin (2358079250676147 / 2251799813685248)"

definition spiral_suggestion :: "f64 \<Rightarrow> SpiralResult \<Rightarrow> Suggestion" where
  "spiral_suggestion w res = \<lparr>sg_StepCount = sr_StepCount res, sg_LowerStepCount = 0, sg_WinderCount = 0,
     sg_StepHeightMm = sr_StepHeight res, sg_TreadDepthMm = sr_WalkTread res, sg_AngleDeg = Degrees (sr_Angle res),
     sg_OuterRadiusMm = sr_OuterRadius res, sg_WidthMm = w\<rparr>"

definition spiral_id :: "Suggestion \<Rightarrow> string" where
  "spiral_id s = ''s'' @ Itoa (sg_StepCount s) @ ''-r'' @ fmt_f 0 (sg_OuterRadiusMm s) @ ''-w'' @ fmt_f 0 (sg_WidthMm s)"

definition try_spiral :: "(f64 \<Rightarrow> f64) \<Rightarrow> Input \<Rightarrow> ConstraintSet \<Rightarrow> f64 \<Rightarrow> f64 \<Rightarrow> f64 \<Rightarrow> f64 \<Rightarrow> f64 \<Rightarrow> search_state \<Rightarrow> search_state" where
  "try_spiral atn inp cset h delta blow bhigh w st =
     (let bLo = mathMax3f blow (Fin 100 + fl (2 / 3) * w * delta) (Fin 250 - delta * w / Fin 3) in
      if bLo > bhigh then st
      else let target = (in_OuterRadiusMm inp - w / Fin 3) * delta;
               bWalk = clampF target bLo bhigh; R = bWalk / delta + w / Fin 3 in
        if R \<le> w then st
        else case SolveSpiral atn (in_HeightMm inp) h w R of
            Inl _ \<Rightarrow> st
          | Inr res \<Rightarrow>
              if \<not> passes inp cset (sr_StepCount res) (sr_StepHeight res) (sr_WalkTread res) (sr_Angle res) then st
              else offer (spiral_id (spiral_suggestion w res)) (spiral_suggestion w res) (st\<lparr>ss_anyPass := True\<rparr>))"

text \<open>The inner loop ends when the list is full, which only a new offer can bring about.\<close>

fun width_loop :: "(f64 \<Rightarrow> f64) \<Rightarrow> Input \<Rightarrow> ConstraintSet \<Rightarrow> f64 \<Rightarrow> f64 \<Rightarrow> f64 \<Rightarrow> f64 \<Rightarrow> f64 list \<Rightarrow> search_state \<Rightarrow> search_state" where
  "width_loop atn inp cset h delta blow bhigh [] st = st"
| "width_loop atn inp cset h delta blow bhigh (w # ws) st =
     (let st1 = try_spiral atn inp cset h delta blow bhigh w st in
      if length (ss_out st1) \<ge> MaxSuggestions then st1 else width_loop atn inp cset h delta blow bhigh ws st1)"

fun spiral_loop :: "(f64 \<Rightarrow> f64) \<Rightarrow> (f64 \<Rightarrow> f64) \<Rightarrow> Input \<Rightarrow> ConstraintSet \<Rightarrow> int list \<Rightarrow> search_state \<Rightarrow> search_state" where
  "spiral_loop atn tn inp cset [] st = st"
| "spiral_loop atn tn inp cset (n # ns) st =
     (if length (ss_out st) \<ge> MaxSuggestions then st
      else let h = in_HeightMm inp / of_int64 n; delta = FullTurnRadians / of_int64 n;
               blow = mathMax3f (Fin 260) (Fin 600 - Fin 2 * h) h;
               bhigh = mathMin3f (Fin 320) (Fin 640 - Fin 2 * h) (h * tn ThirdOfPi) in
        if blow > bhigh then spiral_loop atn tn inp cset ns st
        else let wMin = mathMax3f (Fin 1) (Fin 3 * (Fin 250 - blow) / delta) (Fin 0);
                 wMax = mathMin3f (Fin 3 * (bhigh - Fin 100) / (Fin 2 * delta)) (Fin 3 * bhigh / (Fin 2 * delta)) (Fin 2000) in
          if wMin > wMax then spiral_loop atn tn inp cset ns st
          else spiral_loop atn tn inp cset ns
            (width_loop atn inp cset h delta blow bhigh (spiralWidthCandidates (in_WidthMm inp) wMin wMax) st))"

text \<open>The three results: the suggestions, infeasible, worst.\<close>

definition search_answer :: "search_state \<Rightarrow> Suggestion list \<times> bool \<times> (f64 \<times> f64)" where
  "search_answer st = (ss_out st, ss_anyPass st \<and> ss_out st = [], ss_worst st)"

definition spiralGeometry :: "(f64 \<Rightarrow> f64) \<Rightarrow> (f64 \<Rightarrow> f64) \<Rightarrow> Input \<Rightarrow> ConstraintSet \<Rightarrow> int \<Rightarrow> int
    \<Rightarrow> Suggestion list \<times> bool \<times> (f64 \<times> f64)" where
  "spiralGeometry atn tn inp cset nStart nEnd =
     (if in_WidthMm inp \<le> 0 \<or> in_OuterRadiusMm inp \<le> 0 then ([], False, (0, 0))
      else search_answer (spiral_loop atn tn inp cset [nStart..nEnd] start_state))"

definition geometry :: "(f64 \<Rightarrow> f64) \<Rightarrow> (f64 \<Rightarrow> f64) \<Rightarrow> Input \<Rightarrow> ConstraintSet \<Rightarrow> Suggestion list \<times> bool \<times> (f64 \<times> f64)" where
  "geometry atn tn inp cset =
     (if in_HeightMm inp \<le> 0 \<or> in_ComfortMm inp \<le> 0 then ([], False, (0, 0))
      else case cs_Active cset GEO_STEP_HEIGHT of
          None \<Rightarrow> ([], False, (0, 0))
        | Some rule \<Rightarrow>
            if \<not> rg_HasMin (ct_Range rule) \<or> \<not> rg_HasMax (ct_Range rule) then ([], False, (0, 0))
            else let nStart = mathMax (wrap_int (to_int64 (fceil (in_HeightMm inp / rg_Max (ct_Range rule))) - 2)) 2;
                     nEnd = wrap_int (to_int64 (ffloor (in_HeightMm inp / rg_Min (ct_Range rule))) + 2) in
              if in_Flight inp = FlightSpiral then spiralGeometry atn tn inp cset nStart nEnd
              else search_answer (step_loop atn inp cset (spreadInts nStart nEnd (int MaxSuggestions)) start_state))"

subsection \<open>\<open>Advise\<close>\<close>

definition hasIssue :: "Issue list \<Rightarrow> RuleCode \<Rightarrow> bool" where
  "hasIssue issues code = list_ex (\<lambda>it. is_Code it = code) issues"

definition new_issue :: "RuleCode \<Rightarrow> string \<Rightarrow> string \<Rightarrow> string \<Rightarrow> string \<Rightarrow> Issue" where
  "new_issue code element message param guide =
     \<lparr>is_ID = [], is_Code = code, is_Severity = SeverityError, is_Element = element, is_Message = message,
      is_Value = 0, is_Min = 0, is_Max = 0, is_HasMin = False, is_HasMax = False, is_Fix = [], is_Param = param,
      is_Guide = guide, is_Suggestions = [], is_Variations = []\<rparr>"

definition manufacturingIssue :: "advice_texts \<Rightarrow> Input \<Rightarrow> f64 \<times> f64 \<Rightarrow> Issue" where
  "manufacturingIssue tx inp worst =
     (let material = (case advisorMaterial inp of Inl _ \<Rightarrow> ''STEEL-S235'' | Inr m \<Rightarrow> m);
          (maxLen, maxWid) = (case DefaultStockSheetRegistry of
             Inl _ \<Rightarrow> (Fin 6000, Fin 3000)
           | Inr sheets \<Rightarrow> (case LargestStockSheet (Some sheets) material of
               (l, w, ok) \<Rightarrow> if ok then (l, w) else (Fin 6000, Fin 3000))) in
      new_issue MFG_SHEET ''stringer'' (av_SheetMessage tx) (av_SheetParam tx)
        (av_SheetGuide tx worst (to_int64 DefaultKerf) maxLen maxWid (in_HeightMm inp)))"

definition spiralInfeasibleIssue :: "advice_texts \<Rightarrow> Input \<Rightarrow> Issue" where
  "spiralInfeasibleIssue tx inp =
     new_issue GEO_SPIRAL_TREAD ''configuration'' (av_SpiralMessage tx) (av_SpiralParam tx) (av_SpiralGuide tx (in_HeightMm inp))"

text \<open>The body of the loop over the issues.\<close>

definition advise_issue :: "Input \<Rightarrow> ConstraintSet \<Rightarrow> Suggestion list \<Rightarrow> Issue \<Rightarrow> Issue" where
  "advise_issue inp cset suggestions it =
     (case cs_Active cset (is_Code it) of
        None \<Rightarrow> it
      | Some rule \<Rightarrow>
          (case ct_Advice rule of
             None \<Rightarrow> it
           | Some a \<Rightarrow>
               (let it1 = it\<lparr>is_Param := ad_Param a\<rparr>;
                    it2 = it1\<lparr>is_Guide := RenderGuide (ad_Guide a) it1 (in_HeightMm inp)\<rparr> in
                if ad_Suggest a then it2\<lparr>is_Suggestions := suggestions\<rparr> else it2)))"

definition Advise :: "(f64 \<Rightarrow> f64) \<Rightarrow> (f64 \<Rightarrow> f64) \<Rightarrow> advice_texts \<Rightarrow> Input \<Rightarrow> ConstraintSet option \<Rightarrow> Result \<Rightarrow> Result" where
  "Advise atn tn tx inp cseto vr =
     (case cseto of
        None \<Rightarrow> vr
      | Some cset \<Rightarrow>
          if \<not> rs_Blocking vr then vr
          else (case geometry atn tn inp cset of (suggestions, infeasible, worst) \<Rightarrow>
            let issues = map (advise_issue inp cset suggestions) (rs_Issues vr) in
            vr\<lparr>rs_Issues := issues @ (if infeasible \<and> \<not> hasIssue issues MFG_SHEET
               then [if in_Flight inp = FlightSpiral then spiralInfeasibleIssue tx inp else manufacturingIssue tx inp worst]
               else [])\<rparr>))"

subsection \<open>What is offered\<close>

text \<open>The answer of the Solver a suggestion is made of, with the stringer rectangles and the angle.\<close>

inductive answers :: "(f64 \<Rightarrow> f64) \<Rightarrow> Input \<Rightarrow> Suggestion \<Rightarrow> (f64 \<times> f64) list \<Rightarrow> Angle \<Rightarrow> bool" for atn inp where
  "Solve atn (in_HeightMm inp) t (Some (in_ComfortMm inp)) = Inr res
   \<Longrightarrow> answers atn inp (straight_suggestion res) (straight_rects inp res) (fr_Angle res)"
| "SolveLShape atn (in_HeightMm inp) t n1 (in_LandingMm inp) (Some (in_ComfortMm inp)) = Inr res
   \<Longrightarrow> answers atn inp (two_flight_suggestion res) (two_flight_rects inp res) (ls_Angle res)"
| "SolveUShapeWinder atn (in_HeightMm inp) t n1 nw (in_LandingMm inp) (Some (in_ComfortMm inp)) = Inr res
   \<Longrightarrow> answers atn inp (winder_suggestion res) (winder_rects inp res) (us_Angle res)"
| "SolveSpiral atn (in_HeightMm inp) t w R = Inr res \<Longrightarrow> in_Flight inp = FlightSpiral
   \<Longrightarrow> answers atn inp (spiral_suggestion w res) [] (sr_Angle res)"

lemma suggestion_fields [simp]:
  "sg_StepCount (straight_suggestion r) = fr_StepCount r" "sg_StepHeightMm (straight_suggestion r) = fr_StepHeight r"
  "sg_TreadDepthMm (straight_suggestion r) = fr_TreadDepth r" "sg_AngleDeg (straight_suggestion r) = Degrees (fr_Angle r)"
  "sg_StepCount (two_flight_suggestion l) = ls_StepCount l" "sg_StepHeightMm (two_flight_suggestion l) = ls_StepHeight l"
  "sg_TreadDepthMm (two_flight_suggestion l) = ls_TreadDepth l" "sg_AngleDeg (two_flight_suggestion l) = Degrees (ls_Angle l)"
  "sg_StepCount (winder_suggestion u) = us_StepCount u" "sg_StepHeightMm (winder_suggestion u) = us_StepHeight u"
  "sg_TreadDepthMm (winder_suggestion u) = us_TreadDepth u" "sg_AngleDeg (winder_suggestion u) = Degrees (us_Angle u)"
  "sg_StepCount (spiral_suggestion w s) = sr_StepCount s" "sg_StepHeightMm (spiral_suggestion w s) = sr_StepHeight s"
  "sg_TreadDepthMm (spiral_suggestion w s) = sr_WalkTread s" "sg_AngleDeg (spiral_suggestion w s) = Degrees (sr_Angle s)"
  by (simp_all add: straight_suggestion_def two_flight_suggestion_def winder_suggestion_def spiral_suggestion_def)

definition sound_offer :: "(f64 \<Rightarrow> f64) \<Rightarrow> Input \<Rightarrow> ConstraintSet \<Rightarrow> Suggestion \<Rightarrow> bool" where
  "sound_offer atn inp cset s \<longleftrightarrow> (\<exists>a rects. answers atn inp s rects a \<and> sg_AngleDeg s = Degrees a
     \<and> passes inp cset (sg_StepCount s) (sg_StepHeightMm s) (sg_TreadDepthMm s) a
     \<and> manufactureFeasible inp rects)"

lemma sound_offerI:
  assumes "answers atn inp s rects a" "manufactureFeasible inp rects"
    "passes inp cset (sg_StepCount s) (sg_StepHeightMm s) (sg_TreadDepthMm s) a"
  shows "sound_offer atn inp cset s"
proof -
  have "sg_AngleDeg s = Degrees a" using assms(1)
    by cases simp_all
  with assms show ?thesis by (auto simp: sound_offer_def)
qed

text \<open>The invariant of the search: the offers are sound, their identifiers are the ones seen, each once.\<close>

definition search_ok :: "(Suggestion \<Rightarrow> bool) \<Rightarrow> (Suggestion \<Rightarrow> string) \<Rightarrow> search_state \<Rightarrow> bool" where
  "search_ok G idf st \<longleftrightarrow> list_all G (ss_out st) \<and> ss_seen st = map idf (ss_out st) \<and> distinct (ss_seen st)"

text \<open>A step keeps the invariant and adds at most \<open>k\<close> offers.\<close>

definition adds :: "(Suggestion \<Rightarrow> bool) \<Rightarrow> (Suggestion \<Rightarrow> string) \<Rightarrow> nat \<Rightarrow> search_state \<Rightarrow> search_state \<Rightarrow> bool" where
  "adds G idf k st st' \<longleftrightarrow> (search_ok G idf st \<longrightarrow> search_ok G idf st') \<and> length (ss_out st') \<le> length (ss_out st) + k"

lemma adds_refl [simp]: "adds G idf k st st"
  by (simp add: adds_def)

lemma adds_trans: "adds G idf j st st' \<Longrightarrow> adds G idf k st' st'' \<Longrightarrow> adds G idf (j + k) st st''"
  by (simp add: adds_def)

lemma adds_fold:
  assumes "\<And>x st. x \<in> set xs \<Longrightarrow> adds G idf k st (f x st)"
  shows "adds G idf (length xs * k) st (fold f xs st)"
  using assms
proof (induction xs arbitrary: st)
  case (Cons x xs)
  then show ?case using adds_trans[of G idf k st "f x st" "length xs * k" "fold f xs (f x st)"] by simp
qed simp

lemma adds_offer: "G it \<Longrightarrow> i = idf it \<Longrightarrow> adds G idf (Suc 0) st (offer i it st)"
  by (auto simp: adds_def offer_def search_ok_def)

lemma search_ok_update [simp]:
  "search_ok G idf (st\<lparr>ss_anyPass := b\<rparr>) = search_ok G idf st"
  "search_ok G idf (st\<lparr>ss_firstPass := b\<rparr>) = search_ok G idf st"
  "search_ok G idf (st\<lparr>ss_worst := r\<rparr>) = search_ok G idf st"
  by (simp_all add: search_ok_def)

lemma adds_note:
  assumes "manufactureFeasible inp rects \<Longrightarrow> G it" "i = idf it"
  shows "adds G idf (Suc 0) st (note_passing inp rects i it st)"
proof (cases "manufactureFeasible inp rects")
  case True
  define st2 where "st2 = (let st1 = st\<lparr>ss_anyPass := True\<rparr> in
    if \<not> ss_firstPass st1 then st1\<lparr>ss_worst := largestRect rects, ss_firstPass := True\<rparr> else st1)"
  have "adds G idf 0 st st2" by (simp add: st2_def adds_def Let_def)
  from adds_trans[OF this adds_offer[of G it i idf, OF assms(1)[OF True] assms(2)]] True show ?thesis
    by (simp add: note_passing_def st2_def Let_def)
qed (simp add: note_passing_def Let_def adds_def)

lemma length_push: "length (fold (push_candidate bad) vs xs) \<le> length xs + length vs"
proof (induction vs arbitrary: xs)
  case (Cons v vs)
  have "length (push_candidate bad v xs) \<le> Suc (length xs)" by (simp add: push_candidate_def)
  with Cons[of "push_candidate bad v xs"] show ?case by simp
qed simp

lemma candidates_length:
  "length (lowerCandidates inp n) \<le> 5" "length (winderCandidates inp n n1) \<le> 5"
  by (simp_all only: lowerCandidates_def winderCandidates_def Let_def,
      (rule order_trans[OF length_push], simp)+)

definition offer_id :: "Input \<Rightarrow> Suggestion \<Rightarrow> string" where
  "offer_id inp = (if in_Flight inp = FlightSpiral then spiral_id
     else if in_Flight inp = FlightUShape \<and> in_TurnKind inp = TurnWinder then winder_id else suggestion_id inp)"

text \<open>The most offers one round of the loop can add.\<close>

definition round_max :: "Input \<Rightarrow> nat" where
  "round_max inp = (if in_Flight inp = FlightUShape \<and> in_TurnKind inp = TurnWinder then 25
     else if in_Flight inp = FlightLShape \<or> in_Flight inp = FlightUShape then 5 else 1)"

lemma try_straight_adds: "adds (sound_offer atn inp cset) (suggestion_id inp) (Suc 0) st (try_straight atn inp cset t st)"
proof (cases "Solve atn (in_HeightMm inp) t (Some (in_ComfortMm inp))")
  case (Inr res)
  note a = answers.intros(1)[OF this]
  show ?thesis using sound_offerI[OF a]
    by (auto simp: try_straight_def Inr intro!: adds_note)
qed (simp add: try_straight_def)

lemma try_two_flight_adds:
  "adds (sound_offer atn inp cset) (suggestion_id inp) (Suc 0) st (try_two_flight atn inp cset t n1 st)"
proof (cases "SolveLShape atn (in_HeightMm inp) t n1 (in_LandingMm inp) (Some (in_ComfortMm inp))")
  case (Inr res)
  note a = answers.intros(2)[OF this]
  show ?thesis using sound_offerI[OF a]
    by (auto simp: try_two_flight_def Inr intro!: adds_note)
qed (simp add: try_two_flight_def)

lemma try_winder_adds: "adds (sound_offer atn inp cset) winder_id (Suc 0) st (try_winder atn inp cset t n1 nw st)"
proof (cases "SolveUShapeWinder atn (in_HeightMm inp) t n1 nw (in_LandingMm inp) (Some (in_ComfortMm inp))")
  case (Inr res)
  note a = answers.intros(3)[OF this]
  show ?thesis using sound_offerI[OF a]
    by (auto simp: try_winder_def Inr intro!: adds_note)
qed (simp add: try_winder_def)

lemma try_spiral_adds:
  assumes "in_Flight inp = FlightSpiral"
  shows "adds (sound_offer atn inp cset) spiral_id (Suc 0) st (try_spiral atn inp cset h delta blow bhigh w st)
    \<and> (search_ok (sound_offer atn inp cset) spiral_id st \<longrightarrow> (ss_anyPass st \<longrightarrow> ss_out st \<noteq> [])
       \<longrightarrow> (ss_anyPass (try_spiral atn inp cset h delta blow bhigh w st) \<longrightarrow> ss_out (try_spiral atn inp cset h delta blow bhigh w st) \<noteq> []))"
proof -
  have "try_spiral atn inp cset h delta blow bhigh w st = st
    \<or> (\<exists>res. sound_offer atn inp cset (spiral_suggestion w res) \<and> try_spiral atn inp cset h delta blow bhigh w st
        = offer (spiral_id (spiral_suggestion w res)) (spiral_suggestion w res) (st\<lparr>ss_anyPass := True\<rparr>))"
  proof -
    have "sound_offer atn inp cset (spiral_suggestion w res)"
      if "SolveSpiral atn (in_HeightMm inp) t w R = Inr res"
        "passes inp cset (sr_StepCount res) (sr_StepHeight res) (sr_WalkTread res) (sr_Angle res)" for t R res
      using sound_offerI[OF answers.intros(4)[OF that(1) assms]] that(2) assms by (simp add: manufactureFeasible_def)
    then show ?thesis unfolding try_spiral_def Let_def by (fastforce split: sum.split)
  qed
  then show ?thesis
  proof (elim disjE exE conjE)
    fix res
    assume r: "sound_offer atn inp cset (spiral_suggestion w res)" "try_spiral atn inp cset h delta blow bhigh w st
        = offer (spiral_id (spiral_suggestion w res)) (spiral_suggestion w res) (st\<lparr>ss_anyPass := True\<rparr>)"
    have "adds (sound_offer atn inp cset) spiral_id 0 st (st\<lparr>ss_anyPass := True\<rparr>)" by (simp add: adds_def)
    from adds_trans[OF this adds_offer[where G = "sound_offer atn inp cset" and idf = spiral_id and it = "spiral_suggestion w res", OF r(1) refl]] show ?thesis
      unfolding r(2) by (auto simp: offer_def search_ok_def)
  qed simp
qed

text \<open>The loops.\<close>

definition spiral_ok :: "(f64 \<Rightarrow> f64) \<Rightarrow> Input \<Rightarrow> ConstraintSet \<Rightarrow> search_state \<Rightarrow> bool" where
  "spiral_ok atn inp cset st \<longleftrightarrow> search_ok (sound_offer atn inp cset) spiral_id st
     \<and> (ss_anyPass st \<longrightarrow> ss_out st \<noteq> []) \<and> length (ss_out st) \<le> MaxSuggestions"

lemma try_spiral_ok:
  assumes "in_Flight inp = FlightSpiral" "spiral_ok atn inp cset st" "length (ss_out st) < MaxSuggestions"
  shows "spiral_ok atn inp cset (try_spiral atn inp cset h delta blow bhigh w st)"
  using try_spiral_adds[OF assms(1), of atn cset st h delta blow bhigh w] assms(2,3)
  by (auto simp: spiral_ok_def adds_def)

lemma width_loop_ok:
  assumes "in_Flight inp = FlightSpiral" "spiral_ok atn inp cset st" "length (ss_out st) < MaxSuggestions"
  shows "spiral_ok atn inp cset (width_loop atn inp cset h delta blow bhigh ws st)"
  using assms(2,3)
proof (induction ws arbitrary: st)
  case (Cons w ws)
  have "spiral_ok atn inp cset (try_spiral atn inp cset h delta blow bhigh w st)"
    using Cons.prems by (rule try_spiral_ok[OF assms(1)])
  then show ?case using Cons.IH by (simp add: Let_def)
qed simp

lemma spiral_loop_ok:
  assumes "in_Flight inp = FlightSpiral" "spiral_ok atn inp cset st"
  shows "spiral_ok atn inp cset (spiral_loop atn tn inp cset ns st)"
  using assms(2)
proof (induction ns arbitrary: st)
  case (Cons n ns)
  have "spiral_ok atn inp cset (spiral_loop atn tn inp cset ns (width_loop atn inp cset h delta blow bhigh ws st))"
    if "length (ss_out st) < MaxSuggestions" for h delta blow bhigh ws
    using width_loop_ok[OF assms(1) Cons.prems that] by (rule Cons.IH)
  moreover have "spiral_ok atn inp cset (spiral_loop atn tn inp cset ns st)" by (rule Cons.IH[OF Cons.prems])
  ultimately show ?case using Cons.prems by (simp add: Let_def)
qed simp

lemma start_ok [simp]: "search_ok G idf start_state" "spiral_ok atn inp cset start_state"
  by (simp_all add: start_state_def search_ok_def spiral_ok_def)

lemma step_loop_adds:
  assumes "in_Flight inp \<noteq> FlightSpiral" "search_ok (sound_offer atn inp cset) (offer_id inp) st"
    "length (ss_out st) < MaxSuggestions + round_max inp"
  shows "search_ok (sound_offer atn inp cset) (offer_id inp) (step_loop atn inp cset ns st)
    \<and> length (ss_out (step_loop atn inp cset ns st)) < MaxSuggestions + round_max inp"
  using assms(2,3)
proof (induction ns arbitrary: st)
  case (Cons n ns)
  let ?t = "in_HeightMm inp / of_int64 n"
  let ?G = "sound_offer atn inp cset"
  have next_round: ?case
    if "adds ?G (offer_id inp) (round_max inp) st st'" "length (ss_out st) < MaxSuggestions"
      "step_loop atn inp cset (n # ns) st = step_loop atn inp cset ns st'" for st'
    using Cons.IH[of st'] Cons.prems that by (simp add: adds_def)
  consider "length (ss_out st) \<ge> MaxSuggestions"
    | "length (ss_out st) < MaxSuggestions" "in_Flight inp = FlightUShape \<and> in_TurnKind inp = TurnWinder"
    | "length (ss_out st) < MaxSuggestions" "\<not> (in_Flight inp = FlightUShape \<and> in_TurnKind inp = TurnWinder)"
        "in_Flight inp = FlightLShape \<or> in_Flight inp = FlightUShape"
    | "length (ss_out st) < MaxSuggestions" "\<not> (in_Flight inp = FlightLShape \<or> in_Flight inp = FlightUShape)"
    by linarith
  then show ?case
  proof cases
    case 1
    then show ?thesis using Cons.prems by simp
  next
    case 2
    let ?row = "\<lambda>n1. fold (try_winder atn inp cset ?t n1) (winderCandidates inp n n1)"
    have row: "adds ?G winder_id 5 st0 (?row n1 st0)" for n1 st0
      using adds_fold[of "winderCandidates inp n n1" ?G winder_id "Suc 0" "try_winder atn inp cset ?t n1" st0]
        try_winder_adds candidates_length(2)[of inp n n1] by (auto simp: adds_def)
    have "adds ?G winder_id 25 st (fold ?row (lowerCandidates inp n) st)"
      using adds_fold[of "lowerCandidates inp n" ?G winder_id 5 ?row st] row
        candidates_length(1)[of inp n] by (auto simp: adds_def)
    with 2 assms(1) show ?thesis using Cons.prems next_round[of "fold ?row (lowerCandidates inp n) st"]
      by (cases "in_LandingMm inp \<le> 0") (auto simp: offer_id_def round_max_def Let_def)
  next
    case 3
    let ?row = "try_two_flight atn inp cset ?t"
    have "adds ?G (suggestion_id inp) 5 st (fold ?row (lowerCandidates inp n) st)"
      using adds_fold[of "lowerCandidates inp n" ?G "suggestion_id inp" "Suc 0" ?row st] try_two_flight_adds
        candidates_length(1)[of inp n] by (auto simp: adds_def)
    with 3 assms(1) show ?thesis using Cons.prems next_round[of "fold ?row (lowerCandidates inp n) st"]
      by (cases "in_LandingMm inp \<le> 0") (auto simp: offer_id_def round_max_def Let_def)
  next
    case 4
    with assms(1) show ?thesis using next_round[of "try_straight atn inp cset ?t st"] try_straight_adds[of atn inp cset st ?t]
      by (auto simp: offer_id_def round_max_def Let_def)
  qed
qed simp

lemma geometry_spec:
  "list_all (sound_offer atn inp cset) (fst (geometry atn tn inp cset))
    \<and> distinct (map (offer_id inp) (fst (geometry atn tn inp cset)))
    \<and> length (fst (geometry atn tn inp cset)) < MaxSuggestions + round_max inp
    \<and> (fst (snd (geometry atn tn inp cset)) \<longrightarrow> in_Flight inp \<noteq> FlightSpiral \<and> fst (geometry atn tn inp cset) = [])"
proof -
  have spiral: "list_all (sound_offer atn inp cset) (ss_out st) \<and> distinct (map (offer_id inp) (ss_out st))
      \<and> length (ss_out st) < MaxSuggestions + round_max inp \<and> \<not> (ss_anyPass st \<and> ss_out st = [])"
    if "in_Flight inp = FlightSpiral" "spiral_ok atn inp cset st" for st
    using that by (auto simp: spiral_ok_def search_ok_def offer_id_def round_max_def FlightSpiral_def FlightUShape_def FlightLShape_def)
  have steps: "list_all (sound_offer atn inp cset) (ss_out st) \<and> distinct (map (offer_id inp) (ss_out st))
      \<and> length (ss_out st) < MaxSuggestions + round_max inp"
    if "search_ok (sound_offer atn inp cset) (offer_id inp) st" "length (ss_out st) < MaxSuggestions + round_max inp" for st
    using that by (auto simp: search_ok_def)
  have small: "length (ss_out start_state) < MaxSuggestions + round_max inp"
    by (simp add: start_state_def MaxSuggestions_def)
  show ?thesis
    using spiral[OF _ spiral_loop_ok[OF _ start_ok(2)]] steps step_loop_adds[OF _ start_ok(1) small]
    by (auto simp: geometry_def spiralGeometry_def search_answer_def Let_def MaxSuggestions_def split: option.splits)
qed

subsection \<open>The advice\<close>

lemma advise_issue_suggestions:
  "s \<in> set (is_Suggestions (advise_issue inp cset sugs it)) \<Longrightarrow> s \<in> set (is_Suggestions it) \<or> s \<in> set sugs"
  by (auto simp: advise_issue_def Let_def split: option.splits if_splits)

text \<open>C37: every suggestion the advisor writes into an issue is an answer of the Solver for the height (and
  the comfort step) of the input that passes all active norms with the clearance, the stringer and the
  railing of the input, and whose stringers fit a stock sheet of the material.\<close>

theorem advise_offers_pass:
  assumes "it \<in> set (rs_Issues (Advise atn tn tx inp (Some cset) vr))" "s \<in> set (is_Suggestions it)"
    and "list_all (\<lambda>i. is_Suggestions i = []) (rs_Issues vr)"
  shows "\<exists>a rects. answers atn inp s rects a \<and> sg_AngleDeg s = Degrees a
    \<and> passes inp cset (sg_StepCount s) (sg_StepHeightMm s) (sg_TreadDepthMm s) a
    \<and> manufactureFeasible inp rects"
proof -
  have old: "s \<notin> set (is_Suggestions i)" if "i \<in> set (rs_Issues vr)" for i
    using assms(3) that by (auto simp: list_all_iff)
  obtain sugs inf worst where g: "geometry atn tn inp cset = (sugs, inf, worst)" by (cases "geometry atn tn inp cset")
  have "s \<in> set sugs"
    using assms(1,2) old
    by (auto simp: Advise_def g Let_def spiralInfeasibleIssue_def manufacturingIssue_def new_issue_def
        split: if_splits prod.splits dest: advise_issue_suggestions)
  then have "sound_offer atn inp cset s" using geometry_spec[of atn inp cset tn] g by (auto simp: list_all_iff)
  then show ?thesis by (simp add: sound_offer_def)
qed

text \<open>At most four suggestions for a straight or a spiral stair, eight for a stair with a landing, 28 for one
  with winders, and never two with the same identifier.\<close>

theorem advise_count:
  "length (fst (geometry atn tn inp cset)) \<le>
     (if in_Flight inp = FlightUShape \<and> in_TurnKind inp = TurnWinder then 28
      else if in_Flight inp = FlightLShape \<or> in_Flight inp = FlightUShape then 8 else 4)
   \<and> distinct (map (offer_id inp) (fst (geometry atn tn inp cset)))"
  using geometry_spec[of atn inp cset tn] by (auto simp: round_max_def MaxSuggestions_def)

text \<open>The fields of an issue the advisor does not touch.\<close>

definition verdict_of :: "Issue \<Rightarrow> Issue" where
  "verdict_of i = i\<lparr>is_Param := [], is_Guide := [], is_Suggestions := []\<rparr>"

lemma advise_issue_verdict: "verdict_of (advise_issue inp cset sugs i) = verdict_of i"
  by (auto simp: verdict_of_def advise_issue_def Let_def split: option.splits)

text \<open>The advice keeps the verdict: a result that does not block is answered unchanged, and of one that
  blocks only the parameter, the guide and the suggestions of the issues change; at most one issue is
  added, with the code of the sheet, when configurations pass the norms and none fits a sheet. A
  spiral never gets one.\<close>

theorem advise_frame:
  "(rs_Blocking vr \<or> Advise atn tn tx inp (Some cset) vr = vr)
   \<and> rs_Valid (Advise atn tn tx inp (Some cset) vr) = rs_Valid vr
   \<and> rs_Blocking (Advise atn tn tx inp (Some cset) vr) = rs_Blocking vr
   \<and> (\<exists>extra. map verdict_of (rs_Issues (Advise atn tn tx inp (Some cset) vr)) = map verdict_of (rs_Issues vr) @ map verdict_of extra
        \<and> (extra = [] \<or> (\<exists>i. extra = [i] \<and> is_Code i = MFG_SHEET \<and> is_Severity i = SeverityError
             \<and> in_Flight inp \<noteq> FlightSpiral \<and> fst (snd (geometry atn tn inp cset)) \<and> fst (geometry atn tn inp cset) = [])))"
proof -
  obtain sugs inf worst where g: "geometry atn tn inp cset = (sugs, inf, worst)" by (cases "geometry atn tn inp cset")
  have sp: "inf \<longrightarrow> in_Flight inp \<noteq> FlightSpiral \<and> sugs = []" using geometry_spec[of atn inp cset tn] by (simp add: g)
  define extra where "extra = (if rs_Blocking vr \<and> inf \<and> \<not> hasIssue (map (advise_issue inp cset sugs) (rs_Issues vr)) MFG_SHEET
    then [manufacturingIssue tx inp worst] else [])"
  have "extra = [] \<or> (\<exists>i. extra = [i] \<and> is_Code i = MFG_SHEET \<and> is_Severity i = SeverityError
      \<and> in_Flight inp \<noteq> FlightSpiral \<and> inf \<and> sugs = [])"
    using sp by (auto simp: extra_def manufacturingIssue_def new_issue_def Let_def split: prod.splits)
  moreover have "map verdict_of (rs_Issues (Advise atn tn tx inp (Some cset) vr)) = map verdict_of (rs_Issues vr) @ map verdict_of extra"
    using sp by (auto simp: Advise_def g Let_def extra_def advise_issue_verdict)
  ultimately show ?thesis by (auto simp: Advise_def g Let_def)
qed

subsection \<open>Two straight stairs\<close>

definition demo_input :: "rat \<Rightarrow> Input" where
  "demo_input h = \<lparr>in_Flight = FlightStraight, in_HeightMm = Fin h, in_TargetStepMm = Fin 150, in_ComfortMm = Fin 620,
     in_LowerStepCount = 0, in_TurnKind = [], in_WinderCount = 0, in_LandingMm = 0, in_WidthMm = Fin 900,
     in_OuterRadiusMm = 0, in_ClearanceMm = Fin 2100, in_RailingMm = Fin 900, in_StringerThickMm = Fin 40,
     in_StepThicknessMm = Fin 40, in_Material = []\<rparr>"

definition flat_atan :: "f64 \<Rightarrow> f64" where
  "flat_atan x = Fin (5 / 8)"

text \<open>Does a straight flight with \<open>n\<close> steps pass?\<close>

definition passing :: "rat \<Rightarrow> int \<Rightarrow> bool" where
  "passing h n = (case Solve flat_atan (Fin h) (Fin h / of_int64 n) (Some (Fin 620)) of
     Inl _ \<Rightarrow> False
   | Inr r \<Rightarrow> passes (demo_input h) (StandardProfile no_texts []) (fr_StepCount r) (fr_StepHeight r) (fr_TreadDepth r) (fr_Angle r))"

lemma Solve_fields:
  "Solve atn H h0 s = Inr r \<Longrightarrow> fr_StepCount r = step_count H h0 \<and> fr_StepHeight r = riser_of H (step_count H h0)
    \<and> fr_TreadDepth r = tread_of (step_arg s) (fr_StepHeight r) \<and> fr_Run r = of_int64 (fr_StepCount r) * fr_TreadDepth r
    \<and> fr_Angle r = atn (fr_StepHeight r / fr_TreadDepth r)"
  by (auto simp: Solve_def Let_def result_iffs)

lemma demo_passes:
  "passes (demo_input h) (StandardProfile no_texts []) n (Fin q) (Fin t) (Fin (5 / 8)) \<longleftrightarrow>
    Contains (range_minmax 150 200 (1/10)) (Fin q) \<and> Contains (range_minmax 260 320 (1/10)) (Fin t)"
  using Contains_minmax(1)[of 30 45 "1/100" "5039790063769915 / 140737488355328"]
  by (simp add: passes_def demo_input_def standard_blocking[where h = q and b = t, OF _ _ trans[OF arg_cong[where f = Degrees] demo_degrees]])

lemma not_passing:
  assumes "step_count (Fin h) (Fin h / of_int64 n) = n" "Fin h / of_int64 n = Fin q" "tread_of (Fin 620) (Fin q) = Fin t"
    "q \<le> 149 \<or> 201 \<le> q \<or> t \<le> 259"
  shows "\<not> passing h n"
proof (cases "Solve flat_atan (Fin h) (Fin h / of_int64 n) (Some (Fin 620))")
  case (Inr r)
  then have "fr_StepHeight r = Fin q" "fr_TreadDepth r = Fin t" "fr_Angle r = Fin (5 / 8)" "fr_StepCount r = n"
    using Solve_fields[OF Inr] assms(1-3) by (auto simp: step_arg_def riser_of_def flat_atan_def)
  then show ?thesis using assms(4) Contains_minmax(2)[of 150 200 "1/10" q] Contains_minmax(2)[of 260 320 "1/10" t]
    by (auto simp: passing_def Inr demo_passes)
qed (simp add: passing_def)

lemma is_passing:
  assumes "step_count (Fin h) (Fin h / of_int64 n) = n" "Fin h / of_int64 n = Fin q" "tread_of (Fin 620) (Fin q) = Fin t"
    "0 < h" "1 \<le> n" "150 \<le> q" "q \<le> 200" "260 \<le> t" "t \<le> 320"
  shows "\<exists>r. Solve flat_atan (Fin h) (Fin h / of_int64 n) (Some (Fin 620)) = Inr r \<and> fr_StepCount r = n
    \<and> fr_Run r = of_int64 n * Fin t
    \<and> passes (demo_input h) (StandardProfile no_texts []) n (fr_StepHeight r) (fr_TreadDepth r) (fr_Angle r)"
proof -
  obtain r where r: "Solve flat_atan (Fin h) (Fin h / of_int64 n) (Some (Fin 620)) = Inr r"
    using assms by (simp add: Solve_def Let_def step_arg_def riser_of_def zero_f64_def ComfortStepMin_def ComfortStepMax_def)
  then have "fr_StepHeight r = Fin q" "fr_TreadDepth r = Fin t" "fr_Angle r = Fin (5 / 8)" "fr_StepCount r = n"
    "fr_Run r = of_int64 n * Fin t"
    using Solve_fields[OF r] assms(1-3) by (auto simp: step_arg_def riser_of_def flat_atan_def)
  then show ?thesis using r assms(6-9) Contains_minmax(1)[of 150 200 "1/10" q] Contains_minmax(1)[of 260 320 "1/10" t]
    by (simp add: demo_passes)
qed

lemma try_blocked: "\<not> passing h n \<Longrightarrow>
    try_straight flat_atan (demo_input h) (StandardProfile no_texts []) (Fin h / of_int64 n) st = st"
  by (auto simp: try_straight_def passing_def demo_input_def split: sum.splits)

lemma try_passing:
  assumes "Solve flat_atan (Fin h) (Fin h / of_int64 n) (Some (Fin 620)) = Inr r" "fr_StepCount r = n"
    "passes (demo_input h) (StandardProfile no_texts []) n (fr_StepHeight r) (fr_TreadDepth r) (fr_Angle r)"
    "manufactureFeasible (demo_input h) (straight_rects (demo_input h) r)"
  shows "ss_out (try_straight flat_atan (demo_input h) (StandardProfile no_texts []) (Fin h / of_int64 n) start_state)
    = [straight_suggestion r]"
proof -
  have "in_HeightMm (demo_input h) = Fin h" "in_ComfortMm (demo_input h) = Fin 620" by (simp_all add: demo_input_def)
  then show ?thesis using assms
    by (simp add: try_straight_def note_passing_def offer_def start_state_def Let_def)
qed

lemma demo_rule: "\<exists>rule. cs_Active (StandardProfile no_texts []) GEO_STEP_HEIGHT = Some rule
    \<and> rg_HasMin (ct_Range rule) \<and> rg_HasMax (ct_Range rule) \<and> rg_Min (ct_Range rule) = fl 150 \<and> rg_Max (ct_Range rule) = fl 200"
  by (simp add: standard_active standard_rules_def profile_rule_def range_minmax_def)

definition demo_window :: "rat \<Rightarrow> int list" where
  "demo_window h = spreadInts (mathMax (wrap_int (to_int64 (fceil (Fin h / fl 200)) - 2)) 2)
     (wrap_int (to_int64 (ffloor (Fin h / fl 150)) + 2)) (int MaxSuggestions)"

lemma demo_geometry:
  assumes "0 < h"
  shows "geometry flat_atan tn (demo_input h) (StandardProfile no_texts [])
    = search_answer (step_loop flat_atan (demo_input h) (StandardProfile no_texts []) (demo_window h) start_state)"
proof -
  have "\<not> Fin h \<le> 0" "\<not> Fin 620 \<le> 0" using assms by (simp_all add: zero_f64_def)
  then show ?thesis using demo_rule
    by (auto simp: geometry_def demo_input_def demo_window_def FlightStraight_def FlightSpiral_def Let_def)
qed

lemma demo_loop:
  "step_loop flat_atan (demo_input h) cset (n # ns) st =
     (if length (ss_out st) \<ge> MaxSuggestions then st
      else step_loop flat_atan (demo_input h) cset ns (try_straight flat_atan (demo_input h) cset (Fin h / of_int64 n) st))"
  by (simp add: demo_input_def FlightStraight_def FlightLShape_def FlightUShape_def Let_def)

lemma demo_spreads: "spreadInts 3 8 4 = [3, 5, 6, 8]" "spreadInts 4 8 4 = [4, 5, 7, 8]"
  by code_simp+

lemma demo_limits:
  "to_int64 (fceil (Fin 960 / fl 200)) = 5" "to_int64 (fceil (Fin (4095 / 4) / fl 200)) = 6"
  "to_int64 (ffloor (Fin 960 / fl 150)) = 6" "to_int64 (ffloor (Fin (4095 / 4) / fl 150)) = 6"
  by code_simp+

lemma demo_windows: "demo_window 960 = [3, 5, 6, 8]" "demo_window (4095 / 4) = [4, 5, 7, 8]"
  by (simp_all add: demo_window_def demo_limits wrap_int_def mathMax_def MaxSuggestions_def demo_spreads)

lemma demo_risers:
  "Fin 960 / of_int64 3 = Fin 320" "Fin 960 / of_int64 5 = Fin 192" "Fin 960 / of_int64 6 = Fin 160"
  "Fin 960 / of_int64 8 = Fin 120" "Fin (4095 / 4) / of_int64 4 = Fin (4095 / 16)" "Fin (4095 / 4) / of_int64 5 = Fin (819 / 4)"
  "Fin (4095 / 4) / of_int64 6 = Fin (1365 / 8)" "Fin (4095 / 4) / of_int64 7 = Fin (585 / 4)"
  "Fin (4095 / 4) / of_int64 8 = Fin (4095 / 32)"
  by code_simp+

lemma demo_treads:
  "tread_of (Fin 620) (Fin 320) = Fin (- 20)" "tread_of (Fin 620) (Fin 192) = Fin 236" "tread_of (Fin 620) (Fin 160) = Fin 300"
  "tread_of (Fin 620) (Fin 120) = Fin 380" "tread_of (Fin 620) (Fin (4095 / 16)) = Fin (865 / 8)"
  "tread_of (Fin 620) (Fin (819 / 4)) = Fin (421 / 2)" "tread_of (Fin 620) (Fin (1365 / 8)) = Fin (1115 / 4)"
  "tread_of (Fin 620) (Fin (585 / 4)) = Fin (655 / 2)" "tread_of (Fin 620) (Fin (4095 / 32)) = Fin (5825 / 16)"
  by code_simp+

lemma demo_counts:
  "step_count (Fin 960) (Fin 320) = 3" "step_count (Fin 960) (Fin 192) = 5"
  "step_count (Fin 960) (Fin 160) = 6" "step_count (Fin 960) (Fin 120) = 8"
  "step_count (Fin (4095 / 4)) (Fin (4095 / 16)) = 4" "step_count (Fin (4095 / 4)) (Fin (819 / 4)) = 5"
  "step_count (Fin (4095 / 4)) (Fin (1365 / 8)) = 6" "step_count (Fin (4095 / 4)) (Fin (585 / 4)) = 7"
  "step_count (Fin (4095 / 4)) (Fin (4095 / 32)) = 8"
  by code_simp+

lemma demo_fits: "manufactureFeasible (demo_input 960) [(of_int64 6 * Fin 300, StringerExtent (Fin 960) (Fin 40))]"
  by code_simp

lemma demo_blocked:
  "\<not> passing 960 3" "\<not> passing 960 5" "\<not> passing 960 8"
  "\<not> passing (4095 / 4) 4" "\<not> passing (4095 / 4) 5" "\<not> passing (4095 / 4) 7" "\<not> passing (4095 / 4) 8"
  by (rule not_passing[where q = 320 and t = "- 20"] not_passing[where q = 192 and t = 236] not_passing[where q = 120 and t = 380]
      not_passing[where q = "4095 / 16" and t = "865 / 8"] not_passing[where q = "819 / 4" and t = "421 / 2"]
      not_passing[where q = "585 / 4" and t = "655 / 2"] not_passing[where q = "4095 / 32" and t = "5825 / 16"],
      simp_all add: demo_risers demo_treads demo_counts)+

lemma demo_suggestion:
  "\<exists>s. fst (geometry flat_atan tn (demo_input 960) (StandardProfile no_texts [])) = [s] \<and> sg_StepCount s = 6"
proof -
  obtain r where r: "Solve flat_atan (Fin 960) (Fin 960 / of_int64 6) (Some (Fin 620)) = Inr r" "fr_StepCount r = 6"
    "fr_Run r = of_int64 6 * Fin 300"
    "passes (demo_input 960) (StandardProfile no_texts []) 6 (fr_StepHeight r) (fr_TreadDepth r) (fr_Angle r)"
    using is_passing[of 960 6 160 300] by (auto simp: demo_risers demo_treads demo_counts)
  have "straight_rects (demo_input 960) r = [(of_int64 6 * Fin 300, StringerExtent (Fin 960) (Fin 40))]"
    by (simp add: straight_rects_def r(3)) (simp add: demo_input_def)
  then have "ss_out (try_straight flat_atan (demo_input 960) (StandardProfile no_texts []) (Fin 960 / of_int64 6) start_state)
      = [straight_suggestion r]"
    using try_passing[OF r(1,2,4)] demo_fits by simp
  then show ?thesis using r(2)
    by (simp add: demo_geometry demo_windows demo_loop try_blocked demo_blocked search_answer_def MaxSuggestions_def
        del: step_loop.simps(2)) (simp add: start_state_def)
qed

definition demo_verdict :: Result where
  "demo_verdict = \<lparr>rs_Issues = [new_issue GEO_STEP_HEIGHT ''step_height'' [] [] []], rs_Valid = False, rs_Blocking = True\<rparr>"

definition demo_texts :: advice_texts where
  "demo_texts = \<lparr>av_SheetMessage = [], av_SheetParam = [], av_SheetGuide = (\<lambda>_ _ _ _ _. []), av_SpiralMessage = [],
     av_SpiralParam = [], av_SpiralGuide = (\<lambda>_. [])\<rparr>"

theorem advise_offers_pass_witness:
  "\<exists>it s a. it \<in> set (rs_Issues (Advise flat_atan flat_atan demo_texts (demo_input 960) (Some (StandardProfile no_texts [])) demo_verdict))
     \<and> s \<in> set (is_Suggestions it) \<and> sg_StepCount s = 6
     \<and> passes (demo_input 960) (StandardProfile no_texts []) 6 (sg_StepHeightMm s) (sg_TreadDepthMm s) a"
proof -
  let ?cset = "StandardProfile no_texts []"
  obtain s inf worst where g: "geometry flat_atan flat_atan (demo_input 960) ?cset = ([s], inf, worst)" "sg_StepCount s = 6"
    using demo_suggestion[of flat_atan] by (metis prod.collapse)
  define it where "it = advise_issue (demo_input 960) ?cset [s] (new_issue GEO_STEP_HEIGHT ''step_height'' [] [] [])"
  have i: "it \<in> set (rs_Issues (Advise flat_atan flat_atan demo_texts (demo_input 960) (Some ?cset) demo_verdict))"
    by (simp add: Advise_def g demo_verdict_def it_def Let_def)
  have s: "s \<in> set (is_Suggestions it)"
    by (simp add: it_def advise_issue_def new_issue_def standard_active standard_rules_def profile_rule_def Let_def)
  have "list_all (\<lambda>i. is_Suggestions i = []) (rs_Issues demo_verdict)"
    by (simp add: demo_verdict_def new_issue_def)
  from advise_offers_pass[OF i s this] show ?thesis using i s g(2) by auto
qed

text \<open>The advisor looks at four step counts spread over the window, ends included: here six steps of
  170.6 mm and 278.75 mm pass, and it offers nothing, for it tries 4, 5, 7 and 8.\<close>

theorem advisor_misses:
  "geometry flat_atan tn (demo_input (4095 / 4)) (StandardProfile no_texts []) = ([], False, (0, 0))
   \<and> passing (4095 / 4) 6"
proof -
  have "geometry flat_atan tn (demo_input (4095 / 4)) (StandardProfile no_texts []) = ([], False, (0, 0))"
    by (simp add: demo_geometry demo_windows demo_loop try_blocked demo_blocked search_answer_def MaxSuggestions_def
        del: step_loop.simps(2)) (simp add: start_state_def)
  moreover have "passing (4095 / 4) 6"
    using is_passing[of "4095 / 4" 6 "1365 / 8" "1115 / 4"]
    by (auto simp: demo_risers demo_treads demo_counts passing_def)
  ultimately show ?thesis ..
qed

end
