(* ===== verification/Pipeline.thy ===== *)
theory Pipeline
  imports Event_Bus
begin

text \<open>
  \<open>internal/engine/pipeline/orchestrator.go\<close>: the orchestrator runs its stages in the order of their
  registration and reports them on the event bus and in the event store. A stage is a function on the
  pipeline context and the world. Fresh identifiers and the contexts are in \<open>pipe_env\<close>: the caller's
  context, and \<open>context.Background\<close>, which a failure is published with. \<open>PublishAsync\<close> starts a
  goroutine: the events handed to it are listed in \<open>or_async\<close>, when they are delivered is left open.
  Measured durations and log lines are left out.
\<close>

record 'v pipe_ctx =
  pc_CorrelationID :: string
  pc_ConfigID :: string
  pc_Actor :: string
  pc_Tenant :: string
  pc_Data :: "(string \<times> 'v) list"
  pc_Error :: "string option"
  pc_FailedStage :: string

record ('v, 'w) Stage =
  ps_Name :: string
  ps_Execute :: "('v pipe_ctx \<Rightarrow> 'w \<Rightarrow> string option \<times> 'v pipe_ctx \<times> 'w) option"
  ps_DependsOn :: "string list"

text \<open>The payloads of the events the orchestrator publishes, with the source, the actor and the tenant.\<close>

datatype pipe_payload =
    EngineFinished string string string string bool string
  | PipelineCompleted string string string
  | PipelineFailed string string string string string

record ('v, 'w) Orchestrator =
  or_bus :: "(pipe_payload, 'w) Bus"
  or_store :: "pipe_payload Store"
  or_stages :: "(string \<times> ('v, 'w) Stage) list"
  or_order :: "string list"
  or_active :: "(string \<times> 'v pipe_ctx) list"
  or_async :: "pipe_payload Event list"

record 'w pipe_env =
  pe_ctx :: "'w bus_env"
  pe_background :: "'w bus_env"
  pe_newID :: "'w \<Rightarrow> string \<times> 'w"

datatype pipe_error = AlreadyRunning string | Cancelled string | DependenciesMissing string | StageFailed string string

definition NewOrchestrator :: "(pipe_payload, 'w) Bus \<Rightarrow> pipe_payload Store \<Rightarrow> ('v, 'w) Orchestrator" where
  "NewOrchestrator bus store = \<lparr>or_bus = bus, or_store = store, or_stages = [], or_order = [], or_active = [], or_async = []\<rparr>"

definition RegisterStage :: "('v, 'w) Stage \<Rightarrow> ('v, 'w) Orchestrator \<Rightarrow> ('v, 'w) Orchestrator" where
  "RegisterStage st orc = orc\<lparr>or_stages := mput (ps_Name st) st (or_stages orc), or_order := or_order orc @ [ps_Name st]\<rparr>"

definition done_key :: "string \<Rightarrow> string" where
  "done_key dep = ''stage:'' @ dep @ '':done''"

definition dependenciesSatisfied :: "('v, 'w) Orchestrator \<Rightarrow> ('v, 'w) Stage \<Rightarrow> 'v pipe_ctx \<Rightarrow> bool" where
  "dependenciesSatisfied orc st pctx =
     list_all (\<lambda>dep. map_of (or_stages orc) dep \<noteq> None \<and> map_of (pc_Data pctx) (done_key dep) \<noteq> None) (ps_DependsOn st)"

definition new_event :: "'w pipe_env \<Rightarrow> string \<Rightarrow> string \<Rightarrow> pipe_payload \<Rightarrow> 'w \<Rightarrow> pipe_payload Event \<times> 'w" where
  "new_event env typ corr d w = (case pe_newID env w of (i, w1) \<Rightarrow>
     (\<lparr>ev_Type = typ, ev_ID = i, ev_CorrelationID = corr, ev_Data = d\<rparr>, w1))"

definition publishEngineEvent :: "'w pipe_env \<Rightarrow> string \<Rightarrow> string \<Rightarrow> string \<Rightarrow> bool \<Rightarrow> string
    \<Rightarrow> ('v, 'w) Orchestrator \<Rightarrow> 'w \<Rightarrow> ('v, 'w) Orchestrator \<times> 'w" where
  "publishEngineEvent env stage configID corr started errMsg orc w =
     (case new_event env (''engine.'' @ stage @ (if started then ''_started'' else ''_finished'')) corr
             (EngineFinished ''system'' [] stage configID (errMsg = []) errMsg) w of (ev, w1) \<Rightarrow>
        (orc\<lparr>or_async := or_async orc @ [ev], or_store := Append (be_now (pe_ctx env) w1) ev (or_store orc)\<rparr>, w1))"

text \<open>The bus publication and the store entry that end a run; the error of \<open>Publish\<close> is dropped.\<close>

definition publish_end :: "'w pipe_env \<Rightarrow> 'w bus_env \<Rightarrow> string \<Rightarrow> string \<Rightarrow> pipe_payload \<Rightarrow> ('v, 'w) Orchestrator \<Rightarrow> 'w
    \<Rightarrow> (('v, 'w) Orchestrator \<times> 'w) go" where
  "publish_end env benv typ corr d orc w =
     (case new_event env typ corr d w of (ev, w1) \<Rightarrow>
        (case Publish benv ev (or_bus orc) w1 of
           Panic \<Rightarrow> Panic
         | Ret (e, bus, w2) \<Rightarrow> Ret (orc\<lparr>or_bus := bus, or_store := Append (be_now (pe_ctx env) w2) ev (or_store orc)\<rparr>, w2)))"

definition failPipeline :: "'w pipe_env \<Rightarrow> 'v pipe_ctx \<Rightarrow> string \<Rightarrow> string \<Rightarrow> ('v, 'w) Orchestrator \<Rightarrow> 'w
    \<Rightarrow> ('v pipe_ctx \<times> ('v, 'w) Orchestrator \<times> 'w) go" where
  "failPipeline env pctx stage errMsg orc w =
     (let pctx1 = pctx\<lparr>pc_Error := Some (''pipeline failed at stage '' @ stage @ '': '' @ errMsg), pc_FailedStage := stage\<rparr>;
          orc1 = orc\<lparr>or_active := mdel (pc_ConfigID pctx) (or_active orc)\<rparr> in
      (case publish_end env (pe_background env) ''engine.pipeline_failed'' (pc_CorrelationID pctx)
              (PipelineFailed (pc_Actor pctx) (pc_Tenant pctx) (pc_ConfigID pctx) stage errMsg) orc1 w of
         Panic \<Rightarrow> Panic
       | Ret (orc2, w1) \<Rightarrow> Ret (pctx1, orc2, w1)))"

text \<open>The loop over the stages. The context is shared with \<open>or_active\<close>, which only its keys are read of. A name
  of the order always has a stage; a stage without a function panics. \<open>ctx.Err\<close> keeps its error.\<close>

fun run_stages :: "'w pipe_env \<Rightarrow> string \<Rightarrow> string \<Rightarrow> string list \<Rightarrow> 'v pipe_ctx \<Rightarrow> ('v, 'w) Orchestrator \<Rightarrow> 'w
    \<Rightarrow> (pipe_error option \<times> ('v, 'w) Orchestrator \<times> 'w) go" where
  "run_stages env configID corr [] pctx orc w = Ret (None, orc, w)"
| "run_stages env configID corr (name # names) pctx orc w =
     (case be_err (pe_ctx env) w of
        Some c \<Rightarrow>
          (case failPipeline env pctx name ''context cancelled'' orc w of
             Panic \<Rightarrow> Panic | Ret (p, orc1, w1) \<Rightarrow> Ret (Some (Cancelled c), orc1, w1))
      | None \<Rightarrow>
          (case map_of (or_stages orc) name of
             None \<Rightarrow> Panic
           | Some stage \<Rightarrow>
              (case publishEngineEvent env name configID corr True [] orc w of (orc1, w1) \<Rightarrow>
                 if \<not> dependenciesSatisfied orc1 stage pctx then
                   (case failPipeline env pctx name (''pipeline: dependencies not satisfied for stage '' @ name) orc1 w1 of
                      Panic \<Rightarrow> Panic | Ret (p, orc2, w2) \<Rightarrow> Ret (Some (DependenciesMissing name), orc2, w2))
                 else
                   (case ps_Execute stage of
                      None \<Rightarrow> Panic
                    | Some f \<Rightarrow>
                       (case f pctx w1 of
                          (Some err, pctx1, w2) \<Rightarrow>
                            (case publishEngineEvent env name configID corr False err orc1 w2 of (orc2, w3) \<Rightarrow>
                               (case failPipeline env pctx1 name err orc2 w3 of
                                  Panic \<Rightarrow> Panic | Ret (p, orc3, w4) \<Rightarrow> Ret (Some (StageFailed name err), orc3, w4)))
                        | (None, pctx1, w2) \<Rightarrow>
                            (case publishEngineEvent env name configID corr False [] orc1 w2 of (orc2, w3) \<Rightarrow>
                               run_stages env configID corr names pctx1 orc2 w3))))))"

definition Start :: "'w pipe_env \<Rightarrow> string \<Rightarrow> string \<Rightarrow> string \<Rightarrow> ('v, 'w) Orchestrator \<Rightarrow> 'w
    \<Rightarrow> (pipe_error option \<times> ('v, 'w) Orchestrator \<times> 'w) go" where
  "Start env configID actor tenant orc w =
     (case pe_newID env w of (corr, w1) \<Rightarrow>
      if map_of (or_active orc) configID \<noteq> None then Ret (Some (AlreadyRunning configID), orc, w1)
      else let pctx = \<lparr>pc_CorrelationID = corr, pc_ConfigID = configID, pc_Actor = actor, pc_Tenant = tenant, pc_Data = [],
                  pc_Error = None, pc_FailedStage = []\<rparr>;
               orc1 = orc\<lparr>or_active := mput configID pctx (or_active orc)\<rparr> in
        (case run_stages env configID corr (or_order orc1) pctx orc1 w1 of
           Panic \<Rightarrow> Panic
         | Ret (Some e, orc2, w2) \<Rightarrow> Ret (Some e, orc2, w2)
         | Ret (None, orc2, w2) \<Rightarrow>
             (case publish_end env (pe_ctx env) ''engine.pipeline_completed'' corr (PipelineCompleted actor tenant configID) orc2 w2 of
                Panic \<Rightarrow> Panic
              | Ret (orc3, w3) \<Rightarrow> Ret (None, orc3\<lparr>or_active := mdel configID (or_active orc3)\<rparr>, w3))))"

definition IsActive :: "('v, 'w) Orchestrator \<Rightarrow> string \<Rightarrow> bool" where
  "IsActive orc configID \<longleftrightarrow> map_of (or_active orc) configID \<noteq> None"

definition ActiveCount :: "('v, 'w) Orchestrator \<Rightarrow> int" where
  "ActiveCount orc = int (length (or_active orc))"

subsection \<open>The log of a run\<close>

text \<open>The stages and the order stay, and the store has the events \<open>tes\<close> of the correlation more.\<close>

definition logs :: "string \<Rightarrow> (int \<times> pipe_payload Event) list \<Rightarrow> ('v, 'w) Orchestrator \<Rightarrow> ('v, 'w) Orchestrator \<Rightarrow> bool" where
  "logs corr tes orc orc' \<longleftrightarrow> or_stages orc' = or_stages orc \<and> or_order orc' = or_order orc
     \<and> or_store orc' = foldl append_pair (or_store orc) tes \<and> list_all (\<lambda>te. ev_CorrelationID (snd te) = corr) tes"

lemma logs_Nil [simp]: "logs corr [] orc orc"
  by (simp add: logs_def)

lemma logs_append: "logs corr xs orc orc1 \<Longrightarrow> logs corr ys orc1 orc2 \<Longrightarrow> logs corr (xs @ ys) orc orc2"
  by (simp add: logs_def)

lemma logs_active [simp]:
  "logs corr tes (orc\<lparr>or_active := a\<rparr>) orc' = logs corr tes orc orc'"
  "logs corr tes orc (orc'\<lparr>or_active := a\<rparr>) = logs corr tes orc orc'"
  by (simp_all add: logs_def)

text \<open>The stage whose execution an event reports, and those of a log.\<close>

definition executed_stage :: "int \<times> pipe_payload Event \<Rightarrow> string option" where
  "executed_stage te = (case ev_Data (snd te) of
     EngineFinished _ _ stage _ _ _ \<Rightarrow> if ev_Type (snd te) = ''engine.'' @ stage @ ''_finished'' then Some stage else None
   | _ \<Rightarrow> None)"

definition executed :: "(int \<times> pipe_payload Event) list \<Rightarrow> string list" where
  "executed tes = List.map_filter executed_stage tes"

lemma executed_simps [simp]:
  "executed [] = []" "executed (te # tes) = (case executed_stage te of None \<Rightarrow> executed tes | Some n \<Rightarrow> n # executed tes)"
  "executed (xs @ ys) = executed xs @ executed ys"
  by (auto simp: executed_def map_filter_def split: option.splits)

lemma publishEngineEvent_logs:
  assumes "publishEngineEvent env stage configID corr started msg orc w = (orc', w')"
  shows "\<exists>te. logs corr [te] orc orc' \<and> or_active orc' = or_active orc \<and> or_bus orc' = or_bus orc
    \<and> executed_stage te = (if started then None else Some stage)"
proof -
  obtain i w1 where i: "pe_newID env w = (i, w1)" by (cases "pe_newID env w")
  define ev where "ev = \<lparr>ev_Type = ''engine.'' @ stage @ (if started then ''_started'' else ''_finished''), ev_ID = i,
    ev_CorrelationID = corr, ev_Data = EngineFinished ''system'' [] stage configID (msg = []) msg\<rparr>"
  have "orc' = orc\<lparr>or_async := or_async orc @ [ev], or_store := Append (be_now (pe_ctx env) w1) ev (or_store orc)\<rparr>"
    using assms by (auto simp: publishEngineEvent_def new_event_def i ev_def)
  then show ?thesis
    by (intro exI[of _ "(be_now (pe_ctx env) w1, ev)"]) (simp add: logs_def append_pair_def ev_def executed_stage_def)
qed

lemma publish_end_logs:
  assumes "publish_end env benv typ corr d orc w = Ret (orc', w')"
  shows "\<exists>te. logs corr [te] orc orc' \<and> or_active orc' = or_active orc \<and> ev_Type (snd te) = typ \<and> ev_Data (snd te) = d"
proof -
  obtain i w1 where i: "pe_newID env w = (i, w1)" by (cases "pe_newID env w")
  define ev where "ev = \<lparr>ev_Type = typ, ev_ID = i, ev_CorrelationID = corr, ev_Data = d\<rparr>"
  obtain e bus where "Publish benv ev (or_bus orc) w1 = Ret (e, bus, w')"
    and o: "orc' = orc\<lparr>or_bus := bus, or_store := Append (be_now (pe_ctx env) w') ev (or_store orc)\<rparr>"
    using assms by (auto simp: publish_end_def new_event_def i ev_def split: go.splits)
  then show ?thesis by (intro exI[of _ "(be_now (pe_ctx env) w', ev)"]) (simp add: logs_def append_pair_def ev_def)
qed

lemma failPipeline_logs:
  assumes "failPipeline env pctx stage msg orc w = Ret (p, orc', w')"
  shows "\<exists>te. logs (pc_CorrelationID pctx) [te] orc orc' \<and> or_active orc' = mdel (pc_ConfigID pctx) (or_active orc)
    \<and> ev_Type (snd te) = ''engine.pipeline_failed'' \<and> executed_stage te = None"
proof -
  let ?d = "PipelineFailed (pc_Actor pctx) (pc_Tenant pctx) (pc_ConfigID pctx) stage msg"
  obtain w1 where "publish_end env (pe_background env) ''engine.pipeline_failed'' (pc_CorrelationID pctx) ?d
      (orc\<lparr>or_active := mdel (pc_ConfigID pctx) (or_active orc)\<rparr>) w = Ret (orc', w1)"
    using assms by (auto simp: failPipeline_def Let_def split: go.splits)
  from publish_end_logs[OF this] obtain te where "logs (pc_CorrelationID pctx) [te] orc orc'"
    "or_active orc' = mdel (pc_ConfigID pctx) (or_active orc)" "ev_Type (snd te) = ''engine.pipeline_failed''" "ev_Data (snd te) = ?d"
    by auto
  then show ?thesis by (intro exI[of _ te]) (simp add: executed_stage_def)
qed

text \<open>Stages may write the data of the context, not its identifiers.\<close>

definition stages_keep :: "('v, 'w) Orchestrator \<Rightarrow> bool" where
  "stages_keep orc \<longleftrightarrow> (\<forall>(name, st) \<in> set (or_stages orc). \<forall>f. ps_Execute st = Some f \<longrightarrow>
     (\<forall>c w. pc_ConfigID (fst (snd (f c w))) = pc_ConfigID c \<and> pc_CorrelationID (fst (snd (f c w))) = pc_CorrelationID c))"

lemma stages_keepD:
  assumes "stages_keep orc" "map_of (or_stages orc) name = Some st" "ps_Execute st = Some f" "f c w = (e, c', w')"
  shows "pc_ConfigID c' = pc_ConfigID c \<and> pc_CorrelationID c' = pc_CorrelationID c"
proof -
  have "pc_ConfigID (fst (snd (f c w))) = pc_ConfigID c \<and> pc_CorrelationID (fst (snd (f c w))) = pc_CorrelationID c"
    using assms(1,3) map_of_SomeD[OF assms(2)] by (auto simp: stages_keep_def)
  then show ?thesis by (simp add: assms(4))
qed

lemma run_stages_logs:
  assumes "run_stages env configID corr names pctx orc w = Ret (r, orc', w')" "stages_keep orc"
    "pc_ConfigID pctx = configID" "pc_CorrelationID pctx = corr"
  shows "\<exists>tes. logs corr tes orc orc' \<and> (if r = None then or_active orc' = or_active orc
    else or_active orc' = mdel configID (or_active orc) \<and> tes \<noteq> [] \<and> ev_Type (snd (last tes)) = ''engine.pipeline_failed'')"
  using assms
proof (induction names arbitrary: pctx orc w)
  case (Cons name names)
  have fail: ?case if F: "failPipeline env p name m orc1 w1 = Ret (p', orc', w1')" "logs corr xs orc orc1"
      "or_active orc1 = or_active orc" "r \<noteq> None" "pc_ConfigID p = configID" "pc_CorrelationID p = corr" for p m orc1 w1 p' w1' xs
  proof -
    obtain te where "logs corr [te] orc1 orc'" "or_active orc' = mdel configID (or_active orc1)"
      "ev_Type (snd te) = ''engine.pipeline_failed''" using failPipeline_logs[OF F(1)] F(5,6) by auto
    then show ?thesis using logs_append[OF F(2)] F(3,4) by (intro exI[of _ "xs @ [te]"]) auto
  qed
  show ?case
  proof (cases "be_err (pe_ctx env) w")
    case (Some c)
    then show ?thesis using Cons.prems fail[of pctx _ orc _ _ _ "[]"] by (auto split: go.splits)
  next
    case live: None
    obtain stage where st: "map_of (or_stages orc) name = Some stage"
      using Cons.prems(1) live by (auto split: option.splits)
    obtain orc1 w1 where p1: "publishEngineEvent env name configID corr True [] orc w = (orc1, w1)" by fastforce
    obtain t1 where l1: "logs corr [t1] orc orc1" "or_active orc1 = or_active orc"
      using publishEngineEvent_logs[OF p1] by blast
    show ?thesis
    proof (cases "dependenciesSatisfied orc1 stage pctx")
      case False
      then show ?thesis using Cons.prems live st p1 fail[OF _ l1] by (auto split: go.splits)
    next
      case True
      obtain f where f: "ps_Execute stage = Some f" using Cons.prems(1) live st p1 True by (auto split: option.splits)
      obtain e c w2 where x: "f pctx w1 = (e, c, w2)" by (cases "f pctx w1")
      have keep: "pc_ConfigID c = configID" "pc_CorrelationID c = corr"
        using stages_keepD[OF Cons.prems(2) st f x] Cons.prems(3,4) by auto
      obtain orc2 w3 where p2: "publishEngineEvent env name configID corr False (case e of None \<Rightarrow> [] | Some m \<Rightarrow> m) orc1 w2 = (orc2, w3)"
        by fastforce
      obtain t2 where l2: "logs corr [t2] orc1 orc2" "or_active orc2 = or_active orc1"
        using publishEngineEvent_logs[OF p2] by blast
      have l12: "logs corr [t1, t2] orc orc2" using logs_append[OF l1(1) l2(1)] by simp
      show ?thesis
      proof (cases e)
        case (Some m)
        then show ?thesis using Cons.prems live st p1 True f x p2 fail[OF _ l12 _ _ keep] l1(2) l2(2)
          by (auto split: go.splits)
      next
        case None
        have "run_stages env configID corr names c orc2 w3 = Ret (r, orc', w')"
          using Cons.prems(1) live st p1 True f x p2 None by simp
        moreover have "stages_keep orc2" using Cons.prems(2) l12 by (simp add: stages_keep_def logs_def)
        ultimately obtain tes where t: "logs corr tes orc2 orc'" "if r = None then or_active orc' = or_active orc2
            else or_active orc' = mdel configID (or_active orc2) \<and> tes \<noteq> [] \<and> ev_Type (snd (last tes)) = ''engine.pipeline_failed''"
          using Cons.IH[of c orc2 w3] keep by blast
        then show ?thesis using logs_append[OF l12 t(1)] l1(2) l2(2)
          by (intro exI[of _ "[t1, t2] @ tes"]) (auto split: if_splits)
      qed
    qed
  qed
qed (auto intro!: exI[of _ "[]"])

text \<open>C39: a run that returns has taken its configuration off the active ones and has stored events of one
  correlation, the last of which says whether the pipeline completed or failed; a run of an active
  configuration is refused and changes nothing.\<close>

theorem pipeline_ends:
  assumes "Start env configID actor tenant orc w = Ret (r, orc', w')" "stages_keep orc"
  shows "if IsActive orc configID then r = Some (AlreadyRunning configID) \<and> orc' = orc
    else \<not> IsActive orc' configID \<and> (\<forall>c. c \<noteq> configID \<longrightarrow> IsActive orc' c = IsActive orc c)
      \<and> (\<exists>tes corr. or_store orc' = foldl append_pair (or_store orc) tes \<and> tes \<noteq> []
           \<and> list_all (\<lambda>te. ev_CorrelationID (snd te) = corr) tes
           \<and> ev_Type (snd (last tes)) = (if r = None then ''engine.pipeline_completed'' else ''engine.pipeline_failed''))"
proof (cases "IsActive orc configID")
  case True
  then show ?thesis using assms(1) by (auto simp: Start_def IsActive_def split: prod.splits)
next
  case False
  obtain corr w1 where i: "pe_newID env w = (corr, w1)" by (cases "pe_newID env w")
  define pctx :: "'a pipe_ctx" where "pctx = \<lparr>pc_CorrelationID = corr, pc_ConfigID = configID, pc_Actor = actor, pc_Tenant = tenant,
    pc_Data = [], pc_Error = None, pc_FailedStage = []\<rparr>"
  define orc1 where "orc1 = orc\<lparr>or_active := mput configID pctx (or_active orc)\<rparr>"
  have keep: "stages_keep orc1" using assms(2) by (simp add: stages_keep_def orc1_def)
  obtain r1 orc2 w2 where run: "run_stages env configID corr (or_order orc1) pctx orc1 w1 = Ret (r1, orc2, w2)"
    using assms(1) False by (auto simp: Start_def i IsActive_def Let_def orc1_def pctx_def split: go.splits)
  obtain tes where t: "logs corr tes orc1 orc2" "if r1 = None then or_active orc2 = or_active orc1
      else or_active orc2 = mdel configID (or_active orc1) \<and> tes \<noteq> [] \<and> ev_Type (snd (last tes)) = ''engine.pipeline_failed''"
    using run_stages_logs[OF run keep] by (auto simp: pctx_def)
  show ?thesis
  proof (cases r1)
    case (Some e)
    then have "r = Some e" "orc' = orc2"
      using assms(1) False run by (auto simp: Start_def i IsActive_def Let_def orc1_def pctx_def)
    then show ?thesis using False t Some by (auto simp: IsActive_def logs_def orc1_def)
  next
    case None
    then obtain orc3 where e: "publish_end env (pe_ctx env) ''engine.pipeline_completed'' corr (PipelineCompleted actor tenant configID) orc2 w2 = Ret (orc3, w')"
      and r: "r = None" "orc' = orc3\<lparr>or_active := mdel configID (or_active orc3)\<rparr>"
      using assms(1) False run by (auto simp: Start_def i IsActive_def Let_def orc1_def pctx_def split: go.splits)
    obtain te where te: "logs corr [te] orc2 orc3" "or_active orc3 = or_active orc2" "ev_Type (snd te) = ''engine.pipeline_completed''"
      using publish_end_logs[OF e] by blast
    have "logs corr (tes @ [te]) orc1 orc3" by (rule logs_append[OF t(1) te(1)])
    then have "or_store orc' = foldl append_pair (or_store orc) (tes @ [te])
        \<and> list_all (\<lambda>te. ev_CorrelationID (snd te) = corr) (tes @ [te])"
      by (simp add: logs_def orc1_def r)
    then show ?thesis using False t(2) te None r
      by (auto simp: IsActive_def orc1_def intro!: exI[of _ "tes @ [te]"] exI[of _ corr])
  qed
qed

subsection \<open>When a pipeline completes\<close>


lemma done_key_inject [simp]: "done_key a = done_key b \<longleftrightarrow> a = b"
  by (simp add: done_key_def)

















subsection \<open>A pipeline of two stages\<close>

definition demo_stage :: "string \<Rightarrow> string list \<Rightarrow> (unit, nat) Stage" where
  "demo_stage name deps = \<lparr>ps_Name = name,
     ps_Execute = Some (\<lambda>c w. (None, c\<lparr>pc_Data := mput (done_key name) () (pc_Data c)\<rparr>, w)), ps_DependsOn = deps\<rparr>"

definition demo_stages :: "(unit, nat) Stage list" where
  "demo_stages = [demo_stage ''geometry'' [], demo_stage ''pricing'' [''geometry'']]"

definition demo_pipe_env :: "nat pipe_env" where
  "demo_pipe_env = \<lparr>pe_ctx = demo_bus_env, pe_background = demo_bus_env, pe_newID = \<lambda>w. (''id'', w)\<rparr>"

definition demo_store :: "pipe_payload Store" where
  "demo_store = \<lparr>st_entries = [], st_counter = 0, st_capacity = 0\<rparr>"

definition demo_orchestrator :: "(unit, nat) Stage list \<Rightarrow> (unit, nat) Orchestrator" where
  "demo_orchestrator sts = foldl (\<lambda>orc st. RegisterStage st orc) (NewOrchestrator (NewBus None None) demo_store) sts"





theorem pipeline_ends_witness:
  "case Start demo_pipe_env ''c'' [] [] (demo_orchestrator demo_stages) 0 of
     Panic \<Rightarrow> False | Ret (r, orc', w') \<Rightarrow> \<not> IsActive orc' ''c''"
proof -
  have k: "stages_keep (demo_orchestrator demo_stages)"
    by (simp add: stages_keep_def demo_orchestrator_def demo_stages_def demo_stage_def RegisterStage_def NewOrchestrator_def)
  have n: "\<not> IsActive (demo_orchestrator demo_stages) ''c''"
    by (simp add: IsActive_def demo_orchestrator_def demo_stages_def RegisterStage_def NewOrchestrator_def)
  have "case Start demo_pipe_env ''c'' [] [] (demo_orchestrator demo_stages) 0 of Panic \<Rightarrow> False | Ret x \<Rightarrow> True"
    by code_simp
  then obtain r orc' w' where s: "Start demo_pipe_env ''c'' [] [] (demo_orchestrator demo_stages) 0 = Ret (r, orc', w')"
    by (auto split: go.splits)
  from pipeline_ends[OF s k] n show ?thesis by (simp add: s)
qed

end
