(* ===== verification/Rate_Limit.thy ===== *)
theory Rate_Limit
  imports Prelude "HOL-Library.Word"
begin

text \<open>
  \<open>internal/infrastructure/security/ratelimit.go\<close>: the rate limiter with a sliding window, the choice of
  a limiter per endpoint, and the printing of a number. The clock is an argument. Metrics and the HTTP
  headers of the middleware are left out; its decision is the answer of \<open>AllowWithInfo\<close>.
\<close>

record RateLimiter =
  rl_requests :: "(string \<times> int list) list"
  rl_limit :: int
  rl_window :: int
  rl_total :: int
  rl_blocked :: int

definition NewRateLimiter :: "int \<Rightarrow> int \<Rightarrow> RateLimiter" where
  "NewRateLimiter limit window = \<lparr>rl_requests = [], rl_limit = limit, rl_window = window, rl_total = 0, rl_blocked = 0\<rparr>"

definition requests_of :: "RateLimiter \<Rightarrow> string \<Rightarrow> int list" where
  "requests_of rl key = (case map_of (rl_requests rl) key of None \<Rightarrow> [] | Some ts \<Rightarrow> ts)"

definition AllowWithInfo :: "int \<Rightarrow> string \<Rightarrow> RateLimiter \<Rightarrow> (int \<times> int \<times> bool) \<times> RateLimiter" where
  "AllowWithInfo now key rl =
     (let windowStart = now - rl_window rl;
          validRequests = filter (\<lambda>t. t > windowStart) (requests_of rl key);
          rl1 = rl\<lparr>rl_total := rl_total rl + 1\<rparr>;
          remaining = rl_limit rl - int (length validRequests) in
      if remaining \<le> 0 then ((0, now + rl_window rl, False), rl1\<lparr>rl_blocked := rl_blocked rl + 1\<rparr>)
      else ((remaining - 1, now + rl_window rl, True),
            rl1\<lparr>rl_requests := mput key (validRequests @ [now]) (rl_requests rl1)\<rparr>))"

definition Allow :: "int \<Rightarrow> string \<Rightarrow> RateLimiter \<Rightarrow> bool \<times> RateLimiter" where
  "Allow now key rl = (case AllowWithInfo now key rl of ((remaining, resetAt, allowed), rl') \<Rightarrow> (allowed, rl'))"

definition limiter_Stats :: "RateLimiter \<Rightarrow> int \<times> int \<times> int" where
  "limiter_Stats rl = (rl_total rl, rl_blocked rl, int (length (rl_requests rl)))"

record MultiRateLimiter =
  ml_limiters :: "(string \<times> RateLimiter) list"
  ml_default :: RateLimiter

definition NewMultiRateLimiter :: "int \<Rightarrow> int \<Rightarrow> MultiRateLimiter" where
  "NewMultiRateLimiter limit window = \<lparr>ml_limiters = [], ml_default = NewRateLimiter limit window\<rparr>"

definition AddEndpoint :: "string \<Rightarrow> int \<Rightarrow> int \<Rightarrow> MultiRateLimiter \<Rightarrow> MultiRateLimiter" where
  "AddEndpoint path limit window m = m\<lparr>ml_limiters := mput path (NewRateLimiter limit window) (ml_limiters m)\<rparr>"

definition getLimiter :: "MultiRateLimiter \<Rightarrow> string \<Rightarrow> RateLimiter" where
  "getLimiter m path = (case map_of (ml_limiters m) path of Some rl \<Rightarrow> rl | None \<Rightarrow> ml_default m)"

text \<open>\<open>intToString\<close> on an \<open>int\<close>: the digits are written from the end of a buffer of 20 bytes; \<open>-n\<close> wraps.\<close>

fun write_digits :: "nat \<Rightarrow> string \<Rightarrow> string" where
  "write_digits n buf = (if n = 0 then buf else write_digits (n div 10) (char_of (48 + n mod 10 :: nat) # buf))"

declare write_digits.simps [simp del]

definition intToString :: "64 word \<Rightarrow> string" where
  "intToString n =
     (if n = 0 then ''0''
      else let neg = (sint n < 0); m = (if neg then - n else n);
               buf = (if sint m > 0 then write_digits (nat (sint m)) [] else []) in
        if neg then CHR ''-'' # buf else buf)"

subsection \<open>The sliding window\<close>

text \<open>A run of calls for any keys, and the times of the allowed calls of one key.\<close>

fun run_calls :: "(int \<times> string) list \<Rightarrow> RateLimiter \<Rightarrow> (int \<times> string \<times> bool) list" where
  "run_calls [] rl = []"
| "run_calls ((t, k) # cs) rl = (case Allow t k rl of (ok, rl1) \<Rightarrow> (t, k, ok) # run_calls cs rl1)"

definition allowed_times :: "string \<Rightarrow> (int \<times> string \<times> bool) list \<Rightarrow> int list" where
  "allowed_times key calls = map fst (filter (\<lambda>(t, k, ok). k = key \<and> ok) calls)"

lemma allowed_times_simps [simp]:
  "allowed_times key [] = []"
  "allowed_times key ((t, k, ok) # cs) = (if k = key \<and> ok then [t] else []) @ allowed_times key cs"
  "allowed_times key (xs @ ys) = allowed_times key xs @ allowed_times key ys"
  by (simp_all add: allowed_times_def)

text \<open>The number of times in the window of length \<open>w\<close> after \<open>a\<close>.\<close>

definition in_window :: "int \<Rightarrow> int \<Rightarrow> int list \<Rightarrow> int" where
  "in_window a w ts = int (length (filter (\<lambda>s. a < s \<and> s \<le> a + w) ts))"

text \<open>What the limiter remembers of a key: the allowed requests that can still be in a window.\<close>

definition remembers :: "RateLimiter \<Rightarrow> string \<Rightarrow> int list \<Rightarrow> int \<Rightarrow> bool" where
  "remembers rl key ts now \<longleftrightarrow> (\<forall>t \<in> set ts. t \<le> now)
     \<and> (\<forall>s \<ge> now - rl_window rl. filter (\<lambda>t. t > s) (requests_of rl key) = filter (\<lambda>t. t > s) ts)"

lemma requests_of_put [simp]:
  "requests_of (rl\<lparr>rl_total := n, rl_requests := mput k ts (rl_requests rl)\<rparr>) key = (if key = k then ts else requests_of rl key)"
  "requests_of (rl\<lparr>rl_total := n\<rparr>) key = requests_of rl key"
  "requests_of (rl\<lparr>rl_total := n, rl_blocked := m\<rparr>) key = requests_of rl key"
  by (simp_all add: requests_of_def)

lemma allow_step:
  assumes "remembers rl key ts now" "now \<le> t" "Allow t k rl = (ok, rl1)"
  shows "remembers rl1 key (ts @ (if k = key \<and> ok then [t] else [])) t"
    "k = key \<Longrightarrow> ok \<longleftrightarrow> in_window (t - rl_window rl) (rl_window rl) ts < rl_limit rl"
    "rl_limit rl1 = rl_limit rl" "rl_window rl1 = rl_window rl"
proof -
  have later: "filter (\<lambda>u. u > s) (requests_of rl key) = filter (\<lambda>u. u > s) ts" if "s \<ge> t - rl_window rl" for s
    using assms(1,2) that by (simp add: remembers_def)
  have old: "\<forall>u \<in> set ts. u \<le> t" using assms(1,2) by (force simp: remembers_def)
  then have "filter (\<lambda>s. t - rl_window rl < s \<and> s \<le> t - rl_window rl + rl_window rl) ts = filter (\<lambda>s. t - rl_window rl < s) ts"
    by (intro filter_cong) auto
  then have w: "in_window (t - rl_window rl) (rl_window rl) ts
      = int (length (filter (\<lambda>u. u > t - rl_window rl) (requests_of rl key)))"
    by (simp add: in_window_def later)
  have two: "filter (\<lambda>u. u > s) (filter (\<lambda>u. u > t - rl_window rl) xs) = filter (\<lambda>u. u > s) xs"
    if "s \<ge> t - rl_window rl" for s and xs :: "int list"
    using that by (induction xs) auto
  show "k = key \<Longrightarrow> ok \<longleftrightarrow> in_window (t - rl_window rl) (rl_window rl) ts < rl_limit rl"
    "rl_limit rl1 = rl_limit rl" "rl_window rl1 = rl_window rl"
    using assms(3) by (auto simp: Allow_def AllowWithInfo_def Let_def w split: if_splits)
  show "remembers rl1 key (ts @ (if k = key \<and> ok then [t] else [])) t"
    using assms(3) old later two
    by (auto simp: Allow_def AllowWithInfo_def Let_def remembers_def simp del: filter_filter split: if_splits)
qed

lemma window_step:
  assumes "\<forall>u \<in> set ts. u \<le> t" "in_window a w ts \<le> max 0 limit" "in_window (t - w) w ts < limit" "0 \<le> w"
  shows "in_window a w (ts @ [t]) \<le> max 0 limit"
proof (cases "a < t \<and> t \<le> a + w")
  case True
  then have "length (filter (\<lambda>s. a < s \<and> s \<le> a + w) ts) \<le> length (filter (\<lambda>s. t - w < s \<and> s \<le> t - w + w) ts)"
    using assms(1) by (induction ts) auto
  then show ?thesis using True assms(3) by (simp add: in_window_def)
qed (use assms(2) in \<open>auto simp: in_window_def\<close>)

lemma run_window:
  assumes "remembers rl key ts now" "sorted (now # map fst cs)" "0 \<le> rl_window rl"
    "\<And>a. in_window a (rl_window rl) ts \<le> max 0 (rl_limit rl)"
  shows "in_window a (rl_window rl) (ts @ allowed_times key (run_calls cs rl)) \<le> max 0 (rl_limit rl)"
    and "run_calls cs rl = pre @ (t, key, ok) # post \<Longrightarrow>
      ok \<longleftrightarrow> in_window (t - rl_window rl) (rl_window rl) (ts @ allowed_times key pre) < rl_limit rl"
proof -
  have "in_window a (rl_window rl) (ts @ allowed_times key (run_calls cs rl)) \<le> max 0 (rl_limit rl)
    \<and> (run_calls cs rl = pre @ (t, key, ok) # post \<longrightarrow>
      ok = (in_window (t - rl_window rl) (rl_window rl) (ts @ allowed_times key pre) < rl_limit rl))"
    using assms
  proof (induction cs arbitrary: rl ts now pre)
    case (Cons c cs)
    obtain u k where c: "c = (u, k)" by (cases c)
    obtain ok1 rl1 where al: "Allow u k rl = (ok1, rl1)" by (cases "Allow u k rl")
    have nu: "now \<le> u" using Cons.prems(2) by (simp add: c)
    note st = allow_step[OF Cons.prems(1) nu al]
    let ?ts = "ts @ (if k = key \<and> ok1 then [u] else [])"
    have old: "\<forall>x \<in> set ts. x \<le> u" using Cons.prems(1) nu by (force simp: remembers_def)
    have bound: "in_window b (rl_window rl) ?ts \<le> max 0 (rl_limit rl)" for b
      using window_step[OF old Cons.prems(4)] st(2) Cons.prems(3,4) by auto
    have so: "sorted (u # map fst cs)" using Cons.prems(2) by (simp add: c)
    have IH: "in_window a (rl_window rl) (?ts @ allowed_times key (run_calls cs rl1)) \<le> max 0 (rl_limit rl)
      \<and> (run_calls cs rl1 = pre1 @ (t, key, ok) # post \<longrightarrow>
        ok = (in_window (t - rl_window rl) (rl_window rl) (?ts @ allowed_times key pre1) < rl_limit rl))" for pre1
      using Cons.IH[OF st(1) so, of pre1] bound Cons.prems(3) by (simp add: st(3,4))
    show ?case
    proof (cases pre)
      case Nil
      then show ?thesis using IH[of "[]"] st(2) by (auto simp: c al)
    next
      case (Cons p pre1)
      then show ?thesis using IH[of pre1] by (auto simp: c al)
    qed
  qed (simp add: in_window_def)
  then show "in_window a (rl_window rl) (ts @ allowed_times key (run_calls cs rl)) \<le> max 0 (rl_limit rl)"
    and "run_calls cs rl = pre @ (t, key, ok) # post \<Longrightarrow>
      ok \<longleftrightarrow> in_window (t - rl_window rl) (rl_window rl) (ts @ allowed_times key pre) < rl_limit rl" by auto
qed

text \<open>C40: under a clock that does not go back, whatever keys are asked for in between, no window of the
  limiter's length holds more than \<open>limit\<close> allowed requests of a key, and a request is allowed exactly when
  the window that ends at it holds fewer.\<close>

theorem sliding_window:
  assumes "sorted (map fst cs)" "0 \<le> window"
  shows "in_window a window (allowed_times key (run_calls cs (NewRateLimiter limit window))) \<le> max 0 limit
    \<and> (\<forall>pre t ok post. run_calls cs (NewRateLimiter limit window) = pre @ (t, key, ok) # post \<longrightarrow>
        ok = (in_window (t - window) window (allowed_times key pre) < limit))"
proof -
  let ?rl = "NewRateLimiter limit window"
  define now where "now = (case cs of [] \<Rightarrow> 0 | c # _ \<Rightarrow> fst c)"
  have "remembers ?rl key [] now" by (simp add: remembers_def NewRateLimiter_def requests_of_def)
  moreover have "sorted (now # map fst cs)" using assms(1) by (cases cs) (auto simp: now_def)
  moreover have "\<And>a. in_window a (rl_window ?rl) [] \<le> max 0 (rl_limit ?rl)" by (simp add: in_window_def)
  ultimately show ?thesis
    using run_window[of ?rl key "[]" now cs] assms(2) by (simp add: NewRateLimiter_def)
qed

theorem sliding_window_witness:
  "map (snd \<circ> snd) (run_calls [(0, ''a''), (1, ''a''), (2, ''b''), (3, ''a''), (11, ''a'')] (NewRateLimiter 2 10)) = [True, True, True, False, True]
   \<and> in_window (- 1) 10 (allowed_times ''a'' (run_calls [(0, ''a''), (1, ''a''), (2, ''b''), (3, ''a''), (11, ''a'')] (NewRateLimiter 2 10))) \<le> 2"
proof -
  have "map (snd \<circ> snd) (run_calls [(0, ''a''), (1, ''a''), (2, ''b''), (3, ''a''), (11, ''a'')] (NewRateLimiter 2 10))
    = [True, True, True, False, True]" by code_simp
  then show ?thesis
    using sliding_window[of "[(0, ''a''), (1, ''a''), (2, ''b''), (3, ''a''), (11, ''a'')]" 10 "- 1" "''a''" 2] by simp
qed

text \<open>The smallest integer has no positive counterpart, and is printed as a bare sign.\<close>

theorem intToString_min: "intToString (- (2 ^ 63)) = ''-''"
  by (simp add: intToString_def)

end
