(* ===== verification/Param_Model.thy ===== *)
theory Param_Model
  imports Graph_Scheduler
begin

text \<open>
  The parametric model of the geometry kernel, \<open>internal/geometry/param.go\<close> and \<open>model.go\<close>: parameters
  whose dependencies live in the graph of theory Graph\_Core, and their partial recomputation. A value
  (\<open>any\<close>) is a type variable, nil is \<open>None\<close>. A formula of the code is a function on the model; here it
  is a name, and the argument \<open>ev\<close> of \<open>Rebuild\<close> gives the function a name stands for. Formulas read the
  model and do not change it. \<open>NilParam\<close> is the panic on a parameter that is not in the map.
\<close>

type_synonym ParamType = string
type_synonym ParamState = string

definition StateDefined :: ParamState where "StateDefined = ''defined''"
definition StateCalculated :: ParamState where "StateCalculated = ''calculated''"
definition StateLocked :: ParamState where "StateLocked = ''locked''"
definition StateDerived :: ParamState where "StateDerived = ''derived''"
definition StateInvalid :: ParamState where "StateInvalid = ''invalid''"

record ('v, 'f) Parameter =
  gp_ID :: string
  gp_Owner :: string
  gp_Type :: ParamType
  gp_State :: ParamState
  gp_Value :: "'v option"
  gp_Formula :: "'f option"

definition NewParameter :: "string \<Rightarrow> string \<Rightarrow> ParamType \<Rightarrow> 'v \<Rightarrow> ('v, 'f) Parameter" where
  "NewParameter i owner typ' v = \<lparr>gp_ID = i, gp_Owner = owner, gp_Type = typ', gp_State = StateDefined,
     gp_Value = Some v, gp_Formula = None\<rparr>"

definition NewDerivedParameter :: "string \<Rightarrow> string \<Rightarrow> ParamType \<Rightarrow> 'f \<Rightarrow> ('v, 'f) Parameter" where
  "NewDerivedParameter i owner typ' f = \<lparr>gp_ID = i, gp_Owner = owner, gp_Type = typ', gp_State = StateDerived,
     gp_Value = None, gp_Formula = Some f\<rparr>"

record ('v, 'f) ParametricModel =
  pa_g :: "unit Graph"
  pa_params :: "(string \<times> ('v, 'f) Parameter) list"

datatype param_error =
    NoParamID | NoOwner string | DuplicateParam string | UnknownParam string | DependencyCycle string string
  | ParamLocked string | GraphFailed graph_error

datatype 'e rebuild_error = RebuildPlan graph_error | FormulaFailed string 'e | NilParam string

text \<open>An operation returns its error, if any, and the model it leaves.\<close>

type_synonym ('r, 'v, 'f) model_op = "('v, 'f) ParametricModel \<Rightarrow> 'r option \<times> ('v, 'f) ParametricModel"

definition NewParametricModel :: "('v, 'f) ParametricModel" where
  "NewParametricModel = \<lparr>pa_g = New, pa_params = []\<rparr>"

definition param_node :: "string \<Rightarrow> unit Node" where
  "param_node i = \<lparr>nd_ID = i, nd_Type = ''parameter'', nd_Version = 0, nd_State = '''', nd_Payload = (), nd_Metadata = []\<rparr>"

definition param_edge :: "string \<Rightarrow> string \<Rightarrow> Edge" where
  "param_edge dep oth = \<lparr>ed_ID = '''', ed_From = dep, ed_To = oth, ed_Type = '''', ed_Weight = Fin 0, ed_Metadata = []\<rparr>"

text \<open>Registering the node of a parameter, at the end of \<open>Add\<close> and \<open>Set\<close>.\<close>

definition touch_node :: "string \<Rightarrow> (param_error, 'v, 'f) model_op" where
  "touch_node i m = (case AddNode (pa_g m) (param_node i) of
     Inl e \<Rightarrow> (Some (GraphFailed e), m) | Inr g \<Rightarrow> (None, m\<lparr>pa_g := g\<rparr>))"

definition AddParam :: "('v, 'f) Parameter \<Rightarrow> (param_error, 'v, 'f) model_op" where
  "AddParam p m =
     (if gp_ID p = '''' then (Some NoParamID, m)
      else if gp_Owner p = '''' then (Some (NoOwner (gp_ID p)), m)
      else if map_of (pa_params m) (gp_ID p) \<noteq> None then (Some (DuplicateParam (gp_ID p)), m)
      else touch_node (gp_ID p) (m\<lparr>pa_params := mput (gp_ID p) p (pa_params m)\<rparr>))"

definition AddDependency :: "string \<Rightarrow> string \<Rightarrow> (param_error, 'v, 'f) model_op" where
  "AddDependency dep oth m =
     (if map_of (pa_params m) dep = None then (Some (UnknownParam dep), m)
      else if map_of (pa_params m) oth = None then (Some (UnknownParam oth), m)
      else case AddEdge (pa_g m) (param_edge dep oth) of
        Inl e \<Rightarrow> (Some (GraphFailed e), m)
      | Inr g \<Rightarrow>
          if HasCycle g then (Some (DependencyCycle dep oth), m\<lparr>pa_g := snd (RemoveEdge g dep oth)\<rparr>)
          else (None, m\<lparr>pa_g := g\<rparr>))"

definition SetParam :: "string \<Rightarrow> 'v option \<Rightarrow> (param_error, 'v, 'f) model_op" where
  "SetParam i v m =
     (case map_of (pa_params m) i of
        None \<Rightarrow> (Some (UnknownParam i), m)
      | Some p \<Rightarrow>
          if gp_State p = StateLocked then (Some (ParamLocked i), m)
          else touch_node i (m\<lparr>pa_params := mput i (p\<lparr>gp_Value := v, gp_State := StateDefined\<rparr>) (pa_params m)\<rparr>))"

definition get_Parameter :: "('v, 'f) ParametricModel \<Rightarrow> string \<Rightarrow> ('v, 'f) Parameter option" where
  "get_Parameter m i = map_of (pa_params m) i"

type_synonym ('e, 'v, 'f) formulas = "'f \<Rightarrow> ('v, 'f) ParametricModel \<Rightarrow> ('e, 'v option) result"

definition put_param :: "string \<Rightarrow> ('v, 'f) Parameter \<Rightarrow> ('v, 'f) ParametricModel \<Rightarrow> ('v, 'f) ParametricModel" where
  "put_param i p m = m\<lparr>pa_params := mput i p (pa_params m)\<rparr>"

fun rebuild_loop :: "('e, 'v, 'f) formulas \<Rightarrow> string list \<Rightarrow> ('e rebuild_error, 'v, 'f) model_op" where
  "rebuild_loop ev [] m = (None, m)"
| "rebuild_loop ev (i # is) m =
     (case map_of (pa_params m) i of
        None \<Rightarrow> (Some (NilParam i), m)
      | Some p \<Rightarrow>
          (case gp_Formula p of
             None \<Rightarrow> rebuild_loop ev is m
           | Some f \<Rightarrow>
               (case ev f m of
                  Inl e \<Rightarrow> (Some (FormulaFailed i e), put_param i (p\<lparr>gp_State := StateInvalid\<rparr>) m)
                | Inr v \<Rightarrow> rebuild_loop ev is (put_param i (p\<lparr>gp_Value := v, gp_State := StateCalculated\<rparr>) m))))"

definition Rebuild :: "('e, 'v, 'f) formulas \<Rightarrow> string list \<Rightarrow> ('e rebuild_error, 'v, 'f) model_op" where
  "Rebuild ev changed m =
     (case Plan (pa_g m) changed of
        Inl e \<Rightarrow> (Some (RebuildPlan e), m)
      | Inr plan \<Rightarrow>
          (case rebuild_loop ev plan m of
             (Some e, m') \<Rightarrow> (Some e, m')
           | (None, m') \<Rightarrow>
               (None, m'\<lparr>pa_g := fold (\<lambda>i g. MarkClean g i) changed (fold (\<lambda>i g. MarkClean g i) plan (pa_g m'))\<rparr>)))"

subsection \<open>Models a program builds\<close>

inductive pm_built :: "('e, 'v, 'f) formulas \<Rightarrow> ('v, 'f) ParametricModel \<Rightarrow> bool" for ev where
  pm_new: "pm_built ev NewParametricModel"
| pm_add: "pm_built ev m \<Longrightarrow> no_arrow (gp_ID p) \<Longrightarrow> pm_built ev (snd (AddParam p m))"
| pm_dep: "pm_built ev m \<Longrightarrow> pm_built ev (snd (AddDependency dep oth m))"
| pm_set: "pm_built ev m \<Longrightarrow> pm_built ev (snd (SetParam i v m))"
| pm_reb: "pm_built ev m \<Longrightarrow> pm_built ev (snd (Rebuild ev changed m))"

definition pm_ok :: "('v, 'f) ParametricModel \<Rightarrow> bool" where
  "pm_ok m \<longleftrightarrow> wf_graph (pa_g m) \<and> acyclic (arcs (pa_g m)) \<and> node_ids (pa_g m) = dom (map_of (pa_params m))"

lemma pm_okD:
  "pm_ok m \<Longrightarrow> wf_graph (pa_g m)" "pm_ok m \<Longrightarrow> acyclic (arcs (pa_g m))"
  "pm_ok m \<Longrightarrow> node_ids (pa_g m) = dom (map_of (pa_params m))"
  by (auto simp: pm_ok_def)

lemma pm_ok_new: "pm_ok NewParametricModel"
proof -
  have "arcs (New :: unit Graph) = {}" "node_ids (New :: unit Graph) = {}"
    by (simp_all add: arcs_def New_def adj_def node_ids_def)
  then show ?thesis by (simp add: pm_ok_def NewParametricModel_def wf_New acyclic_def)
qed

lemma touch_node_spec:
  assumes "wf_graph (pa_g m)" "i \<noteq> []"
  shows "\<exists>g. touch_node i m = (None, m\<lparr>pa_g := g\<rparr>) \<and> AddNode (pa_g m) (param_node i) = Inr g
    \<and> node_ids g = insert i (node_ids (pa_g m)) \<and> arcs g = arcs (pa_g m)"
proof (cases "AddNode (pa_g m) (param_node i)")
  case (Inl e)
  then show ?thesis using assms(2) by (auto simp: AddNode_def param_node_def result_iffs Let_def)
next
  case (Inr g)
  then show ?thesis using AddNode_Inr_D[OF wf_graphD(1)[OF assms(1)] Inr]
    by (simp add: touch_node_def param_node_def)
qed

lemma pm_ok_touch:
  assumes "wf_graph (pa_g m)" "acyclic (arcs (pa_g m))" "i \<noteq> []" "no_arrow i"
    "insert i (node_ids (pa_g m)) = dom (map_of (pa_params m))"
  shows "case touch_node i m of (r, m') \<Rightarrow> r = None \<and> pm_ok m' \<and> pa_params m' = pa_params m
    \<and> arcs (pa_g m') = arcs (pa_g m)"
proof -
  obtain g where g: "touch_node i m = (None, m\<lparr>pa_g := g\<rparr>)" "AddNode (pa_g m) (param_node i) = Inr g"
    "node_ids g = insert i (node_ids (pa_g m))" "arcs g = arcs (pa_g m)"
    using touch_node_spec[OF assms(1,3)] by blast
  have "wf_graph g" using AddNode_keeps[OF assms(1) g(2)] assms(4) by (simp add: param_node_def)
  then show ?thesis unfolding g(1) using g(3,4) assms by (simp add: pm_ok_def)
qed

lemma pm_ok_id: "pm_ok m \<Longrightarrow> map_of (pa_params m) i = Some p \<Longrightarrow> i \<noteq> [] \<and> no_arrow i"
  using wf_graphD(2)[of "pa_g m" i] graph_okD(5)[OF wf_graphD(1), of "pa_g m" i]
  by (auto simp: pm_ok_def node_ids_def dom_def set_eq_iff)

lemma pm_ok_add: assumes "pm_ok m" "no_arrow (gp_ID p)" shows "pm_ok (snd (AddParam p m))"
  using assms pm_ok_touch[of "m\<lparr>pa_params := mput (gp_ID p) p (pa_params m)\<rparr>" "gp_ID p"]
  by (auto simp: AddParam_def pm_ok_def split: prod.splits)

lemma SetParam_ok:
  assumes "pm_ok m" "map_of (pa_params m) i = Some p" "gp_State p \<noteq> StateLocked"
  shows "case SetParam i v m of (r, m') \<Rightarrow> r = None \<and> pm_ok m' \<and> arcs (pa_g m') = arcs (pa_g m)
    \<and> pa_params m' = mput i (p\<lparr>gp_Value := v, gp_State := StateDefined\<rparr>) (pa_params m)"
proof -
  let ?m = "m\<lparr>pa_params := mput i (p\<lparr>gp_Value := v, gp_State := StateDefined\<rparr>) (pa_params m)\<rparr>"
  have "insert i (node_ids (pa_g m)) = dom (map_of (pa_params ?m))"
    using pm_okD(3)[OF assms(1)] by simp
  then show ?thesis using pm_ok_touch[of ?m i] pm_ok_id[OF assms(1,2)] pm_okD[OF assms(1)] assms(2,3)
    by (simp add: SetParam_def split: prod.splits)
qed

lemma pm_ok_set: assumes "pm_ok m" shows "pm_ok (snd (SetParam i v m))"
proof (cases "map_of (pa_params m) i")
  case (Some p)
  then show ?thesis using SetParam_ok[OF assms Some, of v] assms
    by (cases "gp_State p = StateLocked") (auto simp: SetParam_def split: prod.splits)
qed (use assms in \<open>simp add: SetParam_def\<close>)

text \<open>A dependency is registered exactly when both parameters are there and it closes no cycle; a refused
  one leaves the arcs as they were.\<close>

lemma HasCycle_wf: "wf_graph g \<Longrightarrow> HasCycle g \<longleftrightarrow> \<not> acyclic (arcs g)"
  using TopologicalSort_wf[of g] by (auto simp: HasCycle_def split: sum.splits)

lemma AddDependency_ok:
  assumes "pm_ok m"
  shows "case AddDependency dep oth m of (r, m') \<Rightarrow> pm_ok m' \<and> pa_params m' = pa_params m
    \<and> (r = None \<longleftrightarrow> map_of (pa_params m) dep \<noteq> None \<and> map_of (pa_params m) oth \<noteq> None
         \<and> (oth, dep) \<notin> (arcs (pa_g m))\<^sup>*)
    \<and> arcs (pa_g m') = (if r = None then insert (dep, oth) (arcs (pa_g m)) else arcs (pa_g m))"
proof (cases "map_of (pa_params m) dep = None \<or> map_of (pa_params m) oth = None")
  case True
  then show ?thesis using assms by (auto simp: AddDependency_def)
next
  case False
  note ok = pm_okD[OF assms]
  have "HasNode (pa_g m) dep" "HasNode (pa_g m) oth"
    using False ok(3) by (auto simp: HasNode_iff)
  moreover have "AddEdge (pa_g m) (param_edge dep oth) \<noteq> Inl NilMapPanic"
    by (rule AddEdge_no_panic[OF wf_graphD(1)[OF ok(1)]])
  ultimately obtain g where g: "AddEdge (pa_g m) (param_edge dep oth) = Inr g"
    by (cases "AddEdge (pa_g m) (param_edge dep oth)")
      (auto simp: AddEdge_def param_edge_def guard_with_def Let_def split: option.splits if_splits)
  note d = AddEdge_Inr_D[OF wf_graphD(1)[OF ok(1)] g]
  have wf: "wf_graph g" by (rule AddEdge_keeps[OF ok(1) g]) (simp add: param_edge_def)
  have arcs: "arcs g = insert (dep, oth) (arcs (pa_g m))" using d(5) by (simp add: param_edge_def)
  have ids: "node_ids g = node_ids (pa_g m)" using d(3) by (simp add: node_ids_def)
  have c: "HasCycle g \<longleftrightarrow> (oth, dep) \<in> (arcs (pa_g m))\<^sup>*"
    using HasCycle_wf[OF wf] ok(2) by (simp add: arcs acyclic_insert)
  show ?thesis
  proof (cases "HasCycle g")
    case True
    then have "(dep, oth) \<notin> arcs (pa_g m)"
      using c ok(2) by (meson acyclic_def rtrancl_into_trancl1)
    then have "arcs (snd (RemoveEdge g dep oth)) = arcs (pa_g m)"
      using removeEdgeFrom_arcs[OF wf] arcs by (simp add: RemoveEdge_def)
    moreover have "wf_graph (snd (RemoveEdge g dep oth))"
      using removeEdgeFrom_keeps[OF wf] by (simp add: RemoveEdge_def)
    moreover have "node_ids (snd (RemoveEdge g dep oth)) = node_ids (pa_g m)"
      using ids by (simp add: RemoveEdge_def node_ids_def keep)
    ultimately show ?thesis using True c False g ok by (simp add: AddDependency_def pm_ok_def)
  next
    case f: False
    then show ?thesis using False c g ok wf arcs ids HasCycle_wf[OF wf] by (simp add: AddDependency_def pm_ok_def)
  qed
qed

subsection \<open>What a rebuild leaves\<close>

definition val :: "('v, 'f) ParametricModel \<Rightarrow> string \<Rightarrow> 'v option option" where
  "val m i = map_option gp_Value (map_of (pa_params m) i)"

definition formula_of :: "('v, 'f) ParametricModel \<Rightarrow> string \<Rightarrow> 'f option" where
  "formula_of m i = Option.bind (map_of (pa_params m) i) gp_Formula"

text \<open>The parameter has the value of its formula, if it has one.\<close>

definition holds :: "('e, 'v, 'f) formulas \<Rightarrow> ('v, 'f) ParametricModel \<Rightarrow> string \<Rightarrow> bool" where
  "holds ev m i \<longleftrightarrow> (case formula_of m i of None \<Rightarrow> True | Some f \<Rightarrow> \<exists>v. ev f m = Inr v \<and> val m i = Some v)"

text \<open>A formula reads no values but those of the declared dependencies of its parameter.\<close>

definition declared :: "('e, 'v, 'f) formulas \<Rightarrow> ('v, 'f) ParametricModel \<Rightarrow> bool" where
  "declared ev m \<longleftrightarrow> (\<forall>i f m1 m2. formula_of m i = Some f
     \<longrightarrow> (\<forall>u. (u, i) \<in> arcs (pa_g m) \<longrightarrow> val m1 u = val m2 u) \<longrightarrow> ev f m1 = ev f m2)"

lemma declaredD:
  "declared ev m \<Longrightarrow> formula_of m i = Some f \<Longrightarrow> (\<And>u. (u, i) \<in> arcs (pa_g m) \<Longrightarrow> val m1 u = val m2 u) \<Longrightarrow> ev f m1 = ev f m2"
  by (auto simp: declared_def)

lemma put_param_simps [simp]:
  "val (put_param i p m) j = (if j = i then Some (gp_Value p) else val m j)"
  "pa_g (put_param i p m) = pa_g m"
  "formula_of (put_param i p m) j = (if j = i then gp_Formula p else formula_of m j)"
  "map_of (pa_params (put_param i p m)) j = (if j = i then Some p else map_of (pa_params m) j)"
  by (auto simp: put_param_def val_def formula_of_def)

text \<open>A list in which the dependencies of an element within the list come before it.\<close>

definition ordered :: "(string \<times> string) set \<Rightarrow> string list \<Rightarrow> bool" where
  "ordered A is \<longleftrightarrow> distinct is \<and> (\<forall>xs v ys. is = xs @ v # ys \<longrightarrow> (\<forall>u \<in> set is. (u, v) \<in> A \<longrightarrow> u \<in> set xs))"

lemma ordered_Cons:
  assumes "ordered A (i # is)"
  shows "ordered A is" "i \<notin> set is" "u \<in> set (i # is) \<Longrightarrow> (u, i) \<notin> A"
proof -
  have d: "distinct (i # is)" and o: "\<And>xs v ys u. i # is = xs @ v # ys \<Longrightarrow> u \<in> set (i # is) \<Longrightarrow> (u, v) \<in> A \<Longrightarrow> u \<in> set xs"
    using assms by (auto simp: ordered_def)
  have "u \<in> set xs" if "is = xs @ v # ys" "u \<in> set is" "(u, v) \<in> A" for xs v ys u
    using o[of "i # xs" v ys u] that d by auto
  then show "ordered A is" using d by (auto simp: ordered_def)
  show "i \<notin> set is" using d by simp
  show "u \<in> set (i # is) \<Longrightarrow> (u, i) \<notin> A" using o[of "[]" i "is" u] by auto
qed

lemma rebuild_loop_frame:
  assumes "rebuild_loop ev is m = (r, m')"
  shows "pa_g m' = pa_g m \<and> (\<forall>j. j \<notin> set is \<longrightarrow> map_of (pa_params m') j = map_of (pa_params m) j)
    \<and> dom (map_of (pa_params m')) = dom (map_of (pa_params m)) \<and> (\<forall>j. formula_of m' j = formula_of m j)"
  using assms
proof (induction "is" arbitrary: m)
  case (Cons i "is")
  show ?case
  proof (cases "map_of (pa_params m) i")
    case None then show ?thesis using Cons.prems by simp
  next
    case p: (Some p)
    have fo: "formula_of m i = gp_Formula p" by (simp add: formula_of_def p)
    show ?thesis
    proof (cases "gp_Formula p")
      case None then show ?thesis using Cons.prems p Cons.IH[of m] by simp
    next
      case (Some f)
      show ?thesis
      proof (cases "ev f m")
        case (Inl e)
        then have "m' = put_param i (p\<lparr>gp_State := StateInvalid\<rparr>) m" using Cons.prems p Some by simp
        then show ?thesis using p fo by (auto simp: dom_def)
      next
        case (Inr v)
        have "rebuild_loop ev is (put_param i (p\<lparr>gp_Value := v, gp_State := StateCalculated\<rparr>) m) = (r, m')"
          using Cons.prems p Some Inr by simp
        from Cons.IH[OF this] show ?thesis using p fo by (auto simp: dom_def)
      qed
    qed
  qed
qed simp

lemma val_cong: "map_of (pa_params m) i = map_of (pa_params m') i \<Longrightarrow> val m i = val m' i"
  by (simp add: val_def)

lemma rebuild_loop_holds:
  assumes "rebuild_loop ev is m = (None, m')" "ordered (arcs (pa_g m)) is" "declared ev m" "j \<in> set is"
  shows "holds ev m' j"
  using assms
proof (induction "is" arbitrary: m)
  case (Cons i "is")
  note oc = ordered_Cons[OF Cons.prems(2)]
  obtain p where p: "map_of (pa_params m) i = Some p"
    using Cons.prems(1) by (cases "map_of (pa_params m) i") auto
  have fo: "formula_of m i = gp_Formula p" by (simp add: formula_of_def p)
  have dec: "declared ev (put_param i (p\<lparr>gp_Value := v, gp_State := s\<rparr>) m)" for v s
    using Cons.prems(3) fo by (auto simp: declared_def split: if_splits)
  show ?case
  proof (cases "gp_Formula p")
    case None
    then have l: "rebuild_loop ev is m = (None, m')" using Cons.prems(1) p by simp
    show ?thesis
    proof (cases "j = i")
      case True
      then show ?thesis using rebuild_loop_frame[OF l] fo None by (simp add: holds_def)
    next
      case False
      then show ?thesis using Cons.IH[OF l oc(1) Cons.prems(3)] Cons.prems(4) by simp
    qed
  next
    case (Some f)
    then obtain v where v: "ev f m = Inr v" using Cons.prems(1) p by (cases "ev f m") auto
    let ?m1 = "put_param i (p\<lparr>gp_Value := v, gp_State := StateCalculated\<rparr>) m"
    have l: "rebuild_loop ev is ?m1 = (None, m')" using Cons.prems(1) p Some v by simp
    note fr = rebuild_loop_frame[OF l]
    show ?thesis
    proof (cases "j = i")
      case True
      have "ev f m' = ev f m"
      proof (rule declaredD[OF Cons.prems(3)])
        show "formula_of m i = Some f" by (simp add: fo Some)
        show "val m' u = val m u" if "(u, i) \<in> arcs (pa_g m)" for u
        proof -
          have "u \<noteq> i" "u \<notin> set is" using oc(3)[of u] that by auto
          then show ?thesis using fr by (simp add: val_def)
        qed
      qed
      then show ?thesis using True fr oc(2) v Some by (simp add: holds_def val_def)
    next
      case False
      then show ?thesis using Cons.IH[OF l _ dec] oc(1) Cons.prems(4) by simp
    qed
  qed
qed simp

lemma rebuild_loop_error:
  assumes "rebuild_loop ev is m = (Some x, m')" "set is \<subseteq> dom (map_of (pa_params m))"
  shows "\<exists>j e p. x = FormulaFailed j e \<and> j \<in> set is \<and> map_of (pa_params m') j = Some p \<and> gp_State p = StateInvalid"
  using assms
proof (induction "is" arbitrary: m)
  case (Cons i "is")
  then obtain p where p: "map_of (pa_params m) i = Some p" by auto
  show ?case
  proof (cases "gp_Formula p")
    case None then show ?thesis using Cons.prems p Cons.IH[of m] by auto
  next
    case (Some f)
    show ?thesis
    proof (cases "ev f m")
      case (Inl e)
      then show ?thesis using Cons.prems p Some by auto
    next
      case (Inr v)
      let ?m1 = "put_param i (p\<lparr>gp_Value := v, gp_State := StateCalculated\<rparr>) m"
      have "rebuild_loop ev is ?m1 = (Some x, m')" using Cons.prems p Some Inr by simp
      moreover have "set is \<subseteq> dom (map_of (pa_params ?m1))" using Cons.prems(2) by auto
      ultimately show ?thesis using Cons.IH by fastforce
    qed
  qed
qed simp

lemma fold_clean_pa: "arcs (fold (\<lambda>i g. MarkClean g i) is g) = arcs g \<and> node_ids (fold (\<lambda>i g. MarkClean g i) is g) = node_ids g
    \<and> (wf_graph g \<longrightarrow> wf_graph (fold (\<lambda>i g. MarkClean g i) is g))"
  by (induction "is" arbitrary: g) (auto simp: keep intro: inv_intros)

text \<open>The plan of a well-formed model; \<open>Rebuild\<close> by cases of the loop.\<close>

lemma Plan_ok:
  assumes "pm_ok m"
  obtains plan where "Plan (pa_g m) changed = Inr plan" "ordered (arcs (pa_g m)) plan"
    "set plan = affected (pa_g m) changed" "set plan \<subseteq> dom (map_of (pa_params m))"
proof (cases "Plan (pa_g m) changed")
  case (Inl e)
  then show ?thesis using Plan_wf[OF pm_okD(1)[OF assms], of changed] pm_okD(2)[OF assms] by simp
next
  case (Inr plan)
  then have p: "distinct plan" "set plan = affected (pa_g m) changed"
    "\<And>xs v ys u. plan = xs @ v # ys \<Longrightarrow> u \<in> affected (pa_g m) changed \<Longrightarrow> (u, v) \<in> arcs (pa_g m) \<Longrightarrow> u \<in> set xs"
    using Plan_wf[OF pm_okD(1)[OF assms], of changed] by auto
  then have "ordered (arcs (pa_g m)) plan" unfolding ordered_def by blast
  moreover have "set plan \<subseteq> node_ids (pa_g m)"
    using arcs_nodes[OF wf_graphD(1)[OF pm_okD(1)[OF assms]]] p(2) by (auto simp: affected_def dest!: tranclD2)
  ultimately show ?thesis using that[OF Inr] p(2) pm_okD(3)[OF assms] by simp
qed

lemma pm_ok_rebuild: assumes "pm_ok m" shows "pm_ok (snd (Rebuild ev changed m))"
proof -
  obtain plan where "Plan (pa_g m) changed = Inr plan" using Plan_ok[OF assms] by metis
  moreover obtain r m' where l: "rebuild_loop ev plan m = (r, m')" by (cases "rebuild_loop ev plan m")
  ultimately show ?thesis using rebuild_loop_frame[OF l] pm_okD[OF assms]
    by (simp add: Rebuild_def pm_ok_def fold_clean_pa split: option.split)
qed

lemma pm_built_ok: "pm_built ev m \<Longrightarrow> pm_ok m"
proof (induction rule: pm_built.induct)
  case (pm_dep m dep oth)
  then show ?case using AddDependency_ok[of m dep oth] by (simp add: case_prod_beta)
qed (auto intro: pm_ok_new pm_ok_add pm_ok_set pm_ok_rebuild)

text \<open>C14: the dependencies of a model built with the operations form an acyclic graph over exactly the
  registered parameters; a new dependency is accepted exactly when both parameters are registered and
  it closes no cycle, and a refused one leaves the dependencies as they were.\<close>

theorem dependencies_acyclic:
  assumes "pm_built ev m"
  shows "acyclic (arcs (pa_g m)) \<and> node_ids (pa_g m) = dom (map_of (pa_params m))
    \<and> (fst (AddDependency dep oth m) = None \<longleftrightarrow> map_of (pa_params m) dep \<noteq> None
         \<and> map_of (pa_params m) oth \<noteq> None \<and> (oth, dep) \<notin> (arcs (pa_g m))\<^sup>*)
    \<and> arcs (pa_g (snd (AddDependency dep oth m))) =
        (if fst (AddDependency dep oth m) = None then insert (dep, oth) (arcs (pa_g m)) else arcs (pa_g m))"
  using AddDependency_ok[OF pm_built_ok[OF assms], of dep oth] pm_okD[OF pm_built_ok[OF assms]]
  by (simp add: case_prod_beta)

text \<open>A batch of edits: \<open>Set\<close> for each pair, errors ignored.\<close>

definition edits :: "(string \<times> 'v option) list \<Rightarrow> ('v, 'f) ParametricModel \<Rightarrow> ('v, 'f) ParametricModel" where
  "edits cs m = fold (\<lambda>(i, v) m. snd (SetParam i v m)) cs m"

lemma SetParam_frame:
  assumes "pm_ok m"
  shows "pm_ok (snd (SetParam i v m)) \<and> arcs (pa_g (snd (SetParam i v m))) = arcs (pa_g m)
    \<and> (\<forall>j. formula_of (snd (SetParam i v m)) j = formula_of m j)
    \<and> (\<forall>j. j \<noteq> i \<longrightarrow> val (snd (SetParam i v m)) j = val m j)
    \<and> dom (map_of (pa_params (snd (SetParam i v m)))) = dom (map_of (pa_params m))"
proof (cases "map_of (pa_params m) i")
  case (Some p)
  show ?thesis
  proof (cases "gp_State p = StateLocked")
    case False
    then show ?thesis using SetParam_ok[OF assms Some, of v] Some
      by (auto simp: case_prod_beta formula_of_def val_def dom_def)
  qed (use Some assms in \<open>simp add: SetParam_def\<close>)
qed (use assms in \<open>simp add: SetParam_def\<close>)

lemma edits_frame:
  assumes "pm_ok m"
  shows "pm_ok (edits cs m) \<and> arcs (pa_g (edits cs m)) = arcs (pa_g m)
    \<and> (\<forall>j. formula_of (edits cs m) j = formula_of m j)
    \<and> (\<forall>j. j \<notin> fst ` set cs \<longrightarrow> val (edits cs m) j = val m j)
    \<and> dom (map_of (pa_params (edits cs m))) = dom (map_of (pa_params m))"
  using assms
proof (induction cs arbitrary: m)
  case (Cons c cs)
  obtain i v where c: "c = (i, v)" by (cases c)
  note f = SetParam_frame[OF Cons.prems, of i v]
  have "edits (c # cs) m = edits cs (snd (SetParam i v m))" by (simp add: edits_def c)
  then show ?case using Cons.IH[of "snd (SetParam i v m)"] f by (simp add: c)
qed (simp add: edits_def)

lemma affected_preds:
  assumes "pm_ok m" "(u, i) \<in> arcs (pa_g m)" "i \<notin> set changed" "i \<notin> affected (pa_g m) changed"
  shows "u \<notin> set changed" "u \<notin> affected (pa_g m) changed"
proof -
  have "HasNode (pa_g m) u"
    using arcs_nodes[OF wf_graphD(1)[OF pm_okD(1)[OF assms(1)]] assms(2)] by (simp add: HasNode_iff)
  then show "u \<notin> set changed" using assms(2-4) by (auto simp: affected_def)
  show "u \<notin> affected (pa_g m) changed"
    using assms(2-4) by (auto simp: affected_def dest: trancl_into_trancl)
qed

text \<open>C13: when formulas read only declared dependencies and every parameter has the value of its formula,
  then after any edits and a rebuild of the edited parameters every other parameter has the value of
  its formula again, the parameters that depend on no edited one keep their values, and a rebuild
  fails only because a formula does, whose parameter it marks invalid.\<close>

theorem rebuild_restores:
  assumes "pm_built ev m" "declared ev m" "\<forall>i. holds ev m i"
    "Rebuild ev (map fst cs) (edits cs m) = (r, m')"
  shows "case r of
      None \<Rightarrow> \<forall>i. i \<notin> fst ` set cs \<longrightarrow> holds ev m' i
        \<and> (i \<notin> affected (pa_g m) (map fst cs) \<longrightarrow> val m' i = val m i)
    | Some x \<Rightarrow> \<exists>j e p. x = FormulaFailed j e \<and> j \<in> affected (pa_g m) (map fst cs)
        \<and> map_of (pa_params m') j = Some p \<and> gp_State p = StateInvalid"
proof -
  note ok = pm_built_ok[OF assms(1)]
  let ?m = "edits cs m"
  note fr = edits_frame[OF ok, of cs]
  have "HasNode (pa_g ?m) = HasNode (pa_g m)"
    using pm_okD(3)[OF ok] pm_okD(3)[of ?m] fr by (auto simp: HasNode_iff)
  then have aff: "affected (pa_g ?m) (map fst cs) = affected (pa_g m) (map fst cs)"
    using fr by (simp add: affected_def)
  obtain plan where plan: "Plan (pa_g ?m) (map fst cs) = Inr plan" "ordered (arcs (pa_g ?m)) plan"
    "set plan = affected (pa_g m) (map fst cs)" "set plan \<subseteq> dom (map_of (pa_params ?m))"
    using Plan_ok[of ?m "map fst cs"] fr aff by metis
  obtain r1 m1 where l: "rebuild_loop ev plan ?m = (r1, m1)" by (cases "rebuild_loop ev plan ?m")
  note lf = rebuild_loop_frame[OF l]
  have dec: "declared ev ?m" using assms(2) fr by (simp add: declared_def)
  show ?thesis
  proof (cases r1)
    case (Some x)
    then have "r = Some x" "m' = m1" using assms(4) plan(1) l by (simp_all add: Rebuild_def)
    then show ?thesis using rebuild_loop_error[of ev plan ?m x m1] l Some plan(3,4) by simp
  next
    case None
    then have r: "r = None" "pa_params m' = pa_params m1" using assms(4) plan(1) l by (auto simp: Rebuild_def)
    have v: "val m' i = val m1 i" "formula_of m' i = formula_of m i" for i
      using r(2) lf fr by (simp_all add: val_def formula_of_def)
    have cong: "ev f m' = ev f m2" if "formula_of m i = Some f" "\<And>u. (u, i) \<in> arcs (pa_g m) \<Longrightarrow> val m1 u = val m2 u" for i f m2
      using declaredD[OF assms(2) that(1)] that(2) v(1) by metis
    have keep_val: "val m1 i = val m i" if "i \<notin> fst ` set cs" "i \<notin> affected (pa_g m) (map fst cs)" for i
      using lf fr that plan(3) by (simp add: val_def)
    have "holds ev m' i" if i: "i \<notin> fst ` set cs" for i
    proof (cases "i \<in> affected (pa_g m) (map fst cs)")
      case True
      then have "holds ev m1 i" using rebuild_loop_holds[OF _ plan(2) dec] l None plan(3) by simp
      then show ?thesis using cong[of i _ m1] v lf fr by (simp add: holds_def split: option.splits)
    next
      case False
      have "val m1 u = val m u" if "(u, i) \<in> arcs (pa_g m)" for u
        using affected_preds[OF ok that, of "map fst cs"] keep_val i False by simp
      then show ?thesis using assms(3) cong[of i _ m] v keep_val[OF i False]
        by (auto simp: holds_def split: option.splits)
    qed
    then show ?thesis using r(1) v(1) keep_val by simp
  qed
qed

subsection \<open>Witnesses\<close>

text \<open>A width and a height, and the area as their product.\<close>

definition demo_ev :: "(unit, int, unit) formulas" where
  "demo_ev f m = (case (val m ''w'', val m ''h'') of
     (Some (Some a), Some (Some b)) \<Rightarrow> Inr (Some (a * b)) | _ \<Rightarrow> Inl ())"

definition demo_pm0 :: "(int, unit) ParametricModel" where
  "demo_pm0 = snd (AddDependency ''h'' ''a'' (snd (AddDependency ''w'' ''a''
     (snd (AddParam (NewDerivedParameter ''a'' ''o'' ''area'' ()) (snd (AddParam (NewParameter ''h'' ''o'' ''length'' 3)
     (snd (AddParam (NewParameter ''w'' ''o'' ''length'' 2) NewParametricModel)))))))))"

definition demo_pm :: "(int, unit) ParametricModel" where
  "demo_pm = snd (Rebuild demo_ev [''w'', ''h''] demo_pm0)"

lemma demo_pm_built: "pm_built demo_ev demo_pm"
  unfolding demo_pm_def demo_pm0_def
  by (intro pm_built.intros) (simp_all add: NewParameter_def NewDerivedParameter_def)

lemma demo_pm_arcs: "gr_outgoing (pa_g demo_pm) = [(''w'', [''a'']), (''h'', [''a'']), (''a'', [])]"
  by code_simp

lemma demo_pm_params: "map (\<lambda>(i, p). (i, gp_Value p, gp_Formula p)) (pa_params demo_pm)
    = [(''w'', Some 2, None), (''h'', Some 3, None), (''a'', Some 6, Some ())]"
  by code_simp

lemma demo_pm_facts:
  "formula_of demo_pm i = (if i = ''a'' then Some () else None)" "val demo_pm ''a'' = Some (Some 6)"
  "val demo_pm ''w'' = Some (Some 2)" "val demo_pm ''h'' = Some (Some 3)"
  "arcs (pa_g demo_pm) = {(''w'', ''a''), (''h'', ''a'')}"
proof -
  obtain w h a where m: "pa_params demo_pm = [(''w'', w), (''h'', h), (''a'', a)]"
    "gp_Value w = Some 2" "gp_Formula w = None" "gp_Value h = Some 3" "gp_Formula h = None"
    "gp_Value a = Some 6" "gp_Formula a = Some ()"
    using demo_pm_params by (auto simp: Cons_eq_map_conv map_eq_Cons_conv)
  then show "formula_of demo_pm i = (if i = ''a'' then Some () else None)" "val demo_pm ''a'' = Some (Some 6)"
    "val demo_pm ''w'' = Some (Some 2)" "val demo_pm ''h'' = Some (Some 3)"
    by (simp_all add: formula_of_def val_def)
  show "arcs (pa_g demo_pm) = {(''w'', ''a''), (''h'', ''a'')}"
    by (auto simp: arcs_def adj_def demo_pm_arcs split: if_splits)
qed

theorem dependencies_acyclic_witness:
  "acyclic (arcs (pa_g demo_pm)) \<and> fst (AddDependency ''a'' ''w'' demo_pm) \<noteq> None"
proof -
  have "(''w'', ''a'') \<in> (arcs (pa_g demo_pm))\<^sup>*" by (rule r_into_rtrancl) (simp add: demo_pm_facts(5))
  then show ?thesis using dependencies_acyclic[OF demo_pm_built, of "''a''" "''w''"] by blast
qed

lemma demo_rebuild: "fst (Rebuild demo_ev [''w''] (edits [(''w'', Some 5)] demo_pm)) = None"
  by code_simp

theorem rebuild_restores_witness:
  "holds demo_ev (snd (Rebuild demo_ev [''w''] (edits [(''w'', Some 5)] demo_pm))) ''a''"
proof -
  have "demo_ev f m1 = demo_ev f m2" if "val m1 ''w'' = val m2 ''w''" "val m1 ''h'' = val m2 ''h''" for f m1 m2
    by (simp add: demo_ev_def that)
  then have "declared demo_ev demo_pm"
    unfolding declared_def demo_pm_facts by (metis insertCI option.distinct(1))
  moreover have "\<forall>i. holds demo_ev demo_pm i"
    by (auto simp: holds_def demo_pm_facts demo_ev_def)
  ultimately show ?thesis using rebuild_restores[OF demo_pm_built, of "[(''w'', Some 5)]"] demo_rebuild
    by (cases "Rebuild demo_ev [''w''] (edits [(''w'', Some 5)] demo_pm)") simp
qed

end
