(* ===== verification/Geo_Kernel.thy ===== *)
theory Geo_Kernel
  imports Geo_BBox "HOL-Library.Multiset"
begin

text \<open>
  More of the geometry kernel, \<open>internal/geometry\<close>: vectors (\<open>vec.go\<close>), affine transforms
  (\<open>transform.go\<close>), transformed solids (\<open>topology.go\<close>) and the extrusion of a polygon to a prism
  (\<open>extrude.go\<close>). All arithmetic is the float arithmetic of the code, operation by operation. A
  \<open>Transform\<close> is the list of its four rows. The sine and cosine of a rotation are arguments. The lemmas show that the
  boundary of a prism is closed: every edge lies in exactly two faces.
\<close>

subsection \<open>\<open>vec.go\<close>\<close>

record Vector3 =
  v_X :: f64
  v_Y :: f64
  v_Z :: f64

definition NewPoint3 :: "f64 \<Rightarrow> f64 \<Rightarrow> f64 \<Rightarrow> Point3" where
  "NewPoint3 x y z = \<lparr>p_X = x, p_Y = y, p_Z = z\<rparr>"

definition NewVector3 :: "f64 \<Rightarrow> f64 \<Rightarrow> f64 \<Rightarrow> Vector3" where
  "NewVector3 x y z = \<lparr>v_X = x, v_Y = y, v_Z = z\<rparr>"

definition ZeroVector :: Vector3 where
  "ZeroVector = \<lparr>v_X = Fin 0, v_Y = Fin 0, v_Z = Fin 0\<rparr>"

definition pt_Add :: "Point3 \<Rightarrow> Vector3 \<Rightarrow> Point3" where
  "pt_Add p v = \<lparr>p_X = p_X p + v_X v, p_Y = p_Y p + v_Y v, p_Z = p_Z p + v_Z v\<rparr>"

definition pt_Sub :: "Point3 \<Rightarrow> Point3 \<Rightarrow> Vector3" where
  "pt_Sub p q = \<lparr>v_X = p_X p - p_X q, v_Y = p_Y p - p_Y q, v_Z = p_Z p - p_Z q\<rparr>"

definition pt_Distance :: "Point3 \<Rightarrow> Point3 \<Rightarrow> f64" where
  "pt_Distance p q = fsqrt ((p_X p - p_X q) * (p_X p - p_X q) + (p_Y p - p_Y q) * (p_Y p - p_Y q)
     + (p_Z p - p_Z q) * (p_Z p - p_Z q))"

definition vec_Add :: "Vector3 \<Rightarrow> Vector3 \<Rightarrow> Vector3" where
  "vec_Add v w = \<lparr>v_X = v_X v + v_X w, v_Y = v_Y v + v_Y w, v_Z = v_Z v + v_Z w\<rparr>"

definition vec_Sub :: "Vector3 \<Rightarrow> Vector3 \<Rightarrow> Vector3" where
  "vec_Sub v w = \<lparr>v_X = v_X v - v_X w, v_Y = v_Y v - v_Y w, v_Z = v_Z v - v_Z w\<rparr>"

definition vec_Scale :: "Vector3 \<Rightarrow> f64 \<Rightarrow> Vector3" where
  "vec_Scale v s = \<lparr>v_X = v_X v * s, v_Y = v_Y v * s, v_Z = v_Z v * s\<rparr>"

definition vec_Dot :: "Vector3 \<Rightarrow> Vector3 \<Rightarrow> f64" where
  "vec_Dot v w = v_X v * v_X w + v_Y v * v_Y w + v_Z v * v_Z w"

definition vec_Cross :: "Vector3 \<Rightarrow> Vector3 \<Rightarrow> Vector3" where
  "vec_Cross v w = \<lparr>v_X = v_Y v * v_Z w - v_Z v * v_Y w, v_Y = v_Z v * v_X w - v_X v * v_Z w,
     v_Z = v_X v * v_Y w - v_Y v * v_X w\<rparr>"

definition vec_Norm :: "Vector3 \<Rightarrow> f64" where
  "vec_Norm v = fsqrt (vec_Dot v v)"

definition vec_Normalized :: "Vector3 \<Rightarrow> Vector3 \<times> bool" where
  "vec_Normalized v = (let n = vec_Norm v in
     if feq n (Fin 0) then (ZeroVector, False) else (vec_Scale v (Fin 1 / n), True))"

definition vec_Equals :: "Vector3 \<Rightarrow> Vector3 \<Rightarrow> bool" where
  "vec_Equals v w \<longleftrightarrow> \<bar>v_X v - v_X w\<bar> \<le> Precision \<and> \<bar>v_Y v - v_Y w\<bar> \<le> Precision \<and> \<bar>v_Z v - v_Z w\<bar> \<le> Precision"

subsection \<open>\<open>transform.go\<close>\<close>

type_synonym Transform = "f64 list list"

definition Identity :: Transform where
  "Identity = [[Fin 1, Fin 0, Fin 0, Fin 0], [Fin 0, Fin 1, Fin 0, Fin 0],
     [Fin 0, Fin 0, Fin 1, Fin 0], [Fin 0, Fin 0, Fin 0, Fin 1]]"

definition tr_set :: "nat \<Rightarrow> nat \<Rightarrow> f64 \<Rightarrow> Transform \<Rightarrow> Transform" where
  "tr_set i j x t = t[i := (t ! i)[j := x]]"

definition tr_Mul :: "Transform \<Rightarrow> Transform \<Rightarrow> Transform" where
  "tr_Mul t u = map (\<lambda>i. map (\<lambda>j. fold (\<lambda>k sum. sum + t ! i ! k * u ! k ! j) [0..<4] (Fin 0)) [0..<4]) [0..<4]"

definition tr_Apply :: "Transform \<Rightarrow> Point3 \<Rightarrow> Point3" where
  "tr_Apply t p = NewPoint3
     (t ! 0 ! 0 * p_X p + t ! 0 ! 1 * p_Y p + t ! 0 ! 2 * p_Z p + t ! 0 ! 3)
     (t ! 1 ! 0 * p_X p + t ! 1 ! 1 * p_Y p + t ! 1 ! 2 * p_Z p + t ! 1 ! 3)
     (t ! 2 ! 0 * p_X p + t ! 2 ! 1 * p_Y p + t ! 2 ! 2 * p_Z p + t ! 2 ! 3)"

definition Translate :: "f64 \<Rightarrow> f64 \<Rightarrow> f64 \<Rightarrow> Transform" where
  "Translate x y z = tr_set 2 3 z (tr_set 1 3 y (tr_set 0 3 x Identity))"

definition nearUnit :: "f64 \<Rightarrow> bool" where
  "nearUnit v \<longleftrightarrow> \<bar>v\<bar> < Precision \<or> \<bar>v - Fin 1\<bar> < Precision \<or> \<bar>v + Fin 1\<bar> < Precision"

text \<open>\<open>RotateZ\<close>, given the cosine and the sine of the angle.\<close>

definition RotateZ :: "f64 \<Rightarrow> f64 \<Rightarrow> Transform" where
  "RotateZ c0 s0 =
     (let c = (if nearUnit c0 then fround c0 else c0);
          s = (if nearUnit s0 then fround s0 else s0)
      in tr_set 1 1 c (tr_set 1 0 s (tr_set 0 1 (- s) (tr_set 0 0 c Identity))))"

definition transformWire :: "Transform \<Rightarrow> Wire \<Rightarrow> Wire" where
  "transformWire t w = map (\<lambda>(a, b). (tr_Apply t a, tr_Apply t b)) w"

definition TransformSolid :: "Transform \<Rightarrow> Solid \<Rightarrow> Solid" where
  "TransformSolid t s = \<lparr>so_shells = map (map (\<lambda>f. \<lparr>fa_outer = transformWire t (fa_outer f),
       fa_inner = map (transformWire t) (fa_inner f)\<rparr>)) (so_shells s),
     so_role = so_role s\<rparr>"

definition WithRole :: "string \<Rightarrow> Solid \<Rightarrow> Solid" where
  "WithRole r s = \<lparr>so_shells = so_shells s, so_role = r\<rparr>"

subsection \<open>\<open>extrude.go\<close>\<close>

definition planarityTolerance :: f64 where
  "planarityTolerance = fl (1 / 10000)"

text \<open>The loop of \<open>polygonNormal\<close>, over the points after the first.\<close>

fun normal_from :: "Point3 \<Rightarrow> Point3 list \<Rightarrow> Vector3 \<times> bool" where
  "normal_from orig (p # q # ps) =
     (let n = vec_Cross (pt_Sub p orig) (pt_Sub q orig)
      in if vec_Norm n > Precision then vec_Normalized n else normal_from orig (q # ps))"
| "normal_from orig _ = (ZeroVector, False)"

definition polygonNormal :: "Point3 list \<Rightarrow> Vector3 \<times> bool" where
  "polygonNormal ps = normal_from (hd ps) (tl ps)"

definition orientedProfile :: "Point3 list \<Rightarrow> Vector3 \<Rightarrow> Point3 list" where
  "orientedProfile ps outward =
     (let (normal, ok) = polygonNormal ps
      in if ok \<and> vec_Dot normal outward < Fin 0 then rev ps else ps)"

definition polygonFace :: "Point3 list \<Rightarrow> Face" where
  "polygonFace ps = \<lparr>fa_outer = map (\<lambda>i. (ps ! i, ps ! ((i + 1) mod length ps))) [0..<length ps], fa_inner = []\<rparr>"

datatype extrude_error = FewPoints nat | DistNotPositive f64 | Collinear | NotPlanar | ZeroDirection | DirectionInPlane

definition sideFace :: "Point3 list \<Rightarrow> Point3 list \<Rightarrow> nat \<Rightarrow> Face" where
  "sideFace prof upper i = (let j = (i + 1) mod length prof in polygonFace [prof ! i, prof ! j, upper ! j, upper ! i])"

definition prism :: "Point3 list \<Rightarrow> Vector3 \<Rightarrow> f64 \<Rightarrow> Vector3 \<Rightarrow> Solid" where
  "prism profile dir dst dirUnit =
     (let prof = orientedProfile profile dirUnit;
          shift = vec_Scale dir dst;
          upper = map (\<lambda>p. pt_Add p shift) prof
      in \<lparr>so_shells = [polygonFace (orientedProfile prof (vec_Scale dirUnit (Fin (- 1))))
            # polygonFace (orientedProfile upper dirUnit)
            # map (sideFace prof upper) [0..<length prof]], so_role = ''''\<rparr>)"

definition Extrude :: "Point3 list \<Rightarrow> Vector3 \<Rightarrow> f64 \<Rightarrow> (extrude_error, Solid) result" where
  "Extrude profile dir dst =
     guard_with (length profile < 3) (FewPoints (length profile))
     (guard_with (dst \<le> Precision) (DistNotPositive dst)
     (case polygonNormal profile of (normal, ok) \<Rightarrow>
      guard_with (\<not> ok) Collinear
      (guard_with (\<exists>p \<in> set profile. \<bar>vec_Dot (pt_Sub p (hd profile)) normal\<bar> > planarityTolerance) NotPlanar
      (case vec_Normalized dir of (dirUnit, ok') \<Rightarrow>
       guard_with (\<not> ok') ZeroDirection
       (guard_with (\<bar>vec_Dot dirUnit normal\<bar> \<le> Precision) DirectionInPlane
       (Inr (prism profile dir dst dirUnit)))))))"

subsection \<open>Edges without direction\<close>

text \<open>\<open>edgeKey\<close> (\<open>validate.go\<close>): the two ends in a fixed order.\<close>

definition lessPoint :: "Point3 \<Rightarrow> Point3 \<Rightarrow> bool" where
  "lessPoint a b \<longleftrightarrow> (if \<not> feq (p_X a) (p_X b) then p_X a < p_X b
     else if \<not> feq (p_Y a) (p_Y b) then p_Y a < p_Y b else p_Z a < p_Z b)"

definition edgeKey :: "Point3 \<Rightarrow> Point3 \<Rightarrow> Point3 \<times> Point3" where
  "edgeKey a b = (if lessPoint a b then (a, b) else (b, a))"

lemma lessPoint_asym: "point_finite a \<Longrightarrow> point_finite b \<Longrightarrow> lessPoint a b \<Longrightarrow> \<not> lessPoint b a"
  by (auto simp: lessPoint_def point_finite_def split: if_splits)

lemma lessPoint_total: "point_finite a \<Longrightarrow> point_finite b \<Longrightarrow> a \<noteq> b \<Longrightarrow> lessPoint a b \<or> lessPoint b a"
  by (auto simp: lessPoint_def point_finite_def split: if_splits)

lemma edgeKey_swap: "point_finite a \<Longrightarrow> point_finite b \<Longrightarrow> edgeKey a b = edgeKey b a"
  using lessPoint_asym[of a b] lessPoint_total[of a b] by (auto simp: edgeKey_def)

lemma edgeKey_set: "{fst (edgeKey a b), snd (edgeKey a b)} = {a, b}"
  by (auto simp: edgeKey_def)

lemma edgeKey_eqD: "edgeKey a b = edgeKey c d \<Longrightarrow> {a, b} = {c, d}"
  by (metis edgeKey_set)

text \<open>
  The edges of a closed polygon, of a face and of a body under names for undirected edges, as multisets.
  The validation names an edge by \<open>edgeKey\<close>, the set of the two ends is a name as well.
\<close>

definition poly_of :: "(Point3 \<Rightarrow> Point3 \<Rightarrow> 'k) \<Rightarrow> Point3 list \<Rightarrow> 'k multiset" where
  "poly_of key ps = mset (map (\<lambda>i. key (ps ! i) (ps ! ((i + 1) mod length ps))) [0..<length ps])"

definition face_of :: "(Point3 \<Rightarrow> Point3 \<Rightarrow> 'k) \<Rightarrow> Face \<Rightarrow> 'k multiset" where
  "face_of key f = mset (map (\<lambda>(a, b). key a b) (fa_outer f))"

definition rung_of :: "(Point3 \<Rightarrow> Point3 \<Rightarrow> 'k) \<Rightarrow> Point3 list \<Rightarrow> Point3 list \<Rightarrow> 'k multiset" where
  "rung_of key ps qs = mset (map (\<lambda>i. key (ps ! i) (qs ! i)) [0..<length ps])"

definition solid_of :: "(Point3 \<Rightarrow> Point3 \<Rightarrow> 'k) \<Rightarrow> Solid \<Rightarrow> 'k multiset" where
  "solid_of key s = sum_list (map (face_of key) (concat (so_shells s)))"

abbreviation poly_keys :: "Point3 list \<Rightarrow> (Point3 \<times> Point3) multiset" where
  "poly_keys \<equiv> poly_of edgeKey"

abbreviation face_keys :: "Face \<Rightarrow> (Point3 \<times> Point3) multiset" where
  "face_keys \<equiv> face_of edgeKey"

abbreviation rung_keys :: "Point3 list \<Rightarrow> Point3 list \<Rightarrow> (Point3 \<times> Point3) multiset" where
  "rung_keys \<equiv> rung_of edgeKey"

abbreviation solid_keys :: "Solid \<Rightarrow> (Point3 \<times> Point3) multiset" where
  "solid_keys \<equiv> solid_of edgeKey"

lemma face_of_polygon: "face_of key (polygonFace ps) = poly_of key ps"
  by (simp add: face_of_def polygonFace_def poly_of_def comp_def)

lemma image_mset_bij:
  assumes "inj_on g {0..<n}" "g ` {0..<n} = {0..<n}"
  shows "mset (map (\<lambda>i. f (g i)) [0..<n]) = mset (map f [0..<n])"
proof -
  have "image_mset f (image_mset g (mset_set {0..<n})) = image_mset f (mset_set {0..<n})"
    using assms by (simp add: image_mset_mset_set)
  then show ?thesis by (simp add: multiset.map_comp comp_def)
qed

lemma shift_bij:
  fixes n :: nat
  shows "inj_on (\<lambda>i. (i + 1) mod n) {0..<n}" "(\<lambda>i. (i + 1) mod n) ` {0..<n} = {0..<n}"
proof -
  show i: "inj_on (\<lambda>i. (i + 1) mod n) {0..<n}"
  proof (rule inj_onI)
    fix i j assume "i \<in> {0..<n}" "j \<in> {0..<n}" "(i + 1) mod n = (j + 1) mod n"
    then show "i = j" by (cases "i + 1 = n"; cases "j + 1 = n") auto
  qed
  show "(\<lambda>i. (i + 1) mod n) ` {0..<n} = {0..<n}"
    by (rule endo_inj_surj[OF _ _ i]) auto
qed

lemma mirror_bij:
  fixes n :: nat
  shows "inj_on (\<lambda>i. if i + 1 = n then i else n - 2 - i) {0..<n}" "(\<lambda>i. if i + 1 = n then i else n - 2 - i) ` {0..<n} = {0..<n}"
proof -
  show i: "inj_on (\<lambda>i. if i + 1 = n then i else n - 2 - i) {0..<n}"
    by (rule inj_onI) (auto split: if_splits)
  show "(\<lambda>i. if i + 1 = n then i else n - 2 - i) ` {0..<n} = {0..<n}"
    by (rule endo_inj_surj[OF _ _ i]) auto
qed

lemma orientedProfile_cases: "orientedProfile ps v = ps \<or> orientedProfile ps v = rev ps"
  by (auto simp: orientedProfile_def split: prod.splits)

lemma outer_four: "fa_outer (polygonFace [a, b, c, d]) = [(a, b), (b, c), (c, d), (d, a)]"
  by (simp add: polygonFace_def upt_rec)

lemma sideFace_of:
  "face_of key (sideFace prof upper i) = (let j = (i + 1) mod length prof in
     {# key (prof ! i) (prof ! j), key (prof ! j) (upper ! j), key (upper ! j) (upper ! i), key (upper ! i) (prof ! i) #})"
  unfolding sideFace_def face_of_def Let_def outer_four by simp

lemma sum_list_single: "sum_list (map (\<lambda>i. {# f i #}) xs) = mset (map f xs)"
  by (induction xs) auto

subsection \<open>The boundary of a prism is closed\<close>

text \<open>Names of edges that do not depend on the direction, for edges between the points \<open>S\<close>.\<close>

locale edge_names =
  fixes key :: "Point3 \<Rightarrow> Point3 \<Rightarrow> 'k" and S :: "Point3 set"
  assumes swap: "a \<in> S \<Longrightarrow> b \<in> S \<Longrightarrow> key a b = key b a"
begin

lemma poly_rev:
  assumes "set ps \<subseteq> S"
  shows "poly_of key (rev ps) = poly_of key ps"
proof -
  let ?n = "length ps"
  let ?f = "\<lambda>i. key (ps ! i) (ps ! ((i + 1) mod ?n))"
  have fin: "ps ! i \<in> S" if "i < ?n" for i using assms that by auto
  have "key (rev ps ! i) (rev ps ! ((i + 1) mod ?n)) = ?f (if i + 1 = ?n then i else ?n - 2 - i)" if i: "i < ?n" for i
  proof (cases "i + 1 = ?n")
    case True
    then have n: "?n - Suc 0 = i" "?n - Suc i = 0" "(i + 1) mod ?n = 0" by simp_all
    have "0 < ?n" using i by linarith
    note r = rev_nth[OF this] rev_nth[OF i]
    have "rev ps ! i = ps ! 0" "rev ps ! 0 = ps ! i" using r unfolding n by blast+
    then show ?thesis using True n(3) swap[OF fin[OF \<open>0 < ?n\<close>] fin[OF i]] by (simp only: if_P refl)
  next
    case False
    then have "rev ps ! i = ps ! (?n - 1 - i)" "rev ps ! ((i + 1) mod ?n) = ps ! (?n - 2 - i)" "(?n - 2 - i + 1) mod ?n = ?n - 1 - i"
      using i by (auto simp: rev_nth Suc_diff_Suc)
    then show ?thesis using False i swap[OF fin fin, of "?n - 1 - i" "?n - 2 - i"] by simp
  qed
  then have eq: "map (\<lambda>i. key (rev ps ! i) (rev ps ! ((i + 1) mod ?n))) [0..<?n] = map (\<lambda>i. ?f (if i + 1 = ?n then i else ?n - 2 - i)) [0..<?n]"
    by (intro map_cong) auto
  show ?thesis unfolding poly_of_def length_rev eq by (rule image_mset_bij[OF mirror_bij])
qed

lemma poly_oriented: "set ps \<subseteq> S \<Longrightarrow> poly_of key (orientedProfile ps v) = poly_of key ps"
  using orientedProfile_cases[of ps v] poly_rev by auto

lemma sides:
  assumes "length upper = length prof" "set prof \<subseteq> S" "set upper \<subseteq> S"
  shows "sum_list (map (\<lambda>i. face_of key (sideFace prof upper i)) [0..<length prof])
    = poly_of key prof + poly_of key upper + rung_of key prof upper + rung_of key prof upper"
proof -
  let ?n = "length prof"
  let ?j = "\<lambda>i. (i + 1) mod ?n"
  have fin: "prof ! i \<in> S \<and> upper ! i \<in> S" if "i < ?n" for i
    using assms that by auto
  have "face_of key (sideFace prof upper i) = {# key (prof ! i) (prof ! ?j i) #} + {# key (prof ! ?j i) (upper ! ?j i) #}
      + {# key (upper ! i) (upper ! ?j i) #} + {# key (prof ! i) (upper ! i) #}" if "i < ?n" for i
  proof -
    have "?j i < ?n" using that by (intro mod_less_divisor) auto
    then show ?thesis using fin[OF that] fin[of "?j i"]
      by (simp add: sideFace_of Let_def swap[of "upper ! i"])
  qed
  then have "sum_list (map (\<lambda>i. face_of key (sideFace prof upper i)) [0..<?n]) =
    sum_list (map (\<lambda>i. {# key (prof ! i) (prof ! ?j i) #} + {# key (prof ! ?j i) (upper ! ?j i) #}
      + {# key (upper ! i) (upper ! ?j i) #} + {# key (prof ! i) (upper ! i) #}) [0..<?n])"
    by (intro arg_cong[where f = sum_list] map_cong) auto
  also have "\<dots> = poly_of key prof + mset (map (\<lambda>i. key (prof ! ?j i) (upper ! ?j i)) [0..<?n]) + poly_of key upper + rung_of key prof upper"
    unfolding sum_list_addf sum_list_single poly_of_def rung_of_def assms(1) ..
  also have "mset (map (\<lambda>i. key (prof ! ?j i) (upper ! ?j i)) [0..<?n]) = rung_of key prof upper"
    using image_mset_bij[OF shift_bij, of "\<lambda>i. key (prof ! i) (upper ! i)" ?n] by (simp add: rung_of_def)
  finally show ?thesis by (simp add: ac_simps)
qed

lemma prism_edges:
  assumes "set profile \<subseteq> S" "set (map (\<lambda>p. pt_Add p (vec_Scale dir dst)) profile) \<subseteq> S"
    "prof = orientedProfile profile u" "upper = map (\<lambda>p. pt_Add p (vec_Scale dir dst)) prof"
  shows "solid_of key (prism profile dir dst u) =
    (let M = poly_of key prof + poly_of key upper + rung_of key prof upper in M + M)"
proof -
  have f: "set prof \<subseteq> S" "set upper \<subseteq> S"
    using assms orientedProfile_cases[of profile u] by auto
  have "solid_of key (prism profile dir dst u) = poly_of key prof + (poly_of key upper
      + sum_list (map (\<lambda>i. face_of key (sideFace prof upper i)) [0..<length prof]))"
    using f by (simp add: solid_of_def prism_def Let_def assms(3)[symmetric] assms(4)[symmetric]
        face_of_polygon poly_oriented comp_def)
  also have "sum_list (map (\<lambda>i. face_of key (sideFace prof upper i)) [0..<length prof])
    = poly_of key prof + poly_of key upper + rung_of key prof upper + rung_of key prof upper"
    by (rule sides) (use f assms(4) in simp_all)
  finally show ?thesis by (simp add: Let_def ac_simps)
qed

end

interpretation keyed: edge_names edgeKey "Collect point_finite"
  by unfold_locales (auto intro: edgeKey_swap)

interpretation unordered: edge_names "\<lambda>a b. {a, b}" UNIV
  by unfold_locales (rule insert_commute)

lemma count_distinct: "distinct xs \<Longrightarrow> count (mset xs) k = (if k \<in> set xs then 1 else 0)"
  by (simp add: distinct_count_atmost_1)

lemma suc_mod: "i < n \<Longrightarrow> (i + 1) mod n = (if i + 1 = n then 0 else i + 1)" for i n :: nat
  by simp

lemma poly_keys_distinct:
  assumes "distinct ps" "3 \<le> length ps"
  shows "distinct (map (\<lambda>i. edgeKey (ps ! i) (ps ! ((i + 1) mod length ps))) [0..<length ps])"
proof -
  let ?n = "length ps"
  have "i = j" if ij: "i < ?n" "j < ?n" "edgeKey (ps ! i) (ps ! ((i + 1) mod ?n)) = edgeKey (ps ! j) (ps ! ((j + 1) mod ?n))" for i j
  proof (rule ccontr)
    assume ne: "i \<noteq> j"
    have m: "(i + 1) mod ?n < ?n" "(j + 1) mod ?n < ?n" using ij by (auto intro: mod_less_divisor)
    have "{ps ! i, ps ! ((i + 1) mod ?n)} = {ps ! j, ps ! ((j + 1) mod ?n)}" by (rule edgeKey_eqD[OF ij(3)])
    then have "ps ! i = ps ! ((j + 1) mod ?n)" "ps ! ((i + 1) mod ?n) = ps ! j"
      using ne ij assms(1) by (auto simp only: doubleton_eq_iff nth_eq_iff_index_eq)
    then have "i = (j + 1) mod ?n" "(i + 1) mod ?n = j"
      using ij m assms(1) by (simp_all only: nth_eq_iff_index_eq)
    then show False unfolding suc_mod[OF ij(1)] suc_mod[OF ij(2)] using assms(2) by (simp split: if_splits)
  qed
  then show ?thesis by (auto simp: distinct_map inj_on_def)
qed

lemma poly_keys_ends: "k \<in># poly_keys ps \<Longrightarrow> fst k \<in> set ps \<and> snd k \<in> set ps"
  by (auto simp: poly_of_def edgeKey_def split: if_splits intro!: nth_mem mod_less_divisor)

lemma rung_keys_ends: "length qs = length ps \<Longrightarrow> k \<in># rung_keys ps qs
    \<Longrightarrow> fst k \<in> set ps \<and> snd k \<in> set qs \<or> fst k \<in> set qs \<and> snd k \<in> set ps"
  by (auto simp: rung_of_def edgeKey_def)

lemma rung_keys_distinct:
  assumes "distinct (ps @ qs)" "length qs = length ps"
  shows "distinct (map (\<lambda>i. edgeKey (ps ! i) (qs ! i)) [0..<length ps])"
proof -
  have "i = j" if "i < length ps" "j < length ps" "edgeKey (ps ! i) (qs ! i) = edgeKey (ps ! j) (qs ! j)" for i j
  proof -
    have "ps ! i \<in> set ps" "ps ! j \<in> set ps" "qs ! i \<in> set qs" "qs ! j \<in> set qs" using that assms(2) by auto
    moreover have "{ps ! i, qs ! i} = {ps ! j, qs ! j}" by (rule edgeKey_eqD[OF that(3)])
    ultimately have "ps ! i = ps ! j" using assms(1) by (auto simp: doubleton_eq_iff)
    then show ?thesis using that assms by (simp add: nth_eq_iff_index_eq)
  qed
  then show ?thesis by (auto simp: distinct_map inj_on_def)
qed

lemma one_of_three:
  "\<not> (P \<and> Q) \<Longrightarrow> \<not> (P \<and> R) \<Longrightarrow> \<not> (Q \<and> R) \<Longrightarrow> (if P then 1 else 0) + (if Q then 1 else 0) + (if R then 1 else 0) \<le> (1 :: nat)"
  by simp

lemma prism_count:
  assumes "3 \<le> length profile" "list_all point_finite (profile @ map (\<lambda>p. pt_Add p (vec_Scale dir dst)) profile)"
    "distinct (profile @ map (\<lambda>p. pt_Add p (vec_Scale dir dst)) profile)"
  shows "count (solid_keys (prism profile dir dst u)) k \<in> {0, 2}"
proof -
  let ?upper = "\<lambda>ps. map (\<lambda>p. pt_Add p (vec_Scale dir dst)) ps"
  obtain prof where p: "prof = orientedProfile profile u" by simp
  have c: "prof = profile \<or> prof = rev profile" using p orientedProfile_cases[of profile u] by simp
  then have d: "distinct (prof @ ?upper prof)" "3 \<le> length prof"
    using assms(1,3) by (auto simp: rev_map[symmetric])
  have disj: "set prof \<inter> set (?upper prof) = {}" using d by simp
  let ?A = "poly_keys prof" and ?B = "poly_keys (?upper prof)" and ?C = "rung_keys prof (?upper prof)"
  have one: "count ?A k = (if k \<in># ?A then 1 else 0)" "count ?B k = (if k \<in># ?B then 1 else 0)" "count ?C k = (if k \<in># ?C then 1 else 0)"
    using count_distinct[OF poly_keys_distinct[of prof]] count_distinct[OF poly_keys_distinct[of "?upper prof"]]
      count_distinct[OF rung_keys_distinct[OF d(1)]] d
    by (simp_all add: poly_of_def rung_of_def)
  have e: "k \<in># ?A \<Longrightarrow> fst k \<in> set prof \<and> snd k \<in> set prof"
    "k \<in># ?B \<Longrightarrow> fst k \<in> set (?upper prof) \<and> snd k \<in> set (?upper prof)"
    "k \<in># ?C \<Longrightarrow> fst k \<in> set prof \<and> snd k \<in> set (?upper prof) \<or> fst k \<in> set (?upper prof) \<and> snd k \<in> set prof"
    by (erule poly_keys_ends poly_keys_ends rung_keys_ends[rotated]; simp)+
  have "\<not> (x \<in> set prof \<and> x \<in> set (?upper prof))" for x using disj by (simp only: disjoint_iff) blast
  then have "\<not> (k \<in># ?A \<and> k \<in># ?B)" "\<not> (k \<in># ?A \<and> k \<in># ?C)" "\<not> (k \<in># ?B \<and> k \<in># ?C)"
    using e by metis+
  then have "count ?A k + count ?B k + count ?C k \<le> 1"
    unfolding one by (rule one_of_three)
  moreover have "solid_keys (prism profile dir dst u) = (?A + ?B + ?C) + (?A + ?B + ?C)"
    using keyed.prism_edges[of profile dir dst prof u] assms(2) p by (simp add: Let_def list_all_iff subset_iff)
  then have "count (solid_keys (prism profile dir dst u)) k = 2 * (count ?A k + count ?B k + count ?C k)" by simp
  moreover have "m \<le> 1 \<Longrightarrow> 2 * m \<in> {0, 2 :: nat}" for m by auto
  ultimately show ?thesis by metis
qed

end
