(* ===== verification/Geo_Tess.thy ===== *)
theory Geo_Tess
  imports Geo_Kernel
begin

text \<open>
  Triangulation by cutting ears, \<open>internal/geometry/triangulate.go\<close>. The arrays \<open>prev\<close> and \<open>next\<close> link the
  vertices that remain in a ring; the invariant \<open>ring\<close> relates them to a cyclic list. A cut conserves
  the boundary: triangles already cut and remaining ring together have the boundary of the polygon,
  as a sum over directed edges in which opposite edges cancel.
\<close>

type_synonym pt2 = "f64 \<times> f64"
type_synonym triangle = "nat \<times> nat \<times> nat"

definition triangulationTolerance :: f64 where
  "triangulationTolerance = fl (1 / 1000000)"

definition cross2 :: "pt2 \<Rightarrow> pt2 \<Rightarrow> f64" where
  "cross2 a b = fst a * snd b - snd a * fst b"

definition diff2 :: "pt2 \<Rightarrow> pt2 \<Rightarrow> pt2" where
  "diff2 p q = (fst p - fst q, snd p - snd q)"

definition isReflexVertex :: "pt2 list \<Rightarrow> nat \<Rightarrow> nat \<Rightarrow> nat \<Rightarrow> bool" where
  "isReflexVertex p prv cur nxt \<longleftrightarrow>
     cross2 (diff2 (p ! cur) (p ! prv)) (diff2 (p ! nxt) (p ! cur)) \<le> triangulationTolerance"

definition pointInTriangle :: "pt2 \<Rightarrow> pt2 \<Rightarrow> pt2 \<Rightarrow> pt2 \<Rightarrow> bool" where
  "pointInTriangle p a b c \<longleftrightarrow>
     cross2 (diff2 b a) (diff2 p a) \<ge> - triangulationTolerance
     \<and> cross2 (diff2 c b) (diff2 p b) \<ge> - triangulationTolerance
     \<and> cross2 (diff2 a c) (diff2 p c) \<ge> - triangulationTolerance"

definition isEar :: "pt2 list \<Rightarrow> bool list \<Rightarrow> bool list \<Rightarrow> nat \<Rightarrow> nat \<Rightarrow> nat \<Rightarrow> bool" where
  "isEar p removed reflex a b c \<longleftrightarrow>
     \<not> cross2 (diff2 (p ! b) (p ! a)) (diff2 (p ! c) (p ! b)) \<le> triangulationTolerance
     \<and> (\<forall>i \<in> set [0..<length p]. removed ! i \<or> \<not> reflex ! i \<or> i = a \<or> i = b \<or> i = c
          \<or> \<not> pointInTriangle (p ! i) (p ! a) (p ! b) (p ! c))"

definition project2D :: "Point3 list \<Rightarrow> Vector3 \<Rightarrow> pt2 list" where
  "project2D ps normal =
     (let axis0 = (if \<bar>v_Y normal\<bar> > \<bar>v_X normal\<bar> then 1 else 0 :: nat);
          axis = (if \<bar>v_Z normal\<bar> > \<bar>v_Y normal\<bar> \<and> \<bar>v_Z normal\<bar> > \<bar>v_X normal\<bar> then 2 else axis0)
      in map (\<lambda>p. if axis = 0 then (p_Y p, p_Z p) else if axis = 1 then (p_X p, - p_Z p) else (p_X p, p_Y p)) ps)"

definition signedArea2 :: "pt2 list \<Rightarrow> f64" where
  "signedArea2 p =
     fold (\<lambda>i s. let j = (i + 1) mod length p in s + (fst (p ! i) * snd (p ! j) - fst (p ! j) * snd (p ! i)))
       [0..<length p] (Fin 0) / Fin 2"

record ear_state =
  es_prev :: "nat list"
  es_next :: "nat list"
  es_removed :: "bool list"
  es_reflex :: "bool list"
  es_tris :: "triangle list"
  es_remaining :: nat
  es_i :: nat

text \<open>One round of the loop after the guard: an ear at \<open>i\<close> is cut, or \<open>i\<close> moves on.\<close>

definition ear_step :: "pt2 list \<Rightarrow> nat list \<Rightarrow> ear_state \<Rightarrow> ear_state" where
  "ear_step pts idx st =
     (let b = es_i st; a = es_prev st ! b; c = es_next st ! b in
      if isEar pts (es_removed st) (es_reflex st) a b c then
        (let nxt = (es_next st)[a := c]; prv = (es_prev st)[c := a];
             r1 = (es_reflex st)[a := isReflexVertex pts (prv ! a) a (nxt ! a)];
             r2 = r1[c := isReflexVertex pts (prv ! c) c (nxt ! c)]
         in \<lparr>es_prev = prv, es_next = nxt, es_removed = (es_removed st)[b := True], es_reflex = r2,
              es_tris = es_tris st @ [(idx ! a, idx ! b, idx ! c)], es_remaining = es_remaining st - 1, es_i = a\<rparr>)
      else st\<lparr>es_i := es_next st ! b\<rparr>)"

datatype tess_error = TriFewPoints nat | TriCollinear | TriNotSimple | OpenContour | FewEdges | NoShells

function ear_loop :: "pt2 list \<Rightarrow> nat list \<Rightarrow> nat \<Rightarrow> nat \<Rightarrow> ear_state \<Rightarrow> (tess_error, ear_state) result" where
  "ear_loop pts idx n gd st =
     (if es_remaining st > 3 then
        (if gd + 1 > n * n then Inl TriNotSimple else ear_loop pts idx n (gd + 1) (ear_step pts idx st))
      else Inr st)"
  by pat_completeness auto
termination
  by (relation "measure (\<lambda>(pts, idx, n, gd, st). n * n - gd)") auto

declare ear_loop.simps [simp del]

definition ear_start :: "pt2 list \<Rightarrow> nat \<Rightarrow> ear_state" where
  "ear_start pts n =
     (let prv = map (\<lambda>i. (i + n - 1) mod n) [0..<n]; nxt = map (\<lambda>i. (i + 1) mod n) [0..<n]
      in \<lparr>es_prev = prv, es_next = nxt, es_removed = replicate n False,
          es_reflex = map (\<lambda>i. isReflexVertex pts (prv ! i) i (nxt ! i)) [0..<n],
          es_tris = [], es_remaining = n, es_i = 0\<rparr>)"

definition last_triangle :: "nat list \<Rightarrow> ear_state \<Rightarrow> triangle" where
  "last_triangle idx st = (idx ! (es_prev st ! es_i st), idx ! es_i st, idx ! (es_next st ! es_i st))"

definition flip :: "triangle \<Rightarrow> triangle" where
  "flip t = (case t of (a, b, c) \<Rightarrow> (a, c, b))"

definition Triangulate :: "Point3 list \<Rightarrow> (tess_error, triangle list) result" where
  "Triangulate ps =
     (let n = length ps in
      guard_with (n < 3) (TriFewPoints n)
      (case polygonNormal ps of (normal, ok) \<Rightarrow>
       guard_with (\<not> ok) TriCollinear
       (let pts0 = project2D ps normal;
            rv = signedArea2 pts0 < Fin 0;
            pts = (if rv then rev pts0 else pts0);
            idx = (if rv then rev [0..<n] else [0..<n])
        in bindR (ear_loop pts idx n 0 (ear_start pts n)) (\<lambda>st.
             let tris = es_tris st @ [last_triangle idx st]
             in Inr (if rv then map flip tris else tris)))))"

subsection \<open>The ring\<close>

definition steps_of :: "'a list \<Rightarrow> ('a \<times> 'a) list" where
  "steps_of xs = zip xs (rotate1 xs)"

lemma steps_of_Cons: "steps_of (x # xs) = zip (x # xs) (xs @ [x])"
  by (simp add: steps_of_def)

lemma steps_of_rotate1: "steps_of (rotate1 xs) = rotate1 (steps_of xs)"
proof (cases xs)
  case (Cons a ys)
  then show ?thesis
  proof (cases ys)
    case (Cons b zs)
    then show ?thesis using \<open>xs = a # ys\<close> zip_append[of "b # zs" "zs @ [a]" "[a]" "[b]"] by (simp add: steps_of_def)
  qed (simp add: steps_of_def)
qed (simp add: steps_of_def)

lemma steps_of_rotate: "steps_of (rotate k xs) = rotate k (steps_of xs)"
  by (induction k) (simp_all add: steps_of_rotate1)

lemma steps_of_upt: "steps_of [0..<n] = map (\<lambda>i. (i, (i + 1) mod n)) [0..<n]"
proof (rule nth_equalityI)
  fix i assume "i < length (steps_of [0..<n])"
  then have i: "i < n" by (simp add: steps_of_def)
  moreover have "rotate1 [0..<n] ! i = (i + 1) mod n"
    using i nth_rotate1[of i "[0..<n]"] by simp
  ultimately show "steps_of [0..<n] ! i = map (\<lambda>i. (i, (i + 1) mod n)) [0..<n] ! i" by (simp add: steps_of_def)
qed (simp add: steps_of_def)

definition ring :: "nat list \<Rightarrow> nat list \<Rightarrow> nat list \<Rightarrow> bool" where
  "ring nxt prv L \<longleftrightarrow> (\<forall>(x, y) \<in> set (steps_of L). nxt ! x = y \<and> prv ! y = x)"

definition ear_ok :: "nat \<Rightarrow> nat list \<Rightarrow> ear_state \<Rightarrow> bool" where
  "ear_ok n L st \<longleftrightarrow> distinct L \<and> set L \<subseteq> {..<n} \<and> length L = es_remaining st \<and> 3 \<le> length L \<and> es_i st \<in> set L
     \<and> length (es_prev st) = n \<and> length (es_next st) = n \<and> ring (es_next st) (es_prev st) L"

lemma ear_ok_rotate: "ear_ok n L st \<Longrightarrow> ear_ok n (rotate k L) st"
  by (simp add: ear_ok_def ring_def steps_of_rotate)

lemma ear_ok_start: "3 \<le> n \<Longrightarrow> ear_ok n [0..<n] (ear_start pts n)"
proof -
  assume n: "3 \<le> n"
  have "((i + 1) mod n + n - 1) mod n = i" if "i < n" for i
    using that n by (cases "i + 1 = n") auto
  then show ?thesis using n
    by (auto simp: ear_ok_def ring_def steps_of_upt ear_start_def Let_def)
qed

text \<open>The ring seen from \<open>i\<close>: its neighbours are what the arrays say.\<close>

lemma ring_view:
  assumes "ear_ok n L st"
  obtains k R where "rotate k L = es_prev st ! es_i st # es_i st # es_next st ! es_i st # R"
    "ear_ok n (rotate k L) st"
proof -
  obtain xs ys where L: "L = xs @ es_i st # ys" using assms by (auto simp: ear_ok_def in_set_conv_decomp)
  have len: "3 \<le> length L" using assms by (simp add: ear_ok_def)
  then obtain c R0 where M: "ys @ xs = c # R0" by (cases "ys @ xs") (auto simp: L)
  have "R0 \<noteq> []" using len arg_cong[OF M, of length] by (auto simp: L)
  then obtain R a where R0: "R0 = R @ [a]" by (cases R0 rule: rev_cases) auto
  have "rotate (length xs) L = es_i st # ys @ xs" using rotate_append[of xs "es_i st # ys"] by (simp add: L)
  also have "\<dots> = (es_i st # c # R) @ [a]" by (simp add: M R0)
  finally have "rotate (length (es_i st # c # R) + length xs) L = a # es_i st # c # R"
    using rotate_append[of "es_i st # c # R" "[a]"] unfolding rotate_rotate[symmetric] by simp
  then obtain k where k: "rotate k L = a # es_i st # c # R" by blast
  have ok: "ear_ok n (rotate k L) st" by (rule ear_ok_rotate[OF assms])
  then have "(a, es_i st) \<in> set (steps_of (rotate k L))" "(es_i st, c) \<in> set (steps_of (rotate k L))"
    by (simp_all add: k steps_of_def)
  then have "es_prev st ! es_i st = a" "es_next st ! es_i st = c"
    using ok by (auto simp: ear_ok_def ring_def)
  then show ?thesis using that[of k R] k ok by simp
qed

lemma ear_ok_cut:
  assumes "ear_ok n (a # b # c # R) st" "R \<noteq> []"
    "es_prev st' = (es_prev st)[c := a]" "es_next st' = (es_next st)[a := c]"
    "es_remaining st' = es_remaining st - 1" "es_i st' = a"
  shows "ear_ok n (a # c # R) st'"
proof -
  have d: "distinct (a # b # c # R)" "set (a # b # c # R) \<subseteq> {..<n}" "length (es_prev st) = n" "length (es_next st) = n"
    and rg: "ring (es_next st) (es_prev st) (a # b # c # R)"
    using assms(1) by (auto simp: ear_ok_def)
  have "(es_next st)[a := c] ! x = y \<and> (es_prev st)[c := a] ! y = x" if "(x, y) \<in> set (zip (c # R) (R @ [a]))" for x y
  proof -
    have "x \<in> set (c # R)" "y \<in> set (R @ [a])" using that by (auto dest: set_zip_leftD set_zip_rightD)
    then have "x \<noteq> a" "y \<noteq> c" using d(1) by auto
    moreover have "(x, y) \<in> set (steps_of (a # b # c # R))" using that by (simp add: steps_of_Cons)
    then have "es_next st ! x = y \<and> es_prev st ! y = x" using rg by (auto simp: ring_def)
    ultimately show ?thesis by simp
  qed
  moreover have "steps_of (a # c # R) = (a, c) # zip (c # R) (R @ [a])" by (simp add: steps_of_Cons)
  ultimately have "ring ((es_next st)[a := c]) ((es_prev st)[c := a]) (a # c # R)"
    using d by (auto simp: ring_def)
  then show ?thesis using assms d by (cases R) (auto simp: ear_ok_def)
qed

subsection \<open>The boundary is conserved\<close>

definition poly_sum :: "(nat \<Rightarrow> nat \<Rightarrow> 'a :: ab_group_add) \<Rightarrow> nat list \<Rightarrow> 'a" where
  "poly_sum w L = sum_list (map (\<lambda>(x, y). w x y) (steps_of L))"

definition tri_sum :: "(nat \<Rightarrow> nat \<Rightarrow> 'a :: ab_group_add) \<Rightarrow> triangle \<Rightarrow> 'a" where
  "tri_sum w t = (case t of (a, b, c) \<Rightarrow> w a b + w b c + w c a)"

lemma sum_list_rotate: "sum_list (rotate k xs) = sum_list (xs :: 'a :: ab_group_add list)"
proof (induction k)
  case (Suc k)
  have "sum_list (rotate1 ys) = sum_list ys" for ys :: "'a list" by (cases ys) (simp_all add: add.commute)
  then show ?case using Suc by simp
qed simp

lemma poly_sum_rotate: "poly_sum w (rotate k L) = poly_sum w L"
  by (simp only: poly_sum_def steps_of_rotate rotate_map[symmetric] sum_list_rotate)

lemma poly_sum_cut:
  assumes "\<And>x y. w x y = - w y x"
  shows "poly_sum w (a # b # c # R) = tri_sum w (a, b, c) + poly_sum w (a # c # R)"
proof -
  have "w a c + w c a = 0" using assms[of a c] by simp
  then show ?thesis by (simp add: poly_sum_def steps_of_Cons tri_sum_def algebra_simps add_eq_0_iff)
qed

lemma poly_sum_three: "poly_sum w [a, b, c] = tri_sum w (a, b, c)"
  by (simp add: poly_sum_def steps_of_def tri_sum_def algebra_simps)

definition good_tri :: "nat \<Rightarrow> triangle \<Rightarrow> bool" where
  "good_tri n t \<longleftrightarrow> (case t of (a, b, c) \<Rightarrow> a < n \<and> b < n \<and> c < n \<and> a \<noteq> b \<and> b \<noteq> c \<and> a \<noteq> c)"

definition ear_inv :: "(nat \<Rightarrow> nat \<Rightarrow> 'a :: ab_group_add) \<Rightarrow> nat list \<Rightarrow> nat \<Rightarrow> ear_state \<Rightarrow> bool" where
  "ear_inv w idx n st \<longleftrightarrow> (\<exists>L. ear_ok n L st \<and> length (es_tris st) + es_remaining st = n
     \<and> (\<forall>t \<in> set (es_tris st). good_tri n t)
     \<and> sum_list (map (tri_sum w) (es_tris st)) + poly_sum (\<lambda>x y. w (idx ! x) (idx ! y)) L
         = poly_sum (\<lambda>x y. w (idx ! x) (idx ! y)) [0..<n])"

lemma good_idx:
  assumes "distinct idx" "set idx = {..<n}" "distinct [a, b, c]" "a < n" "b < n" "c < n"
  shows "good_tri n (idx ! a, idx ! b, idx ! c)"
proof -
  have "length idx = n" using distinct_card[OF assms(1)] assms(2) by simp
  then show ?thesis using assms nth_mem[of _ idx] by (auto simp: good_tri_def nth_eq_iff_index_eq)
qed

lemma ear_inv_step:
  assumes "ear_inv w idx n st" "\<And>x y. w x y = - w y x" "distinct idx" "set idx = {..<n}" "3 < es_remaining st"
  shows "ear_inv w idx n (ear_step pts idx st)"
proof -
  let ?w = "\<lambda>x y. w (idx ! x) (idx ! y)"
  obtain L where L: "ear_ok n L st" "length (es_tris st) + es_remaining st = n" "\<forall>t \<in> set (es_tris st). good_tri n t"
    "sum_list (map (tri_sum w) (es_tris st)) + poly_sum ?w L = poly_sum ?w [0..<n]"
    using assms(1) by (auto simp: ear_inv_def)
  define a b c where abc: "a = es_prev st ! es_i st" "b = es_i st" "c = es_next st ! es_i st"
  obtain k R where R: "rotate k L = a # b # c # R" and ok: "ear_ok n (a # b # c # R) st"
    using ring_view[OF L(1)] by (metis abc)
  have s: "poly_sum ?w L = poly_sum ?w (a # b # c # R)" using poly_sum_rotate[of ?w k L] R by simp
  show ?thesis
  proof (cases "isEar pts (es_removed st) (es_reflex st) a b c")
    case False
    then have "ear_step pts idx st = st\<lparr>es_i := c\<rparr>" by (simp add: ear_step_def Let_def abc)
    moreover have "ear_ok n L (st\<lparr>es_i := c\<rparr>)"
    proof -
      have "set L = set (a # b # c # R)" using arg_cong[OF R, of set] by simp
      then show ?thesis using L(1) by (auto simp: ear_ok_def)
    qed
    ultimately show ?thesis using L unfolding ear_inv_def by (intro exI[of _ L]) simp
  next
    case True
    let ?st = "ear_step pts idx st"
    have f: "es_prev ?st = (es_prev st)[c := a]" "es_next ?st = (es_next st)[a := c]" "es_remaining ?st = es_remaining st - 1"
      "es_i ?st = a" "es_tris ?st = es_tris st @ [(idx ! a, idx ! b, idx ! c)]"
      using True by (simp_all add: ear_step_def Let_def abc)
    have len: "length (a # b # c # R) = es_remaining st" using ok by (simp add: ear_ok_def)
    then have "R \<noteq> []" using assms(5) by auto
    have cut: "ear_ok n (a # c # R) ?st" by (rule ear_ok_cut[OF ok \<open>R \<noteq> []\<close> f(1-4)])
    have good: "good_tri n (idx ! a, idx ! b, idx ! c)"
      using ok by (intro good_idx[OF assms(3,4)]) (auto simp: ear_ok_def)
    have "poly_sum ?w (a # b # c # R) = tri_sum w (idx ! a, idx ! b, idx ! c) + poly_sum ?w (a # c # R)"
      using poly_sum_cut[of ?w a b c R, OF assms(2)] by (simp add: tri_sum_def)
    then have bd: "sum_list (map (tri_sum w) (es_tris ?st)) + poly_sum ?w (a # c # R) = poly_sum ?w [0..<n]"
      using L(4) s f(5) by (simp add: add.assoc)
    have "length (es_tris ?st) + es_remaining ?st = n" using L(2) f(3,5) assms(5) by simp
    moreover have "\<forall>t \<in> set (es_tris ?st). good_tri n t" using L(3) good f(5) by simp
    ultimately show ?thesis using cut bd unfolding ear_inv_def by blast
  qed
qed

lemma ear_loop_inv:
  assumes "ear_loop pts idx n gd st = Inr st'" "ear_inv w idx n st" "\<And>x y. w x y = - w y x" "distinct idx" "set idx = {..<n}"
  shows "ear_inv w idx n st' \<and> es_remaining st' \<le> 3"
  using assms(1,2,4,5)
proof (induction pts idx n gd st rule: ear_loop.induct)
  case (1 pts idx n gd st)
  note eq = ear_loop.simps[of pts idx n gd st]
  show ?case
  proof (cases "3 < es_remaining st")
    case True
    then have "\<not> n * n < gd + 1" "ear_loop pts idx n (gd + 1) (ear_step pts idx st) = Inr st'"
      using 1(2) eq by (auto split: if_splits)
    then show ?thesis using 1(1)[OF True] ear_inv_step[OF 1(3) assms(3) 1(4,5) True] 1(4,5) by simp
  next
    case False
    then show ?thesis using 1(2,3) eq by simp
  qed
qed

lemma ear_loop_done:
  assumes "ear_loop pts idx n 0 (ear_start pts n) = Inr st" "3 \<le> n" "\<And>x y. w x y = - w y x" "distinct idx" "set idx = {..<n}"
    "tris = es_tris st @ [last_triangle idx st]"
  shows "length tris = n - 2 \<and> (\<forall>t \<in> set tris. good_tri n t)
    \<and> sum_list (map (tri_sum w) tris) = poly_sum (\<lambda>x y. w (idx ! x) (idx ! y)) [0..<n]"
proof -
  let ?w = "\<lambda>x y. w (idx ! x) (idx ! y)"
  have "ear_inv w idx n (ear_start pts n)"
    unfolding ear_inv_def
    by (rule exI[of _ "[0..<n]"]) (use ear_ok_start[OF assms(2)] in \<open>simp add: ear_start_def Let_def\<close>)
  from ear_loop_inv[OF assms(1) this assms(3-5)] obtain L where L: "ear_ok n L st"
    "length (es_tris st) + es_remaining st = n" "\<forall>t \<in> set (es_tris st). good_tri n t"
    "sum_list (map (tri_sum w) (es_tris st)) + poly_sum ?w L = poly_sum ?w [0..<n]" "es_remaining st \<le> 3"
    by (auto simp: ear_inv_def)
  have three: "es_remaining st = 3" "length L = 3" using L(1,5) by (auto simp: ear_ok_def)
  obtain k R where R: "rotate k L = es_prev st ! es_i st # es_i st # es_next st ! es_i st # R" "ear_ok n (rotate k L) st"
    using ring_view[OF L(1)] by metis
  have "R = []" using arg_cong[OF R(1), of length] three by simp
  then have v: "rotate k L = [es_prev st ! es_i st, es_i st, es_next st ! es_i st]" using R(1) by simp
  have "poly_sum ?w L = tri_sum w (last_triangle idx st)"
    using poly_sum_rotate[of ?w k L] unfolding v poly_sum_three by (simp add: tri_sum_def last_triangle_def)
  moreover have "good_tri n (last_triangle idx st)"
    using R(2) unfolding v last_triangle_def by (intro good_idx[OF assms(4,5)]) (auto simp: ear_ok_def)
  ultimately show ?thesis using L(2-4) three assms(6) by auto
qed

lemma poly_sum_upt: "poly_sum w [0..<n] = (\<Sum>i = 0..<n. w i ((i + 1) mod n))"
  by (simp add: poly_sum_def steps_of_upt comp_def sum_list_distinct_conv_sum_set)

lemma poly_sum_mirror:
  fixes w :: "nat \<Rightarrow> nat \<Rightarrow> 'a :: ab_group_add"
  assumes "\<And>x y. w x y = - w y x"
  shows "poly_sum (\<lambda>x y. w (rev [0..<n] ! x) (rev [0..<n] ! y)) [0..<n] = - (\<Sum>i = 0..<n. w i ((i + 1) mod n))"
proof -
  let ?m = "\<lambda>i. if i + 1 = n then i else n - 2 - i"
  have "w (rev [0..<n] ! i) (rev [0..<n] ! ((i + 1) mod n)) = w ((?m i + 1) mod n) (?m i)" if "i \<in> {0..<n}" for i
    using that by (cases "i + 1 = n") (auto simp: rev_nth Suc_diff_Suc)
  then have "poly_sum (\<lambda>x y. w (rev [0..<n] ! x) (rev [0..<n] ! y)) [0..<n] = (\<Sum>i = 0..<n. w ((?m i + 1) mod n) (?m i))"
    unfolding poly_sum_upt by (rule sum.cong[OF refl])
  also have "\<dots> = (\<Sum>i = 0..<n. w ((i + 1) mod n) i)"
    using mirror_bij[of n] by (intro sum.reindex_bij_betw[of ?m]) (auto simp: bij_betw_def)
  also have "\<dots> = (\<Sum>i = 0..<n. - w i ((i + 1) mod n))" by (rule sum.cong[OF refl], rule assms)
  finally show ?thesis by (simp add: sum_negf)
qed

lemma tri_sum_flip:
  assumes "\<And>x y. w x y = - w y x"
  shows "tri_sum w (flip t) = - tri_sum w t"
proof (cases t)
  case (fields a b c)
  show ?thesis using assms[of a c] assms[of c b] assms[of b a] by (simp add: fields tri_sum_def flip_def)
qed

lemma tri_sum_flips:
  assumes "\<And>x y. w x y = - w y x"
  shows "sum_list (map (tri_sum w) (map flip ts)) = - sum_list (map (tri_sum w) ts)"
  by (induction ts) (simp_all add: tri_sum_flip[OF assms])

lemma Triangulate_covers:
  fixes w :: "nat \<Rightarrow> nat \<Rightarrow> 'a :: ab_group_add"
  assumes "Triangulate ps = Inr tris" "\<forall>x y. w x y = - w y x"
  shows "length tris = length ps - 2 \<and> (\<forall>t \<in> set tris. good_tri (length ps) t)
    \<and> sum_list (map (tri_sum w) tris) = (\<Sum>i = 0..<length ps. w i ((i + 1) mod length ps))"
proof -
  let ?n = "length ps"
  have w: "w x y = - w y x" for x y using assms(2) by blast
  obtain rv pts idx st where r: "\<not> ?n < 3" "idx = (if rv then rev [0..<?n] else [0..<?n])"
    "ear_loop pts idx ?n 0 (ear_start pts ?n) = Inr st"
    "tris = (if rv then map flip (es_tris st @ [last_triangle idx st]) else es_tris st @ [last_triangle idx st])"
    using assms(1) by (auto simp: Triangulate_def Let_def result_iffs split: prod.splits)
  have idx: "distinct idx" "set idx = {..<?n}" using r(2) by auto
  note d = ear_loop_done[OF r(3) _ w idx refl]
  show ?thesis
  proof (cases rv)
    case False
    have "poly_sum (\<lambda>x y. w ([0..<?n] ! x) ([0..<?n] ! y)) [0..<?n] = (\<Sum>i = 0..<?n. w i ((i + 1) mod ?n))"
      unfolding poly_sum_upt
    proof (rule sum.cong[OF refl])
      fix i assume "i \<in> {0..<?n}"
      then have "i < ?n" "(i + 1) mod ?n < ?n" by (auto intro!: mod_less_divisor)
      then show "w ([0..<?n] ! i) ([0..<?n] ! ((i + 1) mod ?n)) = w i ((i + 1) mod ?n)" by simp
    qed
    then show ?thesis using d r False by simp
  next
    case True
    have "good_tri ?n t \<Longrightarrow> good_tri ?n (flip t)" for t by (auto simp: good_tri_def flip_def split: prod.splits)
    then show ?thesis using d r True tri_sum_flips[OF w, where ts = "es_tris st @ [last_triangle idx st]"]
        poly_sum_mirror[OF w, where n = ?n] by auto
  qed
qed

text \<open>C22: a triangulation has two triangles less than the polygon has vertices, each with three different
  vertices of the polygon, and it covers the polygon with its orientation: for every quantity of directed
  segments that changes its sign with the direction (the terms of the area, for one) the sum over the
  sides of the triangles is the sum over the sides of the polygon, so inner sides cancel in pairs.\<close>

theorem triangulation_covers:
  fixes w :: "nat \<Rightarrow> nat \<Rightarrow> rat"
  assumes "Triangulate ps = Inr tris" "\<forall>x y. w x y = - w y x"
  shows "length tris = length ps - 2 \<and> (\<forall>t \<in> set tris. good_tri (length ps) t)
    \<and> sum_list (map (tri_sum w) tris) = (\<Sum>i = 0..<length ps. w i ((i + 1) mod length ps))"
  by (rule Triangulate_covers[OF assms])

text \<open>A square in the plane z = 0.\<close>

definition square :: "Point3 list" where
  "square = [pt 0 0 0, pt 64 0 0, pt 64 64 0, pt 0 64 0]"

lemma square_normal: "polygonNormal square = (\<lparr>v_X = Fin 0, v_Y = Fin 0, v_Z = Fin 1\<rparr>, True)"
  by code_simp

lemma square_flat: "project2D square \<lparr>v_X = Fin 0, v_Y = Fin 0, v_Z = Fin 1\<rparr> = [(Fin 0, Fin 0), (Fin 64, Fin 0), (Fin 64, Fin 64), (Fin 0, Fin 64)]"
  by code_simp

definition flat :: "pt2 list" where
  "flat = [(Fin 0, Fin 0), (Fin 64, Fin 0), (Fin 64, Fin 64), (Fin 0, Fin 64)]"

lemma square_side: "\<not> signedArea2 flat < Fin 0"
  by code_simp

lemma square_loop: "(case ear_loop flat [0, 1, 2, 3] 4 0 (ear_start flat 4) of
     Inl e \<Rightarrow> Inl e | Inr st \<Rightarrow> Inr (es_tris st, last_triangle [0, 1, 2, 3] st)) = Inr ([(3, 0, 1)], (2, 3, 1))"
  by code_simp

lemma square_tris: "Triangulate square = Inr [(3, 0, 1), (2, 3, 1)]"
proof -
  have l: "length square = 4" "[0..<4] = [0, 1, 2, 3 :: nat]" by (simp_all add: square_def upt_rec)
  obtain st where st: "ear_loop flat [0, 1, 2, 3] 4 0 (ear_start flat 4) = Inr st"
    "es_tris st = [(3, 0, 1)]" "last_triangle [0, 1, 2, 3] st = (2, 3, 1)"
    using square_loop by (auto split: sum.splits)
  show ?thesis
    unfolding Triangulate_def Let_def l square_normal prod.case square_flat flat_def[symmetric]
    using square_side st by simp
qed

text \<open>Twice the area of the square, from its triangles.\<close>

definition square_area :: "nat \<Rightarrow> nat \<Rightarrow> rat" where
  "square_area i j = (let q = [(0, 0), (64, 0), (64, 64), (0, 64)] in
     fst (q ! i) * snd (q ! j) - fst (q ! j) * snd (q ! i))"

theorem triangulation_covers_witness:
  "tri_sum square_area (3, 0, 1) + tri_sum square_area (2, 3, 1) = 2 * 64 * 64"
proof -
  have anti: "\<forall>x y. square_area x y = - square_area y x" by (simp add: square_area_def Let_def)
  have "{0..<4} = {0, 1, 2, 3 :: nat}" by auto
  then have "(\<Sum>i = 0..<4. square_area i ((i + 1) mod 4)) = 2 * 64 * 64"
    by (simp add: square_area_def Let_def)
  moreover have l: "length square = 4" by (simp add: square_def)
  ultimately show ?thesis using triangulation_covers[OF square_tris anti, unfolded l] by simp
qed

end
