(* ===== verification/Geo_Solid.thy ===== *)
theory Geo_Solid
  imports Geo_Tess Go_Fmt
begin

text \<open>
  Measuring, meshing and validating solids: the cache of triangulations (\<open>internal/geometry/tess.go\<close>),
  volume and surface (\<open>measure.go\<close>), the mesh (\<open>mesh.go\<close> and \<open>engine/geometry/mesh.go\<close>) and the report of
  \<open>validate.go\<close>. The cache is keyed by the pointer of a wire; what it holds depends on the wire only, so
  here it is keyed by the wire. A nil cache is \<open>None\<close>. Wires are never nil. The counts of edges are a Go
  map that is ranged over; the order of issues with the same code is left open by the code.
\<close>

subsection \<open>\<open>tess.go\<close>\<close>

record FaceTess =
  ft_Points :: "Point3 list"
  ft_Closed :: bool
  ft_Tris :: "triangle list"
  ft_WireErr :: "tess_error option"
  ft_TrisErr :: "tess_error option"

definition tessFaceNoCache :: "Wire \<Rightarrow> FaceTess" where
  "tessFaceNoCache w =
     (if length w < 3 then \<lparr>ft_Points = [], ft_Closed = False, ft_Tris = [], ft_WireErr = Some FewEdges, ft_TrisErr = None\<rparr>
      else case contourPoints w of (pts, cl) \<Rightarrow>
        (case Triangulate pts of
           Inl e \<Rightarrow> \<lparr>ft_Points = pts, ft_Closed = cl, ft_Tris = [], ft_WireErr = None, ft_TrisErr = Some e\<rparr>
         | Inr tris \<Rightarrow> \<lparr>ft_Points = pts, ft_Closed = cl, ft_Tris = tris, ft_WireErr = None, ft_TrisErr = None\<rparr>))"

type_synonym TessellationCache = "(Wire \<times> FaceTess) list option"

definition cache_Face :: "TessellationCache \<Rightarrow> Wire \<Rightarrow> FaceTess \<times> TessellationCache" where
  "cache_Face c w =
     (case c of
        None \<Rightarrow> (tessFaceNoCache w, None)
      | Some m \<Rightarrow>
          (case map_of m w of
             Some t \<Rightarrow> (t, c)
           | None \<Rightarrow> let t = tessFaceNoCache w in (t, Some (mput w t m))))"

definition NewTessellationCache :: TessellationCache where
  "NewTessellationCache = Some []"

subsection \<open>\<open>measure.go\<close>\<close>

definition as_vector :: "Point3 \<Rightarrow> Vector3" where
  "as_vector p = \<lparr>v_X = p_X p, v_Y = p_Y p, v_Z = p_Z p\<rparr>"

definition triangleArea :: "Point3 \<Rightarrow> Point3 \<Rightarrow> Point3 \<Rightarrow> f64" where
  "triangleArea a b c = Fin (1 / 2) * vec_Norm (vec_Cross (pt_Sub b a) (pt_Sub c a))"

definition tetraVolume :: "Point3 \<Rightarrow> Point3 \<Rightarrow> Point3 \<Rightarrow> f64" where
  "tetraVolume a b c = vec_Dot (as_vector a) (vec_Cross (as_vector b) (as_vector c)) / Fin 6"

text \<open>The loop over the faces that \<open>volume\<close> and \<open>surfaceArea\<close> share; \<open>g\<close> measures one triangle.\<close>

fun measure_faces :: "(Point3 \<Rightarrow> Point3 \<Rightarrow> Point3 \<Rightarrow> f64) \<Rightarrow> Face list \<Rightarrow> f64 \<Rightarrow> TessellationCache
    \<Rightarrow> (tess_error, f64) result \<times> TessellationCache" where
  "measure_faces g [] acc c = (Inr acc, c)"
| "measure_faces g (f # fs) acc c =
     (case cache_Face c (fa_outer f) of (t, c') \<Rightarrow>
        if \<not> ft_Closed t then (Inl OpenContour, c')
        else (case ft_WireErr t of Some e \<Rightarrow> (Inl e, c')
          | None \<Rightarrow> (case ft_TrisErr t of Some e \<Rightarrow> (Inl e, c')
            | None \<Rightarrow> measure_faces g fs
                (fold (\<lambda>(i, j, k) s. s + g (ft_Points t ! i) (ft_Points t ! j) (ft_Points t ! k)) (ft_Tris t) acc) c')))"

definition solid_volume :: "Solid \<Rightarrow> TessellationCache \<Rightarrow> (tess_error, f64) result \<times> TessellationCache" where
  "solid_volume s c = (if so_shells s = [] then (Inl NoShells, c)
     else measure_faces tetraVolume (concat (so_shells s)) (Fin 0) c)"

definition surfaceArea :: "Solid \<Rightarrow> TessellationCache \<Rightarrow> (tess_error, f64) result \<times> TessellationCache" where
  "surfaceArea s c = (if so_shells s = [] then (Inl NoShells, c)
     else measure_faces triangleArea (concat (so_shells s)) (Fin 0) c)"

definition SolidCount :: "Solid list option \<Rightarrow> nat" where
  "SolidCount model = (case model of None \<Rightarrow> 0 | Some ss \<Rightarrow> length ss)"

subsection \<open>\<open>mesh.go\<close>\<close>

record Mesh =
  me_Vertices :: "Point3 list"
  me_Triangles :: "triangle list"

datatype mesh_error = IndexRange | MeshWire tess_error | MeshTris tess_error | NoModel

definition AddTriangle :: "triangle \<Rightarrow> Mesh \<Rightarrow> (mesh_error, Mesh) result" where
  "AddTriangle t m = (case t of (a, b, c) \<Rightarrow>
     guard_with (a \<ge> length (me_Vertices m) \<or> b \<ge> length (me_Vertices m) \<or> c \<ge> length (me_Vertices m)) IndexRange
       (Inr (m\<lparr>me_Triangles := me_Triangles m @ [(a, b, c)]\<rparr>)))"

definition shift_tri :: "nat \<Rightarrow> triangle \<Rightarrow> triangle" where
  "shift_tri base t = (case t of (a, b, c) \<Rightarrow> (base + a, base + b, base + c))"

fun mesh_faces :: "Face list \<Rightarrow> Point3 list \<times> triangle list \<Rightarrow> TessellationCache
    \<Rightarrow> (mesh_error, Point3 list \<times> triangle list) result \<times> TessellationCache" where
  "mesh_faces [] acc c = (Inr acc, c)"
| "mesh_faces (f # fs) acc c =
     (case cache_Face c (fa_outer f) of (t, c') \<Rightarrow>
        (case ft_WireErr t of Some e \<Rightarrow> (Inl (MeshWire e), c')
         | None \<Rightarrow> (case ft_TrisErr t of Some e \<Rightarrow> (Inl (MeshTris e), c')
           | None \<Rightarrow> mesh_faces fs (fst acc @ ft_Points t, snd acc @ map (shift_tri (length (fst acc))) (ft_Tris t)) c')))"

definition meshSolid :: "Solid \<Rightarrow> TessellationCache \<Rightarrow> (mesh_error, Point3 list \<times> triangle list) result \<times> TessellationCache" where
  "meshSolid s c = mesh_faces (concat (so_shells s)) ([], []) c"

fun add_triangles :: "nat \<Rightarrow> triangle list \<Rightarrow> Mesh \<Rightarrow> (mesh_error, Mesh) result" where
  "add_triangles base [] m = Inr m"
| "add_triangles base (t # ts) m = bindR (AddTriangle (shift_tri base t) m) (add_triangles base ts)"

text \<open>Appending the mesh of one body, as \<open>ToPreviewMeshCached\<close> and \<open>Generate\<close> do.\<close>

definition append_mesh :: "Point3 list \<Rightarrow> triangle list \<Rightarrow> Mesh \<Rightarrow> (mesh_error, Mesh) result" where
  "append_mesh vs ts m = add_triangles (length (me_Vertices m)) ts (m\<lparr>me_Vertices := me_Vertices m @ vs\<rparr>)"

fun mesh_solids :: "Solid list \<Rightarrow> Mesh \<Rightarrow> TessellationCache \<Rightarrow> (mesh_error, Mesh) result" where
  "mesh_solids [] m c = Inr m"
| "mesh_solids (s # ss) m c =
     (case meshSolid s c of
        (Inl e, c') \<Rightarrow> Inl e
      | (Inr (vs, ts), c') \<Rightarrow> bindR (append_mesh vs ts m) (\<lambda>m'. mesh_solids ss m' c'))"

definition ToPreviewMeshCached :: "Solid list option \<Rightarrow> TessellationCache \<Rightarrow> (mesh_error, Mesh) result" where
  "ToPreviewMeshCached model c = (case model of None \<Rightarrow> Inl NoModel
     | Some ss \<Rightarrow> mesh_solids ss \<lparr>me_Vertices = [], me_Triangles = []\<rparr> c)"

definition ToPreviewMesh :: "Solid list option \<Rightarrow> (mesh_error, Mesh) result" where
  "ToPreviewMesh model = ToPreviewMeshCached model NewTessellationCache"

subsection \<open>\<open>validate.go\<close>\<close>

record ValidationIssue =
  gi_Code :: string
  gi_Severity :: string
  gi_Element :: string
  gi_Message :: string

type_synonym edge_counts = "((Point3 \<times> Point3) \<times> int) list"

definition key_eq :: "Point3 \<times> Point3 \<Rightarrow> Point3 \<times> Point3 \<Rightarrow> bool" where
  "key_eq k l \<longleftrightarrow> point_eq (fst k) (fst l) \<and> point_eq (snd k) (snd l)"

fun count_edge :: "Point3 \<times> Point3 \<Rightarrow> edge_counts \<Rightarrow> edge_counts" where
  "count_edge k [] = [(k, 1)]"
| "count_edge k ((l, n) # r) = (if key_eq k l then (l, n + 1) # r else (l, n) # count_edge k r)"

definition few_edges :: "string \<Rightarrow> ValidationIssue" where
  "few_edges el = \<lparr>gi_Code = ''GEO-FACE-FEW-EDGES'', gi_Severity = ''error'', gi_Element = el,
     gi_Message = ''face has fewer than 3 edges''\<rparr>"

definition open_wire :: "string \<Rightarrow> ValidationIssue" where
  "open_wire el = \<lparr>gi_Code = ''GEO-FACE-OPEN-WIRE'', gi_Severity = ''error'', gi_Element = el,
     gi_Message = ''face contour is not closed''\<rparr>"

definition check_face :: "string \<Rightarrow> Face \<Rightarrow> ValidationIssue list \<times> edge_counts \<Rightarrow> ValidationIssue list \<times> edge_counts" where
  "check_face el f st =
     (if length (fa_outer f) < 3 then (fst st @ [few_edges el], snd st)
      else (if snd (contourPoints (fa_outer f)) then fst st else fst st @ [open_wire el],
            fold (\<lambda>(a, b). count_edge (edgeKey a b)) (fa_outer f) (snd st)))"

definition check_shells :: "Face list list \<Rightarrow> ValidationIssue list \<times> edge_counts" where
  "check_shells shells =
     fold (\<lambda>(i, shell). fold (check_face (''face:'' @ Itoa (int i))) shell) (enumerate 0 shells) ([], [])"

definition pt_text :: "Point3 \<Rightarrow> string" where
  "pt_text p = fmt_f 0 (p_X p) @ '','' @ fmt_f 0 (p_Y p) @ '','' @ fmt_f 0 (p_Z p)"

definition non_manifold :: "(Point3 \<times> Point3) \<times> int \<Rightarrow> ValidationIssue list" where
  "non_manifold kn = (if snd kn \<noteq> 2 then
     [\<lparr>gi_Code = ''GEO-SOLID-NON-MANIFOLD'', gi_Severity = ''error'',
       gi_Element = ''edge:('' @ pt_text (fst (fst kn)) @ '';'' @ pt_text (snd (fst kn)) @ '')'',
       gi_Message = ''edge has '' @ Itoa (snd kn) @ '' incident faces, want 2''\<rparr>] else [])"

definition solid_issue :: "string \<Rightarrow> string \<Rightarrow> ValidationIssue" where
  "solid_issue code msg = \<lparr>gi_Code = code, gi_Severity = ''error'', gi_Element = ''solid'', gi_Message = msg\<rparr>"

definition bad_volume :: "(tess_error, f64) result \<Rightarrow> bool" where
  "bad_volume r = (case r of Inl e \<Rightarrow> True | Inr v \<Rightarrow> v \<le> Precision)"

definition volume_issue :: ValidationIssue where
  "volume_issue = solid_issue ''GEO-SOLID-NON-POSITIVE-VOLUME'' ''solid volume must be positive''"

definition geo_validate :: "Solid option \<Rightarrow> TessellationCache \<Rightarrow> ValidationIssue list \<times> TessellationCache" where
  "geo_validate so c =
     (case so of
        None \<Rightarrow> ([solid_issue ''GEO-SOLID-MISSING'' ''solid is required''], c)
      | Some s \<Rightarrow>
          if so_shells s = [] then ([solid_issue ''GEO-SOLID-EMPTY'' ''solid has no shells''], c)
          else case check_shells (so_shells s) of (issues, counts) \<Rightarrow>
            (case solid_volume s c of (r, c') \<Rightarrow>
               (insertion_sort gi_Code (issues @ concat (map non_manifold counts)
                  @ (if bad_volume r then [volume_issue] else [])), c')))"

subsection \<open>The cache is transparent\<close>

definition cache_ok :: "TessellationCache \<Rightarrow> bool" where
  "cache_ok c \<longleftrightarrow> (case c of None \<Rightarrow> True | Some m \<Rightarrow> \<forall>w t. map_of m w = Some t \<longrightarrow> t = tessFaceNoCache w)"

lemma cache_Face_ok: "cache_ok c \<Longrightarrow> fst (cache_Face c w) = tessFaceNoCache w \<and> cache_ok (snd (cache_Face c w))"
  by (auto simp: cache_ok_def cache_Face_def Let_def split: option.splits)

lemma measure_faces_ok:
  "cache_ok c \<Longrightarrow> fst (measure_faces g fs acc c) = fst (measure_faces g fs acc None) \<and> cache_ok (snd (measure_faces g fs acc c))"
proof (induction fs arbitrary: acc c)
  case (Cons f fs)
  note F = cache_Face_ok[OF Cons.prems, of "fa_outer f"]
  have N: "cache_Face None (fa_outer f) = (tessFaceNoCache (fa_outer f), None)" by (simp add: cache_Face_def)
  show ?case using F Cons.IH[of "snd (cache_Face c (fa_outer f))"]
    by (simp add: N case_prod_beta split: option.split)
qed simp

lemma mesh_faces_ok:
  "cache_ok c \<Longrightarrow> fst (mesh_faces fs acc c) = fst (mesh_faces fs acc None) \<and> cache_ok (snd (mesh_faces fs acc c))"
proof (induction fs arbitrary: acc c)
  case (Cons f fs)
  note F = cache_Face_ok[OF Cons.prems, of "fa_outer f"]
  have N: "cache_Face None (fa_outer f) = (tessFaceNoCache (fa_outer f), None)" by (simp add: cache_Face_def)
  show ?case using F Cons.IH[of "snd (cache_Face c (fa_outer f))"]
    by (simp add: N case_prod_beta split: option.split)
qed simp

lemma cache_ok_None [simp]: "cache_ok None"
  by (simp add: cache_ok_def)

lemma solid_volume_ok: "cache_ok c \<Longrightarrow> fst (solid_volume s c) = fst (solid_volume s None) \<and> cache_ok (snd (solid_volume s c))"
  using measure_faces_ok[of c tetraVolume "concat (so_shells s)" "Fin 0"] by (auto simp: solid_volume_def)

lemma surfaceArea_ok: "cache_ok c \<Longrightarrow> fst (surfaceArea s c) = fst (surfaceArea s None) \<and> cache_ok (snd (surfaceArea s c))"
  using measure_faces_ok[of c triangleArea "concat (so_shells s)" "Fin 0"] by (auto simp: surfaceArea_def)

lemma meshSolid_ok: "cache_ok c \<Longrightarrow> fst (meshSolid s c) = fst (meshSolid s None) \<and> cache_ok (snd (meshSolid s c))"
  using mesh_faces_ok[of c "concat (so_shells s)" "([], [])"] by (auto simp: meshSolid_def)

lemma geo_validate_ok: "cache_ok c \<Longrightarrow> fst (geo_validate so c) = fst (geo_validate so None) \<and> cache_ok (snd (geo_validate so c))"
proof (cases so)
  case (Some s)
  assume "cache_ok c"
  then show ?thesis using solid_volume_ok[of c s] by (simp add: Some geo_validate_def case_prod_beta)
qed (simp add: geo_validate_def)

datatype geo_use = UseValidate Solid | UseVolume Solid | UseSurface Solid | UseMesh Solid

definition use_cache :: "geo_use \<Rightarrow> TessellationCache \<Rightarrow> TessellationCache" where
  "use_cache u c = (case u of UseValidate s \<Rightarrow> snd (geo_validate (Some s) c) | UseVolume s \<Rightarrow> snd (solid_volume s c)
     | UseSurface s \<Rightarrow> snd (surfaceArea s c) | UseMesh s \<Rightarrow> snd (meshSolid s c))"

lemma use_cache_ok: "cache_ok (fold use_cache us NewTessellationCache)"
proof -
  have "cache_ok c \<Longrightarrow> cache_ok (use_cache u c)" for u c
    by (cases u) (simp_all add: use_cache_def conjunct2[OF geo_validate_ok] conjunct2[OF solid_volume_ok]
        conjunct2[OF surfaceArea_ok] conjunct2[OF meshSolid_ok])
  moreover have "cache_ok NewTessellationCache" by (simp add: cache_ok_def NewTessellationCache_def)
  ultimately have "cache_ok c \<Longrightarrow> cache_ok (fold use_cache us c)" for c by (induction us arbitrary: c) simp_all
  then show ?thesis by (simp add: \<open>cache_ok NewTessellationCache\<close>)
qed

text \<open>A shared cache is invisible: started from the empty cache, any of the report, the volume, the
  surface and the mesh of a body is what it is without a cache, whatever bodies were processed with the
  cache before.\<close>

theorem cache_transparent:
  "let c = fold use_cache us NewTessellationCache in
     fst (geo_validate so c) = fst (geo_validate so None) \<and> fst (solid_volume s c) = fst (solid_volume s None)
     \<and> fst (surfaceArea s c) = fst (surfaceArea s None) \<and> fst (meshSolid s c) = fst (meshSolid s None)"
  unfolding Let_def
  using geo_validate_ok[OF use_cache_ok] solid_volume_ok[OF use_cache_ok] surfaceArea_ok[OF use_cache_ok]
    meshSolid_ok[OF use_cache_ok] by blast

subsection \<open>The mesh\<close>

lemma tess_good:
  "t = tessFaceNoCache w \<Longrightarrow> ft_WireErr t = None \<Longrightarrow> ft_TrisErr t = None
    \<Longrightarrow> ft_Points t = fst (contourPoints w) \<and> length (ft_Tris t) = length (ft_Points t) - 2
      \<and> (\<forall>x \<in> set (ft_Tris t). good_tri (length (ft_Points t)) x)"
proof -
  have "Triangulate ps = Inr tris \<Longrightarrow> length tris = length ps - 2 \<and> (\<forall>x \<in> set tris. good_tri (length ps) x)" for ps tris
    using Triangulate_covers[where w = "\<lambda>_ _. 0 :: int"] by auto
  then show "t = tessFaceNoCache w \<Longrightarrow> ft_WireErr t = None \<Longrightarrow> ft_TrisErr t = None
    \<Longrightarrow> ft_Points t = fst (contourPoints w) \<and> length (ft_Tris t) = length (ft_Points t) - 2
      \<and> (\<forall>x \<in> set (ft_Tris t). good_tri (length (ft_Points t)) x)"
    by (auto simp: tessFaceNoCache_def split: if_splits prod.splits sum.splits)
qed

lemma good_shift: "good_tri n t \<Longrightarrow> b + n \<le> m \<Longrightarrow> good_tri m (shift_tri b t)"
  by (auto simp: good_tri_def shift_tri_def split: prod.splits)

lemma good_mono: "good_tri n t \<Longrightarrow> n \<le> m \<Longrightarrow> good_tri m t"
  by (auto simp: good_tri_def split: prod.splits)

definition tris_ok :: "Point3 list \<Rightarrow> triangle list \<Rightarrow> bool" where
  "tris_ok vs ts \<longleftrightarrow> (\<forall>t \<in> set ts. good_tri (length vs) t)"

lemma tris_ok_append:
  "tris_ok vs ts \<Longrightarrow> tris_ok vs' ts' \<Longrightarrow> tris_ok (vs @ vs') (ts @ map (shift_tri (length vs)) ts')"
  unfolding tris_ok_def
proof
  fix x assume ok: "\<forall>t \<in> set ts. good_tri (length vs) t" "\<forall>t \<in> set ts'. good_tri (length vs') t"
    and "x \<in> set (ts @ map (shift_tri (length vs)) ts')"
  then consider "x \<in> set ts" | y where "x = shift_tri (length vs) y" "y \<in> set ts'" by auto
  then show "good_tri (length (vs @ vs')) x"
  proof cases
    case 1 then show ?thesis using ok(1) good_mono[of "length vs" x] by simp
  next
    case 2
    then have "good_tri (length vs') y" using ok(2) by blast
    then show ?thesis unfolding 2(1) by (rule good_shift) simp
  qed
qed

definition face_points :: "Face list \<Rightarrow> Point3 list" where
  "face_points fs = concat (map (\<lambda>f. fst (contourPoints (fa_outer f))) fs)"

lemma mesh_faces_good:
  "mesh_faces fs acc None = (Inr r, c) \<Longrightarrow> tris_ok (fst acc) (snd acc)
    \<Longrightarrow> fst r = fst acc @ face_points fs \<and> tris_ok (fst r) (snd r)"
proof (induction fs arbitrary: acc)
  case (Cons f fs)
  define t where "t = tessFaceNoCache (fa_outer f)"
  have N: "cache_Face None (fa_outer f) = (t, None)" by (simp add: cache_Face_def t_def)
  have e: "ft_WireErr t = None" "ft_TrisErr t = None"
    "mesh_faces fs (fst acc @ ft_Points t, snd acc @ map (shift_tri (length (fst acc))) (ft_Tris t)) None = (Inr r, c)"
    using Cons.prems(1) by (auto simp: N split: option.splits)
  note g = tess_good[OF t_def e(1,2)]
  have "tris_ok (ft_Points t) (ft_Tris t)" using g unfolding tris_ok_def by blast
  from tris_ok_append[OF Cons.prems(2) this] show ?case using Cons.IH[OF e(3)] g by (auto simp: face_points_def)
qed (simp add: face_points_def)

lemma mesh_faces_error: "mesh_faces fs acc None = (Inl e, c) \<Longrightarrow> e \<noteq> IndexRange \<and> e \<noteq> NoModel"
  by (induction fs arbitrary: acc) (auto simp: cache_Face_def split: option.splits prod.splits)

lemma add_triangles_good:
  assumes "\<forall>t \<in> set ts. good_tri (length (me_Vertices m)) (shift_tri b t)"
  shows "add_triangles b ts m = Inr (m\<lparr>me_Triangles := me_Triangles m @ map (shift_tri b) ts\<rparr>)"
  using assms
proof (induction ts arbitrary: m)
  case (Cons t ts)
  then have "AddTriangle (shift_tri b t) m = Inr (m\<lparr>me_Triangles := me_Triangles m @ [shift_tri b t]\<rparr>)"
    by (auto simp: AddTriangle_def good_tri_def split: prod.splits)
  then show ?case using Cons by simp
qed simp

lemma append_mesh_ok:
  assumes "tris_ok (me_Vertices m) (me_Triangles m)" "tris_ok vs ts"
  shows "append_mesh vs ts m = Inr \<lparr>me_Vertices = me_Vertices m @ vs,
      me_Triangles = me_Triangles m @ map (shift_tri (length (me_Vertices m))) ts\<rparr>"
    "tris_ok (me_Vertices m @ vs) (me_Triangles m @ map (shift_tri (length (me_Vertices m))) ts)"
proof -
  have "\<forall>t \<in> set ts. good_tri (length (me_Vertices m @ vs)) (shift_tri (length (me_Vertices m)) t)"
    using assms(2) by (auto simp: tris_ok_def intro: good_shift)
  then show "append_mesh vs ts m = Inr \<lparr>me_Vertices = me_Vertices m @ vs,
      me_Triangles = me_Triangles m @ map (shift_tri (length (me_Vertices m))) ts\<rparr>"
    using add_triangles_good[of ts "m\<lparr>me_Vertices := me_Vertices m @ vs\<rparr>" "length (me_Vertices m)"]
    by (simp add: append_mesh_def)
  show "tris_ok (me_Vertices m @ vs) (me_Triangles m @ map (shift_tri (length (me_Vertices m))) ts)"
    by (rule tris_ok_append[OF assms])
qed

lemma face_points_concat: "face_points (concat shells) = concat (map face_points shells)"
  by (induction shells) (simp_all add: face_points_def)

lemma solidPoints_faces: "solidPoints s = face_points (concat (so_shells s))"
  unfolding face_points_concat by (simp add: solidPoints_def face_points_def[abs_def])

lemma meshSolid_good:
  assumes "cache_ok c" "meshSolid s c = (r, c')"
  shows "cache_ok c'" "r = Inl e \<Longrightarrow> e \<noteq> IndexRange \<and> e \<noteq> NoModel"
    "r = Inr (vs, ts) \<Longrightarrow> vs = solidPoints s \<and> tris_ok vs ts"
proof -
  have r: "r = fst (mesh_faces (concat (so_shells s)) ([], []) None)"
    using meshSolid_ok[OF assms(1), of s] assms(2) by (simp add: meshSolid_def)
  obtain c0 where m: "mesh_faces (concat (so_shells s)) ([], []) None = (r, c0)" unfolding r by (metis prod.collapse)
  show "cache_ok c'" using meshSolid_ok[OF assms(1), of s] assms(2) by simp
  show "r = Inl e \<Longrightarrow> e \<noteq> IndexRange \<and> e \<noteq> NoModel" using mesh_faces_error m by blast
  show "vs = solidPoints s \<and> tris_ok vs ts" if "r = Inr (vs, ts)"
  proof -
    have "tris_ok (fst ([], [])) (snd ([], []))" by (simp add: tris_ok_def)
    from mesh_faces_good[OF m[unfolded that] this] show ?thesis
      by (auto simp: solidPoints_faces)
  qed
qed

lemma mesh_solids_good:
  assumes "cache_ok c" "tris_ok (me_Vertices m) (me_Triangles m)" "mesh_solids ss m c = r"
  shows "r = Inl e \<Longrightarrow> e \<noteq> IndexRange \<and> e \<noteq> NoModel"
    "r = Inr m' \<Longrightarrow> tris_ok (me_Vertices m') (me_Triangles m') \<and> me_Vertices m' = me_Vertices m @ concat (map solidPoints ss)"
proof -
  have "(r = Inl e \<longrightarrow> e \<noteq> IndexRange \<and> e \<noteq> NoModel) \<and> (r = Inr m' \<longrightarrow>
      tris_ok (me_Vertices m') (me_Triangles m') \<and> me_Vertices m' = me_Vertices m @ concat (map solidPoints ss))"
    using assms
  proof (induction ss arbitrary: m c)
    case (Cons s ss)
    obtain q c' where e: "meshSolid s c = (q, c')" by (cases "meshSolid s c")
    note g = meshSolid_good[OF Cons.prems(1) e]
    show ?case
    proof (cases q)
      case (Inl x)
      then have "r = Inl x" using Cons.prems(3) e by simp
      then show ?thesis using g(2)[OF Inl] by auto
    next
      case (Inr y)
      obtain vs ts where y: "y = (vs, ts)" by (cases y)
      note v = g(3)[OF Inr[unfolded y]]
      note a = append_mesh_ok[OF Cons.prems(2) conjunct2[OF v]]
      have "mesh_solids ss \<lparr>me_Vertices = me_Vertices m @ vs,
          me_Triangles = me_Triangles m @ map (shift_tri (length (me_Vertices m))) ts\<rparr> c' = r"
        using Cons.prems(3) e Inr y a(1) by simp
      from Cons.IH[OF g(1) _ this] a(2) show ?thesis using v by auto
    qed
  qed auto
  then show "r = Inl e \<Longrightarrow> e \<noteq> IndexRange \<and> e \<noteq> NoModel"
    "r = Inr m' \<Longrightarrow> tris_ok (me_Vertices m') (me_Triangles m') \<and> me_Vertices m' = me_Vertices m @ concat (map solidPoints ss)"
    by blast+
qed

text \<open>C23: the preview mesh of a model has the contour points of its faces as vertices, in order, and every
  triangle has three different vertices of the mesh; the check of the indices never fails, so the only
  errors are those of a face that has no triangulation.\<close>

theorem mesh_sound:
  "case ToPreviewMesh (Some ss) of
      Inl e \<Rightarrow> (\<exists>x. e = MeshWire x \<or> e = MeshTris x)
    | Inr m \<Rightarrow> me_Vertices m = concat (map solidPoints ss)
        \<and> list_all (good_tri (length (me_Vertices m))) (me_Triangles m)"
proof -
  let ?m = "\<lparr>me_Vertices = [], me_Triangles = []\<rparr>"
  have "tris_ok (me_Vertices ?m) (me_Triangles ?m)" by (simp add: tris_ok_def)
  moreover have "cache_ok NewTessellationCache" by (simp add: cache_ok_def NewTessellationCache_def)
  ultimately have g: "ToPreviewMesh (Some ss) = Inl e \<Longrightarrow> e \<noteq> IndexRange \<and> e \<noteq> NoModel"
    "ToPreviewMesh (Some ss) = Inr m' \<Longrightarrow> tris_ok (me_Vertices m') (me_Triangles m') \<and> me_Vertices m' = concat (map solidPoints ss)" for e m'
    using mesh_solids_good[of NewTessellationCache ?m ss]
    by (auto simp: ToPreviewMesh_def ToPreviewMeshCached_def)
  show ?thesis
  proof (cases "ToPreviewMesh (Some ss)")
    case (Inl e) then show ?thesis using g(1)[OF Inl] by (cases e) simp_all
  next
    case (Inr m) then show ?thesis using g(2)[OF Inr] by (auto simp: tris_ok_def list_all_iff)
  qed
qed

subsection \<open>The report on a prism\<close>

definition keys_finite :: "(Point3 \<times> Point3) \<Rightarrow> bool" where
  "keys_finite k \<longleftrightarrow> point_finite (fst k) \<and> point_finite (snd k)"

lemma key_eq_finite: "keys_finite k \<Longrightarrow> keys_finite l \<Longrightarrow> key_eq k l \<longleftrightarrow> k = l"
  by (simp add: key_eq_def keys_finite_def point_eq_finite prod_eq_iff)

lemma keys_finite_key: "point_finite a \<Longrightarrow> point_finite b \<Longrightarrow> keys_finite (edgeKey a b)"
  by (simp add: keys_finite_def edgeKey_def)

text \<open>The association list counts the multiset of keys met.\<close>

definition counts_of :: "edge_counts \<Rightarrow> (Point3 \<times> Point3) multiset \<Rightarrow> bool" where
  "counts_of cnt M \<longleftrightarrow> distinct (map fst cnt) \<and> (\<forall>(k, n) \<in> set cnt. keys_finite k \<and> n = int (count M k) \<and> 0 < n)
     \<and> set_mset M \<subseteq> fst ` set cnt"

lemma count_edge_fst: "keys_finite k \<Longrightarrow> \<forall>(l, n) \<in> set cnt. keys_finite l
    \<Longrightarrow> map fst (count_edge k cnt) = (if k \<in> fst ` set cnt then map fst cnt else map fst cnt @ [k])"
  by (induction k cnt rule: count_edge.induct) (auto simp: key_eq_finite)

lemma count_edge_set:
  assumes "keys_finite k" "\<forall>(l, n) \<in> set cnt. keys_finite l" "distinct (map fst cnt)"
  shows "(l, n) \<in> set (count_edge k cnt) \<longleftrightarrow>
    (if l = k then (k, n - 1) \<in> set cnt \<or> k \<notin> fst ` set cnt \<and> n = 1 else (l, n) \<in> set cnt)"
  using assms
proof (induction k cnt rule: count_edge.induct)
  case (2 k l' m r)
  then show ?case
  proof (cases "k = l'")
    case True
    then have "key_eq k l'" using 2(2) key_eq_finite by blast
    then show ?thesis using True 2(4) by (auto simp: image_iff)
  next
    case False
    then have "\<not> key_eq k l'" using 2(2,3) key_eq_finite[of k l'] by auto
    then show ?thesis using False 2 by (auto simp: image_iff)
  qed
qed auto

lemma counts_of_step:
  assumes "counts_of cnt M" "keys_finite k"
  shows "counts_of (count_edge k cnt) (add_mset k M)"
proof -
  have d: "distinct (map fst cnt)" "\<forall>(l, n) \<in> set cnt. keys_finite l" using assms(1) by (auto simp: counts_of_def)
  note f = count_edge_fst[OF assms(2) d(2)]
  have "distinct (map fst (count_edge k cnt))" unfolding f using d(1) by auto
  moreover have "keys_finite l \<and> n = int (count (add_mset k M) l) \<and> 0 < n" if "(l, n) \<in> set (count_edge k cnt)" for l n
  proof (cases "l = k")
    case True
    then have "(k, n - 1) \<in> set cnt \<or> k \<notin> fst ` set cnt \<and> n = 1"
      using that count_edge_set[OF assms(2) d(2,1), of l n] by (simp only: if_True refl)
    then consider "(k, n - 1) \<in> set cnt" | "k \<notin> fst ` set cnt" "n = 1" by blast
    then show ?thesis
    proof cases
      case 1 then show ?thesis using assms True by (auto simp: counts_of_def)
    next
      case 2
      then have "k \<notin># M" using assms(1) by (auto simp: counts_of_def)
      then show ?thesis using 2 assms(2) True by (simp add: not_in_iff)
    qed
  next
    case False
    then show ?thesis using that count_edge_set[OF assms(2) d(2,1)] assms(1) by (auto simp: counts_of_def)
  qed
  moreover have "fst ` set (count_edge k cnt) = insert k (fst ` set cnt)"
    using arg_cong[OF f, of set] by (auto split: if_splits)
  ultimately show ?thesis using assms(1) by (auto simp: counts_of_def)
qed

lemma counts_of_face:
  assumes "counts_of cnt M" "\<forall>(a, b) \<in> set w. point_finite a \<and> point_finite b"
  shows "counts_of (fold (\<lambda>(a, b). count_edge (edgeKey a b)) w cnt) (M + mset (map (\<lambda>(a, b). edgeKey a b) w))"
  using assms
proof (induction w arbitrary: cnt M)
  case (Cons e w)
  obtain a b where e: "e = (a, b)" by (cases e)
  then have "counts_of (count_edge (edgeKey a b) cnt) (add_mset (edgeKey a b) M)"
    using counts_of_step[OF Cons.prems(1)] keys_finite_key Cons.prems(2) by simp
  from Cons.IH[OF this] show ?case using Cons.prems(2) e by simp
qed simp

text \<open>A face in good shape: at least three edges, closed, finite.\<close>

definition face_fine :: "Face \<Rightarrow> bool" where
  "face_fine f \<longleftrightarrow> 3 \<le> length (fa_outer f) \<and> snd (contourPoints (fa_outer f))
     \<and> (\<forall>(a, b) \<in> set (fa_outer f). point_finite a \<and> point_finite b)"

lemma check_face_fine:
  assumes "face_fine f" "counts_of cnt M"
  shows "fst (check_face el f (is, cnt)) = is \<and> counts_of (snd (check_face el f (is, cnt))) (M + face_keys f)"
  using assms counts_of_face[OF assms(2), of "fa_outer f"] by (simp add: check_face_def face_fine_def face_of_def)

lemma check_faces_fine:
  assumes "list_all face_fine fs" "counts_of cnt M"
  shows "fst (fold (check_face el) fs (is, cnt)) = is
    \<and> counts_of (snd (fold (check_face el) fs (is, cnt))) (M + sum_list (map face_keys fs))"
  using assms
proof (induction fs arbitrary: "is" cnt M)
  case (Cons f fs)
  note c = check_face_fine[of f cnt M el "is"]
  show ?case using Cons.IH[of "snd (check_face el f (is, cnt))" "M + face_keys f" "is"] Cons.prems c
    by (cases "check_face el f (is, cnt)") (simp add: add.assoc)
qed simp

text \<open>The report of a body of one shell of fine faces with every edge in two faces depends on the volume only.\<close>

lemma geo_validate_fine:
  assumes "so_shells s = [fs]" "list_all face_fine fs" "\<forall>k. count (solid_keys s) k \<in> {0, 2}"
  shows "fst (geo_validate (Some s) c) = (if bad_volume (fst (solid_volume s c)) then [volume_issue] else [])"
proof -
  have e: "counts_of [] {#}" by (simp add: counts_of_def)
  obtain iss cnt where st: "check_shells (so_shells s) = (iss, cnt)" by (cases "check_shells (so_shells s)")
  have "iss = []" "counts_of cnt (solid_keys s)"
    using check_faces_fine[OF assms(2) e, of "''face:'' @ Itoa 0" "[]"] st
    by (simp_all add: check_shells_def assms(1) solid_of_def)
  moreover have "non_manifold kn = []" if "kn \<in> set cnt" for kn
  proof -
    have "snd kn = int (count (solid_keys s) (fst kn))" "0 < snd kn"
      using \<open>counts_of cnt (solid_keys s)\<close> that by (auto simp: counts_of_def)
    then have "snd kn = 2" using assms(3) by (metis insertE singletonD of_nat_0 of_nat_numeral less_irrefl)
    then show ?thesis by (simp add: non_manifold_def)
  qed
  then have cc: "concat (map non_manifold cnt) = []" by simp
  ultimately show ?thesis
    using st[unfolded assms(1)] by (simp add: geo_validate_def assms(1) case_prod_beta cc insertion_sort_def insert_last_def
        del: concat_eq_Nil_conv)
qed

lemma polygonFace_fine:
  assumes "3 \<le> length ps" "list_all point_finite ps"
  shows "face_fine (polygonFace ps)"
proof -
  let ?n = "length ps" and ?w = "fa_outer (polygonFace ps)"
  have fin: "point_finite (ps ! i)" if "i < ?n" for i using assms(2) that by (simp add: list_all_length)
  obtain k where k: "?n = Suc k" using assms(1) by (cases ?n) auto
  have w: "?w = map (\<lambda>i. (ps ! i, ps ! ((i + 1) mod ?n))) [0..<?n]" by (simp add: polygonFace_def)
  have "?w \<noteq> []" unfolding w k by simp
  have "fst (hd ?w) = ps ! 0" unfolding w k by (simp add: hd_map del: upt_Suc)
  moreover have "last (fst (hd ?w) # map snd ?w) = ps ! 0" unfolding w k by simp
  moreover have "point_eq (ps ! 0) (ps ! 0)" using fin[of 0] k by (simp add: point_eq_finite)
  ultimately have "snd (contourPoints ?w)" using assms(1)
    by (simp add: contourPoints_def Let_def w[THEN arg_cong, of length])
  moreover have "point_finite a \<and> point_finite b" if "(a, b) \<in> set ?w" for a b
    using that fin unfolding w by (auto intro!: fin mod_less_divisor)
  ultimately show ?thesis using assms(1) by (auto simp: face_fine_def polygonFace_def)
qed

lemma prism_fine:
  assumes "3 \<le> length profile" "list_all point_finite (profile @ map (\<lambda>p. pt_Add p (vec_Scale dir dst)) profile)"
  shows "\<exists>fs. so_shells (prism profile dir dst u) = [fs] \<and> list_all face_fine fs"
proof -
  define prof where "prof = orientedProfile profile u"
  define up where "up = map (\<lambda>p. pt_Add p (vec_Scale dir dst)) prof"
  have o: "length (orientedProfile ps v) = length ps" "set (orientedProfile ps v) = set ps" for ps v
    using orientedProfile_cases[of ps v] by auto
  have f: "\<forall>p \<in> set prof. point_finite p" "\<forall>p \<in> set up. point_finite p" "length prof = length profile" "length up = length profile"
    using assms(2) by (auto simp: prof_def up_def o list_all_iff)
  have "face_fine (sideFace prof up i)" if "i < length profile" for i
  proof -
    have j: "(i + 1) mod length profile < length profile" using that by (intro mod_less_divisor) auto
    show ?thesis unfolding sideFace_def Let_def using f that j
      by (intro polygonFace_fine) auto
  qed
  then have "list_all face_fine (polygonFace (orientedProfile prof (vec_Scale u (Fin (- 1)))) # polygonFace (orientedProfile up u)
      # map (sideFace prof up) [0..<length prof])"
    using f assms(1) by (auto simp: list_all_iff o intro!: polygonFace_fine)
  then show ?thesis by (simp add: prism_def Let_def flip: prof_def up_def)
qed

lemma Extrude_Inr: "Extrude profile dir dst = Inr s \<Longrightarrow>
    3 \<le> length profile \<and> s = prism profile dir dst (fst (vec_Normalized dir))"
  by (auto simp: Extrude_def result_iffs split: prod.splits)

lemma Extrude_fine:
  assumes "Extrude profile dir dst = Inr s"
    "list_all point_finite (profile @ map (\<lambda>p. pt_Add p (vec_Scale dir dst)) profile)"
    "distinct (profile @ map (\<lambda>p. pt_Add p (vec_Scale dir dst)) profile)"
  shows "\<exists>fs. so_shells s = [fs] \<and> list_all face_fine fs" "count (solid_keys s) k \<in> {0, 2}"
  using Extrude_Inr[OF assms(1)] prism_fine[OF _ assms(2)] prism_count[OF _ assms(2,3)] by auto

text \<open>C21: a body extruded from a profile with finite, pairwise different points has a closed boundary: each
  edge lies in exactly two faces and each contour is closed, so the validation reports nothing about it,
  except for a volume that is not positive.\<close>

theorem extrude_closed:
  assumes "Extrude profile dir dst = Inr s"
    "list_all point_finite (profile @ map (\<lambda>p. pt_Add p (vec_Scale dir dst)) profile)"
    "distinct (profile @ map (\<lambda>p. pt_Add p (vec_Scale dir dst)) profile)"
  shows "(\<forall>k. count (solid_keys s) k \<in> {0, 2})
    \<and> fst (geo_validate (Some s) c) = (if bad_volume (fst (solid_volume s c)) then [volume_issue] else [])"
  using Extrude_fine[OF assms] geo_validate_fine by blast

text \<open>A cube over the square.\<close>

definition up_z :: Vector3 where
  "up_z = \<lparr>v_X = Fin 0, v_Y = Fin 0, v_Z = Fin 1\<rparr>"

lemma up_z_unit: "vec_Normalized up_z = (up_z, True)"
  by code_simp

lemma square_lifted: "map (\<lambda>p. pt_Add p (vec_Scale up_z (Fin 64))) square = [pt 0 0 64, pt 64 0 64, pt 64 64 64, pt 0 64 64]"
  by code_simp

lemma square_planar: "\<not> list_ex (\<lambda>p. \<bar>vec_Dot (pt_Sub p (hd square)) up_z\<bar> > planarityTolerance) square"
  by code_simp

lemma cube_high: "\<not> Fin 64 \<le> Precision" "\<not> \<bar>vec_Dot up_z up_z\<bar> \<le> Precision"
  by code_simp+

lemma cube_extrudes: "Extrude square up_z (Fin 64) = Inr (prism square up_z (Fin 64) up_z)"
  using square_planar cube_high
  by (simp add: Extrude_def square_normal up_z_unit list_ex_iff flip: up_z_def) (simp add: square_def)

theorem extrude_closed_witness:
  "count (solid_keys (prism square up_z (Fin 64) up_z)) (edgeKey (pt 64 0 0) (pt 64 0 64)) \<in> {0, 2}"
proof -
  have "list_all point_finite (square @ map (\<lambda>p. pt_Add p (vec_Scale up_z (Fin 64))) square)"
    unfolding square_lifted by (simp add: square_def pt_def point_finite_def)
  moreover have "distinct (square @ map (\<lambda>p. pt_Add p (vec_Scale up_z (Fin 64))) square)"
    unfolding square_lifted by (simp add: square_def pt_def)
  ultimately show ?thesis using extrude_closed[OF cube_extrudes] by blast
qed

end
