(* ===== verification/Geo_Builder.thy ===== *)
theory Geo_Builder
  imports Geo_Solid Slots Mfg_Engine
begin

text \<open>
  The builder of the Geometry Engine, \<open>internal/engine/geometry/builder.go\<close> and \<open>spiral.go\<close>: from a
  configuration to the list of bodies. The functions of package \<open>math\<close> and the order in which the slot
  scheduler completes the tasks of a parallel section are in the record \<open>geo_env\<close>; the sections are
  numbered (0 for a straight or lower flight, 1 for an upper one, 2 for \<open>Generate\<close>). A build closure is
  its result, because \<open>Extrude\<close> has no effect. A compound is the list of its bodies. Step counts are \<open>int\<close>.
\<close>

record geo_env =
  ge_Cos :: "f64 \<Rightarrow> f64"
  ge_Sin :: "f64 \<Rightarrow> f64"
  ge_Atan2 :: "f64 \<Rightarrow> f64 \<Rightarrow> f64"
  ge_Hypot :: "f64 \<Rightarrow> f64 \<Rightarrow> f64"
  ge_Procs :: int
  ge_Order :: "nat \<Rightarrow> nat \<Rightarrow> nat list"

text \<open>\<open>math.Pi\<close> and \<open>math.Pi / 2\<close> as constants of type \<open>float64\<close>.\<close>

definition Pi :: f64 where
  "Pi = Fin (884279719003555 / 281474976710656)"

definition HalfPi :: f64 where
  "HalfPi = Fin (884279719003555 / 562949953421312)"

definition RotZ :: "geo_env \<Rightarrow> f64 \<Rightarrow> Transform" where
  "RotZ env angle = RotateZ (ge_Cos env angle) (ge_Sin env angle)"

datatype build_error =
    BuildConfigMissing | BuildConfigInvalid stair_error | StepHeightBad | TreadDepthBad | WidthBad
  | BodyFailed string nat extrude_error | FlightKindBad | TurnKindBad | UpperTooShort int
  | WindersFew | WinderPivot | RadiusBad | LowerFailed build_error | UpperFailed build_error

definition flightSideInsetMM :: f64 where
  "flightSideInsetMM = Fin 50"

subsection \<open>One body\<close>

definition body :: "string \<Rightarrow> nat \<Rightarrow> Point3 list \<Rightarrow> Vector3 \<Rightarrow> f64 \<Rightarrow> (build_error, Solid) result" where
  "body role i profile dir dst =
     (case Extrude profile dir dst of Inl e \<Rightarrow> Inl (BodyFailed role i e) | Inr s \<Rightarrow> Inr (WithRole role s))"

text \<open>\<open>buildCompound\<close>: all closures by the slot scheduler, then the slots in order.\<close>

definition buildCompound :: "geo_env \<Rightarrow> nat \<Rightarrow> (build_error, Solid) result list \<Rightarrow> (build_error, Solid list) result" where
  "buildCompound env c builds =
     (case Execute_slots (New_limit (ge_Procs env) 0) None (\<lambda>_. None) (ge_Order env c (length builds)) (length builds)
         (\<lambda>i. builds ! i) of
        (Some e, slots) \<Rightarrow> Inl e
      | (None, slots) \<Rightarrow> Inr (map the slots))"

definition validateFlight :: "StairConfiguration option \<Rightarrow> (build_error, StairConfiguration) result" where
  "validateFlight cfgo = (case cfgo of None \<Rightarrow> Inl BuildConfigMissing | Some cfg \<Rightarrow>
     (case stair_Validate cfg of Inl e \<Rightarrow> Inl (BuildConfigInvalid e) | Inr _ \<Rightarrow>
       guard_with (cf_StepHeight cfg \<le> 0) StepHeightBad
       (guard_with (cf_TreadDepth cfg \<le> 0) TreadDepthBad
       (guard_with (cf_Width cfg \<le> Fin 2 * cf_StringerThickness cfg) WidthBad
       (Inr cfg)))))"

subsection \<open>The straight flight\<close>

definition stringerProfile :: "geo_env \<Rightarrow> int \<Rightarrow> f64 \<Rightarrow> f64 \<Rightarrow> f64 \<Rightarrow> f64 \<Rightarrow> f64 \<Rightarrow> Point3 list" where
  "stringerProfile env n b h st yOff t =
     (let nf = of_int64 n;
          l = ge_Hypot env b h;
          pTop = NewPoint3 (nf * b) yOff (nf * h - st - t * b / l);
          fx0 = p_X pTop - p_Z pTop / h * b;
          fx1 = (if fx0 < Fin 0 then Fin 0 else fx0);
          fx = (if fx1 > nf * b then nf * b else fx1)
      in [NewPoint3 (Fin 0) yOff (Fin 0), NewPoint3 (Fin 0) yOff (h - st)]
         @ concat (map (\<lambda>k. [NewPoint3 (of_int64 (int k + 1) * b) yOff (of_int64 (int k + 1) * h - st),
                             NewPoint3 (of_int64 (int k + 1) * b) yOff (of_int64 (int k + 2) * h - st)]) [0..<nat (n - 1)])
         @ [NewPoint3 (nf * b) yOff (nf * h - st), pTop, NewPoint3 fx yOff (Fin 0)])"

definition along_x :: Vector3 where "along_x = NewVector3 (Fin 1) (Fin 0) (Fin 0)"
definition along_y :: Vector3 where "along_y = NewVector3 (Fin 0) (Fin 1) (Fin 0)"
definition along_z :: Vector3 where "along_z = NewVector3 (Fin 0) (Fin 0) (Fin 1)"

definition stringer_bodies :: "geo_env \<Rightarrow> StairConfiguration \<Rightarrow> (build_error, Solid) result list" where
  "stringer_bodies env cfg =
     (let w = cf_Width cfg; t = cf_StringerThickness cfg;
          yA = w / Fin 4 - t / Fin 2;
          yC = Fin 3 * w / Fin 4 - t / Fin 2;
          mk = (\<lambda>i y. body ''stringer'' i
             (stringerProfile env (cf_StepCount cfg) (cf_TreadDepth cfg) (cf_StepHeight cfg) (cf_StepThickness cfg) y t) along_y t)
      in [mk 0 yA, mk 1 yC])"

definition tread_body :: "StairConfiguration \<Rightarrow> nat \<Rightarrow> (build_error, Solid) result" where
  "tread_body cfg k =
     (let w = cf_Width cfg; b = cf_TreadDepth cfg; h = cf_StepHeight cfg; st = cf_StepThickness cfg;
          x0 = of_int64 (int k) * b - st; x1 = of_int64 (int k + 1) * b;
          z = of_int64 (int k + 1) * h - st
      in body ''tread'' k [NewPoint3 x0 (Fin 0) z, NewPoint3 x1 (Fin 0) z, NewPoint3 x1 w z, NewPoint3 x0 w z] along_z st)"

definition riser_body :: "StairConfiguration \<Rightarrow> nat \<Rightarrow> (build_error, Solid) result" where
  "riser_body cfg k =
     (let w = cf_Width cfg; b = cf_TreadDepth cfg; h = cf_StepHeight cfg; st = cf_StepThickness cfg;
          x0 = of_int64 (int k) * b - st;
          z0 = of_int64 (int k) * h; z1 = of_int64 (int k + 1) * h - st
      in body ''riser'' k [NewPoint3 x0 (Fin 0) z0, NewPoint3 x0 (Fin 0) z1, NewPoint3 x0 w z1, NewPoint3 x0 w z0] along_x st)"

definition straight_builds :: "geo_env \<Rightarrow> StairConfiguration \<Rightarrow> (build_error, Solid) result list" where
  "straight_builds env cfg =
     (let steps = [0..<nat (cf_StepCount cfg)] in
      if cf_StepThickness cfg \<le> Precision then stringer_bodies env cfg
      else if \<not> cf_Riser cfg then stringer_bodies env cfg @ map (tread_body cfg) steps
      else stringer_bodies env cfg @ map (tread_body cfg) steps @ map (riser_body cfg) steps)"

definition BuildStraightFlight :: "geo_env \<Rightarrow> nat \<Rightarrow> StairConfiguration option \<Rightarrow> (build_error, Solid list) result" where
  "BuildStraightFlight env c cfgo =
     bindR (validateFlight cfgo) (\<lambda>cfg. buildCompound env c (straight_builds env cfg))"

subsection \<open>Flights of several sections\<close>

definition subFlight :: "StairConfiguration \<Rightarrow> f64 \<Rightarrow> int \<Rightarrow> StairConfiguration" where
  "subFlight cfg height steps =
     zero_config\<lparr>cf_Width := cf_Width cfg, cf_Height := height, cf_Length := cf_Length cfg, cf_Angle := cf_Angle cfg,
       cf_Flight := FlightStraight, cf_StepCount := steps, cf_StepHeight := cf_StepHeight cfg,
       cf_StepWidth := cf_StepWidth cfg, cf_TreadDepth := cf_TreadDepth cfg, cf_Clearance := cf_Clearance cfg,
       cf_RailingHeight := cf_RailingHeight cfg, cf_StringerLength := of_int64 steps * cf_TreadDepth cfg,
       cf_StringerThickness := cf_StringerThickness cfg, cf_StepThickness := cf_StepThickness cfg,
       cf_Riser := cf_Riser cfg\<rparr>"

definition subFlightWidth :: "StairConfiguration \<Rightarrow> f64 \<Rightarrow> int \<Rightarrow> f64 \<Rightarrow> StairConfiguration" where
  "subFlightWidth cfg height steps width = (subFlight cfg height steps)\<lparr>cf_Width := width\<rparr>"

definition lower_flight :: "geo_env \<Rightarrow> StairConfiguration \<Rightarrow> (build_error, Solid list) result" where
  "lower_flight env cfg = (case BuildStraightFlight env 0 (Some cfg) of Inl e \<Rightarrow> Inl (LowerFailed e) | Inr m \<Rightarrow> Inr m)"

definition upper_flight :: "geo_env \<Rightarrow> StairConfiguration \<Rightarrow> (build_error, Solid list) result" where
  "upper_flight env cfg = (case BuildStraightFlight env 1 (Some cfg) of Inl e \<Rightarrow> Inl (UpperFailed e) | Inr m \<Rightarrow> Inr m)"

definition buildLanding :: "f64 \<Rightarrow> f64 \<Rightarrow> f64 \<Rightarrow> f64 \<Rightarrow> f64 \<Rightarrow> (build_error, Solid) result" where
  "buildLanding w wp x0 h1 st =
     body ''landing'' 0 [NewPoint3 x0 (Fin 0) (h1 - st), NewPoint3 (x0 + w) (Fin 0) (h1 - st),
       NewPoint3 (x0 + w) wp (h1 - st), NewPoint3 x0 wp (h1 - st)] along_z st"

definition is_left :: "StairConfiguration \<Rightarrow> bool" where
  "is_left cfg \<longleftrightarrow> cf_Direction cfg = ''left''"

text \<open>The order of the bodies: lower flight, turn, upper flight.\<close>

definition assemble :: "Transform \<Rightarrow> Transform \<Rightarrow> Solid list \<Rightarrow> Solid list \<Rightarrow> Solid list \<Rightarrow> Solid list" where
  "assemble lowerT upperT lower turn upper = map (TransformSolid lowerT) lower @ turn @ map (TransformSolid upperT) upper"

definition BuildLShapeFlight :: "geo_env \<Rightarrow> StairConfiguration option \<Rightarrow> (build_error, Solid list) result" where
  "BuildLShapeFlight env cfgo =
     bindR (validateFlight cfgo) (\<lambda>cfg.
     guard_with (cf_Flight cfg \<noteq> FlightLShape) FlightKindBad
     (let w = cf_Width cfg; b = cf_TreadDepth cfg; h = cf_StepHeight cfg; st = cf_StepThickness cfg;
          n1 = cf_LowerStepCount cfg; n2 = cf_StepCount cfg - n1; wp = cf_LandingWidth cfg;
          ld = (if cf_LandingDepth cfg \<le> 0 then w else cf_LandingDepth cfg);
          h1 = of_int64 n1 * h
      in bindR (lower_flight env (subFlight cfg h1 n1)) (\<lambda>lower.
         bindR (upper_flight env (subFlight cfg (of_int64 n2 * h) n2)) (\<lambda>upper.
         let l1 = of_int64 n1 * b;
             landingX0 = (if is_left cfg then w - ld else l1);
             lowerT = (if is_left cfg then tr_Mul (Translate (w + l1) w (Fin 0)) (RotZ env Pi) else Identity);
             upperT = (if is_left cfg then tr_Mul (Translate w wp h1) (RotZ env HalfPi)
                       else tr_Mul (Translate (l1 + w) wp h1) (RotZ env HalfPi))
         in bindR (buildLanding ld wp landingX0 h1 st) (\<lambda>landing.
            Inr (assemble lowerT upperT lower [landing] upper))))))"

record platform =
  pf_lowerT :: Transform
  pf_upperT :: Transform
  pf_landingX0 :: f64
  pf_landingY :: f64

definition uShapePlatformTransforms :: "geo_env \<Rightarrow> StairConfiguration \<Rightarrow> platform" where
  "uShapePlatformTransforms env cfg =
     (let w = cf_Width cfg; b = cf_TreadDepth cfg; h = cf_StepHeight cfg; n1 = cf_LowerStepCount cfg;
          h1 = of_int64 n1 * h; l1 = of_int64 n1 * b; wEff = w - flightSideInsetMM
      in if is_left cfg
         then \<lparr>pf_lowerT = tr_Mul (Translate (w + l1) wEff (Fin 0)) (RotZ env Pi),
               pf_upperT = Translate w (w + flightSideInsetMM) h1, pf_landingX0 = Fin 0, pf_landingY = Fin 2 * w\<rparr>
         else \<lparr>pf_lowerT = Identity, pf_upperT = tr_Mul (Translate l1 (Fin 2 * w) h1) (RotZ env Pi),
               pf_landingX0 = l1, pf_landingY = Fin 2 * w\<rparr>)"

definition buildUShapePlatform :: "geo_env \<Rightarrow> StairConfiguration \<Rightarrow> (build_error, Solid list) result" where
  "buildUShapePlatform env cfg =
     (let w = cf_Width cfg; h = cf_StepHeight cfg; st = cf_StepThickness cfg;
          n1 = cf_LowerStepCount cfg; n2 = cf_StepCount cfg - n1;
          pf = uShapePlatformTransforms env cfg;
          h1 = of_int64 n1 * h; wEff = w - flightSideInsetMM
      in bindR (lower_flight env (subFlightWidth cfg h1 n1 wEff)) (\<lambda>lower.
         bindR (upper_flight env (subFlightWidth cfg (of_int64 n2 * h) n2 wEff)) (\<lambda>upper.
         bindR (buildLanding w (pf_landingY pf) (pf_landingX0 pf) h1 st) (\<lambda>landing.
           Inr (assemble (pf_lowerT pf) (pf_upperT pf) lower [landing] upper)))))"

subsection \<open>Arcs\<close>

definition arcSegments :: nat where
  "arcSegments = 8"

definition sectorRing :: "geo_env \<Rightarrow> f64 \<Rightarrow> f64 \<Rightarrow> f64 \<Rightarrow> f64 \<Rightarrow> f64 \<Rightarrow> Point3 list" where
  "sectorRing env r_in r_out a0 a1 z0 =
     map (\<lambda>i. let a = a0 + (a1 - a0) * of_int64 (int i) / of_int64 (int arcSegments)
        in NewPoint3 (r_out * ge_Cos env a) (r_out * ge_Sin env a) z0) [0..<arcSegments + 1]
     @ map (\<lambda>i. let a = a1 - (a1 - a0) * of_int64 (int i) / of_int64 (int arcSegments)
        in NewPoint3 (r_in * ge_Cos env a) (r_in * ge_Sin env a) z0) [0..<arcSegments + 1]"

definition circlePolygon :: "geo_env \<Rightarrow> f64 \<Rightarrow> Point3 list" where
  "circlePolygon env r =
     map (\<lambda>i. let a = TwoPi * of_int64 (int i) / of_int64 (int arcSegments)
        in NewPoint3 (r * ge_Cos env a) (r * ge_Sin env a) (Fin 0)) [0..<arcSegments]"

text \<open>A loop that builds one body per index and stops at the first error.\<close>

fun build_each :: "(nat \<Rightarrow> (build_error, Solid) result) \<Rightarrow> nat list \<Rightarrow> (build_error, Solid list) result" where
  "build_each f [] = Inr []"
| "build_each f (k # ks) = bindR (f k) (\<lambda>s. bindR (build_each f ks) (\<lambda>ss. Inr (s # ss)))"

subsection \<open>Winders\<close>

definition winder_body :: "geo_env \<Rightarrow> f64 \<Rightarrow> f64 \<Rightarrow> f64 \<Rightarrow> f64 \<Rightarrow> f64 \<Rightarrow> f64 \<Rightarrow> f64 \<Rightarrow> f64 \<Rightarrow> f64 \<Rightarrow> nat
    \<Rightarrow> (build_error, Solid) result" where
  "winder_body env ri ro a0 dth h1 h st ox oy k =
     (let aa = a0 + of_int64 (int k) * dth; ab = aa + dth;
          zTop = h1 + of_int64 (int k + 1) * h
      in case Extrude (sectorRing env ri ro aa ab (zTop - st)) along_z st of
           Inl e \<Rightarrow> Inl (BodyFailed ''winder'' k e)
         | Inr s \<Rightarrow> Inr (WithRole ''winder'' (TransformSolid (Translate ox oy (Fin 0)) s)))"

definition buildWinders :: "geo_env \<Rightarrow> f64 \<Rightarrow> f64 \<Rightarrow> f64 \<Rightarrow> int \<Rightarrow> int \<Rightarrow> Point3 \<Rightarrow> Point3
    \<Rightarrow> (build_error, Solid list) result" where
  "buildWinders env w h st n1 nw pLower pUpper =
     guard_with (nw < 3) WindersFew
     (let h1 = of_int64 n1 * h;
          ox = (p_X pLower + p_X pUpper) / Fin 2; oy = (p_Y pLower + p_Y pUpper) / Fin 2;
          ux = p_X pLower - ox; uy = p_Y pLower - oy;
          ul = ge_Hypot env ux uy
      in guard_with (ul < Precision) WinderPivot
         (let a0 = ge_Atan2 env (uy / ul) (ux / ul); dth = Pi / of_int64 nw
          in build_each (winder_body env ul (ul + w) a0 dth h1 h st ox oy) [0..<nat nw]))"

definition BuildUShapeWinderFlight :: "geo_env \<Rightarrow> StairConfiguration option \<Rightarrow> (build_error, Solid list) result" where
  "BuildUShapeWinderFlight env cfgo =
     bindR (validateFlight cfgo) (\<lambda>cfg.
     guard_with (cf_Flight cfg \<noteq> FlightUShape) FlightKindBad
     (guard_with (cf_TurnKind cfg \<noteq> TurnWinder) TurnKindBad
     (let w = cf_Width cfg; b = cf_TreadDepth cfg; h = cf_StepHeight cfg; st = cf_StepThickness cfg;
          n1 = cf_LowerStepCount cfg; nw = cf_WinderCount cfg; n2 = cf_StepCount cfg - n1 - nw
      in guard_with (n2 < 1) (UpperTooShort n2)
        (let wp = cf_LandingWidth cfg; h1 = of_int64 n1 * h; l1 = of_int64 n1 * b in
         bindR (lower_flight env (subFlight cfg h1 n1)) (\<lambda>lower.
         bindR (upper_flight env (subFlight cfg (of_int64 n2 * h) n2)) (\<lambda>upper.
         let hTurn = h1 + of_int64 nw * h;
             pLower = (if is_left cfg then NewPoint3 w w h1 else NewPoint3 l1 w h1);
             pUpper = (if is_left cfg then NewPoint3 (Fin 0) wp hTurn else NewPoint3 l1 (w + wp) hTurn);
             lowerT = (if is_left cfg then tr_Mul (Translate (w + l1) w (Fin 0)) (RotZ env Pi) else Identity);
             upperT = (if is_left cfg then tr_Mul (Translate (Fin 0) (w + wp) hTurn) (RotZ env Pi)
                       else tr_Mul (Translate l1 (w + wp + w) hTurn) (RotZ env Pi))
         in bindR (buildWinders env w h st n1 nw pLower pUpper) (\<lambda>winders.
            Inr (assemble lowerT upperT lower winders upper))))))))"

definition BuildUShapeFlight :: "geo_env \<Rightarrow> StairConfiguration option \<Rightarrow> (build_error, Solid list) result" where
  "BuildUShapeFlight env cfgo =
     bindR (validateFlight cfgo) (\<lambda>cfg.
     guard_with (cf_Flight cfg \<noteq> FlightUShape) FlightKindBad
     (if cf_TurnKind cfg = TurnWinder then BuildUShapeWinderFlight env (Some cfg) else buildUShapePlatform env cfg))"

subsection \<open>The spiral\<close>

definition validateSpiral :: "StairConfiguration option \<Rightarrow> (build_error, StairConfiguration) result" where
  "validateSpiral cfgo =
     bindR (validateFlight cfgo) (\<lambda>cfg.
     guard_with (cf_Flight cfg \<noteq> FlightSpiral) FlightKindBad
     (guard_with (cf_OuterRadius cfg \<le> cf_Width cfg) RadiusBad (Inr cfg)))"

definition buildColumn :: "geo_env \<Rightarrow> f64 \<Rightarrow> f64 \<Rightarrow> (build_error, Solid) result" where
  "buildColumn env r height = body ''column'' 0 (circlePolygon env r) along_z height"

definition spiral_sign :: "StairConfiguration \<Rightarrow> f64" where
  "spiral_sign cfg = (if cf_SpiralDirection cfg = ''ccw'' then Fin (- 1) else Fin 1)"

definition spiral_tread :: "geo_env \<Rightarrow> StairConfiguration \<Rightarrow> nat \<Rightarrow> (build_error, Solid) result" where
  "spiral_tread env cfg k =
     (let r = cf_OuterRadius cfg - cf_Width cfg; sgn = spiral_sign cfg;
          delta = TwoPi / of_int64 (cf_StepCount cfg);
          a0 = sgn * of_int64 (int k) * delta;
          a1 = a0 + sgn * delta;
          zTop = of_int64 (int k + 1) * cf_StepHeight cfg
      in body ''tread'' k (sectorRing env r (cf_OuterRadius cfg) a0 a1 (zTop - cf_StepThickness cfg)) along_z (cf_StepThickness cfg))"

definition BuildSpiralFlight :: "geo_env \<Rightarrow> StairConfiguration option \<Rightarrow> (build_error, Solid list) result" where
  "BuildSpiralFlight env cfgo =
     bindR (validateSpiral cfgo) (\<lambda>cfg.
     bindR (buildColumn env (cf_OuterRadius cfg - cf_Width cfg) (cf_Height cfg)) (\<lambda>col.
     bindR (build_each (spiral_tread env cfg) [0..<nat (cf_StepCount cfg)]) (\<lambda>treads.
       Inr (col # treads))))"

text \<open>The dispatch of \<open>Generate\<close>.\<close>

definition build_model :: "geo_env \<Rightarrow> StairConfiguration \<Rightarrow> (build_error, Solid list) result" where
  "build_model env cfg =
     (if cf_Flight cfg = FlightStraight then BuildStraightFlight env 0 (Some cfg)
      else if cf_Flight cfg = FlightLShape then BuildLShapeFlight env (Some cfg)
      else if cf_Flight cfg = FlightUShape then BuildUShapeFlight env (Some cfg)
      else if cf_Flight cfg = FlightSpiral then BuildSpiralFlight env (Some cfg)
      else BuildStraightFlight env 0 (Some cfg))"

subsection \<open>The order of the parallel sections does not matter\<close>

definition fair :: "geo_env \<Rightarrow> bool" where
  "fair env \<longleftrightarrow> (\<forall>c n. is_schedule (ge_Order env c n) n)"

text \<open>The sequential reading of \<open>buildCompound\<close>: the first error or all bodies.\<close>

fun collect :: "('e, 'a) result list \<Rightarrow> ('e, 'a list) result" where
  "collect [] = Inr []"
| "collect (r # rs) = bindR r (\<lambda>s. bindR (collect rs) (\<lambda>ss. Inr (s # ss)))"

lemma collect_cases:
  "collect rs = (case first_error (map (\<lambda>r. case r of Inl e \<Rightarrow> Some e | Inr s \<Rightarrow> None) rs) of
     Some e \<Rightarrow> Inl e | None \<Rightarrow> Inr (map (\<lambda>r. case r of Inl e \<Rightarrow> undefined | Inr s \<Rightarrow> s) rs))"
  by (induction rs) (auto split: sum.splits option.splits)

lemma exec_collect:
  assumes "is_schedule sched n"
  shows "(case Execute_slots l None (\<lambda>_. None) sched n fn of (Some e, slots) \<Rightarrow> Inl e | (None, slots) \<Rightarrow> Inr (map the slots))
    = collect (map fn [0..<n])"
proof -
  have err: "map (task_error fn) [0..<n] = map (\<lambda>r. case r of Inl e \<Rightarrow> Some e | Inr s \<Rightarrow> None) (map fn [0..<n])"
    and res: "map (task_result fn) [0..<n] = map (\<lambda>r. case r of Inl e \<Rightarrow> None | Inr s \<Rightarrow> Some s) (map fn [0..<n])"
    by (auto simp: task_error_def task_result_def)
  obtain eo slots where e: "Execute_slots l None (\<lambda>_. None) sched n fn = (eo, slots)" by force
  have s: "eo = first_error (map (\<lambda>r. case r of Inl e \<Rightarrow> Some e | Inr s \<Rightarrow> None) (map fn [0..<n]))"
    "eo = None \<Longrightarrow> slots = map (\<lambda>r. case r of Inl e \<Rightarrow> None | Inr s \<Rightarrow> Some s) (map fn [0..<n])"
    using Execute_slots_spec[OF assms, of l fn] unfolding err res e by auto
  show ?thesis
  proof (cases eo)
    case None
    then have "map the slots = map (\<lambda>r. case r of Inl e \<Rightarrow> undefined | Inr s \<Rightarrow> s) (map fn [0..<n])"
      using s by (auto simp: first_error_None split: sum.splits)
    then show ?thesis using None s(1) by (simp add: e collect_cases)
  next
    case (Some x)
    then show ?thesis using s(1) by (simp add: e collect_cases)
  qed
qed

lemma buildCompound_collect: "fair env \<Longrightarrow> buildCompound env c rs = collect rs"
  unfolding buildCompound_def by (subst exec_collect) (simp_all add: fair_def map_nth)

lemma collect_append: "collect (rs @ ts) = bindR (collect rs) (\<lambda>ss. bindR (collect ts) (\<lambda>us. Inr (ss @ us)))"
  by (induction rs) (auto simp: bindR_def split: sum.splits)

lemma build_each_collect: "build_each f ks = collect (map f ks)"
  by (induction ks) auto

lemma collect_roles:
  "collect rs = Inr ss \<Longrightarrow> length ss = length rs \<and> (\<forall>i < length rs. rs ! i = Inr (ss ! i))"
  by (induction rs arbitrary: ss) (auto simp: result_iffs nth_Cons split: nat.splits)

lemma collect_map_Inr:
  assumes "collect (map f ks) = Inr ss" "\<And>k s. f k = Inr s \<Longrightarrow> P s"
  shows "length ss = length ks \<and> list_all P ss"
  using assms(1)
proof (induction ks arbitrary: ss)
  case (Cons k ks)
  then obtain x xs where x: "f k = Inr x" "collect (map f ks) = Inr xs" "ss = x # xs"
    by (auto simp: result_iffs)
  then show ?case using Cons.IH[OF x(2)] assms(2)[OF x(1)] by simp
qed simp

text \<open>The environments agree on the functions of package \<open>math\<close>.\<close>

definition same_math :: "geo_env \<Rightarrow> geo_env \<Rightarrow> bool" where
  "same_math env env' \<longleftrightarrow> ge_Cos env = ge_Cos env' \<and> ge_Sin env = ge_Sin env' \<and> ge_Atan2 env = ge_Atan2 env'
     \<and> ge_Hypot env = ge_Hypot env'"

lemma same_builds:
  assumes "same_math env env'"
  shows "straight_builds env = straight_builds env'" "RotZ env = RotZ env'" "sectorRing env = sectorRing env'"
    "circlePolygon env = circlePolygon env'"
  using assms
  by (simp_all add: fun_eq_iff straight_builds_def stringer_bodies_def stringerProfile_def RotZ_def sectorRing_def
      circlePolygon_def same_math_def Let_def)

lemma same_flight:
  assumes "same_math env env'" "fair env" "fair env'"
  shows "BuildStraightFlight env c cfgo = BuildStraightFlight env' c cfgo"
  by (simp add: BuildStraightFlight_def buildCompound_collect[OF assms(2)] buildCompound_collect[OF assms(3)]
      same_builds[OF assms(1)])

lemma same_winders:
  assumes "same_math env env'"
  shows "buildWinders env = buildWinders env'"
proof -
  have "winder_body env = winder_body env'"
    by (intro ext) (simp only: winder_body_def same_builds[OF assms])
  moreover have "ge_Hypot env = ge_Hypot env'" "ge_Atan2 env = ge_Atan2 env'" using assms by (simp_all add: same_math_def)
  ultimately show ?thesis by (intro ext) (simp only: buildWinders_def)
qed

lemma same_model:
  assumes "same_math env env'" "fair env" "fair env'"
  shows "build_model env cfg = build_model env' cfg"
proof -
  note f = same_flight[OF assms]
  have l: "lower_flight env = lower_flight env'" "upper_flight env = upper_flight env'"
    by (rule ext, simp only: lower_flight_def upper_flight_def f)+
  note b = same_builds[OF assms(1)]
  have u: "uShapePlatformTransforms env = uShapePlatformTransforms env'"
    by (rule ext) (simp only: uShapePlatformTransforms_def b)
  have s: "spiral_tread env = spiral_tread env'" by (intro ext) (simp only: spiral_tread_def b)
  show ?thesis
    by (simp only: build_model_def f BuildLShapeFlight_def BuildUShapeFlight_def BuildUShapeWinderFlight_def
        buildUShapePlatform_def BuildSpiralFlight_def buildColumn_def l b u s same_winders[OF assms(1)])
qed

text \<open>The model of a configuration is deterministic: it does not depend on the order in which the parallel
  builds complete nor on the number of processors, errors included.\<close>

theorem model_deterministic:
  assumes "same_math env env'" "fair env" "fair env'"
  shows "build_model env cfg = build_model env' cfg"
  by (rule same_model[OF assms])

subsection \<open>The bodies of a model\<close>

definition edge_sets :: "Solid \<Rightarrow> Point3 set multiset" where
  "edge_sets s = solid_of (\<lambda>a b. {a, b}) s"

text \<open>Every undirected edge lies in an even number of faces.\<close>

definition watertight :: "Solid \<Rightarrow> bool" where
  "watertight s \<longleftrightarrow> (\<forall>e. even (count (edge_sets s) e))"

lemma prism_watertight: "watertight (prism profile dir dst u)"
  by (simp add: watertight_def edge_sets_def unordered.prism_edges[OF _ _ refl refl] Let_def flip: mult_2)

lemma face_of_transform:
  "face_of (\<lambda>a b. {a, b}) \<lparr>fa_outer = transformWire t (fa_outer f), fa_inner = r\<rparr>
    = image_mset (image (tr_Apply t)) (face_of (\<lambda>a b. {a, b}) f)"
  by (simp add: face_of_def transformWire_def comp_def case_prod_beta multiset.map_comp)

lemma edge_sets_transform: "edge_sets (TransformSolid t s) = image_mset (image (tr_Apply t)) (edge_sets s)"
proof -
  have "sum_list (map (face_of (\<lambda>a b. {a, b}))
      (map (\<lambda>f. \<lparr>fa_outer = transformWire t (fa_outer f), fa_inner = map (transformWire t) (fa_inner f)\<rparr>) fs))
    = image_mset (image (tr_Apply t)) (sum_list (map (face_of (\<lambda>a b. {a, b})) fs))" for fs
    by (induction fs) (simp_all add: face_of_transform)
  then show ?thesis by (simp add: edge_sets_def solid_of_def TransformSolid_def map_concat[symmetric])
qed

lemma watertight_transform: "watertight s \<Longrightarrow> watertight (TransformSolid t s)"
  by (auto simp: watertight_def edge_sets_transform count_image_mset' intro!: dvd_sum)

lemma watertight_role [simp]: "watertight (WithRole r s) = watertight s"
  by (simp add: watertight_def edge_sets_def solid_of_def WithRole_def)

lemma role_simps [simp]: "so_role (WithRole r s) = r" "so_role (TransformSolid t s) = so_role s"
  by (simp_all add: WithRole_def TransformSolid_def)

lemma Extrude_watertight: "Extrude profile dir dst = Inr s \<Longrightarrow> watertight s"
  using Extrude_Inr[of profile dir dst s] prism_watertight by simp

lemma body_good: "body role i profile dir dst = Inr s \<Longrightarrow> so_role s = role \<and> watertight s"
  by (auto simp: body_def Extrude_watertight split: sum.splits)

text \<open>Bodies with given roles, all watertight.\<close>

definition goods :: "string list \<Rightarrow> Solid list \<Rightarrow> bool" where
  "goods roles ss \<longleftrightarrow> map so_role ss = roles \<and> list_all watertight ss"

lemma goods_append: "goods rs ss \<Longrightarrow> goods qs ts \<Longrightarrow> goods (rs @ qs) (ss @ ts)"
  by (simp add: goods_def)

lemma goods_transform: "goods rs ss \<Longrightarrow> goods rs (map (TransformSolid t) ss)"
  by (auto simp: goods_def list_all_iff watertight_transform)

lemma goods_assemble: "goods rs ss \<Longrightarrow> goods ms ts \<Longrightarrow> goods qs us \<Longrightarrow> goods (rs @ ms @ qs) (assemble a b ss ts us)"
  unfolding assemble_def by (intro goods_append goods_transform)

lemma collect_goods:
  assumes "collect (map f ks) = Inr ss" "\<And>k s. f k = Inr s \<Longrightarrow> so_role s = r \<and> watertight s"
  shows "goods (replicate (length ks) r) ss"
proof -
  have "length ss = length ks \<and> list_all (\<lambda>s. so_role s = r \<and> watertight s) ss"
    by (rule collect_map_Inr[OF assms])
  then show ?thesis by (auto simp: goods_def list_all_iff intro!: nth_equalityI)
qed

lemma goods_single: "so_role s = r \<and> watertight s \<Longrightarrow> goods [r] [s]"
  by (simp add: goods_def)

text \<open>The roles of a straight section of \<open>n\<close> steps and of a whole model.\<close>

definition section_roles :: "StairConfiguration \<Rightarrow> int \<Rightarrow> string list" where
  "section_roles cfg n = replicate 2 ''stringer''
     @ (if cf_StepThickness cfg \<le> Precision then []
        else replicate (nat n) ''tread'' @ (if cf_Riser cfg then replicate (nat n) ''riser'' else []))"

definition model_roles :: "StairConfiguration \<Rightarrow> string list" where
  "model_roles cfg =
     (let n = cf_StepCount cfg; n1 = cf_LowerStepCount cfg; nw = cf_WinderCount cfg in
      if cf_Flight cfg = FlightLShape \<or> cf_Flight cfg = FlightUShape \<and> cf_TurnKind cfg \<noteq> TurnWinder
      then section_roles cfg n1 @ [''landing''] @ section_roles cfg (n - n1)
      else if cf_Flight cfg = FlightUShape
      then section_roles cfg n1 @ replicate (nat nw) ''winder'' @ section_roles cfg (n - n1 - nw)
      else if cf_Flight cfg = FlightSpiral then ''column'' # replicate (nat n) ''tread''
      else section_roles cfg n)"

lemma bodies_good:
  "tread_body cfg k = Inr s \<Longrightarrow> so_role s = ''tread'' \<and> watertight s"
  "riser_body cfg k = Inr s \<Longrightarrow> so_role s = ''riser'' \<and> watertight s"
  "spiral_tread env cfg k = Inr s \<Longrightarrow> so_role s = ''tread'' \<and> watertight s"
  "winder_body env ri ro a0 dth h1 h st ox oy k = Inr s \<Longrightarrow> so_role s = ''winder'' \<and> watertight s"
  by (auto simp: tread_body_def riser_body_def spiral_tread_def winder_body_def Let_def
      intro!: watertight_transform dest: body_good Extrude_watertight split: sum.splits)

lemma stringers_good: "collect (stringer_bodies env cfg) = Inr ss \<Longrightarrow> goods (replicate 2 ''stringer'') ss"
  by (auto simp: stringer_bodies_def Let_def result_iffs goods_def numeral_eq_Suc dest!: body_good)

lemma validateFlight_Inr: "validateFlight (Some cfg) = Inr c \<Longrightarrow> c = cfg \<and> stair_Validate cfg = Inr ()"
  by (auto simp: validateFlight_def result_iffs split: sum.splits)

lemma straight_good:
  assumes "BuildStraightFlight env c (Some cfg) = Inr m" "fair env"
  shows "goods (section_roles cfg (cf_StepCount cfg)) m \<and> 1 \<le> cf_StepCount cfg"
proof -
  have v: "validateFlight (Some cfg) = Inr cfg" and b: "collect (straight_builds env cfg) = Inr m"
    using assms validateFlight_Inr[of cfg] by (auto simp: BuildStraightFlight_def result_iffs buildCompound_collect)
  have n: "1 \<le> cf_StepCount cfg" using validateFlight_Inr[OF v] stair_Validate_Inr_D(3) by blast
  let ?steps = "[0..<nat (cf_StepCount cfg)]"
  have t: "collect (map (tread_body cfg) ?steps) = Inr ts \<Longrightarrow> goods (replicate (nat (cf_StepCount cfg)) ''tread'') ts"
    and r: "collect (map (riser_body cfg) ?steps) = Inr ts \<Longrightarrow> goods (replicate (nat (cf_StepCount cfg)) ''riser'') ts" for ts
    by (drule collect_goods; use bodies_good in simp)+
  have "goods (section_roles cfg (cf_StepCount cfg)) m"
    using b stringers_good t r
    by (auto simp: straight_builds_def section_roles_def Let_def collect_append result_iffs intro!: goods_append split: if_splits)
  then show ?thesis using n by simp
qed

lemma sub_roles:
  "section_roles (subFlight cfg h n) m = section_roles cfg m" "section_roles (subFlightWidth cfg h n w) m = section_roles cfg m"
  "cf_StepCount (subFlight cfg h n) = n" "cf_StepCount (subFlightWidth cfg h n w) = n"
  by (simp_all add: section_roles_def subFlight_def subFlightWidth_def)

lemma flights_good:
  assumes "fair env"
  shows "lower_flight env c = Inr m \<Longrightarrow> goods (section_roles c (cf_StepCount c)) m \<and> 1 \<le> cf_StepCount c"
    "upper_flight env c = Inr m \<Longrightarrow> goods (section_roles c (cf_StepCount c)) m \<and> 1 \<le> cf_StepCount c"
  using straight_good[OF _ assms] by (auto simp: lower_flight_def upper_flight_def split: sum.splits)

lemma landing_good: "buildLanding w wp x0 h1 st = Inr s \<Longrightarrow> goods [''landing''] [s]"
  unfolding buildLanding_def by (rule goods_single, rule body_good)

lemma winders_good:
  assumes "buildWinders env w h st n1 nw pl pu = Inr ws"
  shows "goods (replicate (nat nw) ''winder'') ws \<and> 3 \<le> nw"
proof -
  obtain ri ro a0 dth h1 ox oy where "collect (map (winder_body env ri ro a0 dth h1 h st ox oy) [0..<nat nw]) = Inr ws" "\<not> nw < 3"
    using assms by (auto simp: buildWinders_def Let_def result_iffs build_each_collect)
  then show ?thesis using collect_goods[of "winder_body env ri ro a0 dth h1 h st ox oy" "[0..<nat nw]" ws] bodies_good(4) by simp
qed

lemma model_good:
  assumes "build_model env cfg = Inr model" "fair env"
  shows "goods (model_roles cfg) model"
proof -
  note f = flights_good[OF assms(2), of "subFlight cfg h n" for h n, unfolded sub_roles]
  note fw = flights_good[OF assms(2), of "subFlightWidth cfg h n w" for h n w, unfolded sub_roles]
  note D = landing_good winders_good validateFlight_Inr
  have ne: "FlightStraight \<noteq> FlightLShape" "FlightStraight \<noteq> FlightUShape" "FlightStraight \<noteq> FlightSpiral"
    "FlightLShape \<noteq> FlightUShape" "FlightLShape \<noteq> FlightSpiral" "FlightUShape \<noteq> FlightSpiral"
    by (simp_all add: flight_defs)
  consider (L) "cf_Flight cfg = FlightLShape" | (U) "cf_Flight cfg = FlightUShape" | (S) "cf_Flight cfg = FlightSpiral"
    | (I) "cf_Flight cfg \<notin> {FlightLShape, FlightUShape, FlightSpiral}" by blast
  then show ?thesis
  proof cases
    case L
    then obtain lower upper landing a b where "model = assemble a b lower [landing] upper"
      "goods (section_roles cfg (cf_LowerStepCount cfg)) lower" "goods [''landing''] [landing]"
      "goods (section_roles cfg (cf_StepCount cfg - cf_LowerStepCount cfg)) upper"
      using assms(1) ne by (auto simp: build_model_def BuildLShapeFlight_def Let_def result_iffs dest!: D f)
    from goods_assemble[OF this(2-4), of a b] this(1) show ?thesis using L ne by (simp add: model_roles_def Let_def)
  next
    case U
    show ?thesis
    proof (cases "cf_TurnKind cfg = TurnWinder")
      case True
      then obtain lower upper winders a b where "model = assemble a b lower winders upper"
        "goods (section_roles cfg (cf_LowerStepCount cfg)) lower" "goods (replicate (nat (cf_WinderCount cfg)) ''winder'') winders"
        "goods (section_roles cfg (cf_StepCount cfg - cf_LowerStepCount cfg - cf_WinderCount cfg)) upper"
        using U assms(1) ne by (auto simp: build_model_def BuildUShapeFlight_def BuildUShapeWinderFlight_def Let_def result_iffs dest!: D f)
      from goods_assemble[OF this(2-4), of a b] this(1) show ?thesis using U True ne by (simp add: model_roles_def Let_def)
    next
      case False
      then obtain lower upper landing a b where "model = assemble a b lower [landing] upper"
        "goods (section_roles cfg (cf_LowerStepCount cfg)) lower" "goods [''landing''] [landing]"
        "goods (section_roles cfg (cf_StepCount cfg - cf_LowerStepCount cfg)) upper"
        using U assms(1) ne by (auto simp: build_model_def BuildUShapeFlight_def buildUShapePlatform_def Let_def result_iffs dest!: D fw)
      from goods_assemble[OF this(2-4), of a b] this(1) show ?thesis using U False ne by (simp add: model_roles_def Let_def)
    qed
  next
    case S
    then obtain col treads where "model = col # treads" "so_role col = ''column'' \<and> watertight col"
      "collect (map (spiral_tread env cfg) [0..<nat (cf_StepCount cfg)]) = Inr treads"
      using assms(1) ne by (auto simp: build_model_def BuildSpiralFlight_def validateSpiral_def buildColumn_def result_iffs
          build_each_collect dest!: D(3) dest: body_good)
    then show ?thesis using S ne collect_goods[of "spiral_tread env cfg" "[0..<nat (cf_StepCount cfg)]" treads "''tread''"] bodies_good(3)
      by (auto simp: model_roles_def Let_def goods_def)
  next
    case I
    then have "BuildStraightFlight env 0 (Some cfg) = Inr model" using assms(1) by (simp add: build_model_def split: if_splits)
    then show ?thesis using straight_good[OF _ assms(2)] I by (auto simp: model_roles_def Let_def)
  qed
qed

text \<open>The bodies that carry a stair: two stringers for a straight section, and its treads when they have a
  thickness, the landing or the winders between two sections, the column and the treads of a spiral.\<close>

definition frame_section :: "StairConfiguration \<Rightarrow> int \<Rightarrow> string list" where
  "frame_section cfg n = [''stringer'', ''stringer''] @ (if cf_StepThickness cfg \<le> Precision then [] else replicate (nat n) ''tread'')"

definition frame_roles :: "StairConfiguration \<Rightarrow> string list" where
  "frame_roles cfg =
     (if cf_Flight cfg = FlightSpiral then ''column'' # replicate (nat (cf_StepCount cfg)) ''tread''
      else if cf_Flight cfg = FlightUShape \<and> cf_TurnKind cfg = TurnWinder
      then frame_section cfg (cf_LowerStepCount cfg) @ replicate (nat (cf_WinderCount cfg)) ''winder''
        @ frame_section cfg (cf_StepCount cfg - cf_LowerStepCount cfg - cf_WinderCount cfg)
      else if cf_Flight cfg \<in> {FlightLShape, FlightUShape}
      then frame_section cfg (cf_LowerStepCount cfg) @ [''landing''] @ frame_section cfg (cf_StepCount cfg - cf_LowerStepCount cfg)
      else frame_section cfg (cf_StepCount cfg))"

lemma filter_section: "filter (\<lambda>r. r \<noteq> ''riser'') (section_roles cfg n) = frame_section cfg n"
  by (simp add: section_roles_def frame_section_def numeral_eq_Suc)

lemma filter_model: "filter (\<lambda>r. r \<noteq> ''riser'') (model_roles cfg) = frame_roles cfg"
  by (auto simp: model_roles_def frame_roles_def Let_def filter_section flight_defs)

lemma no_risers: "\<not> cf_Riser cfg \<Longrightarrow> ''riser'' \<notin> set (model_roles cfg)"
  by (auto simp: model_roles_def Let_def section_roles_def)

text \<open>C24: the bodies of a built model that carry the stair are, in this order: for each straight section
  two stringers and, when the treads have a thickness, one tread per step; between the sections the landing
  or the winders; for a spiral the column and one tread per step. The other bodies are risers, which there
  are only when they were asked for. And every body is watertight: each edge lies in an even number of
  faces, also after the rotation and shift of its section.\<close>

theorem model_bodies:
  assumes "build_model env cfg = Inr model" "fair env"
  shows "filter (\<lambda>r. r \<noteq> ''riser'') (map so_role model) = frame_roles cfg
    \<and> (\<not> cf_Riser cfg \<longrightarrow> ''riser'' \<notin> set (map so_role model)) \<and> list_all watertight model"
  using model_good[OF assms] filter_model[of cfg] no_risers[of cfg] by (auto simp: goods_def)

subsection \<open>A flight of one step\<close>

text \<open>With the maximum in the place of \<open>Hypot\<close>; the tasks complete in the reverse order.\<close>

definition demo_env :: geo_env where
  "demo_env = \<lparr>ge_Cos = (\<lambda>x. Fin 1), ge_Sin = (\<lambda>x. Fin 0), ge_Atan2 = (\<lambda>y x. Fin 0),
     ge_Hypot = (\<lambda>x y. if x < y then y else x), ge_Procs = 4, ge_Order = (\<lambda>c n. rev [0..<n])\<rparr>"

definition demo_flight :: StairConfiguration where
  "demo_flight = zero_config\<lparr>cf_Width := Fin 1024, cf_Height := Fin 256, cf_Flight := FlightStraight, cf_StepCount := 1,
     cf_StepHeight := Fin 256, cf_TreadDepth := Fin 128, cf_StringerThickness := Fin 64, cf_StepThickness := Fin 128,
     cf_Riser := True\<rparr>"

definition demo_stringer :: "rat \<Rightarrow> Point3 list" where
  "demo_stringer y = [pt 0 y 0, pt 0 y 128, pt 128 y 128, pt 128 y 96, pt 80 y 0]"

definition demo_tread :: "Point3 list" where
  "demo_tread = [pt (-128) 0 128, pt 128 0 128, pt 128 1024 128, pt (-128) 1024 128]"

definition demo_riser :: "Point3 list" where
  "demo_riser = [pt (-128) 0 0, pt (-128) 0 128, pt (-128) 1024 128, pt (-128) 1024 0]"

lemma demo_fair: "fair demo_env"
  by (auto simp: fair_def is_schedule_def demo_env_def)

lemma demo_flight_valid: "stair_Validate demo_flight = Inr ()"
  by code_simp

lemma demo_width: "\<not> cf_StepHeight demo_flight \<le> 0" "\<not> cf_TreadDepth demo_flight \<le> 0"
  "\<not> cf_Width demo_flight \<le> Fin 2 * cf_StringerThickness demo_flight" "\<not> cf_StepThickness demo_flight \<le> Precision"
  by code_simp+

lemma demo_stringer_pts:
  "stringerProfile demo_env 1 (Fin 128) (Fin 256) (Fin 128) (Fin 224) (Fin 64) = demo_stringer 224"
  "stringerProfile demo_env 1 (Fin 128) (Fin 256) (Fin 128) (Fin 736) (Fin 64) = demo_stringer 736"
  by code_simp+

lemma Extrude_ok:
  assumes "3 \<le> length profile" "\<not> dst \<le> Precision" "polygonNormal profile = (n, True)"
    "\<not> list_ex (\<lambda>p. \<bar>vec_Dot (pt_Sub p (hd profile)) n\<bar> > planarityTolerance) profile"
    "vec_Normalized dir = (u, True)" "\<not> \<bar>vec_Dot u n\<bar> \<le> Precision"
  shows "Extrude profile dir dst = Inr (prism profile dir dst u)"
  using assms by (simp add: Extrude_def list_ex_iff)

lemma axes: "vec_Normalized along_x = (along_x, True)" "vec_Normalized along_y = (along_y, True)" "vec_Normalized along_z = (along_z, True)"
  by code_simp+

lemma demo_normal_y: "polygonNormal (demo_stringer 224) = (along_y, True)"
  by code_simp

lemma demo_normal_y': "polygonNormal (demo_stringer 736) = (along_y, True)"
  by code_simp

lemma demo_normal_z: "polygonNormal demo_tread = (along_z, True)"
  by code_simp

definition against_x :: Vector3 where
  "against_x = NewVector3 (Fin (- 1)) (Fin 0) (Fin 0)"

lemma demo_normal_x: "polygonNormal demo_riser = (against_x, True)"
  by code_simp

definition off_plane :: "Point3 list \<Rightarrow> Vector3 \<Rightarrow> bool" where
  "off_plane ps n \<longleftrightarrow> list_ex (\<lambda>p. \<bar>vec_Dot (pt_Sub p (hd ps)) n\<bar> > planarityTolerance) ps"

lemma demo_flat: "\<not> off_plane (demo_stringer 224) along_y" "\<not> off_plane (demo_stringer 736) along_y"
  "\<not> off_plane demo_tread along_z" "\<not> off_plane demo_riser against_x"
  by code_simp+

lemma demo_tilt: "\<not> \<bar>vec_Dot along_y along_y\<bar> \<le> Precision" "\<not> \<bar>vec_Dot along_z along_z\<bar> \<le> Precision"
  "\<not> \<bar>vec_Dot along_x against_x\<bar> \<le> Precision" "\<not> Fin 64 \<le> Precision" "\<not> Fin 128 \<le> Precision"
  by code_simp+

lemma demo_length: "3 \<le> length (demo_stringer y)" "3 \<le> length demo_tread" "3 \<le> length demo_riser"
  by (simp_all add: demo_stringer_def demo_tread_def demo_riser_def)

lemma demo_fields: "cf_Width demo_flight = Fin 1024" "cf_TreadDepth demo_flight = Fin 128" "cf_StepHeight demo_flight = Fin 256"
  "cf_StepThickness demo_flight = Fin 128" "cf_StringerThickness demo_flight = Fin 64" "cf_StepCount demo_flight = 1"
  "cf_Riser demo_flight" "cf_Flight demo_flight = FlightStraight"
  by (simp_all add: demo_flight_def)

lemma demo_numbers: "of_int64 (int 0) * Fin 128 - Fin 128 = Fin (-128)" "of_int64 (int 0 + 1) * Fin 128 = Fin 128"
  "of_int64 (int 0 + 1) * Fin 256 - Fin 128 = Fin 128" "of_int64 (int 0) * Fin 256 = Fin 0"
  "Fin 1024 / Fin 4 - Fin 64 / Fin 2 = Fin 224" "Fin 3 * Fin 1024 / Fin 4 - Fin 64 / Fin 2 = Fin 736"
  by code_simp+

lemma demo_bodies: "tread_body demo_flight 0 = body ''tread'' 0 demo_tread along_z (Fin 128)"
  "riser_body demo_flight 0 = body ''riser'' 0 demo_riser along_x (Fin 128)"
  "stringer_bodies demo_env demo_flight = [body ''stringer'' 0 (demo_stringer 224) along_y (Fin 64),
     body ''stringer'' 1 (demo_stringer 736) along_y (Fin 64)]"
  unfolding tread_body_def riser_body_def stringer_bodies_def Let_def demo_fields demo_numbers demo_stringer_pts
  by (simp_all add: NewPoint3_def demo_tread_def demo_riser_def pt_def)

lemma demo_extrusions:
  "Extrude (demo_stringer 224) along_y (Fin 64) = Inr (prism (demo_stringer 224) along_y (Fin 64) along_y)"
  "Extrude (demo_stringer 736) along_y (Fin 64) = Inr (prism (demo_stringer 736) along_y (Fin 64) along_y)"
  "Extrude demo_tread along_z (Fin 128) = Inr (prism demo_tread along_z (Fin 128) along_z)"
  "Extrude demo_riser along_x (Fin 128) = Inr (prism demo_riser along_x (Fin 128) along_x)"
  by (rule Extrude_ok[OF demo_length(1) demo_tilt(4) demo_normal_y demo_flat(1)[unfolded off_plane_def] axes(2) demo_tilt(1)]
      Extrude_ok[OF demo_length(1) demo_tilt(4) demo_normal_y' demo_flat(2)[unfolded off_plane_def] axes(2) demo_tilt(1)]
      Extrude_ok[OF demo_length(2) demo_tilt(5) demo_normal_z demo_flat(3)[unfolded off_plane_def] axes(3) demo_tilt(2)]
      Extrude_ok[OF demo_length(3) demo_tilt(5) demo_normal_x demo_flat(4)[unfolded off_plane_def] axes(1) demo_tilt(3)])+

definition demo_model :: "Solid list" where
  "demo_model = [WithRole ''stringer'' (prism (demo_stringer 224) along_y (Fin 64) along_y),
     WithRole ''stringer'' (prism (demo_stringer 736) along_y (Fin 64) along_y),
     WithRole ''tread'' (prism demo_tread along_z (Fin 128) along_z),
     WithRole ''riser'' (prism demo_riser along_x (Fin 128) along_x)]"

lemma demo_builds: "build_model demo_env demo_flight = Inr demo_model"
proof -
  have v: "validateFlight (Some demo_flight) = Inr demo_flight"
    using demo_width by (simp add: validateFlight_def demo_flight_valid)
  have "[0..<nat 1] = [0 :: nat]" by simp
  then have b: "straight_builds demo_env demo_flight = map Inr demo_model"
    using demo_width(4) unfolding straight_builds_def demo_fields demo_bodies
    by (simp add: Let_def demo_fields demo_bodies body_def demo_extrusions demo_model_def)
  have "collect (map Inr ss) = Inr ss" for ss :: "Solid list" by (induction ss) simp_all
  then show ?thesis
    by (simp add: build_model_def demo_fields BuildStraightFlight_def v b buildCompound_collect[OF demo_fair])
qed

theorem model_bodies_witness:
  "filter (\<lambda>r. r \<noteq> ''riser'') (map so_role demo_model) = [''stringer'', ''stringer'', ''tread''] \<and> list_all watertight demo_model"
proof -
  have "frame_roles demo_flight = [''stringer'', ''stringer'', ''tread'']"
    using demo_width(4) demo_fields by (simp add: frame_roles_def frame_section_def flight_defs numeral_eq_Suc)
  then show ?thesis using model_bodies[OF demo_builds demo_fair] by simp
qed

theorem model_deterministic_witness:
  "build_model (demo_env\<lparr>ge_Procs := 1, ge_Order := \<lambda>c n. [0..<n]\<rparr>) demo_flight = Inr demo_model"
proof -
  have "fair (demo_env\<lparr>ge_Procs := 1, ge_Order := \<lambda>c n. [0..<n]\<rparr>)" by (auto simp: fair_def is_schedule_def)
  then show ?thesis
    using model_deterministic[OF _ _ demo_fair] demo_builds by (simp add: same_math_def)
qed

end
