(* ===== verification/Geo_Railing.thy ===== *)
theory Geo_Railing
  imports Geo_Builder
begin

text \<open>
  The decorative railings of the preview, \<open>internal/engine/geometry/railing.go\<close>: handrails and balusters of
  the straight sections, the landing, the winders and the spiral. A nil body is \<open>None\<close>. The loop that sets
  balusters along a landing adds a float step to a float distance until it passes the end; it need not
  return, so it is a partial function into \<open>option\<close>, and so is everything that calls it. The last part
  shows that it returns for every configuration of building size.
\<close>

definition railWidth :: f64 where "railWidth = Fin 50"
definition railThickness :: f64 where "railThickness = Fin 40"
definition balusterSize :: f64 where "balusterSize = Fin 20"

definition railingSides :: "RailingSide \<Rightarrow> f64 \<Rightarrow> f64 list" where
  "railingSides side w = (if side = ''left'' then [Fin 0] else if side = ''right'' then [w]
     else if side = ''both'' then [Fin 0, w] else [])"

definition railingEnabled :: "f64 \<Rightarrow> RailingSide \<Rightarrow> bool" where
  "railingEnabled rh side \<longleftrightarrow> rh > Fin 0 \<and> RailingSide_Valid side \<and> side \<noteq> ''none''"

definition edgeInset :: "f64 \<Rightarrow> f64 \<Rightarrow> f64 \<Rightarrow> f64" where
  "edgeInset edge w halfSize = (if edge < w / Fin 2 then halfSize else w - halfSize)"

definition landingInset :: "Point3 \<Rightarrow> f64 \<Rightarrow> f64 \<Rightarrow> f64 \<Rightarrow> f64 \<Rightarrow> Point3" where
  "landingInset p leftEdgeX rightEdgeX wp halfSize =
     (if \<bar>p_Y p\<bar> < Precision then NewPoint3 (p_X p) halfSize (p_Z p)
      else if \<bar>p_Y p - wp\<bar> < Precision then NewPoint3 (p_X p) (wp - halfSize) (p_Z p)
      else if \<bar>p_X p - leftEdgeX\<bar> < Precision then NewPoint3 (leftEdgeX + halfSize) (p_Y p) (p_Z p)
      else if \<bar>p_X p - rightEdgeX\<bar> < Precision then NewPoint3 (rightEdgeX - halfSize) (p_Y p) (p_Z p)
      else p)"

definition flipSide :: "RailingSide \<Rightarrow> RailingSide" where
  "flipSide s = (if s = ''left'' then ''right'' else if s = ''right'' then ''left'' else s)"

definition swapSidesForTurn :: "geo_env \<Rightarrow> RailingSide \<Rightarrow> f64 \<Rightarrow> RailingSide" where
  "swapSidesForTurn env side rotZ = (if ge_Cos env rotZ \<ge> fl (999999 / 1000000) then side else flipSide side)"

subsection \<open>Handrails and balusters\<close>

definition railAlong :: "Point3 \<Rightarrow> Point3 \<Rightarrow> Solid option" where
  "railAlong a b =
     (let axis = pt_Sub b a; l = vec_Norm axis in
      if l \<le> Precision then None
      else case vec_Normalized axis of (u, ok) \<Rightarrow>
        if \<not> ok then None
        else (let wd = (case vec_Normalized (NewVector3 (- v_Y u) (v_X u) (Fin 0)) of (wdN, ok2) \<Rightarrow>
                          if ok2 then wdN else NewVector3 (Fin 1) (Fin 0) (Fin 0))
              in case vec_Normalized (vec_Cross u wd) of (td, ok3) \<Rightarrow>
                if \<not> ok3 then None
                else (let c = pt_Add a (vec_Scale axis (Fin (1 / 2)));
                          rw = railWidth / Fin 2; rt = railThickness / Fin 2;
                          base = [pt_Add (pt_Add c (vec_Scale wd rw)) (vec_Scale td rt),
                                  pt_Add (pt_Add c (vec_Scale wd rw)) (vec_Scale td (- rt)),
                                  pt_Add (pt_Add c (vec_Scale wd (- rw))) (vec_Scale td (- rt)),
                                  pt_Add (pt_Add c (vec_Scale wd (- rw))) (vec_Scale td rt)];
                          shift = vec_Scale u (- l / Fin 2)
                      in case Extrude (map (\<lambda>p. pt_Add p shift) base) u l of
                           Inl e \<Rightarrow> None | Inr s \<Rightarrow> Some (WithRole ''railing'' s))))"

definition balusterAt :: "f64 \<Rightarrow> f64 \<Rightarrow> f64 \<Rightarrow> f64 \<Rightarrow> Solid option" where
  "balusterAt x y z0 height =
     (if height \<le> Precision then None
      else let hw = balusterSize / Fin 2 in
        case Extrude [NewPoint3 (x - hw) (y - hw) z0, NewPoint3 (x + hw) (y - hw) z0,
                      NewPoint3 (x + hw) (y + hw) z0, NewPoint3 (x - hw) (y + hw) z0] along_z height of
          Inl e \<Rightarrow> None | Inr s \<Rightarrow> Some (WithRole ''baluster'' s))"

definition hexFace :: "Point3 \<Rightarrow> Point3 \<Rightarrow> Point3 \<Rightarrow> Point3 \<Rightarrow> Face" where
  "hexFace a b c d = \<lparr>fa_outer = [(a, b), (b, c), (c, d), (d, a)], fa_inner = []\<rparr>"

definition balusterAtSloped :: "f64 \<Rightarrow> f64 \<Rightarrow> f64 \<Rightarrow> f64 \<Rightarrow> f64 \<Rightarrow> Solid option" where
  "balusterAtSloped x y z0 height slope =
     (if height \<le> Precision then None
      else let hw = balusterSize / Fin 2;
               zLow = z0 + height + slope * (- hw); zHigh = z0 + height + slope * hw;
               b0 = NewPoint3 (x - hw) (y - hw) z0; b1 = NewPoint3 (x + hw) (y - hw) z0;
               b2 = NewPoint3 (x + hw) (y + hw) z0; b3 = NewPoint3 (x - hw) (y + hw) z0;
               t0 = NewPoint3 (x - hw) (y - hw) zLow; t1 = NewPoint3 (x + hw) (y - hw) zHigh;
               t2 = NewPoint3 (x + hw) (y + hw) zHigh; t3 = NewPoint3 (x - hw) (y + hw) zLow
           in Some \<lparr>so_shells = [[hexFace b0 b3 b2 b1, hexFace t0 t1 t2 t3, hexFace b0 b1 t1 t0,
                hexFace b1 b2 t2 t1, hexFace b2 b3 t3 t2, hexFace b3 b0 t0 t3]], so_role = ''baluster''\<rparr>)"

text \<open>Appending the bodies that are not nil.\<close>

definition present :: "'a option list \<Rightarrow> 'a list" where
  "present xs = map the (filter (\<lambda>x. x \<noteq> None) xs)"

definition straightRailingSolids :: "int \<Rightarrow> f64 \<Rightarrow> f64 \<Rightarrow> f64 \<Rightarrow> f64 \<Rightarrow> RailingSide \<Rightarrow> Solid list" where
  "straightRailingSolids n b h rh w side =
     (let sides = railingSides side w in
      if sides = [] \<or> rh \<le> Fin 0 \<or> n \<le> 0 then []
      else (let hTop = of_int64 n * h; slope = h / b; over = b / Fin 2 in
        concat (map (\<lambda>edge.
          let railY = edgeInset edge w (railWidth / Fin 2);
              balY = edgeInset edge w (balusterSize / Fin 2);
              a = NewPoint3 (b / Fin 2 - over) railY (h + rh - slope * over);
              e = NewPoint3 ((of_int64 n - Fin (1 / 2)) * b + over) railY (hTop + rh + slope * over)
          in present (railAlong a e # map (\<lambda>k. balusterAtSloped ((of_int64 (int k) - Fin (1 / 2)) * b) balY
               (of_int64 (int k) * h) rh slope) [1..<nat n + 1])) sides)))"

subsection \<open>The landing\<close>

text \<open>The values of \<open>d\<close> in \<open>for d := start; d <= L+Precision; d += b\<close>.\<close>

partial_function (option) post_ds :: "f64 \<Rightarrow> f64 \<Rightarrow> f64 \<Rightarrow> f64 list option" where
  "post_ds d b stop =
     (if d \<le> stop then Option.bind (post_ds (d + b) b stop) (\<lambda>ds. Some (d # ds)) else Some [])"

declare post_ds.simps [code]

text \<open>The contour: segments in the plan, from a point to a point.\<close>

type_synonym seg = "(f64 \<times> f64) \<times> (f64 \<times> f64)"

definition railEdge :: "f64 \<Rightarrow> f64 \<Rightarrow> f64 \<Rightarrow> f64 \<Rightarrow> seg list" where
  "railEdge w wp flightSideX cx =
     (let y0 = (if feq cx flightSideX then w else Fin 0) in if wp > y0 then [((cx, wp), (cx, y0))] else [])"

definition landing_contour :: "f64 \<Rightarrow> f64 \<Rightarrow> f64 \<Rightarrow> bool \<Rightarrow> bool \<Rightarrow> RailingSide \<Rightarrow> seg list" where
  "landing_contour w wp x0 left closeFar side =
     (let leftX = x0; rightX = x0 + w;
          flightSideX = (if left then rightX else leftX)
      in if closeFar then
           (let outerX = (if left then leftX else rightX);
                otherX = (if feq outerX leftX then rightX else leftX)
            in [((leftX, Fin 0), (rightX, Fin 0)), ((outerX, Fin 0), (outerX, wp)), ((outerX, wp), (otherX, wp))])
         else if side = ''right'' then railEdge w wp flightSideX rightX
         else if side = ''left'' then railEdge w wp flightSideX leftX
         else ((leftX, Fin 0), (rightX, Fin 0)) # railEdge w wp flightSideX rightX @ railEdge w wp flightSideX leftX)"

definition plan_pt :: "f64 \<Rightarrow> f64 \<times> f64 \<Rightarrow> Point3" where
  "plan_pt z q = NewPoint3 (fst q) (snd q) z"

definition seg_posts :: "f64 \<Rightarrow> f64 \<Rightarrow> f64 \<Rightarrow> f64 \<Rightarrow> f64 \<Rightarrow> f64 \<Rightarrow> nat \<times> seg \<Rightarrow> Solid list option" where
  "seg_posts leftX rightX wp rh h1 b isg =
     (let p0 = plan_pt h1 (fst (snd isg)); v = pt_Sub (plan_pt h1 (snd (snd isg))) p0; l = vec_Norm v in
      if l \<le> Precision then Some []
      else (let dir = fst (vec_Normalized v); start = (if fst isg > 0 then b else Fin 0) in
        map_option (\<lambda>ds. present (map (\<lambda>d. let dd = (if d > l then l else d);
              p = landingInset (pt_Add p0 (vec_Scale dir dd)) leftX rightX wp (balusterSize / Fin 2)
            in balusterAt (p_X p) (p_Y p) h1 rh) ds))
          (post_ds start b (l + Precision))))"

fun all_posts :: "('a \<Rightarrow> 'b list option) \<Rightarrow> 'a list \<Rightarrow> 'b list option" where
  "all_posts f [] = Some []"
| "all_posts f (x # xs) = Option.bind (f x) (\<lambda>ys. map_option (\<lambda>zs. ys @ zs) (all_posts f xs))"

definition landingRailingSolids :: "f64 \<Rightarrow> f64 \<Rightarrow> f64 \<Rightarrow> f64 \<Rightarrow> f64 \<Rightarrow> f64 \<Rightarrow> bool \<Rightarrow> bool \<Rightarrow> RailingSide \<Rightarrow> Solid list option" where
  "landingRailingSolids w wp rh h1 b x0 left closeFar side =
     (if rh \<le> Fin 0 then Some []
      else (let segs = landing_contour w wp x0 left closeFar side; leftX = x0; rightX = x0 + w;
                inset = (\<lambda>q. landingInset (plan_pt (h1 + rh) q) leftX rightX wp (railWidth / Fin 2));
                rails = present (map (\<lambda>(q0, q1). railAlong (inset q0) (inset q1)) segs)
            in if b > Precision
               then map_option (\<lambda>posts. rails @ posts) (all_posts (seg_posts leftX rightX wp rh h1 b) (enumerate 0 segs))
               else Some rails))"

subsection \<open>Winders and spiral\<close>

text \<open>Handrails between consecutive points.\<close>

fun rail_chain :: "Point3 list \<Rightarrow> Solid option list" where
  "rail_chain (p # q # ps) = railAlong p q # rail_chain (q # ps)"
| "rail_chain _ = []"

definition winderRailingSolids :: "geo_env \<Rightarrow> f64 \<Rightarrow> f64 \<Rightarrow> f64 \<Rightarrow> int \<Rightarrow> int \<Rightarrow> f64 \<Rightarrow> f64 \<Rightarrow> bool \<Rightarrow> Solid list" where
  "winderRailingSolids env w h rh n1 nw l1 wp left =
     (if rh \<le> Fin 0 \<or> nw < 3 then []
      else (let h1 = of_int64 n1 * h; hTurn = h1 + of_int64 nw * h;
                pLower = (if left then NewPoint3 w w h1 else NewPoint3 l1 w h1);
                pUpper = (if left then NewPoint3 (Fin 0) wp hTurn else NewPoint3 l1 (w + wp) hTurn);
                ox = (p_X pLower + p_X pUpper) / Fin 2; oy = (p_Y pLower + p_Y pUpper) / Fin 2;
                ux = p_X pLower - ox; uy = p_Y pLower - oy; ul = ge_Hypot env ux uy
            in if ul < Precision then []
               else (let ro = ul + w; a0 = ge_Atan2 env (uy / ul) (ux / ul);
                         zRail = h1 + of_int64 nw * h + rh; segs = nw + 1; rRail = ro - railWidth / Fin 2
                     in present (rail_chain (map (\<lambda>i. let a = a0 + Pi * of_int64 (int i) / of_int64 segs
                          in NewPoint3 (ox + rRail * ge_Cos env a) (oy + rRail * ge_Sin env a) zRail) [0..<nat segs + 1])))))"

definition buildSpiralRailing :: "geo_env \<Rightarrow> StairConfiguration \<Rightarrow> f64 \<Rightarrow> Solid list" where
  "buildSpiralRailing env cfg rh =
     (if cf_Railing cfg \<noteq> DefaultRailing (cf_SpiralDirection cfg) then []
      else (let r = cf_OuterRadius cfg; rRail = r - railWidth / Fin 2; rBal = r - balusterSize / Fin 2;
                h = cf_StepHeight cfg; n = cf_StepCount cfg; delta = TwoPi / of_int64 n; sgn = spiral_sign cfg;
                pt_of = (\<lambda>k. let a = sgn * of_int64 (int k) * delta in
                  NewPoint3 (rRail * ge_Cos env a) (rRail * ge_Sin env a) (of_int64 (int k) * h + rh))
            in concat (map (\<lambda>i. present [railAlong (pt_of i) (pt_of (i + 1)),
                 (let a = sgn * (of_int64 (int i) + Fin (1 / 2)) * delta in
                  balusterAt (rBal * ge_Cos env a) (rBal * ge_Sin env a) (of_int64 (int i + 1) * h) rh)]) [0..<nat n])))"

subsection \<open>All railings of a configuration\<close>

definition flight_width :: "StairConfiguration \<Rightarrow> f64" where
  "flight_width cfg = (if cf_Flight cfg = FlightUShape then cf_Width cfg - flightSideInsetMM else cf_Width cfg)"

definition lower_rails :: "geo_env \<Rightarrow> StairConfiguration \<Rightarrow> f64 \<Rightarrow> Solid list" where
  "lower_rails env cfg rh =
     (let w = cf_Width cfg; b = cf_TreadDepth cfg; n1 = cf_LowerStepCount cfg; l1 = of_int64 n1 * b;
          flightW = flight_width cfg;
          lowerT = (if is_left cfg then tr_Mul (Translate (w + l1) flightW (Fin 0)) (RotZ env Pi) else Identity)
      in if railingEnabled rh (cf_RailingLower cfg)
         then map (TransformSolid lowerT) (straightRailingSolids n1 b (cf_StepHeight cfg) rh flightW (cf_RailingLower cfg))
         else [])"

definition turn_rails :: "geo_env \<Rightarrow> StairConfiguration \<Rightarrow> f64 \<Rightarrow> Solid list option" where
  "turn_rails env cfg rh =
     (let w = cf_Width cfg; b = cf_TreadDepth cfg; h = cf_StepHeight cfg; wp = cf_LandingWidth cfg;
          ld = (if cf_LandingDepth cfg \<le> Fin 0 then w else cf_LandingDepth cfg);
          n1 = cf_LowerStepCount cfg; h1 = of_int64 n1 * h; l1 = of_int64 n1 * b;
          isU = (cf_Flight cfg = FlightUShape);
          landingY = (if isU then Fin 2 * w else wp);
          x0 = (if is_left cfg \<and> cf_Flight cfg = FlightLShape then w - ld else l1)
      in if \<not> railingEnabled rh (cf_RailingLanding cfg) then Some []
         else if cf_TurnKind cfg = TurnWinder
         then Some (winderRailingSolids env w h rh n1 (cf_WinderCount cfg) l1 wp (is_left cfg))
         else landingRailingSolids ld landingY rh h1 b x0 (is_left cfg) isU (cf_RailingLanding cfg))"

definition upper_rails :: "geo_env \<Rightarrow> StairConfiguration \<Rightarrow> f64 \<Rightarrow> Solid list" where
  "upper_rails env cfg rh =
     (let w = cf_Width cfg; b = cf_TreadDepth cfg; h = cf_StepHeight cfg;
          n1 = cf_LowerStepCount cfg; n2 = cf_StepCount cfg - n1; h1 = of_int64 n1 * h; l1 = of_int64 n1 * b;
          isL = (cf_Flight cfg = FlightLShape);
          upperT = (if isL then tr_Mul (Translate (if is_left cfg then w else l1 + w) (cf_LandingWidth cfg) h1) (RotZ env HalfPi)
                    else pf_upperT (uShapePlatformTransforms env cfg));
          rot = (if isL then HalfPi else if is_left cfg then Fin 0 else Pi)
      in if railingEnabled rh (cf_RailingUpper cfg)
         then map (TransformSolid upperT)
                (straightRailingSolids n2 b h rh (flight_width cfg) (swapSidesForTurn env (cf_RailingUpper cfg) rot))
         else [])"

definition buildLURNailing :: "geo_env \<Rightarrow> StairConfiguration \<Rightarrow> f64 \<Rightarrow> Solid list option" where
  "buildLURNailing env cfg rh =
     map_option (\<lambda>turn. lower_rails env cfg rh @ turn @ upper_rails env cfg rh) (turn_rails env cfg rh)"

definition BuildRailingDecor :: "geo_env \<Rightarrow> StairConfiguration \<Rightarrow> (string, Solid list) result option" where
  "BuildRailingDecor env cfg =
     (let rh = cf_RailingHeight cfg in
      if rh \<le> Fin 0 then Some (Inr [])
      else if cf_Flight cfg = FlightStraight then
        Some (Inr (straightRailingSolids (cf_StepCount cfg) (cf_TreadDepth cfg) (cf_StepHeight cfg) rh (cf_Width cfg) (cf_Railing cfg)))
      else if cf_Flight cfg = FlightLShape \<or> cf_Flight cfg = FlightUShape then
        map_option Inr (buildLURNailing env cfg rh)
      else if cf_Flight cfg = FlightSpiral then Some (Inr (buildSpiralRailing env cfg rh))
      else Some (Inl (cf_Flight cfg)))"

subsection \<open>Every body is watertight\<close>

definition decor_body :: "Solid \<Rightarrow> bool" where
  "decor_body s \<longleftrightarrow> so_role s \<in> {''railing'', ''baluster''} \<and> watertight s"

lemma hexFace_pairs: "face_of (\<lambda>a b. {a, b}) (hexFace a b c d) = {# {a, b}, {b, c}, {c, d}, {d, a} #}"
  by (simp add: hexFace_def face_of_def)

text \<open>Six quadrilaterals over eight corners: every edge comes twice.\<close>

lemma hexahedron_pairs:
  assumes "so_shells s = [[hexFace b0 b3 b2 b1, hexFace t0 t1 t2 t3, hexFace b0 b1 t1 t0,
     hexFace b1 b2 t2 t1, hexFace b2 b3 t3 t2, hexFace b3 b0 t0 t3]]"
  shows "edge_sets s = (let M = {# {b0, b1}, {b1, b2}, {b2, b3}, {b3, b0}, {t0, t1}, {t1, t2}, {t2, t3}, {t3, t0},
     {b0, t0}, {b1, t1}, {b2, t2}, {b3, t3} #} in M + M)"
proof -
  have c: "{x, y} = {y, x}" for x y :: Point3 by (rule insert_commute)
  show ?thesis
    unfolding edge_sets_def solid_of_def assms Let_def
    by (simp add: hexFace_pairs c[of b3 b2] c[of b2 b1] c[of b1 b0] c[of b0 b3] c[of t1 b1] c[of t0 b0] c[of t2 b2] c[of t3 b3]
        c[of t1 t0] c[of t2 t1] c[of t3 t2] c[of t0 t3])
qed

lemma doubled_watertight: "edge_sets s = M + M \<Longrightarrow> watertight s"
  by (simp add: watertight_def flip: mult_2)

lemma all_if: "list_all P a \<Longrightarrow> list_all P b \<Longrightarrow> list_all P (if c then a else b)"
  by simp

lemma sloped_decor: "balusterAtSloped x y z0 height slope = Some s \<Longrightarrow> decor_body s"
proof -
  assume "balusterAtSloped x y z0 height slope = Some s"
  then obtain b0 b1 b2 b3 t0 t1 t2 t3 where "so_role s = ''baluster''" "so_shells s = [[hexFace b0 b3 b2 b1, hexFace t0 t1 t2 t3,
      hexFace b0 b1 t1 t0, hexFace b1 b2 t2 t1, hexFace b2 b3 t3 t2, hexFace b3 b0 t0 t3]]"
    by (auto simp: balusterAtSloped_def Let_def split: if_splits)
  then show ?thesis using doubled_watertight[OF hexahedron_pairs[unfolded Let_def]] by (simp add: decor_body_def)
qed

lemma baluster_decor: "balusterAt x y z0 height = Some s \<Longrightarrow> decor_body s"
  by (auto simp: balusterAt_def decor_body_def Let_def Extrude_watertight split: if_splits sum.splits)

lemma rail_decor: "railAlong a b = Some s \<Longrightarrow> decor_body s"
  by (auto simp: railAlong_def decor_body_def Let_def Extrude_watertight split: if_splits sum.splits prod.splits)

lemma decor_transform: "decor_body s \<Longrightarrow> decor_body (TransformSolid t s)"
  by (simp add: decor_body_def watertight_transform)

lemma present_all: "(\<And>s. Some s \<in> set xs \<Longrightarrow> P s) \<Longrightarrow> list_all P (present xs)"
  by (auto simp: present_def list_all_iff)

lemma concat_all: "(\<And>x. list_all P (f x)) \<Longrightarrow> list_all P (concat (map f xs))"
  by (induction xs) simp_all

lemma straight_decor: "list_all decor_body (straightRailingSolids n b h rh w side)"
proof -
  have "list_all decor_body (present (railAlong p q # map (\<lambda>k. balusterAtSloped (x k) y (z k) rh slope) ks))" for p q x y z slope and ks :: "nat list"
    by (rule present_all) (auto dest: rail_decor[OF sym] sloped_decor[OF sym])
  then show ?thesis unfolding straightRailingSolids_def Let_def by (simp add: concat_all del: map_eq_conv)
qed

lemma chain_decor: "list_all decor_body (present (rail_chain ps))"
proof (rule present_all)
  show "Some s \<in> set (rail_chain ps) \<Longrightarrow> decor_body s" for s
    by (induction ps rule: rail_chain.induct) (auto dest: rail_decor[OF sym])
qed

lemma winder_decor: "list_all decor_body (winderRailingSolids env w h rh n1 nw l1 wp left)"
  unfolding winderRailingSolids_def Let_def by (intro all_if chain_decor) (simp_all only: list.pred_inject)

lemma spiral_decor: "list_all decor_body (buildSpiralRailing env cfg rh)"
proof -
  have "list_all decor_body (present [railAlong p q, balusterAt x y z rh])" for p q x y z
    by (rule present_all) (auto dest: rail_decor[OF sym] baluster_decor[OF sym])
  then show ?thesis unfolding buildSpiralRailing_def Let_def by (simp add: concat_all del: map_eq_conv)
qed

lemma posts_decor: "seg_posts leftX rightX wp rh h1 b isg = Some ss \<Longrightarrow> list_all decor_body ss"
  by (auto simp: seg_posts_def Let_def intro!: present_all dest!: baluster_decor[OF sym] split: if_splits)

lemma all_posts_all: "all_posts f xs = Some ys \<Longrightarrow> (\<And>x zs. f x = Some zs \<Longrightarrow> list_all P zs) \<Longrightarrow> list_all P ys"
  by (induction xs arbitrary: ys) (auto simp: bind_eq_Some_conv)

lemma landing_decor:
  assumes "landingRailingSolids w wp rh h1 b x0 left closeFar side = Some ss"
  shows "list_all decor_body ss"
proof -
  have r: "list_all decor_body (present (map (\<lambda>(q0, q1). railAlong (g q0) (g q1)) xs))" for g and xs :: "seg list"
    by (rule present_all) (auto dest: rail_decor[OF sym])
  then show ?thesis using assms all_posts_all[OF _ posts_decor]
    by (auto simp: landingRailingSolids_def Let_def split: if_splits)
qed

lemma moved_decor: "list_all decor_body (map (TransformSolid t) (straightRailingSolids n b h rh w side))"
  using straight_decor by (auto simp: list_all_iff intro: decor_transform)

lemma LUR_decor: "buildLURNailing env cfg rh = Some ss \<Longrightarrow> list_all decor_body ss"
proof -
  have "list_all decor_body (lower_rails env cfg rh)" "list_all decor_body (upper_rails env cfg rh)"
    by (simp_all add: lower_rails_def upper_rails_def Let_def moved_decor)
  moreover have "turn_rails env cfg rh = Some ts \<Longrightarrow> list_all decor_body ts" for ts
    unfolding turn_rails_def Let_def by (auto simp: winder_decor intro: landing_decor split: if_split_asm)
  ultimately show "buildLURNailing env cfg rh = Some ss \<Longrightarrow> list_all decor_body ss"
    by (auto simp: buildLURNailing_def)
qed

lemma BuildRailingDecor_decor: "BuildRailingDecor env cfg = Some (Inr ss) \<Longrightarrow> list_all decor_body ss"
  using straight_decor spiral_decor
  by (auto simp: BuildRailingDecor_def Let_def dest: LUR_decor split: if_splits)

subsection \<open>The loop along a landing returns\<close>

text \<open>Finite and at most \<open>2 ^ k\<close> in size.\<close>

definition sized :: "nat \<Rightarrow> f64 \<Rightarrow> bool" where
  "sized k x \<longleftrightarrow> (\<exists>q. x = Fin q \<and> \<bar>q\<bar> \<le> 2 ^ k)"

lemma sized_fl:
  assumes "\<bar>q\<bar> \<le> 2 ^ k" "k \<le> 1000"
  shows "sized k (fl q)"
proof -
  have "rnd (2 ^ k) = 2 ^ k" using rnd_pow2[of "int k"] by (simp add: power_int_def)
  then have "\<bar>rnd q\<bar> \<le> 2 ^ k" using bin64.rd_le[of "2 ^ k" "\<bar>q\<bar>"] assms(1) by (simp add: bin64.rd_abs)
  then show ?thesis using fl_near(1)[OF assms] by (simp add: sized_def)
qed

lemma sized_mono: "sized j x \<Longrightarrow> j \<le> k \<Longrightarrow> sized k x"
proof -
  assume "sized j x" "j \<le> k"
  then obtain q where "x = Fin q" "\<bar>q\<bar> \<le> 2 ^ j" by (auto simp: sized_def)
  moreover have "(2 :: rat) ^ j \<le> 2 ^ k" using \<open>j \<le> k\<close> by (intro power_increasing) auto
  ultimately show "sized k x" unfolding sized_def by (intro exI[of _ q] conjI) linarith+
qed

lemma sized_add:
  assumes "sized k x" "sized k y" "k < 1000"
  shows "sized (Suc k) (x + y)" "sized (Suc k) (x - y)"
proof -
  obtain a b where e: "x = Fin a" "y = Fin b" "\<bar>a\<bar> \<le> 2 ^ k" "\<bar>b\<bar> \<le> 2 ^ k" using assms(1,2) by (auto simp: sized_def)
  then have "\<bar>a + b\<bar> \<le> 2 ^ Suc k" "\<bar>a + - b\<bar> \<le> 2 ^ Suc k" by auto
  then show "sized (Suc k) (x + y)" "sized (Suc k) (x - y)"
    using sized_fl assms(3) unfolding e minus_f64_def by auto
qed

lemma sized_mult:
  assumes "sized j x" "sized k y" "j + k \<le> 1000"
  shows "sized (j + k) (x * y)"
proof -
  obtain a b where e: "x = Fin a" "y = Fin b" "\<bar>a\<bar> \<le> 2 ^ j" "\<bar>b\<bar> \<le> 2 ^ k" using assms(1,2) by (auto simp: sized_def)
  then have "\<bar>a * b\<bar> \<le> 2 ^ (j + k)" by (simp add: abs_mult power_add mult_mono)
  then show ?thesis using sized_fl assms(3) unfolding e by auto
qed

lemma sized_sqrt:
  assumes "sized (2 * k) x"
  shows "fsqrt x = NaN \<or> sized (Suc k) (fsqrt x)"
proof -
  obtain q where q: "x = Fin q" "\<bar>q\<bar> \<le> 2 ^ (2 * k)" using assms by (auto simp: sized_def)
  show ?thesis
  proof (cases "0 < q")
    case True
    obtain r where r: "fsqrt (Fin q) = Fin r" "0 \<le> r" "\<bar>r * r - q\<bar> \<le> q / 2 ^ 51" using fsqrt_rel[OF True] by blast
    have "r \<le> 2 ^ Suc k"
    proof (rule ccontr)
      assume "\<not> r \<le> 2 ^ Suc k"
      then have "2 ^ Suc k * 2 ^ Suc k \<le> r * r" using r(2) by (intro mult_mono) auto
      moreover have "q / 2 ^ 51 \<le> q" using True by simp
      then have "r * r \<le> q + q" using r(3) unfolding abs_le_iff by linarith
      moreover have "(2 :: rat) ^ Suc k * 2 ^ Suc k = 4 * 2 ^ (2 * k)" by (simp add: power_even_eq power2_eq_square)
      moreover have "(0 :: rat) < 2 ^ (2 * k)" by simp
      ultimately show False using q(2) by linarith
    qed
    then show ?thesis using r q by (simp add: sized_def)
  next
    case False
    then have "fsqrt x = NaN \<or> fsqrt x = Fin 0" using q by auto
    then show ?thesis by (auto simp: sized_def)
  qed
qed

lemma above_Precision: "Precision < b \<Longrightarrow> b = Inf False \<or> (\<exists>s. b = Fin s \<and> 1 / 2 ^ 20 \<le> s)"
proof -
  have ge: "Fin (1 / 2 ^ 20) \<le> Precision" by code_simp
  have p: "Precision = Fin (rnd (1 / 1000000))" unfolding Precision_def by (rule fl_near(1)[of _ 0]) simp_all
  have q: "1 / 2 ^ 20 \<le> rnd (1 / 1000000)" using ge unfolding p by simp
  show "Precision < b \<Longrightarrow> b = Inf False \<or> (\<exists>s. b = Fin s \<and> 1 / 2 ^ 20 \<le> s)"
    unfolding p using q by (cases b) (auto simp del: divide_le_eq_numeral1)
qed

text \<open>One step of the loop: the distance grows by at least half of the least step.\<close>

lemma post_step:
  assumes "Precision < Fin s" "0 \<le> x" "x \<le> 2 ^ 31"
  shows "Fin x + Fin s = Inf False \<or> (\<exists>y. Fin x + Fin s = Fin y \<and> x + 1 / 2 ^ 21 \<le> y)"
proof -
  have s: "1 / 2 ^ 20 \<le> s" using above_Precision[OF assms(1)] by simp
  have "x + 1 / 2 ^ 20 \<le> 2 ^ 31 + 2 ^ 31" by (rule add_mono[OF assms(3)]) simp
  then have k: "\<bar>x + 1 / 2 ^ 20\<bar> \<le> 2 ^ 32" using assms(2) by simp
  note n = fl_near[OF k]
  have "x + 1 / 2 ^ 20 - 2 ^ 32 / 2 ^ 54 \<le> rnd (x + 1 / 2 ^ 20)" using n(2) unfolding abs_le_iff by linarith
  moreover have "x + 1 / 2 ^ 21 \<le> x + 1 / 2 ^ 20 - 2 ^ 32 / 2 ^ 54" by simp
  moreover have "fl (x + 1 / 2 ^ 20) \<le> fl (x + s)" using s by (intro fl_mono) simp
  ultimately show ?thesis using n(1) by (cases "fl (x + s)") auto
qed

lemma post_ds_done: "\<not> d \<le> stop \<Longrightarrow> post_ds d b stop = Some []"
  by (simp add: post_ds.simps)

lemma post_ds_Fin:
  assumes "Precision < b" "L \<le> 2 ^ 31"
  shows "0 \<le> x \<Longrightarrow> L - x < of_nat n / 2 ^ 21 \<Longrightarrow> post_ds (Fin x) b (Fin L) \<noteq> None"
proof (induction n arbitrary: x)
  case 0
  then show ?case by (simp add: post_ds_done)
next
  case (Suc n)
  show ?case
  proof (cases "x \<le> L")
    case True
    have "post_ds (Fin x + b) b (Fin L) \<noteq> None"
    proof (cases b)
      case (Fin s)
      have "x \<le> 2 ^ 31" using True assms(2) by simp
      from post_step[OF assms(1)[unfolded Fin] Suc.prems(1) this] show ?thesis
      proof (elim disjE exE conjE)
        fix y assume y: "Fin x + Fin s = Fin y" "x + 1 / 2 ^ 21 \<le> y"
        then have "0 \<le> y" "L - y < of_nat n / 2 ^ 21" using Suc.prems by (simp_all add: add_divide_distrib)
        then show ?thesis using Suc.IH[of y] y(1) Fin by simp
      qed (simp add: post_ds_done Fin)
    next
      case (Inf i)
      then have "\<not> Fin x + b \<le> Fin L" using above_Precision[OF assms(1)] by simp
      then show ?thesis by (simp add: post_ds_done)
    qed (use above_Precision[OF assms(1)] in simp)
    then show ?thesis by (subst post_ds.simps) auto
  qed (simp add: post_ds_done)
qed

lemma post_ds_returns:
  assumes "Precision < b" "stop = NaN \<or> sized 31 stop" "d = Fin 0 \<or> d = b"
  shows "post_ds d b stop \<noteq> None"
proof (cases stop)
  case (Fin L)
  then have L: "L \<le> 2 ^ 31" using assms(2) by (auto simp: sized_def)
  have "post_ds (Fin x) b stop \<noteq> None" if "0 \<le> x" for x
  proof -
    obtain n where "(L - x) * 2 ^ 21 < of_nat n" using reals_Archimedean2 by blast
    then show ?thesis using post_ds_Fin[OF assms(1) L that, of n] Fin by (simp add: field_simps)
  qed
  moreover have "d = Fin 0 \<or> d = Inf False \<or> (\<exists>s. d = Fin s \<and> 0 \<le> s)"
    using assms(3) above_Precision[OF assms(1)] by (auto intro: order_trans[of 0 "1 / 2 ^ 20"])
  ultimately show ?thesis using Fin by (auto simp: post_ds_done)
next
  case NaN
  have "\<not> d \<le> NaN" by (cases d) auto
  then show ?thesis using NaN by (simp add: post_ds_done)
qed (use assms(2) in \<open>simp add: sized_def\<close>)

text \<open>Configurations of building size.\<close>

definition building :: "StairConfiguration \<Rightarrow> bool" where
  "building cfg \<longleftrightarrow> sized 16 (cf_Width cfg) \<and> sized 16 (cf_LandingWidth cfg) \<and> sized 16 (cf_LandingDepth cfg)
     \<and> sized 16 (cf_StepHeight cfg) \<and> sized 16 (cf_TreadDepth cfg) \<and> \<bar>cf_LowerStepCount cfg\<bar> \<le> 2 ^ 10"

definition seg_sized :: "nat \<Rightarrow> seg \<Rightarrow> bool" where
  "seg_sized k s \<longleftrightarrow> sized k (fst (fst s)) \<and> sized k (snd (fst s)) \<and> sized k (fst (snd s)) \<and> sized k (snd (snd s))"

lemma contour_sized:
  assumes "sized 26 w" "sized 27 wp" "sized 26 x0"
  shows "list_all (seg_sized 27) (landing_contour w wp x0 left closeFar side)"
proof -
  have "sized 27 w" "sized 27 x0" using assms(1,3) by (auto intro: sized_mono)
  moreover have "sized 27 (x0 + w)" using sized_add(1)[OF assms(3,1)] by simp
  moreover have "sized 27 (Fin 0)" by (simp add: sized_def)
  ultimately have e: "list_all (seg_sized 27) (railEdge w wp f cx)" if "cx = x0 \<or> cx = x0 + w" for f cx
    using that assms(2) by (auto simp: railEdge_def seg_sized_def Let_def)
  show ?thesis
    using e[of x0] e[of "x0 + w"] \<open>sized 27 x0\<close> \<open>sized 27 (x0 + w)\<close> \<open>sized 27 (Fin 0)\<close> assms(2)
    by (simp add: landing_contour_def Let_def seg_sized_def)
qed

lemma seg_posts_returns:
  assumes "seg_sized 27 (snd isg)" "sized 27 h1" "Precision < b"
  shows "seg_posts leftX rightX wp rh h1 b isg \<noteq> None"
proof -
  let ?p0 = "plan_pt h1 (fst (snd isg))"
  let ?v = "pt_Sub (plan_pt h1 (snd (snd isg))) ?p0"
  have "sized 28 (v_X ?v)" "sized 28 (v_Y ?v)" "sized 28 (v_Z ?v)"
    using sized_add(2)[of 27] assms(1,2) by (simp_all add: pt_Sub_def plan_pt_def NewPoint3_def seg_sized_def)
  then have "sized 56 (v_X ?v * v_X ?v)" "sized 56 (v_Y ?v * v_Y ?v)" "sized 56 (v_Z ?v * v_Z ?v)"
    using sized_mult[of 28 _ 28] by simp_all
  then have "sized 57 (v_X ?v * v_X ?v + v_Y ?v * v_Y ?v)" "sized 57 (v_Z ?v * v_Z ?v)"
    using sized_add(1)[of 56] by (auto intro: sized_mono)
  then have "sized (2 * 29) (vec_Dot ?v ?v)" using sized_add(1)[of 57] by (simp add: vec_Dot_def)
  then have "vec_Norm ?v = NaN \<or> sized 30 (vec_Norm ?v)" using sized_sqrt[of 29] by (simp add: vec_Norm_def)
  moreover have "sized 30 Precision" unfolding Precision_def by (rule sized_fl) simp_all
  ultimately have "vec_Norm ?v + Precision = NaN \<or> sized 31 (vec_Norm ?v + Precision)"
    using sized_add(1)[of 30] by (auto simp: sized_def)
  from post_ds_returns[OF assms(3) this] show ?thesis
    by (simp add: seg_posts_def Let_def)
qed

lemma all_posts_returns: "(\<And>x. x \<in> set xs \<Longrightarrow> f x \<noteq> None) \<Longrightarrow> all_posts f xs \<noteq> None"
proof (induction xs)
  case (Cons x xs)
  then obtain ys where "f x = Some ys" by fastforce
  then show ?case using Cons by simp
qed simp

lemma landing_returns:
  assumes "sized 26 w" "sized 27 wp" "sized 26 x0" "sized 27 h1"
  shows "landingRailingSolids w wp rh h1 b x0 left closeFar side \<noteq> None"
proof -
  have "all_posts (seg_posts x0 (x0 + w) wp rh h1 b) (enumerate 0 (landing_contour w wp x0 left closeFar side)) \<noteq> None"
    if "Precision < b"
  proof (rule all_posts_returns)
    fix isg assume "isg \<in> set (enumerate 0 (landing_contour w wp x0 left closeFar side))"
    then have "snd isg \<in> set (landing_contour w wp x0 left closeFar side)" by (simp add: in_set_enumerate_eq) (metis nth_mem)
    then have "seg_sized 27 (snd isg)" using contour_sized[OF assms(1-3)] by (auto simp: list_all_iff)
    then show "seg_posts x0 (x0 + w) wp rh h1 b isg \<noteq> None" by (rule seg_posts_returns[OF _ assms(4) that])
  qed
  then show ?thesis by (simp add: landingRailingSolids_def Let_def)
qed

lemma turn_returns:
  assumes "building cfg"
  shows "turn_rails env cfg rh \<noteq> None"
proof -
  have b: "sized 16 (cf_Width cfg)" "sized 16 (cf_LandingWidth cfg)" "sized 16 (cf_LandingDepth cfg)"
    "sized 16 (cf_StepHeight cfg)" "sized 16 (cf_TreadDepth cfg)"
    using assms by (simp_all add: building_def)
  have "sized 10 (of_int64 (cf_LowerStepCount cfg))"
  proof -
    have "\<bar>of_int (cf_LowerStepCount cfg) :: rat\<bar> \<le> of_int (2 ^ 10)"
      using assms unfolding building_def by (simp only: of_int_abs[symmetric] of_int_le_iff)
    then show ?thesis unfolding of_int64_def by (intro sized_fl) simp_all
  qed
  then have h1: "sized 26 (of_int64 (cf_LowerStepCount cfg) * cf_StepHeight cfg)"
    and l1: "sized 26 (of_int64 (cf_LowerStepCount cfg) * cf_TreadDepth cfg)"
    using sized_mult[of 10 _ 16] b(4,5) by simp_all
  have ld: "sized 16 (if cf_LandingDepth cfg \<le> Fin 0 then cf_Width cfg else cf_LandingDepth cfg)" using b(1,3) by simp
  have x0: "sized 26 (cf_Width cfg - (if cf_LandingDepth cfg \<le> Fin 0 then cf_Width cfg else cf_LandingDepth cfg))"
    by (rule sized_mono[OF sized_add(2)[OF b(1) ld]]) simp_all
  have "sized 1 (Fin 2)" by (simp add: sized_def)
  then have "sized 17 (Fin 2 * cf_Width cfg)" using sized_mult[of 1 "Fin 2" 16] b(1) by simp
  then have wy: "sized 27 (if c then Fin 2 * cf_Width cfg else cf_LandingWidth cfg)" for c
    using b(2) by (auto intro: sized_mono)
  show ?thesis
    unfolding turn_rails_def Let_def
    using landing_returns[OF sized_mono[OF ld] wy _ sized_mono[OF h1]] x0 l1 by simp
qed

lemma BuildRailingDecor_returns: "building cfg \<Longrightarrow> BuildRailingDecor env cfg \<noteq> None"
  using turn_returns[of cfg env "cf_RailingHeight cfg"] by (simp add: BuildRailingDecor_def buildLURNailing_def Let_def)

text \<open>C27: for a configuration of building size (lengths up to 65 m, up to 1024 lower steps) the railings are
  built: the loop over a landing returns, the only error is a flight of unknown type with railings, and
  every body is a watertight handrail or baluster.\<close>

theorem railings_return:
  assumes "building cfg"
  shows "case BuildRailingDecor env cfg of
      None \<Rightarrow> False
    | Some (Inl f) \<Rightarrow> f = cf_Flight cfg \<and> f \<notin> {FlightStraight, FlightLShape, FlightUShape, FlightSpiral}
    | Some (Inr ss) \<Rightarrow> list_all decor_body ss"
proof -
  obtain r where r: "BuildRailingDecor env cfg = Some r" using BuildRailingDecor_returns[OF assms] by blast
  show ?thesis
  proof (cases r)
    case (Inl f)
    then show ?thesis using r by (auto simp: BuildRailingDecor_def Let_def split: if_splits)
  next
    case (Inr ss)
    then show ?thesis using r BuildRailingDecor_decor by simp
  qed
qed

theorem railings_return_witness:
  "BuildRailingDecor demo_env (demo_flight\<lparr>cf_Flight := FlightLShape, cf_LandingWidth := Fin 1024, cf_LowerStepCount := 1,
     cf_RailingHeight := Fin 1024, cf_RailingLanding := ''both''\<rparr>) \<noteq> None"
proof -
  have "building (demo_flight\<lparr>cf_Flight := FlightLShape, cf_LandingWidth := Fin 1024, cf_LowerStepCount := 1,
      cf_RailingHeight := Fin 1024, cf_RailingLanding := ''both''\<rparr>)"
    by (simp add: building_def sized_def demo_flight_def zero_config_def zero_f64_def)
  from railings_return[OF this, of demo_env] show ?thesis by (auto split: option.splits)
qed

subsection \<open>Where railings and steps disagree\<close>

text \<open>
  The landing of a left U-shaped stair starts at 0, its railing at the length of the lower flight; with
  winders the railing of the upper flight has the winders among its steps and the place of the upper flight
  of a platform.
\<close>

lemma left_landing_apart:
  assumes "cf_Flight cfg = FlightUShape" "is_left cfg" "cf_TurnKind cfg \<noteq> TurnWinder" "railingEnabled rh (cf_RailingLanding cfg)"
  shows "pf_landingX0 (uShapePlatformTransforms env cfg) = Fin 0
    \<and> (\<exists>ld. turn_rails env cfg rh = landingRailingSolids ld (Fin 2 * cf_Width cfg) rh (of_int64 (cf_LowerStepCount cfg) * cf_StepHeight cfg)
          (cf_TreadDepth cfg) (of_int64 (cf_LowerStepCount cfg) * cf_TreadDepth cfg) True True (cf_RailingLanding cfg))"
  using assms by (auto simp: turn_rails_def uShapePlatformTransforms_def Let_def flight_defs)

lemma winder_upper_apart:
  assumes "cf_Flight cfg = FlightUShape" "railingEnabled rh (cf_RailingUpper cfg)"
  shows "\<exists>side. upper_rails env cfg rh = map (TransformSolid (pf_upperT (uShapePlatformTransforms env cfg)))
    (straightRailingSolids (cf_StepCount cfg - cf_LowerStepCount cfg) (cf_TreadDepth cfg) (cf_StepHeight cfg) rh
       (cf_Width cfg - flightSideInsetMM) side)"
  using assms by (auto simp: upper_rails_def flight_width_def Let_def flight_defs)

end
