(* ===== verification/Geo_Engine.thy ===== *)
theory Geo_Engine
  imports Geo_Railing
begin

text \<open>
  \<open>internal/engine/geometry/engine.go\<close>: \<open>Generate\<close> builds the model, moves it by the approach space, validates,
  measures and meshes every body in a parallel section, adds the railings and the room. A nil context is
  one that never ends. \<open>gen_env\<close> holds the context (its error at the start, after the build, at the parallel
  section, in each task) and the text of the room warning, which is a natural language string. \<open>None\<close>
  stands for a run that does not return (the railings of a landing).
\<close>

record gen_env =
  gx_Start :: "string option"
  gx_Built :: "string option"
  gx_Exec :: "string option"
  gx_Task :: "nat \<Rightarrow> string option"
  gx_RoomText :: "f64 \<Rightarrow> f64 \<Rightarrow> int \<Rightarrow> int \<Rightarrow> string"

record Measurement =
  ms_SolidCount :: nat
  ms_Volume :: f64
  ms_SurfaceArea :: f64
  ms_BoundingBox :: BBox

record generated =
  gr_Model :: "Solid list"
  gr_Mesh :: Mesh
  gr_RailingMesh :: Mesh
  gr_RoomMesh :: "Mesh option"
  gr_Issues :: "ValidationIssue list"
  gr_Measurement :: Measurement

datatype gen_error = Cancelled string | GenConfigMissing | GenBuild build_error | BodyTess tess_error | BodyMesh mesh_error
  | MeshIndex mesh_error | UnknownFlight string | RailingMeshFailed mesh_error | RoomIndex mesh_error

record solid_out =
  ou_issues :: "ValidationIssue list"
  ou_vol :: f64
  ou_area :: f64
  ou_verts :: "Point3 list"
  ou_tris :: "triangle list"

definition tag_issue :: "string \<Rightarrow> ValidationIssue \<Rightarrow> ValidationIssue" where
  "tag_issue pre i = i\<lparr>gi_Element := pre @ gi_Element i\<rparr>"

text \<open>The body of the task: one cache per body, shared by the four steps.\<close>

definition process_solid :: "nat \<Rightarrow> Solid \<Rightarrow> (gen_error, solid_out) result" where
  "process_solid i s =
     (case geo_validate (Some s) NewTessellationCache of (iss, c1) \<Rightarrow>
      (case solid_volume s c1 of
         (Inl e, c2) \<Rightarrow> Inl (BodyTess e)
       | (Inr v, c2) \<Rightarrow>
      (case surfaceArea s c2 of
         (Inl e, c3) \<Rightarrow> Inl (BodyTess e)
       | (Inr a, c3) \<Rightarrow>
      (case meshSolid s c3 of
         (Inl e, c4) \<Rightarrow> Inl (BodyMesh e)
       | (Inr (vs, ts), c4) \<Rightarrow>
           Inr \<lparr>ou_issues = map (tag_issue (''solid:'' @ Itoa (int i) @ ''/'')) iss,
             ou_vol = v, ou_area = a, ou_verts = vs, ou_tris = ts\<rparr>))))"

definition process_all :: "gen_env \<Rightarrow> geo_env \<Rightarrow> Solid list \<Rightarrow> (gen_error, solid_out list) result" where
  "process_all gx env model =
     (case Execute_slots (New_limit (ge_Procs env) 0) (map_option Cancelled (gx_Exec gx)) (\<lambda>i. map_option Cancelled (gx_Task gx i))
         (ge_Order env 2 (length model)) (length model) (\<lambda>i. process_solid i (model ! i)) of
        (Some e, slots) \<Rightarrow> Inl e
      | (None, slots) \<Rightarrow> Inr (map the slots))"

definition approach :: "StairConfiguration \<Rightarrow> f64" where
  "approach cfg = (if feq (cf_ApproachSpace cfg) (Fin 0) then Fin 1000 else cf_ApproachSpace cfg)"

definition shift_model :: "StairConfiguration \<Rightarrow> Solid list \<Rightarrow> Solid list" where
  "shift_model cfg ss = (if approach cfg > Fin 0 then map (TransformSolid (Translate (approach cfg) (Fin 0) (Fin 0))) ss else ss)"

definition empty_mesh :: Mesh where
  "empty_mesh = \<lparr>me_Vertices = [], me_Triangles = []\<rparr>"

fun add_outs :: "(Point3 list \<times> triangle list) list \<Rightarrow> Mesh \<Rightarrow> (mesh_error, Mesh) result" where
  "add_outs [] m = Inr m"
| "add_outs ((vs, ts) # r) m = bindR (append_mesh vs ts m) (add_outs r)"

definition out_mesh :: "solid_out \<Rightarrow> Point3 list \<times> triangle list" where
  "out_mesh u = (ou_verts u, ou_tris u)"

definition measure_model :: "Solid list \<Rightarrow> solid_out list \<Rightarrow> Measurement" where
  "measure_model model outs =
     \<lparr>ms_SolidCount = SolidCount (Some model), ms_Volume = fold (\<lambda>u v. v + ou_vol u) outs (Fin 0),
      ms_SurfaceArea = fold (\<lambda>u a. a + ou_area u) outs (Fin 0), ms_BoundingBox = BoundingBox (Some model)\<rparr>"

subsection \<open>Railings\<close>

fun decor_mesh :: "Solid list \<Rightarrow> Mesh \<Rightarrow> ValidationIssue list \<Rightarrow> (gen_error, Mesh \<times> ValidationIssue list) result" where
  "decor_mesh [] m iss = Inr (m, iss)"
| "decor_mesh (s # ss) m iss =
     (case geo_validate (Some s) NewTessellationCache of (found, c) \<Rightarrow>
      (case meshSolid s c of
         (Inl e, c') \<Rightarrow> Inl (RailingMeshFailed e)
       | (Inr (vs, ts), c') \<Rightarrow>
           (case append_mesh vs ts m of
              Inl e \<Rightarrow> Inl (RailingMeshFailed e)
            | Inr m' \<Rightarrow> decor_mesh ss m' (iss @ map (tag_issue (''decor:'' @ so_role s @ ''/'')) found))))"

definition appendRailingMesh :: "geo_env \<Rightarrow> StairConfiguration \<Rightarrow> ValidationIssue list
    \<Rightarrow> (gen_error, Mesh \<times> ValidationIssue list) result option" where
  "appendRailingMesh env cfg iss =
     map_option (\<lambda>r. case r of Inl f \<Rightarrow> Inl (UnknownFlight f)
       | Inr decor \<Rightarrow> decor_mesh (if feq (approach cfg) (Fin 0) then decor
           else map (TransformSolid (Translate (approach cfg) (Fin 0) (Fin 0))) decor) empty_mesh iss)
       (BuildRailingDecor env cfg)"

subsection \<open>The room\<close>

definition buildRoomSolid :: "f64 \<Rightarrow> f64 \<Rightarrow> Solid option" where
  "buildRoomSolid rw rl =
     (case Extrude [NewPoint3 (Fin 0) (Fin 0) (Fin (- 20)), NewPoint3 rw (Fin 0) (Fin (- 20)),
                    NewPoint3 rw rl (Fin (- 20)), NewPoint3 (Fin 0) rl (Fin (- 20))] along_z (Fin 20) of
        Inl e \<Rightarrow> None | Inr s \<Rightarrow> Some (WithRole ''room'' s))"

definition has_room :: "StairConfiguration \<Rightarrow> bool" where
  "has_room cfg \<longleftrightarrow> cf_RoomWidth cfg > Fin 0 \<and> cf_RoomLength cfg > Fin 0"

definition room_mesh :: "StairConfiguration \<Rightarrow> (gen_error, Mesh option) result" where
  "room_mesh cfg =
     (if \<not> has_room cfg then Inr None
      else case buildRoomSolid (cf_RoomWidth cfg) (cf_RoomLength cfg) of
        None \<Rightarrow> Inr None
      | Some room \<Rightarrow> (case fst (meshSolid room NewTessellationCache) of
          Inl e \<Rightarrow> Inr None
        | Inr (vs, ts) \<Rightarrow> (case append_mesh vs ts empty_mesh of Inl e \<Rightarrow> Inl (RoomIndex e) | Inr m \<Rightarrow> Inr (Some m))))"

definition too_big :: "StairConfiguration \<Rightarrow> BBox \<Rightarrow> bool" where
  "too_big cfg bb \<longleftrightarrow> has_room cfg
     \<and> (p_X (bb_Max bb) > cf_RoomWidth cfg + Precision \<or> p_Y (bb_Max bb) > cf_RoomLength cfg + Precision)"

definition room_issues :: "gen_env \<Rightarrow> StairConfiguration \<Rightarrow> BBox \<Rightarrow> ValidationIssue list" where
  "room_issues gx cfg bb =
     (if too_big cfg bb
      then [\<lparr>gi_Code = ''room_fit'', gi_Severity = ''warning'', gi_Element = ''room'',
        gi_Message = gx_RoomText gx (p_X (bb_Max bb)) (p_Y (bb_Max bb)) (to_int64 (cf_RoomWidth cfg)) (to_int64 (cf_RoomLength cfg))\<rparr>]
      else [])"

subsection \<open>\<open>Generate\<close>\<close>

definition complete :: "gen_env \<Rightarrow> geo_env \<Rightarrow> StairConfiguration \<Rightarrow> Solid list \<Rightarrow> solid_out list \<Rightarrow> Mesh
    \<Rightarrow> (gen_error, generated) result option" where
  "complete gx env cfg model outs mesh =
     (let ms = measure_model model outs in
      map_option (\<lambda>r. bindR r (\<lambda>(rails, iss). bindR (room_mesh cfg) (\<lambda>room.
          Inr \<lparr>gr_Model = model, gr_Mesh = mesh, gr_RailingMesh = rails, gr_RoomMesh = room,
            gr_Issues = iss @ room_issues gx cfg (ms_BoundingBox ms), gr_Measurement = ms\<rparr>)))
        (appendRailingMesh env cfg (concat (map ou_issues outs))))"

text \<open>The part after the parallel section.\<close>

definition finish :: "gen_env \<Rightarrow> geo_env \<Rightarrow> StairConfiguration \<Rightarrow> Solid list \<Rightarrow> solid_out list \<Rightarrow> (gen_error, generated) result option" where
  "finish gx env cfg model outs =
     (case add_outs (map out_mesh outs) empty_mesh of
        Inl e \<Rightarrow> Some (Inl (MeshIndex e))
      | Inr mesh \<Rightarrow> complete gx env cfg model outs mesh)"

definition Generate :: "gen_env \<Rightarrow> geo_env \<Rightarrow> StairConfiguration option \<Rightarrow> (gen_error, generated) result option" where
  "Generate gx env cfgo =
     (case gx_Start gx of Some e \<Rightarrow> Some (Inl (Cancelled e)) | None \<Rightarrow>
     (case cfgo of None \<Rightarrow> Some (Inl GenConfigMissing) | Some cfg \<Rightarrow>
     (case build_model env cfg of Inl e \<Rightarrow> Some (Inl (GenBuild e)) | Inr model0 \<Rightarrow>
      let model = shift_model cfg model0 in
     (case gx_Built gx of Some e \<Rightarrow> Some (Inl (Cancelled e)) | None \<Rightarrow>
     (case process_all gx env model of Inl e \<Rightarrow> Some (Inl e) | Inr outs \<Rightarrow> finish gx env cfg model outs)))))"

subsection \<open>The sequential reference\<close>

text \<open>
  \<open>Generate\<close> without parallel tasks, caches and index arithmetic: the bodies one after the other, every
  measure on its own, the mesh by \<open>ToPreviewMesh\<close>.
\<close>

definition lift_gen :: "('e \<Rightarrow> gen_error) \<Rightarrow> ('e, 'a) result \<Rightarrow> (gen_error, 'a) result" where
  "lift_gen f r = (case r of Inl e \<Rightarrow> Inl (f e) | Inr a \<Rightarrow> Inr a)"

definition body_reference :: "nat \<Rightarrow> Solid \<Rightarrow> (gen_error, solid_out) result" where
  "body_reference i s =
     bindR (lift_gen BodyTess (fst (solid_volume s None))) (\<lambda>v.
     bindR (lift_gen BodyTess (fst (surfaceArea s None))) (\<lambda>a.
     bindR (lift_gen BodyMesh (fst (meshSolid s None))) (\<lambda>(vs, ts).
       Inr \<lparr>ou_issues = map (tag_issue (''solid:'' @ Itoa (int i) @ ''/'')) (fst (geo_validate (Some s) None)),
         ou_vol = v, ou_area = a, ou_verts = vs, ou_tris = ts\<rparr>)))"

definition reference :: "gen_env \<Rightarrow> geo_env \<Rightarrow> StairConfiguration \<Rightarrow> (gen_error, generated) result option" where
  "reference gx env cfg =
     (case build_model env cfg of Inl e \<Rightarrow> Some (Inl (GenBuild e)) | Inr model0 \<Rightarrow>
      let model = shift_model cfg model0 in
     (case collect (map (\<lambda>i. body_reference i (model ! i)) [0..<length model]) of Inl e \<Rightarrow> Some (Inl e) | Inr outs \<Rightarrow>
     (case ToPreviewMesh (Some model) of Inl e \<Rightarrow> Some (Inl (MeshIndex e)) | Inr mesh \<Rightarrow>
        complete gx env cfg model outs mesh)))"

lemma process_solid_reference: "process_solid i s = body_reference i s"
proof -
  have c0: "cache_ok NewTessellationCache" by (simp add: cache_ok_def NewTessellationCache_def)
  obtain iss c1 where v: "geo_validate (Some s) NewTessellationCache = (iss, c1)" by force
  then have v': "iss = fst (geo_validate (Some s) None)" "cache_ok c1" using geo_validate_ok[OF c0, of "Some s"] by auto
  obtain rv c2 where m: "solid_volume s c1 = (rv, c2)" by force
  then have m': "rv = fst (solid_volume s None)" "cache_ok c2" using solid_volume_ok[OF v'(2), of s] by auto
  obtain ra c3 where a: "surfaceArea s c2 = (ra, c3)" by force
  then have a': "ra = fst (surfaceArea s None)" "cache_ok c3" using surfaceArea_ok[OF m'(2), of s] by auto
  have "fst (meshSolid s c3) = fst (meshSolid s None)" using meshSolid_ok[OF a'(2), of s] by simp
  then show ?thesis
    by (cases "meshSolid s c3")
      (auto simp: process_solid_def body_reference_def lift_gen_def v m a v'(1)[symmetric] m'(1)[symmetric] a'(1)[symmetric] split: sum.splits)
qed

lemma mesh_solids_outs:
  assumes "list_all2 (\<lambda>s u. fst (meshSolid s None) = Inr (out_mesh u)) ss us" "cache_ok c"
  shows "mesh_solids ss m c = add_outs (map out_mesh us) m"
  using assms
proof (induction ss us arbitrary: m c rule: list_all2_induct)
  case (Cons s ss u us)
  obtain q c' where e: "meshSolid s c = (q, c')" by force
  then have "q = Inr (ou_verts u, ou_tris u)" "cache_ok c'"
    using meshSolid_ok[OF Cons.prems, of s] Cons.hyps by (auto simp: out_mesh_def)
  then show ?case using Cons.IH e by (simp add: out_mesh_def)
qed simp

lemma body_reference_mesh: "body_reference i s = Inr u \<Longrightarrow> fst (meshSolid s None) = Inr (out_mesh u)"
  by (auto simp: body_reference_def lift_gen_def out_mesh_def result_iffs split: sum.splits)

definition quiet :: "gen_env \<Rightarrow> bool" where
  "quiet gx \<longleftrightarrow> gx_Start gx = None \<and> gx_Built gx = None \<and> gx_Exec gx = None \<and> gx_Task gx = (\<lambda>_. None)"

lemma process_all_reference:
  assumes "quiet gx" "fair env"
  shows "process_all gx env model = collect (map (\<lambda>i. body_reference i (model ! i)) [0..<length model])"
  using assms by (simp add: process_all_def quiet_def fair_def exec_collect process_solid_reference)

text \<open>C25: unless the context ends, \<open>Generate\<close> gives the result of the sequential reference, errors and a run that
  does not return included: the order in which the bodies are processed, the number of processors, the
  caches per body and the shifted indices of the mesh do not show.\<close>

theorem generate_refines:
  assumes "quiet gx" "fair env"
  shows "Generate gx env (Some cfg) = reference gx env cfg"
proof (cases "build_model env cfg")
  case (Inr model0)
  define model where "model = shift_model cfg model0"
  let ?outs = "collect (map (\<lambda>i. body_reference i (model ! i)) [0..<length model])"
  have "finish gx env cfg model outs = (case ToPreviewMesh (Some model) of Inl e \<Rightarrow> Some (Inl (MeshIndex e))
      | Inr mesh \<Rightarrow> complete gx env cfg model outs mesh)" if "?outs = Inr outs" for outs
  proof -
    have "list_all2 (\<lambda>s u. fst (meshSolid s None) = Inr (out_mesh u)) model outs"
      using collect_roles[OF that] body_reference_mesh by (auto simp: list_all2_conv_all_nth)
    moreover have "cache_ok NewTessellationCache" by (simp add: cache_ok_def NewTessellationCache_def)
    ultimately show ?thesis
      using mesh_solids_outs by (simp add: finish_def ToPreviewMesh_def ToPreviewMeshCached_def empty_mesh_def)
  qed
  then show ?thesis
    using assms Inr by (simp add: Generate_def reference_def quiet_def process_all_reference Let_def flip: model_def split: sum.split)
qed (use assms in \<open>simp add: Generate_def reference_def quiet_def\<close>)

definition calm :: gen_env where
  "calm = \<lparr>gx_Start = None, gx_Built = None, gx_Exec = None, gx_Task = (\<lambda>_. None), gx_RoomText = (\<lambda>x y w l. ''room'')\<rparr>"

theorem generate_refines_witness:
  "Generate calm demo_env (Some demo_flight) = reference calm demo_env demo_flight"
  by (rule generate_refines) (simp_all add: calm_def quiet_def demo_fair)

subsection \<open>The parts of a built model\<close>

lemma make_parts_kinds:
  "case make_parts i seq ss of
      Inl e \<Rightarrow> (\<exists>j u. e = PartLength j u \<and> j < i + length ss)
    | Inr ps \<Rightarrow> map pt_Kind ps = map ps_kind ss \<and> map pt_SolidIndex ps = map int [i..<i + length ss]"
proof (induction ss arbitrary: i seq)
  case (Cons s ss)
  have u: "[i..<i + length (s # ss)] = i # [Suc i..<Suc i + length ss]" by (subst upt_conv_Cons) simp_all
  show ?case
  proof (cases "make_parts i seq (s # ss)")
    case (Inl e)
    then have "(\<exists>u. e = PartLength i u) \<or> (\<exists>sq. make_parts (Suc i) sq ss = Inl e)"
      by (auto simp: Let_def result_iffs split: sum.splits)
    then show ?thesis using Inl Cons.IH[of "Suc i"] by (fastforce split: sum.splits)
  next
    case (Inr ps)
    then obtain sq p qs where "make_parts (Suc i) sq ss = Inr qs" "ps = p # qs" "pt_Kind p = ps_kind s" "pt_SolidIndex p = int i"
      by (auto simp: Let_def result_iffs split: sum.splits)
    then show ?thesis using Inr Cons.IH[of "Suc i" sq] unfolding u by simp
  qed
qed simp

lemma spec_kind: "roleKind (so_role s) = Some k \<Longrightarrow> ps_kind (spec_of cfg s) = k"
  by (auto simp: spec_of_def classify_def columnPart_def roleKind_def Let_def split: prod.splits if_splits)

lemma known_roles: "r \<in> set (model_roles cfg) \<Longrightarrow> roleKind r = Some (the (roleKind r))"
  by (auto simp: model_roles_def section_roles_def Let_def roleKind_def split: if_splits)

lemma shift_roles: "map so_role (shift_model cfg ss) = map so_role ss" "length (shift_model cfg ss) = length ss"
  by (simp_all add: shift_model_def)

text \<open>C26: manufacturing reads a built model by the roles alone: the parts are of the kinds of the roles (landings and
  winders count as treads), one for each body and in the order of the bodies, whatever their dimensions;
  it can only fail because a dimension of a body is not a positive length.\<close>

theorem parts_of_model:
  assumes "build_model env cfg = Inr model0" "fair env"
  shows "case decompose cfg (Some (shift_model cfg model0)) of
      Inl e \<Rightarrow> (\<exists>i u. e = PartLength i u \<and> i < length model0)
    | Inr parts \<Rightarrow> map pt_Kind parts = map (the \<circ> roleKind) (model_roles cfg)
        \<and> map pt_SolidIndex parts = map int [0..<length model0]"
proof -
  let ?m = "shift_model cfg model0"
  have r: "map so_role ?m = model_roles cfg" using model_good[OF assms] by (simp add: shift_roles goods_def)
  have "ps_kind (spec_of cfg s) = the (roleKind (so_role s))" if "s \<in> set ?m" for s
    using spec_kind known_roles[of "so_role s" cfg] that r by (metis image_eqI image_set)
  then have k: "map ps_kind (map (spec_of cfg) ?m) = map (the \<circ> roleKind) (model_roles cfg)"
    unfolding r[symmetric] by simp
  have "model_roles cfg \<noteq> []" by (simp add: model_roles_def section_roles_def Let_def numeral_eq_Suc)
  then have "?m \<noteq> []" using r by auto
  then show ?thesis
    using make_parts_kinds[where i = 0 and seq = "[]" and ss = "map (spec_of cfg) ?m"] k
    by (cases "make_parts 0 [] (map (spec_of cfg) ?m)") (simp_all add: decompose_def shift_roles)
qed

theorem parts_of_model_witness:
  "case decompose demo_flight (Some (shift_model demo_flight demo_model)) of
      Inl e \<Rightarrow> (\<exists>i u. e = PartLength i u \<and> i < 4)
    | Inr parts \<Rightarrow> map pt_Kind parts = [PartStringer, PartStringer, PartTread, PartRiser]"
proof -
  have "model_roles demo_flight = [''stringer'', ''stringer'', ''tread'', ''riser'']"
    using demo_width(4) demo_fields by (simp add: model_roles_def section_roles_def flight_defs numeral_eq_Suc)
  moreover have "length demo_model = 4" by (simp add: demo_model_def)
  ultimately show ?thesis using parts_of_model[OF demo_builds demo_fair]
    by (simp add: roleKind_def split: sum.splits)
qed

end
