(* ===== verification/Variation_Engine.thy ===== *)
theory Variation_Engine
  imports Geo_Engine Advisor
begin

text \<open>
  \<open>internal/engine/variation/variation.go\<close>: alternatives for a stair that does not fit its room (\<open>ForRoomFit\<close>) or
  breaks the norm of the angle (\<open>ForAngle\<close>), and the advisor's suggestions as variations. Every candidate
  goes through the solver, the Geometry Engine and the norms. The natural language texts are a function of
  \<open>vtext\<close>; \<open>math.Atan\<close> and \<open>math.Tan\<close>, the environment and the context of the Geometry Engine are arguments; the
  context does not change during a call. The outer option of a result is \<open>None\<close> when the call does not return:
  the loops over widths and radii subtract from a float, and \<open>Generate\<close> may run for ever. A constraint set that
  may be nil is an option. \<open>sort.Slice\<close> on the candidates of equal angle may order them in any way; here it is stable.
\<close>

datatype vtext =
    SteeperTitle | SteeperText | LandingTitle | LandingText | OtherTitle string bool | OtherText string bool
  | FitSummary f64 f64 int f64 bool | AngleLabel f64 | AngleText f64 f64 f64 | AngleSummary f64 int f64 f64
  | SuggestID string nat | SuggestTitle int f64 f64 | SuggestText int f64 f64 f64 | SuggestSummary int f64

record var_env =
  vx_geo :: geo_env
  vx_gen :: gen_env
  vx_atan :: "f64 \<Rightarrow> f64"
  vx_tan :: "f64 \<Rightarrow> f64"
  vx_text :: "vtext \<Rightarrow> string"

definition fitEps :: f64 where "fitEps = fl (1 / 1000000)"
definition fitTol :: f64 where "fitTol = Fin 50"

subsection \<open>Printing a float\<close>

text \<open>
  \<open>strconv.FormatFloat(x, 'f', -1, 64)\<close>: the fewest decimals that read back as \<open>x\<close>. \<open>near_dec q p\<close> is the closest
  multiple of \<open>10 ^ - p\<close> that rounds to \<open>q\<close>; every float is a multiple of \<open>10 ^ - 1074\<close>.
\<close>

definition near_dec :: "rat \<Rightarrow> int \<Rightarrow> rat option" where
  "near_dec q p =
     (let u = 10 powi p; lo = of_int \<lfloor>q * u\<rfloor> / u; hi = of_int \<lceil>q * u\<rceil> / u;
          okLo = (fl lo = Fin q); okHi = (fl hi = Fin q)
      in if okLo \<and> (\<not> okHi \<or> q - lo \<le> hi - q) then Some lo else if okHi then Some hi else None)"

definition show_dec :: "nat \<Rightarrow> rat \<Rightarrow> string" where
  "show_dec p c =
     (let k = nat \<lfloor>c * 10 ^ p\<rfloor> in
      show_nat (k div 10 ^ p) @ (if p = 0 then '''' else ''.'' @ pad_left p (CHR ''0'') (show_nat (k mod 10 ^ p))))"

definition shortest :: "rat \<Rightarrow> string" where
  "shortest q =
     (case find (\<lambda>p. near_dec q p \<noteq> None) [- 308..1074] of
        None \<Rightarrow> ''''
      | Some p \<Rightarrow> (case near_dec q p of None \<Rightarrow> '''' | Some c \<Rightarrow> show_dec (nat p) c))"

fun FormatFloat :: "f64 \<Rightarrow> string" where
  "FormatFloat NaN = ''NaN''"
| "FormatFloat (Inf s) = (if s then ''-Inf'' else ''+Inf'')"
| "FormatFloat (Fin q) = (if q = 0 then ''0'' else if q < 0 then ''-'' @ shortest (- q) else shortest q)"

subsection \<open>The form of a configuration\<close>

definition clamp :: "f64 \<Rightarrow> f64 \<Rightarrow> f64 \<Rightarrow> f64" where
  "clamp v lo hi = (if v < lo then lo else if v > hi then hi else v)"

definition form_entries :: "StairConfiguration \<Rightarrow> (string \<times> string) list" where
  "form_entries cfg =
     (let stepH = clamp (cf_StepHeight cfg) (Fin 150) (Fin 200);
          comfort = clamp (Fin 2 * cf_StepHeight cfg + cf_TreadDepth cfg) (Fin 600) (Fin 640);
          turned = (cf_Flight cfg = FlightLShape \<or> cf_Flight cfg = FlightUShape);
          minLanding = fmax (Fin 600) (cf_Width cfg);
          lw = (if turned then clamp (cf_LandingWidth cfg) minLanding (Fin 5000) else cf_LandingWidth cfg);
          ld = (if turned then clamp (cf_LandingDepth cfg) minLanding (Fin 5000) else cf_LandingDepth cfg)
      in [(''flight'', cf_Flight cfg), (''heightMm'', FormatFloat (cf_Height cfg)), (''stepHeightMM'', FormatFloat stepH),
          (''comfortStepMM'', FormatFloat comfort), (''widthMM'', FormatFloat (cf_Width cfg)),
          (''landingWidthMM'', FormatFloat lw), (''landingDepthMM'', FormatFloat ld),
          (''roomWidthMM'', FormatFloat (cf_RoomWidth cfg)), (''roomLengthMM'', FormatFloat (cf_RoomLength cfg)),
          (''lowerStepCountMM'', Itoa (cf_LowerStepCount cfg)), (''clearanceMm'', FormatFloat (cf_Clearance cfg)),
          (''railingMm'', FormatFloat (cf_RailingHeight cfg)), (''stringerThicknessMm'', FormatFloat (cf_StringerThickness cfg)),
          (''stepThicknessMm'', FormatFloat (cf_StepThickness cfg)), (''turnKind'', cf_TurnKind cfg),
          (''winderCount'', Itoa (cf_WinderCount cfg)), (''outerRadiusMM'', FormatFloat (cf_OuterRadius cfg)),
          (''direction'', cf_Direction cfg), (''railingLower'', cf_RailingLower cfg),
          (''railingLanding'', cf_RailingLanding cfg), (''railingUpper'', cf_RailingUpper cfg),
          (''railing'', cf_Railing cfg), (''spiralDirection'', cf_SpiralDirection cfg)])"

definition formFromConfig :: "StairConfiguration \<Rightarrow> (string \<times> string) list" where
  "formFromConfig cfg = filter (\<lambda>(k, v). v \<noteq> '''') (form_entries cfg)"

text \<open>\<open>fmt.Sprintf("%v", m)\<close> of a map: the entries in the order of the keys.\<close>

definition map_text :: "(string \<times> string) list \<Rightarrow> string" where
  "map_text m = ''map['' @ concat (map (\<lambda>(i, k, v). (if i = 0 then '''' else '' '') @ k @ '':'' @ v) (enumerate 0 (insertion_sort fst m))) @ '']''"

fun dedupe_from :: "string list \<Rightarrow> Variation list \<Rightarrow> Variation list" where
  "dedupe_from seen [] = []"
| "dedupe_from seen (v # vs) =
     (let key = map_text (vn_Config v) in
      if key \<in> set seen then dedupe_from seen vs else v # dedupe_from (key # seen) vs)"

definition dedupe :: "Variation list \<Rightarrow> Variation list" where
  "dedupe vs = dedupe_from [] vs"

subsection \<open>One candidate\<close>

definition blocked :: "ConstraintSet option \<Rightarrow> StairConfiguration \<Rightarrow> bool" where
  "blocked so clone = (case so of None \<Rightarrow> False | Some s \<Rightarrow> rs_Blocking (Validate clone s))"

definition gen_of :: "var_env \<Rightarrow> StairConfiguration \<Rightarrow> (gen_error, generated) result option" where
  "gen_of vx clone = Generate (vx_gen vx) (vx_geo vx) (Some clone)"

definition tryGenerateMeta :: "var_env \<Rightarrow> StairConfiguration \<Rightarrow> ConstraintSet option \<Rightarrow> f64 \<Rightarrow> f64 \<Rightarrow> f64 \<Rightarrow> vtext \<Rightarrow> vtext
    \<Rightarrow> (Variation \<times> f64 \<times> f64) option option" where
  "tryGenerateMeta vx clone so rw rl tol title desc =
     map_option (\<lambda>res. case res of Inl e \<Rightarrow> None | Inr r \<Rightarrow>
       if blocked so clone then None
       else (let bb = ms_BoundingBox (gr_Measurement r); bx = p_X (bb_Max bb); bY = p_Y (bb_Max bb) in
         if bx > rw + tol \<or> bY > rl + tol then None
         else Some (\<lparr>vn_ID = vx_text vx title, vn_Title = vx_text vx title, vn_Description = vx_text vx desc,
           vn_Config = formFromConfig clone, vn_Fits = True, vn_PassesNorms = True,
           vn_Summary = vx_text vx (FitSummary bx bY (cf_StepCount clone) (Degrees (cf_Angle clone)) (tol > fitEps))\<rparr>, bx, bY)))
       (gen_of vx clone)"

definition tryGenerate :: "var_env \<Rightarrow> StairConfiguration \<Rightarrow> ConstraintSet option \<Rightarrow> f64 \<Rightarrow> f64 \<Rightarrow> f64 \<Rightarrow> vtext \<Rightarrow> vtext
    \<Rightarrow> Variation option option" where
  "tryGenerate vx clone so rw rl tol title desc = map_option (map_option fst) (tryGenerateMeta vx clone so rw rl tol title desc)"

definition applyStraight :: "FlightResult \<Rightarrow> StairConfiguration \<Rightarrow> StairConfiguration" where
  "applyStraight r cfg = cfg\<lparr>cf_Flight := FlightStraight, cf_StepCount := fr_StepCount r, cf_StepHeight := fr_StepHeight r,
     cf_TreadDepth := fr_TreadDepth r, cf_Length := fr_Run r, cf_StringerLength := fr_Stringer r, cf_Angle := fr_Angle r,
     cf_LandingWidth := Fin 0, cf_LandingDepth := Fin 0, cf_LowerStepCount := 0, cf_TurnKind := '''', cf_WinderCount := 0\<rparr>"

definition applyTwoFlight :: "int \<Rightarrow> Length \<Rightarrow> Length \<Rightarrow> Angle \<Rightarrow> Length \<Rightarrow> StairConfiguration \<Rightarrow> StairConfiguration" where
  "applyTwoFlight n h b a run cfg = cfg\<lparr>cf_StepCount := n, cf_StepHeight := h, cf_TreadDepth := b, cf_Length := run, cf_Angle := a\<rparr>"

text \<open>The solvers of the two turned flights, and what the engine takes from their results.\<close>

definition solve_turned :: "var_env \<Rightarrow> FlightType \<Rightarrow> Length \<Rightarrow> Length \<Rightarrow> int \<Rightarrow> Length \<Rightarrow> f64 \<Rightarrow> StairConfiguration
    \<Rightarrow> StairConfiguration option" where
  "solve_turned vx ft height h n1 lw s clone =
     (if ft = FlightLShape
      then (case SolveLShape (vx_atan vx) height h n1 lw (Some s) of
              Inl e \<Rightarrow> None
            | Inr r \<Rightarrow> Some (applyTwoFlight (ls_StepCount r) (ls_StepHeight r) (ls_TreadDepth r) (ls_Angle r) (ls_LowerRun r) clone))
      else (case SolveUShape (vx_atan vx) height h n1 lw (Some s) of
              Inl e \<Rightarrow> None
            | Inr r \<Rightarrow> Some (applyTwoFlight (us_StepCount r) (us_StepHeight r) (us_TreadDepth r) (us_Angle r) (us_LowerRun r) clone)))"

subsection \<open>Variants for the room\<close>

definition active_min :: "ConstraintSet \<Rightarrow> RuleCode \<Rightarrow> Constraint option" where
  "active_min s code = (case cs_Active s code of Some r \<Rightarrow> if rg_HasMin (ct_Range r) then Some r else None | None \<Rightarrow> None)"

definition steeper_target :: "ConstraintSet option \<Rightarrow> f64 \<Rightarrow> f64" where
  "steeper_target so comfort =
     (let bMin = (case so of None \<Rightarrow> Fin 260 | Some s \<Rightarrow>
            (case active_min s GEO_TREAD_DEPTH of Some r \<Rightarrow> rg_Min (ct_Range r) | None \<Rightarrow> Fin 260));
          target = fmin (Fin 195) ((comfort - bMin) / Fin 2)
      in if target < Fin 150 then Fin 195 else target)"

definition steeper_clone :: "var_env \<Rightarrow> StairConfiguration \<Rightarrow> f64 \<Rightarrow> ConstraintSet option \<Rightarrow> StairConfiguration option" where
  "steeper_clone vx cfg comfort so =
     (let target = steeper_target so comfort in
      if cf_Flight cfg = FlightStraight
      then (case Solve (vx_atan vx) (cf_Height cfg) target (Some comfort) of
              Inl e \<Rightarrow> None | Inr r \<Rightarrow> Some (applyStraight r cfg))
      else if cf_Flight cfg = FlightLShape \<or> cf_Flight cfg = FlightUShape
      then solve_turned vx (cf_Flight cfg) (cf_Height cfg) target (cf_LowerStepCount cfg) (cf_LandingWidth cfg) comfort cfg
      else None)"

definition steeperVariant :: "var_env \<Rightarrow> StairConfiguration \<Rightarrow> f64 \<Rightarrow> ConstraintSet option \<Rightarrow> f64 \<Rightarrow> f64 \<Rightarrow> f64 \<Rightarrow> Variation option option" where
  "steeperVariant vx cfg comfort so rw rl tol =
     (case steeper_clone vx cfg comfort so of None \<Rightarrow> Some None
      | Some clone \<Rightarrow> tryGenerate vx clone so rw rl tol SteeperTitle SteeperText)"

definition smallerLandingVariant :: "var_env \<Rightarrow> StairConfiguration \<Rightarrow> ConstraintSet option \<Rightarrow> f64 \<Rightarrow> f64 \<Rightarrow> f64 \<Rightarrow> Variation option option" where
  "smallerLandingVariant vx cfg so rw rl tol =
     (if cf_Width cfg \<le> Fin 0 then Some None
      else tryGenerate vx (cfg\<lparr>cf_LandingDepth := cf_Width cfg, cf_LandingWidth := cf_Width cfg\<rparr>) so rw rl tol LandingTitle LandingText)"

text \<open>A candidate of another type: step height \<open>h\<close>, width \<open>w\<close>, outer radius \<open>r_out\<close> for a spiral.\<close>

definition other_clone :: "var_env \<Rightarrow> StairConfiguration \<Rightarrow> FlightType \<Rightarrow> f64 \<Rightarrow> f64 \<Rightarrow> f64 \<Rightarrow> f64 \<Rightarrow> StairConfiguration option" where
  "other_clone vx cfg ft comfort h w r_out =
     (let clone = cfg\<lparr>cf_Flight := ft, cf_Width := w\<rparr>; height = cf_Height cfg in
      if ft = FlightStraight
      then (case Solve (vx_atan vx) height h (Some comfort) of Inl e \<Rightarrow> None | Inr r \<Rightarrow> Some (applyStraight r clone))
      else if ft = FlightLShape \<or> ft = FlightUShape
      then (let n0 = to_int64 (Fin (1 / 2) + height / h); n = (if n0 < 2 then 2 else n0);
                n1 = (if n div 2 < 1 then 1 else n div 2);
                minWp = fmax (w * fl (11 / 10)) (Fin 600);
                wp = (if cf_LandingWidth cfg < minWp then minWp else cf_LandingWidth cfg)
            in map_option (\<lambda>c. c\<lparr>cf_LandingWidth := wp, cf_LandingDepth := wp, cf_LowerStepCount := n1\<rparr>)
                 (solve_turned vx ft height h n1 wp comfort clone))
      else if ft = FlightSpiral
      then (if r_out \<le> w then None
            else (case SolveSpiral (vx_atan vx) height h w r_out of
                    Inl e \<Rightarrow> None
                  | Inr r \<Rightarrow> Some ((spiral_Apply r clone)\<lparr>cf_Width := w, cf_OuterRadius := r_out, cf_Length := sr_ArcLength r\<rparr>)))
      else None)"

definition tryOtherAt :: "var_env \<Rightarrow> StairConfiguration \<Rightarrow> FlightType \<Rightarrow> f64 \<Rightarrow> ConstraintSet option \<Rightarrow> f64 \<Rightarrow> f64 \<Rightarrow> f64
    \<Rightarrow> f64 \<Rightarrow> f64 \<Rightarrow> f64 \<Rightarrow> (Variation \<times> f64 \<times> f64) option option" where
  "tryOtherAt vx cfg ft comfort so rw rl tol h w r_out =
     (case other_clone vx cfg ft comfort h w r_out of None \<Rightarrow> Some None
      | Some clone \<Rightarrow> tryGenerateMeta vx clone so rw rl tol (OtherTitle ft (ft = cf_Flight cfg)) (OtherText ft (ft = cf_Flight cfg)))"

record otherCand =
  oc_v :: Variation
  oc_w :: f64
  oc_h :: f64
  oc_r :: f64
  oc_bx :: f64
  oc_by :: f64

text \<open>The values of a loop that counts down, and a loop that collects the candidates of its values.\<close>

partial_function (option) down_ds :: "f64 \<Rightarrow> f64 \<Rightarrow> f64 \<Rightarrow> f64 list option" where
  "down_ds d b stop =
     (if d \<ge> stop then Option.bind (down_ds (d - b) b stop) (\<lambda>ds. Some (d # ds)) else Some [])"

declare down_ds.simps [code]

definition try_cand :: "var_env \<Rightarrow> StairConfiguration \<Rightarrow> FlightType \<Rightarrow> f64 \<Rightarrow> ConstraintSet option \<Rightarrow> f64 \<Rightarrow> f64 \<Rightarrow> f64
    \<Rightarrow> f64 \<Rightarrow> f64 \<Rightarrow> f64 \<Rightarrow> otherCand list option" where
  "try_cand vx cfg ft comfort so rw rl tol h w r_out =
     map_option (\<lambda>x. case x of None \<Rightarrow> []
         | Some (v, bx, bY) \<Rightarrow> [\<lparr>oc_v = v, oc_w = w, oc_h = h, oc_r = r_out, oc_bx = bx, oc_by = bY\<rparr>])
       (tryOtherAt vx cfg ft comfort so rw rl tol h w r_out)"

definition or_default :: "f64 \<Rightarrow> f64 \<Rightarrow> f64" where
  "or_default d x = (if x \<le> Fin 0 then d else x)"

definition collectOtherType :: "var_env \<Rightarrow> StairConfiguration \<Rightarrow> FlightType \<Rightarrow> f64 \<Rightarrow> ConstraintSet option \<Rightarrow> f64 \<Rightarrow> f64 \<Rightarrow> f64
    \<Rightarrow> otherCand list option" where
  "collectOtherType vx cfg ft comfort so rw rl tol =
     (let origW = or_default (Fin 900) (cf_Width cfg);
          h0 = or_default (Fin 180) (cf_StepHeight cfg);
          h1 = (if h0 < Fin 150 then Fin 150 else h0);
          origH = (if h1 > Fin 200 then Fin 200 else h1);
          try_at = try_cand vx cfg ft comfort so rw rl tol
      in Option.bind (post_ds origH (Fin 5) (fl (200 + 1 / 1000000))) (all_posts (\<lambda>h.
         Option.bind (down_ds origW (Fin 50) (Fin 300 - fl (1 / 1000000))) (all_posts (\<lambda>w.
           if ft = FlightSpiral
           then Option.bind (down_ds (w + Fin 500) (Fin 50) (w + Fin 50)) (all_posts (\<lambda>r. try_at h w r))
           else try_at h w (Fin 0))))))"

text \<open>The index of the first least value.\<close>

fun least_from :: "('a \<Rightarrow> f64) \<Rightarrow> nat \<Rightarrow> 'a list \<Rightarrow> nat \<times> f64 \<Rightarrow> nat" where
  "least_from f i [] (b, s) = b"
| "least_from f i (x # xs) (b, s) = (if f x < s then least_from f (Suc i) xs (i, f x) else least_from f (Suc i) xs (b, s))"

definition least_index :: "('a \<Rightarrow> f64) \<Rightarrow> 'a list \<Rightarrow> nat" where
  "least_index f xs = least_from f 1 (tl xs) (0, f (hd xs))"

definition cand_score :: "StairConfiguration \<Rightarrow> otherCand \<Rightarrow> f64" where
  "cand_score cfg c =
     (let origW = or_default (Fin 900) (cf_Width cfg); origH = or_default (Fin 180) (cf_StepHeight cfg);
          s = \<bar>oc_w c - origW\<bar> + Fin 3 * \<bar>oc_h c - origH\<bar>
      in if cf_OuterRadius cfg > Fin 0 then s + \<bar>oc_r c - cf_OuterRadius cfg\<bar> else s)"

definition pick_cands :: "StairConfiguration \<Rightarrow> otherCand list \<Rightarrow> Variation list" where
  "pick_cands cfg cands =
     (if cands = [] then []
      else let best = least_index (cand_score cfg) cands;
               compact = least_index (\<lambda>c. oc_bx c * oc_by c) cands;
               vb = oc_v (cands ! best); vc = oc_v (cands ! compact)
           in vb # (if compact \<noteq> best \<and> map_text (vn_Config vc) \<noteq> map_text (vn_Config vb) then [vc] else []))"

definition buildOtherTypes :: "var_env \<Rightarrow> StairConfiguration \<Rightarrow> FlightType \<Rightarrow> f64 \<Rightarrow> ConstraintSet option \<Rightarrow> f64 \<Rightarrow> f64 \<Rightarrow> f64
    \<Rightarrow> Variation list option" where
  "buildOtherTypes vx cfg ft comfort so rw rl tol =
     map_option (pick_cands cfg) (collectOtherType vx cfg ft comfort so rw rl tol)"

definition other_types :: "FlightType \<Rightarrow> FlightType list" where
  "other_types f =
     (if f = FlightLShape then [FlightStraight, FlightUShape, FlightSpiral]
      else if f = FlightUShape then [FlightStraight, FlightLShape, FlightSpiral]
      else if f = FlightStraight then [FlightLShape, FlightUShape, FlightSpiral]
      else [FlightStraight, FlightLShape, FlightUShape])"

definition otherTypeVariants :: "var_env \<Rightarrow> StairConfiguration \<Rightarrow> f64 \<Rightarrow> ConstraintSet option \<Rightarrow> f64 \<Rightarrow> f64 \<Rightarrow> f64 \<Rightarrow> Variation list option" where
  "otherTypeVariants vx cfg comfort so rw rl tol =
     all_posts (\<lambda>ft. buildOtherTypes vx cfg ft comfort so rw rl tol) (other_types (cf_Flight cfg))"

definition opt_list :: "'a option \<Rightarrow> 'a list" where
  "opt_list x = (case x of None \<Rightarrow> [] | Some a \<Rightarrow> [a])"

definition forRoomFitTol :: "var_env \<Rightarrow> StairConfiguration \<Rightarrow> ConstraintSet option \<Rightarrow> f64 \<Rightarrow> f64 \<Rightarrow> f64 \<Rightarrow> Variation list option" where
  "forRoomFitTol vx cfg so rw rl tol =
     (let c0 = cf_Length cfg;
          comfort = (if c0 < ComfortStepMin \<or> c0 > ComfortStepMax then DefaultComfortStep else c0)
      in all_posts (\<lambda>x. x)
        [map_option opt_list (steeperVariant vx cfg comfort so rw rl tol),
         (if cf_Flight cfg = FlightLShape \<or> cf_Flight cfg = FlightUShape
          then map_option opt_list (smallerLandingVariant vx cfg so rw rl tol) else Some []),
         otherTypeVariants vx cfg comfort so rw rl tol,
         buildOtherTypes vx cfg (cf_Flight cfg) comfort so rw rl tol])"

definition ForRoomFit :: "var_env \<Rightarrow> StairConfiguration \<Rightarrow> ConstraintSet option \<Rightarrow> Variation list option" where
  "ForRoomFit vx cfg so =
     (let rw = cf_RoomWidth cfg; rl = cf_RoomLength cfg in
      if rw \<le> Fin 0 \<or> rl \<le> Fin 0 then Some []
      else map_option dedupe
        (Option.bind (forRoomFitTol vx cfg so rw rl fitEps)
          (\<lambda>out. if out \<noteq> [] then Some out else forRoomFitTol vx cfg so rw rl fitTol)))"

subsection \<open>Variants for the angle\<close>

record angle_cand =
  ac_n :: int
  ac_s :: f64
  ac_deg :: f64

definition chDegFromS :: "var_env \<Rightarrow> f64 \<Rightarrow> f64 \<Rightarrow> f64" where
  "chDegFromS vx h s = (let b = s - Fin 2 * h in if b \<le> Fin 0 then Fin 0 else vx_atan vx (h / b) * Fin 180 / Pi)"

definition norm_range :: "ConstraintSet \<Rightarrow> RuleCode \<Rightarrow> f64 \<Rightarrow> f64 \<Rightarrow> f64 \<times> f64" where
  "norm_range s code lo hi =
     (case active_min s code of None \<Rightarrow> (lo, hi)
      | Some r \<Rightarrow> (rg_Min (ct_Range r), if rg_HasMax (ct_Range r) then rg_Max (ct_Range r) else hi))"

definition angle_cands :: "var_env \<Rightarrow> ConstraintSet \<Rightarrow> f64 \<Rightarrow> angle_cand list" where
  "angle_cands vx s height =
     (let (hMin, hMax) = norm_range s GEO_STEP_HEIGHT (Fin 150) (Fin 200);
          (bMin, bMax) = norm_range s GEO_TREAD_DEPTH (Fin 240) (Fin 320)
      in concat (map (\<lambda>n. let h = height / of_int64 n in
           if h < hMin \<or> h > hMax then []
           else concat (map (\<lambda>st. let b = st - Fin 2 * h; deg = vx_atan vx (h / b) * Fin 180 / Pi in
             if b < bMin \<or> b > bMax then [] else if deg < Fin 30 \<or> deg > Fin 45 then []
             else [\<lparr>ac_n = n, ac_s = st, ac_deg = deg\<rparr>]) [Fin 600, Fin 620, Fin 640])) [2..80]))"

text \<open>Stable insertion by angle.\<close>

fun sink_cand :: "angle_cand \<Rightarrow> angle_cand list \<Rightarrow> angle_cand list" where
  "sink_cand c [] = [c]"
| "sink_cand c (d # ds) = (if ac_deg c < ac_deg d then d # sink_cand c ds else c # d # ds)"

definition sort_cands :: "angle_cand list \<Rightarrow> angle_cand list" where
  "sort_cands cs = rev (fold sink_cand cs [])"

definition choose_cands :: "angle_cand list \<Rightarrow> angle_cand list" where
  "choose_cands cs = (if length cs \<le> 3 then cs else [cs ! 0, cs ! (length cs div 2), cs ! (length cs - 1)])"

definition angle_clone :: "var_env \<Rightarrow> StairConfiguration \<Rightarrow> f64 \<Rightarrow> f64 \<Rightarrow> int \<Rightarrow> StairConfiguration option" where
  "angle_clone vx cfg h st n =
     (let height = cf_Height cfg in
      if cf_Flight cfg = FlightStraight
      then (case Solve (vx_atan vx) height h (Some st) of Inl e \<Rightarrow> None | Inr r \<Rightarrow> Some (applyStraight r cfg))
      else if cf_Flight cfg = FlightLShape \<or> cf_Flight cfg = FlightUShape
      then (let n1 = (if n div 2 < 1 then 1 else n div 2);
                lw = (if cf_LandingWidth cfg \<le> Fin 0 then cf_Width cfg else cf_LandingWidth cfg)
            in map_option (\<lambda>c. c\<lparr>cf_LowerStepCount := n1, cf_LandingWidth := lw\<rparr>)
                 (solve_turned vx (cf_Flight cfg) height h n1 lw st cfg))
      else if cf_Flight cfg = FlightSpiral
      then (let w = or_default (Fin 900) (cf_Width cfg); delta = TwoPi / of_int64 n;
                bWalk = h / vx_tan vx (chDegFromS vx h st * Pi / Fin 180);
                r_out = bWalk / delta + w / Fin 3
            in if r_out \<le> w then None
               else (case SolveSpiral (vx_atan vx) height h w r_out of
                       Inl e \<Rightarrow> None
                     | Inr r \<Rightarrow> Some (cfg\<lparr>cf_Flight := FlightSpiral, cf_StepCount := sr_StepCount r, cf_StepHeight := sr_StepHeight r,
                         cf_Width := w, cf_OuterRadius := r_out, cf_Angle := sr_Angle r, cf_Length := bWalk\<rparr>)))
      else None)"

definition tryAngleGenerate :: "var_env \<Rightarrow> StairConfiguration \<Rightarrow> ConstraintSet option \<Rightarrow> vtext \<Rightarrow> Variation option option" where
  "tryAngleGenerate vx clone so label =
     map_option (\<lambda>res. case res of Inl e \<Rightarrow> None | Inr r \<Rightarrow>
       let ang = Degrees (cf_Angle clone) in
       if ang < fl (299 / 10) \<or> ang > fl (451 / 10) then None
       else if blocked so clone then None
       else Some \<lparr>vn_ID = vx_text vx label, vn_Title = vx_text vx label,
         vn_Description = vx_text vx (AngleText ang (cf_StepHeight clone) (cf_Length clone)),
         vn_Config = formFromConfig clone, vn_Fits = True, vn_PassesNorms = True,
         vn_Summary = vx_text vx (AngleSummary ang (cf_StepCount clone) (cf_StepHeight clone) (cf_Length clone))\<rparr>)
       (gen_of vx clone)"

definition angleVariant :: "var_env \<Rightarrow> StairConfiguration \<Rightarrow> f64 \<Rightarrow> f64 \<Rightarrow> int \<Rightarrow> ConstraintSet option \<Rightarrow> vtext \<Rightarrow> Variation option option" where
  "angleVariant vx cfg h st n so label =
     (case angle_clone vx cfg h st n of None \<Rightarrow> Some None | Some clone \<Rightarrow> tryAngleGenerate vx clone so label)"

definition ForAngle :: "var_env \<Rightarrow> StairConfiguration \<Rightarrow> ConstraintSet \<Rightarrow> Variation list option" where
  "ForAngle vx cfg s =
     (let height = cf_Height cfg in
      if height \<le> Fin 0 then Some []
      else map_option dedupe
        (all_posts (\<lambda>c. map_option opt_list
             (angleVariant vx cfg (height / of_int64 (ac_n c)) (ac_s c) (ac_n c) (Some s) (AngleLabel (ac_deg c))))
           (choose_cands (sort_cands (angle_cands vx s height)))))"

subsection \<open>Suggestions as variations\<close>

definition suggestion_clone :: "StairConfiguration \<Rightarrow> Suggestion \<Rightarrow> StairConfiguration" where
  "suggestion_clone cfg s =
     (let c0 = cfg\<lparr>cf_StepHeight := sg_StepHeightMm s, cf_TreadDepth := sg_TreadDepthMm s, cf_StepCount := sg_StepCount s\<rparr>;
          c1 = (if (cf_Flight cfg = FlightLShape \<or> cf_Flight cfg = FlightUShape) \<and> sg_LowerStepCount s > 0
                then c0\<lparr>cf_LowerStepCount := sg_LowerStepCount s\<rparr> else c0)
      in if cf_Flight cfg = FlightSpiral \<and> sg_WidthMm s > Fin 0 \<and> sg_OuterRadiusMm s > Fin 0
         then c1\<lparr>cf_Width := sg_WidthMm s, cf_OuterRadius := sg_OuterRadiusMm s\<rparr> else c1)"

definition FromSuggestions :: "var_env \<Rightarrow> Issue \<Rightarrow> StairConfiguration \<Rightarrow> Variation list" where
  "FromSuggestions vx iss cfg =
     map (\<lambda>(i, s). \<lparr>vn_ID = vx_text vx (SuggestID (is_Code iss) (i + 1)),
         vn_Title = vx_text vx (SuggestTitle (sg_StepCount s) (sg_StepHeightMm s) (sg_TreadDepthMm s)),
         vn_Description = vx_text vx (SuggestText (sg_StepCount s) (sg_StepHeightMm s) (sg_TreadDepthMm s) (sg_AngleDeg s)),
         vn_Config = formFromConfig (suggestion_clone cfg s), vn_Fits = True, vn_PassesNorms = True,
         vn_Summary = vx_text vx (SuggestSummary (sg_StepCount s) (sg_AngleDeg s))\<rparr>) (enumerate 0 (is_Suggestions iss))"

subsection \<open>Calls that return\<close>

text \<open>The call returns when \<open>ok\<close> holds, and what it returns satisfies \<open>P\<close>.\<close>

definition run_ok :: "bool \<Rightarrow> ('a \<Rightarrow> bool) \<Rightarrow> 'a option \<Rightarrow> bool" where
  "run_ok ok P r \<longleftrightarrow> (case r of None \<Rightarrow> \<not> ok | Some x \<Rightarrow> P x)"

lemma run_ok_Some [simp]: "run_ok ok P (Some x) = P x"
  by (simp add: run_ok_def)

lemma run_ok_map [simp]: "run_ok ok P (map_option f r) = run_ok ok (\<lambda>x. P (f x)) r"
  by (cases r) (simp_all add: run_ok_def)

lemma run_ok_weaken: "run_ok ok P r \<Longrightarrow> (\<And>x. r = Some x \<Longrightarrow> P x \<Longrightarrow> Q x) \<Longrightarrow> run_ok ok Q r"
  by (cases r) (auto simp: run_ok_def)

lemma run_ok_bind: "run_ok ok Q r \<Longrightarrow> (\<And>x. Q x \<Longrightarrow> run_ok ok P (f x)) \<Longrightarrow> run_ok ok P (Option.bind r f)"
  by (cases r) (auto simp: run_ok_def)

lemma run_ok_posts:
  "(\<And>x. x \<in> set xs \<Longrightarrow> run_ok ok (list_all P) (f x)) \<Longrightarrow> run_ok ok (list_all P) (all_posts f xs)"
proof (induction xs)
  case (Cons x xs)
  have "run_ok ok (list_all P) (f x)" "run_ok ok (list_all P) (all_posts f xs)" using Cons by simp_all
  then show ?case by (auto intro!: run_ok_bind elim: run_ok_weaken)
qed simp

lemma opt_list_all: "list_all P (opt_list x) \<longleftrightarrow> (\<forall>a. x = Some a \<longrightarrow> P a)"
  by (cases x) (simp_all add: opt_list_def)

text \<open>A loop that subtracts 50 from a number of ordinary size ends, and its values lie between the ends.\<close>

definition between :: "rat \<Rightarrow> rat \<Rightarrow> f64 \<Rightarrow> bool" where
  "between s x d \<longleftrightarrow> (\<exists>y. d = Fin y \<and> s \<le> y \<and> y \<le> x)"

lemma down_ds_done: "\<not> d \<ge> stop \<Longrightarrow> down_ds d b stop = Some []"
  by (simp add: down_ds.simps)

lemma down_step:
  assumes "0 \<le> x" "x \<le> 2 ^ 33"
  shows "\<exists>y. Fin x - Fin 50 = Fin y \<and> y \<le> x - 1"
proof -
  have k: "\<bar>x - 50\<bar> \<le> 2 ^ 33" using assms by auto
  note n = fl_near[OF k]
  have "rnd (x - 50) \<le> x - 50 + 2 ^ 33 / 2 ^ 54" using n(2) unfolding abs_le_iff by linarith
  then have "rnd (x - 50) \<le> x - 1" by simp
  moreover have "Fin x - Fin 50 = Fin (rnd (x - 50))" using n(1) by (simp add: minus_f64_def)
  ultimately show ?thesis by blast
qed

lemma down_ds_Fin:
  "0 \<le> s \<Longrightarrow> x \<le> 2 ^ 33 \<Longrightarrow> x - s < of_nat n \<Longrightarrow> \<exists>ds. down_ds (Fin x) (Fin 50) (Fin s) = Some ds \<and> list_all (between s x) ds"
proof (induction n arbitrary: x)
  case 0
  then show ?case by (simp add: down_ds_done)
next
  case (Suc n)
  show ?case
  proof (cases "s \<le> x")
    case True
    then obtain y where y: "Fin x - Fin 50 = Fin y" "y \<le> x - 1" using down_step[of x] Suc.prems by force
    obtain ds where ds: "down_ds (Fin y) (Fin 50) (Fin s) = Some ds" "list_all (between s y) ds"
      using Suc.IH[of y] Suc.prems y(2) by force
    have "list_all (between s x) ds" using ds(2) y(2) by (fastforce simp: list_all_iff between_def)
    then have "down_ds (Fin x) (Fin 50) (Fin s) = Some (Fin x # ds) \<and> list_all (between s x) (Fin x # ds)"
      using True y(1) ds(1) by (subst down_ds.simps) (auto simp: between_def)
    then show ?thesis by blast
  qed (simp add: down_ds_done)
qed

lemma loop_runs:
  assumes "ok \<Longrightarrow> d = Fin x \<and> x \<le> 2 ^ 33 \<and> stop = Fin s \<and> 0 \<le> s"
    and "\<And>w. (ok \<Longrightarrow> between s x w) \<Longrightarrow> run_ok ok (list_all P) (f w)"
  shows "run_ok ok (list_all P) (Option.bind (down_ds d (Fin 50) stop) (all_posts f))"
proof (rule run_ok_bind)
  show "run_ok ok (\<lambda>ds. ok \<longrightarrow> list_all (between s x) ds) (down_ds d (Fin 50) stop)"
  proof (cases ok)
    case True
    obtain n where "x - s < of_nat n" using reals_Archimedean2 by blast
    then show ?thesis using down_ds_Fin[of s x n] assms(1) True by auto
  qed (cases "down_ds d (Fin 50) stop"; simp add: run_ok_def)
  show "run_ok ok (list_all P) (all_posts f ds)" if "ok \<longrightarrow> list_all (between s x) ds" for ds
    using that by (intro run_ok_posts assms(2)) (auto simp: list_all_iff)
qed

subsection \<open>What is offered fits and passes\<close>

text \<open>A candidate is a configuration for the same place: the rise, the room, the thicknesses, the railing
  height and the clearance are those of the configuration that is varied.\<close>

definition keeps :: "StairConfiguration \<Rightarrow> StairConfiguration \<Rightarrow> bool" where
  "keeps cfg c \<longleftrightarrow> cf_Height c = cf_Height cfg \<and> cf_RoomWidth c = cf_RoomWidth cfg \<and> cf_RoomLength c = cf_RoomLength cfg
     \<and> cf_StepThickness c = cf_StepThickness cfg \<and> cf_StringerThickness c = cf_StringerThickness cfg
     \<and> cf_RailingHeight c = cf_RailingHeight cfg \<and> cf_Clearance c = cf_Clearance cfg"

lemma keeps_solved: "solve_turned vx ft height h n1 lw s clone = Some c \<Longrightarrow> keeps clone c"
  by (auto simp: solve_turned_def keeps_def applyTwoFlight_def split: if_splits sum.splits)

lemma keeps_simps [simp]:
  "keeps cfg cfg"
  "keeps cfg (applyStraight r c) = keeps cfg c"
  "keeps cfg (spiral_Apply sr c) = keeps cfg c"
  "keeps cfg (c\<lparr>cf_Width := w\<rparr>) = keeps cfg c"
  "keeps cfg (c\<lparr>cf_Flight := ft\<rparr>) = keeps cfg c"
  "keeps cfg (c\<lparr>cf_OuterRadius := w\<rparr>) = keeps cfg c"
  "keeps cfg (c\<lparr>cf_Length := w\<rparr>) = keeps cfg c"
  "keeps cfg (c\<lparr>cf_LandingWidth := w\<rparr>) = keeps cfg c"
  "keeps cfg (c\<lparr>cf_LandingDepth := w\<rparr>) = keeps cfg c"
  "keeps cfg (c\<lparr>cf_LowerStepCount := n\<rparr>) = keeps cfg c"
  by (simp_all add: keeps_def applyStraight_def spiral_Apply_def)

lemma keeps_trans: "keeps a b \<Longrightarrow> keeps b c \<Longrightarrow> keeps a c"
  by (simp add: keeps_def)

lemma keeps_steeper:
  assumes "steeper_clone vx cfg comfort so = Some c"
  shows "keeps cfg c"
proof (cases "cf_Flight cfg = FlightStraight")
  case True
  then show ?thesis using assms by (auto simp: steeper_clone_def Let_def split: sum.splits)
next
  case False
  then show ?thesis using assms keeps_solved by (simp add: steeper_clone_def Let_def split: if_splits)
qed

lemma keeps_other:
  assumes "other_clone vx cfg ft comfort h w r_out = Some c"
  shows "keeps cfg c"
proof -
  let ?k = "cfg\<lparr>cf_Flight := ft, cf_Width := w\<rparr>"
  have k: "keeps cfg ?k" by simp
  have s: "keeps cfg c'" if "solve_turned vx ft (cf_Height cfg) h n1 wp comfort ?k = Some c'" for n1 wp c'
    using keeps_trans[OF k keeps_solved[OF that]] .
  consider "ft = FlightStraight" | "ft \<noteq> FlightStraight" "ft = FlightLShape \<or> ft = FlightUShape"
    | "ft \<noteq> FlightStraight" "\<not> (ft = FlightLShape \<or> ft = FlightUShape)" by blast
  then show ?thesis
  proof cases
    case 2
    then obtain n1 wp c' where "solve_turned vx ft (cf_Height cfg) h n1 wp comfort ?k = Some c'"
      "c = c'\<lparr>cf_LandingWidth := wp, cf_LandingDepth := wp, cf_LowerStepCount := n1\<rparr>"
      using assms unfolding other_clone_def Let_def by (simp only: if_False if_True) (auto simp only: map_option_eq_Some)
    then show ?thesis using s by simp
  qed (use assms in \<open>auto simp: other_clone_def Let_def split: sum.splits if_splits\<close>)
qed

text \<open>A variation comes from such a candidate that the Geometry Engine generates, that no norm blocks and
  whose stair does not exceed the room by more than \<open>tol\<close>.\<close>

definition offered :: "var_env \<Rightarrow> StairConfiguration \<Rightarrow> ConstraintSet option \<Rightarrow> f64 \<Rightarrow> Variation \<Rightarrow> bool" where
  "offered vx cfg so tol v \<longleftrightarrow> (\<exists>clone r. keeps cfg clone \<and> gen_of vx clone = Some (Inr r) \<and> \<not> blocked so clone
     \<and> vn_Config v = formFromConfig clone
     \<and> \<not> p_X (bb_Max (ms_BoundingBox (gr_Measurement r))) > cf_RoomWidth cfg + tol
     \<and> \<not> p_Y (bb_Max (ms_BoundingBox (gr_Measurement r))) > cf_RoomLength cfg + tol)"

text \<open>The calls return when there are no railings and the width is of ordinary size.\<close>

definition plain :: "StairConfiguration \<Rightarrow> bool" where
  "plain cfg \<longleftrightarrow> cf_RailingHeight cfg \<le> Fin 0 \<and> sized 31 (cf_Width cfg)"

lemma finish_returns:
  assumes "cf_RailingHeight clone \<le> Fin 0"
  shows "finish gx env clone model outs \<noteq> None"
proof -
  have "BuildRailingDecor env clone = Some (Inr [])" using assms by (simp add: BuildRailingDecor_def)
  then have "complete gx env clone model outs mesh \<noteq> None" for mesh
    unfolding complete_def appendRailingMesh_def Let_def by (simp only: option.map) blast
  then show ?thesis unfolding finish_def by (cases "add_outs (map out_mesh outs) empty_mesh") (simp_all only: sum.case, blast+)
qed

lemma gen_returns:
  assumes "keeps cfg clone" "cf_RailingHeight cfg \<le> Fin 0"
  shows "gen_of vx clone \<noteq> None"
proof -
  have "finish gx env clone model outs \<noteq> None" for gx env model outs
    using finish_returns assms by (simp add: keeps_def)
  then show ?thesis unfolding gen_of_def Generate_def Let_def
    by (simp only: option.case split: option.split sum.split) blast
qed

lemma gen_runs: "keeps cfg clone \<Longrightarrow> run_ok (cf_RailingHeight cfg \<le> Fin 0) (\<lambda>_. True) (gen_of vx clone)"
  using gen_returns[of cfg clone vx] by (auto simp: run_ok_def split: option.splits)

lemma run_ok_plain: "run_ok (cf_RailingHeight cfg \<le> Fin 0) P r \<Longrightarrow> run_ok (plain cfg) P r"
  by (auto simp: run_ok_def plain_def split: option.splits)

lemma meta_runs:
  assumes "keeps cfg clone"
  shows "run_ok (plain cfg) (\<lambda>x. list_all (\<lambda>(v, bx, bY). offered vx cfg so tol v) (opt_list x))
    (tryGenerateMeta vx clone so (cf_RoomWidth cfg) (cf_RoomLength cfg) tol title desc)"
  unfolding tryGenerateMeta_def run_ok_map using run_ok_plain[OF gen_runs[OF assms, of vx]]
proof (rule run_ok_weaken)
  fix res assume g: "gen_of vx clone = Some res"
  show "list_all (\<lambda>(v, bx, bY). offered vx cfg so tol v) (opt_list (case res of Inl e \<Rightarrow> None | Inr r \<Rightarrow>
       if blocked so clone then None
       else (let bb = ms_BoundingBox (gr_Measurement r); bx = p_X (bb_Max bb); bY = p_Y (bb_Max bb) in
         if bx > cf_RoomWidth cfg + tol \<or> bY > cf_RoomLength cfg + tol then None
         else Some (\<lparr>vn_ID = vx_text vx title, vn_Title = vx_text vx title, vn_Description = vx_text vx desc,
           vn_Config = formFromConfig clone, vn_Fits = True, vn_PassesNorms = True,
           vn_Summary = vx_text vx (FitSummary bx bY (cf_StepCount clone) (Degrees (cf_Angle clone)) (tol > fitEps))\<rparr>, bx, bY))))"
    using g assms by (cases res) (auto simp: opt_list_def offered_def Let_def)
qed

lemma try_runs:
  "keeps cfg clone \<Longrightarrow> run_ok (plain cfg) (\<lambda>x. list_all (offered vx cfg so tol) (opt_list x))
    (tryGenerate vx clone so (cf_RoomWidth cfg) (cf_RoomLength cfg) tol title desc)"
  unfolding tryGenerate_def run_ok_map by (rule run_ok_weaken[OF meta_runs]) (auto simp: opt_list_all)

lemma steeper_runs:
  "run_ok (plain cfg) (\<lambda>x. list_all (offered vx cfg so tol) (opt_list x))
    (steeperVariant vx cfg comfort so (cf_RoomWidth cfg) (cf_RoomLength cfg) tol)"
  by (cases "steeper_clone vx cfg comfort so") (simp_all add: steeperVariant_def opt_list_def try_runs[OF keeps_steeper, unfolded opt_list_def])

lemma landing_runs:
  "run_ok (plain cfg) (\<lambda>x. list_all (offered vx cfg so tol) (opt_list x))
    (smallerLandingVariant vx cfg so (cf_RoomWidth cfg) (cf_RoomLength cfg) tol)"
  using try_runs[of cfg "cfg\<lparr>cf_LandingDepth := cf_Width cfg, cf_LandingWidth := cf_Width cfg\<rparr>" vx so tol LandingTitle LandingText]
  by (simp add: smallerLandingVariant_def) (simp add: opt_list_def)

lemma cand_runs:
  "run_ok (plain cfg) (list_all (\<lambda>c. offered vx cfg so tol (oc_v c)))
    (try_cand vx cfg ft comfort so (cf_RoomWidth cfg) (cf_RoomLength cfg) tol h w r_out)"
proof (cases "other_clone vx cfg ft comfort h w r_out")
  case (Some clone)
  then show ?thesis unfolding try_cand_def tryOtherAt_def run_ok_map Some option.case
    by (intro run_ok_weaken[OF meta_runs[OF keeps_other[OF Some]]]) (auto simp: opt_list_def split: option.splits)
qed (simp add: try_cand_def tryOtherAt_def)

lemma height_runs:
  assumes "\<And>h. run_ok ok (list_all P) (f h)"
  shows "run_ok ok (list_all P) (Option.bind (post_ds (let h1 = (if h0 < Fin 150 then Fin 150 else h0) in if h1 > Fin 200 then Fin 200 else h1)
    (Fin 5) (fl (200 + 1 / 1000000))) (all_posts f))"
proof -
  let ?h = "let h1 = (if h0 < Fin 150 then Fin 150 else h0) in if h1 > Fin 200 then Fin 200 else h1"
  have k: "\<bar>200 + 1 / 1000000 :: rat\<bar> \<le> 2 ^ 8" by simp
  have l: "fl (200 + 1 / 1000000) = Fin (rnd (200 + 1 / 1000000))" "rnd (200 + 1 / 1000000) \<le> 2 ^ 31"
    using fl_near[OF k] unfolding abs_le_iff by auto
  have "post_ds ?h (Fin 5) (fl (200 + 1 / 1000000)) \<noteq> None"
  proof (cases "?h = NaN")
    case True
    then show ?thesis unfolding True by (subst post_ds_done) simp_all
  next
    case False
    then obtain x where x: "?h = Fin x" "0 \<le> x" by (cases h0) (auto simp: Let_def split: if_splits)
    obtain n where "(rnd (200 + 1 / 1000000) - x) * 2 ^ 21 < of_nat n" using reals_Archimedean2 by blast
    then show ?thesis unfolding x(1) l(1)
      by (intro post_ds_Fin[of _ _ x n]) (use l(2) x(2) in \<open>simp_all add: Precision_value field_simps\<close>)
  qed
  then obtain hs where "post_ds ?h (Fin 5) (fl (200 + 1 / 1000000)) = Some hs" by blast
  then show ?thesis using run_ok_posts[of hs ok P f] assms by simp
qed

lemma collect_runs:
  "run_ok (plain cfg) (list_all (\<lambda>c. offered vx cfg so tol (oc_v c)))
    (collectOtherType vx cfg ft comfort so (cf_RoomWidth cfg) (cf_RoomLength cfg) tol)"
  unfolding collectOtherType_def Let_def
proof (rule height_runs[unfolded Let_def])
  fix h
  let ?P = "\<lambda>c. offered vx cfg so tol (oc_v c)" and ?att = "try_cand vx cfg ft comfort so (cf_RoomWidth cfg) (cf_RoomLength cfg) tol h"
  obtain s where s: "Fin 300 - fl (1 / 1000000) = Fin s" "0 \<le> s"
  proof -
    have e: "\<bar>1 / 1000000 :: rat\<bar> \<le> 2 ^ 0" by simp
    have "\<bar>300 - rnd (1 / 1000000)\<bar> \<le> 2 ^ 9" "0 \<le> 300 - rnd (1 / 1000000)" using fl_near(2)[OF e] unfolding abs_le_iff by auto
    then show thesis using that[of "rnd (300 - rnd (1 / 1000000))"] fl_near(1)[OF e] fl_near(1)[of "300 - rnd (1 / 1000000)" 9]
      by (simp add: minus_f64_def rnd_nonneg)
  qed
  obtain x where x: "plain cfg \<Longrightarrow> or_default (Fin 900) (cf_Width cfg) = Fin x \<and> x \<le> 2 ^ 31"
  proof -
    have "\<exists>x. plain cfg \<longrightarrow> or_default (Fin 900) (cf_Width cfg) = Fin x \<and> x \<le> 2 ^ 31"
      by (auto simp: plain_def sized_def or_default_def)
    then show thesis using that by blast
  qed
  show "run_ok (plain cfg) (list_all ?P) (Option.bind (down_ds (or_default (Fin 900) (cf_Width cfg)) (Fin 50) (Fin 300 - fl (1 / 1000000)))
      (all_posts (\<lambda>w. if ft = FlightSpiral then Option.bind (down_ds (w + Fin 500) (Fin 50) (w + Fin 50)) (all_posts (?att w)) else ?att w (Fin 0))))"
  proof (rule loop_runs[of _ _ x _ s])
    show "or_default (Fin 900) (cf_Width cfg) = Fin x \<and> x \<le> 2 ^ 33 \<and> Fin 300 - fl (1 / 1000000) = Fin s \<and> 0 \<le> s" if "plain cfg"
      using x[OF that] s by simp
    fix w assume w: "plain cfg \<Longrightarrow> between s x w"
    have "run_ok (plain cfg) (list_all ?P) (Option.bind (down_ds (w + Fin 500) (Fin 50) (w + Fin 50)) (all_posts (?att w)))"
    proof (cases "plain cfg")
      case True
      then obtain y where y: "w = Fin y" "0 \<le> y" "y \<le> 2 ^ 31" using w x s(2) by (fastforce simp: between_def)
      have k: "\<bar>y + 500\<bar> \<le> 2 ^ 32" "\<bar>y + 50\<bar> \<le> 2 ^ 32" using y(2,3) by auto
      have "rnd (y + 500) \<le> 2 ^ 33" using fl_near(2)[OF k(1)] k(1) unfolding abs_le_iff by auto
      then show ?thesis using y fl_near(1)[OF k(1)] fl_near(1)[OF k(2)]
        by (intro loop_runs[of _ _ "rnd (y + 500)" _ "rnd (y + 50)"] cand_runs) (simp add: rnd_nonneg)
    next
      case False
      then show ?thesis using loop_runs[of "plain cfg" "w + Fin 500" 0 "w + Fin 50" 0 ?P "?att w", OF _ cand_runs] by blast
    qed
    then show "run_ok (plain cfg) (list_all ?P) (if ft = FlightSpiral
        then Option.bind (down_ds (w + Fin 500) (Fin 50) (w + Fin 50)) (all_posts (?att w)) else ?att w (Fin 0))"
      by (cases "ft = FlightSpiral") (simp_all add: cand_runs)
  qed
qed

lemma least_from_bound: "b < i \<Longrightarrow> least_from f i xs (b, s) < i + length xs"
proof (induction xs arbitrary: i b s)
  case (Cons x xs)
  have "least_from f (Suc i) xs (i, f x) < Suc i + length xs" "least_from f (Suc i) xs (b, s) < Suc i + length xs"
    using Cons.IH[of i "Suc i"] Cons.IH[of b "Suc i"] Cons.prems by simp_all
  then show ?case by simp
qed simp

lemma least_index_bound: "xs \<noteq> [] \<Longrightarrow> least_index f xs < length xs"
  using least_from_bound[of 0 1 f "tl xs" "f (hd xs)"] by (cases xs) (simp_all add: least_index_def)

lemma pick_all:
  assumes "list_all (\<lambda>c. P (oc_v c)) cs"
  shows "list_all P (pick_cands cfg cs)"
proof (cases "cs = []")
  case False
  then have "P (oc_v (cs ! least_index f cs))" for f using assms least_index_bound[of cs f] by (simp add: list_all_length)
  then show ?thesis using False by (simp add: pick_cands_def Let_def)
qed (simp add: pick_cands_def)

lemma build_runs:
  "run_ok (plain cfg) (list_all (offered vx cfg so tol))
    (buildOtherTypes vx cfg ft comfort so (cf_RoomWidth cfg) (cf_RoomLength cfg) tol)"
  unfolding buildOtherTypes_def run_ok_map by (rule run_ok_weaken[OF collect_runs]) (rule pick_all)

lemma room_runs:
  "run_ok (plain cfg) (list_all (offered vx cfg so tol)) (forRoomFitTol vx cfg so (cf_RoomWidth cfg) (cf_RoomLength cfg) tol)"
proof -
  have "run_ok (plain cfg) (list_all (offered vx cfg so tol))
      (if c then map_option opt_list (smallerLandingVariant vx cfg so (cf_RoomWidth cfg) (cf_RoomLength cfg) tol) else Some [])" for c
    using landing_runs by simp
  moreover have "run_ok (plain cfg) (list_all (offered vx cfg so tol))
      (otherTypeVariants vx cfg comfort so (cf_RoomWidth cfg) (cf_RoomLength cfg) tol)" for comfort
    unfolding otherTypeVariants_def by (rule run_ok_posts) (rule build_runs)
  ultimately show ?thesis unfolding forRoomFitTol_def Let_def
    by (intro run_ok_posts) (auto simp: steeper_runs build_runs)
qed

lemma dedupe_from_props:
  "set (dedupe_from seen vs) \<subseteq> set vs \<and> distinct (map (map_text \<circ> vn_Config) (dedupe_from seen vs))
    \<and> set (map (map_text \<circ> vn_Config) (dedupe_from seen vs)) \<inter> set seen = {}"
proof (induction seen vs rule: dedupe_from.induct)
  case (2 seen v vs)
  then show ?case by (cases "map_text (vn_Config v) \<in> set seen") (auto simp: Let_def)
qed simp

lemma dedupe_props: "set (dedupe vs) \<subseteq> set vs" "distinct (map vn_Config (dedupe vs))"
  using dedupe_from_props[of "[]" vs] by (auto simp: dedupe_def distinct_map inj_on_def)

text \<open>C5: the variations for a room come from configurations for the same place (the same rise, room,
  thicknesses, clearance and railing height) that the Geometry Engine generates, that no norm of the set
  blocks and whose stair does not exceed the room, or, only when there are none of these, exceeds it by at
  most the 50 mm of the second round; no two of them have the same form. The search returns whenever there
  are no railings and the width is a number of ordinary size.\<close>

theorem variations_fit:
  "case ForRoomFit vx cfg so of
     None \<Rightarrow> \<not> (cf_RailingHeight cfg \<le> Fin 0 \<and> sized 31 (cf_Width cfg))
   | Some out \<Rightarrow> distinct (map vn_Config out)
       \<and> (list_all (offered vx cfg so fitEps) out
          \<or> forRoomFitTol vx cfg so (cf_RoomWidth cfg) (cf_RoomLength cfg) fitEps = Some []
            \<and> list_all (offered vx cfg so fitTol) out)"
proof (cases "cf_RoomWidth cfg \<le> Fin 0 \<or> cf_RoomLength cfg \<le> Fin 0")
  case False
  let ?strict = "forRoomFitTol vx cfg so (cf_RoomWidth cfg) (cf_RoomLength cfg) fitEps"
    and ?loose = "forRoomFitTol vx cfg so (cf_RoomWidth cfg) (cf_RoomLength cfg) fitTol"
  have e: "ForRoomFit vx cfg so = map_option dedupe (Option.bind ?strict (\<lambda>out. if out \<noteq> [] then Some out else ?loose))"
    using False by (simp add: ForRoomFit_def Let_def)
  have d: "list_all P vs \<Longrightarrow> list_all P (dedupe vs)" for P vs using dedupe_props(1)[of vs] by (auto simp: list_all_iff)
  show ?thesis
  proof (cases "?strict = Some []")
    case True
    then show ?thesis using room_runs[of cfg vx so fitTol] d dedupe_props(2) unfolding e
      by (cases ?loose) (auto simp: run_ok_def plain_def)
  next
    case False
    then show ?thesis using room_runs[of cfg vx so fitEps] d dedupe_props(2) unfolding e
      by (cases ?strict) (auto simp: run_ok_def plain_def)
  qed
qed (simp add: ForRoomFit_def)

subsection \<open>Variations for the angle\<close>

text \<open>A variation for the angle comes from a candidate that is generated and passes the norms, at 29.9 to 45.1
  degrees.\<close>

definition tilted :: "var_env \<Rightarrow> StairConfiguration \<Rightarrow> ConstraintSet \<Rightarrow> Variation \<Rightarrow> bool" where
  "tilted vx cfg s v \<longleftrightarrow> (\<exists>clone r. keeps cfg clone \<and> gen_of vx clone = Some (Inr r) \<and> \<not> blocked (Some s) clone
     \<and> vn_Config v = formFromConfig clone
     \<and> \<not> Degrees (cf_Angle clone) < fl (299 / 10) \<and> \<not> Degrees (cf_Angle clone) > fl (451 / 10))"

lemma keeps_angle:
  assumes "angle_clone vx cfg h st n = Some c"
  shows "keeps cfg c"
proof -
  consider "cf_Flight cfg = FlightStraight"
    | "cf_Flight cfg \<noteq> FlightStraight" "cf_Flight cfg = FlightLShape \<or> cf_Flight cfg = FlightUShape"
    | "cf_Flight cfg \<noteq> FlightStraight" "\<not> (cf_Flight cfg = FlightLShape \<or> cf_Flight cfg = FlightUShape)" by blast
  then show ?thesis
  proof cases
    case 2
    then obtain n1 lw c' where "solve_turned vx (cf_Flight cfg) (cf_Height cfg) h n1 lw st cfg = Some c'"
      "c = c'\<lparr>cf_LowerStepCount := n1, cf_LandingWidth := lw\<rparr>"
      using assms unfolding angle_clone_def Let_def by (simp only: if_False if_True) (auto simp only: map_option_eq_Some)
    then show ?thesis using keeps_solved by simp
  next
    case 3
    then show ?thesis using assms
      by (auto simp: angle_clone_def Let_def keeps_def split: sum.splits if_splits)
  qed (use assms in \<open>auto simp: angle_clone_def Let_def split: sum.splits\<close>)
qed

lemma angle_runs:
  "run_ok (cf_RailingHeight cfg \<le> Fin 0) (\<lambda>x. list_all (tilted vx cfg s) (opt_list x)) (angleVariant vx cfg h st n (Some s) label)"
proof (cases "angle_clone vx cfg h st n")
  case (Some clone)
  note k = keeps_angle[OF Some]
  show ?thesis using gen_runs[OF k, of vx] unfolding angleVariant_def tryAngleGenerate_def Some option.case run_ok_map
  proof (rule run_ok_weaken)
    fix res assume g: "gen_of vx clone = Some res"
    show "list_all (tilted vx cfg s) (opt_list (case res of Inl e \<Rightarrow> None | Inr r \<Rightarrow>
       let ang = Degrees (cf_Angle clone) in
       if ang < fl (299 / 10) \<or> ang > fl (451 / 10) then None
       else if blocked (Some s) clone then None
       else Some \<lparr>vn_ID = vx_text vx label, vn_Title = vx_text vx label,
         vn_Description = vx_text vx (AngleText ang (cf_StepHeight clone) (cf_Length clone)),
         vn_Config = formFromConfig clone, vn_Fits = True, vn_PassesNorms = True,
         vn_Summary = vx_text vx (AngleSummary ang (cf_StepCount clone) (cf_StepHeight clone) (cf_Length clone))\<rparr>))"
      using g k by (cases res) (auto simp: opt_list_def tilted_def Let_def)
  qed
qed (simp add: angleVariant_def opt_list_def)

lemma all_posts_length:
  assumes "\<And>x zs. f x = Some zs \<Longrightarrow> length zs \<le> 1"
  shows "all_posts f xs = Some ys \<Longrightarrow> length ys \<le> length xs"
proof (induction xs arbitrary: ys)
  case (Cons x xs)
  then obtain zs ws where z: "f x = Some zs" "all_posts f xs = Some ws" "ys = zs @ ws" by (auto simp: bind_eq_Some_conv)
  then show ?case using Cons.IH[of ws] assms[OF z(1)] by simp
qed simp

lemma dedupe_length: "length (dedupe vs) \<le> length vs"
proof -
  have "length (dedupe_from seen vs) \<le> length vs" for seen
    by (induction seen vs rule: dedupe_from.induct) (auto simp: Let_def)
  then show ?thesis by (simp add: dedupe_def)
qed

text \<open>At most three variations for the angle, all at an angle of the norm up to a tenth of a degree and passing
  the norms; the search returns for every configuration without railings.\<close>

theorem variations_tilted:
  "case ForAngle vx cfg s of
     None \<Rightarrow> \<not> cf_RailingHeight cfg \<le> Fin 0
   | Some out \<Rightarrow> length out \<le> 3 \<and> list_all (tilted vx cfg s) out"
proof -
  let ?f = "\<lambda>c. map_option opt_list (angleVariant vx cfg (cf_Height cfg / of_int64 (ac_n c)) (ac_s c) (ac_n c) (Some s) (AngleLabel (ac_deg c)))"
  let ?cs = "choose_cands (sort_cands (angle_cands vx s (cf_Height cfg)))"
  have r: "run_ok (cf_RailingHeight cfg \<le> Fin 0) (list_all (tilted vx cfg s)) (all_posts ?f ?cs)"
    by (rule run_ok_posts) (simp add: angle_runs)
  have l: "length vs \<le> 3" if "all_posts ?f ?cs = Some vs" for vs
  proof -
    have "length vs \<le> length ?cs"
      by (rule all_posts_length[OF _ that]) (auto simp: opt_list_def split: option.splits)
    also have "\<dots> \<le> 3" by (simp add: choose_cands_def)
    finally show ?thesis .
  qed
  show ?thesis
  proof (cases "cf_Height cfg \<le> Fin 0")
    case False
    then have e: "ForAngle vx cfg s = map_option dedupe (all_posts ?f ?cs)" by (simp add: ForAngle_def Let_def)
    show ?thesis
    proof (cases "all_posts ?f ?cs")
      case None
      then show ?thesis using r unfolding e by (simp add: run_ok_def)
    next
      case (Some vs)
      then have "list_all (tilted vx cfg s) (dedupe vs)" using r dedupe_props(1)[of vs] by (auto simp: list_all_iff)
      then show ?thesis using Some l[OF Some] dedupe_length[of vs] unfolding e by simp
    qed
  qed (simp add: ForAngle_def)
qed

end
