(* ===== verification/Spec2Isabelle.thy ===== *)
theory Spec2Isabelle
  imports Solver_Props Graph_Scheduler Project_Pricing Mfg_Engine Breaker Eng_Object Event_Bus Search_Engine Optimization TTL_Cache Advisor Pipeline Rate_Limit Param_Model Geo_Engine Variation_Engine
begin

text \<open>
  STAIR PLATFORM: a verification development for the Go code under \<open>src/internal\<close>.

  \<^bold>\<open>The program.\<close> A client describes a staircase by a parametric configuration
  (\<open>domain/engineering/stair.go\<close>). The Solver (\<open>engine/solver\<close>) computes the flights from it, the
  Validation Engine (\<open>engine/validation\<close>) checks them against the versioned norms of the Constraint
  Engine (\<open>engine/constraint\<close>), the advisor (\<open>engine/advisor\<close>) searches for configurations near a
  rejected one, and the variation engine (\<open>engine/variation\<close>) for stairs that fit the room. The geometry kernel (\<open>internal/geometry\<close>) and its engine (\<open>engine/geometry\<close>) build the
  solids, the Manufacturing Engine (\<open>engine/manufacturing\<close>) cuts them into parts and nests the parts on
  stock sheets, and the Pricing Engine (\<open>engine/pricing\<close>, \<open>domain/pricing\<close>) prices the package. The
  orchestrator (\<open>engine/pipeline\<close>) runs these stages and reports them on the event bus
  (\<open>infrastructure/events\<close>). The Graph Engine (\<open>engine/graph\<close>) decides what a change makes stale; the
  slot scheduler (\<open>engine/scheduler\<close>) runs independent tasks in parallel. The infrastructure has a
  cache, a circuit breaker and a rate limiter.

  \<^bold>\<open>Theories.\<close> Each names the files it models at its start.
  \<^item> Prelude: results, checks over lists, Go maps as association lists, insertion sort. Float64:
    \<open>float64\<close> over exact rationals, with the rounding laws as a locale; Float\_Order: sums of lengths, a
    locale interpreted on the floats; Go\_Fmt: the printing the code uses; Bounded\_Log: the log that
    drops its oldest entry, a locale interpreted by the dead letter queue and the event store.
  \<^item> Units, Stair\_Config: the domain values and the configuration, with the exact description of
    what \<open>Validate\<close> accepts. Constraint, Validation: the rules, their versions, and the report
    (sorted, numbered, blocking exactly on errors).
  \<^item> Solver, Solver\_Props: the formulas of the four flights and their float arithmetic: the step count
    is the nearest integer, the risers add up to the rise up to one rounding, and for the ranges of the
    norms there is always an answer.
  \<^item> Graph\_Core, Graph\_Search, Graph\_Scheduler: registry, adjacency and snapshots; depth-first and
    breadth-first search, topological sort; plan and execution of a partial recomputation.
    Param\_Model: the parametric model on top of the graph: dependencies stay acyclic, and a rebuild
    restores every formula after any edits.
  \<^item> Geo\_BBox: points, boxes and the measuring of solids. Geo\_Kernel, Geo\_Tess, Geo\_Solid: vectors,
    faces, shells, extrusion and transforms; the triangulation by ear clipping; the checks of a solid, the
    preview mesh and the caches. The names of edges are a locale, interpreted on the two ways the code
    identifies an edge.
  \<^item> Geo\_Builder, Geo\_Railing, Geo\_Engine: the bodies of the four stairs, built in parallel slots; the
    handrails and balusters; \<open>Generate\<close>, from the configuration to the checked, measured and meshed model,
    and what manufacturing makes of its bodies.
  \<^item> Money, Mfg\_Data, Pricing, Project\_Pricing: amounts and rates as 64-bit words, the refinement of
    the price chain to unbounded integers within the bounds under which nothing wraps.
  \<^item> Mfg\_Catalog, Mfg\_Nest, Mfg\_Engine: the data of manufacturing, the shelf packing (no overlap, inside
    the sheet, nothing lost), and the way from the solids to the package and the production dataset.
  \<^item> Slots: the parallel executor; its result is that of the sequential one for every completion order.
  \<^item> Advisor: the search for passing configurations. Variation\_Engine: the variations for a room and for
    the angle, over the Geometry Engine, the solvers and the norms. Optimization: the exhaustive search of the best
    candidate. Search\_Engine: filter, sort by score, page, highlight.
  \<^item> Eng\_Object: revisions, parameters, lifecycle and history of an engineering object, over a store.
  \<^item> Event\_Bus, Pipeline: delivery with priorities, retries and dead letters; the run of the stages.
  \<^item> Breaker, TTL\_Cache, Rate\_Limit: the state machine of the breaker under any interleaving of calls,
    eviction and expiry, the sliding window.

  \<^bold>\<open>Correspondence.\<close> A struct is a record whose fields carry a two letter prefix and the name in Go; a
  string enumeration stays a string, because other strings are representable; an \<open>error\<close> is a
  constructor of an error datatype and a function that can fail returns a sum. A method that changes
  its receiver returns the new record. Go \<open>int\<close> is \<open>int\<close> where the code cannot reach its bounds, and a
  64-bit word for money and graph revisions. Maps are association lists, and no property
  depends on the order in which Go ranges over them. Mutexes make each method one step; where goroutines
  interleave between two steps (the breaker, the slot scheduler) the order is an argument.

  \<^bold>\<open>Parameters.\<close> What is not code of the repository is an argument: \<open>math.Atan\<close>, \<open>math.Tan\<close>, the clock,
  identifiers, contexts, hashes, the natural language texts of the norms, the room and the advisor, the
  repository behind the search, the evaluator of the optimization, and the functions the bus, the breaker and
  the parametric model call. The geometry has a record of its own for \<open>math.Cos\<close>, \<open>Sin\<close>, \<open>Atan2\<close> and
  \<open>Hypot\<close>, the number of processors and the order in which parallel tasks complete. A handler of the bus
  may be nil or panic and a stage of the pipeline may be nil; the properties say where they must not.

  \<^bold>\<open>Termination and bounds.\<close> Loops of the code that count are recursions on
  the list or the count they run over; the searches of the graph have measures on the unvisited nodes,
  Kahn's sort on the pending degrees; \<open>Release\<close> has the distance in the chain of states. Ear clipping stops
  by the guard counter the code has. No fuel is used. The loops that step a float along a railing, a width or
  a radius need not end: they are partial functions into option, where \<open>None\<close> is a call that does not
  return. The railings of a configuration of building size are proved to be returned, and so are the
  variations of one without railings and of ordinary width. Float results are exact rational arithmetic
  rounded once per operation (no fused operations, the behaviour of amd64).

  \<^bold>\<open>Not modelled.\<close> HTTP, GraphQL and WebSocket transport, the PostgreSQL repositories, clients of
  external services (OIDC, payments, JWT, telemetry), the queue, health checks and configuration: their
  behaviour lies in libraries and services. The application services only orchestrate the engines and
  repositories. The document engine and the CNC and CAD writers produce text. Of the geometry kernel the curves
  are left out.
\<close>

end
